(* ===== verification/APC_Prelude.thy ===== *)
theory APC_Prelude
  imports Main "HOL-Library.Word"
begin

text \<open>
  The shared base of the development: Rust's \<^verbatim>\<open>Result\<close>, the early-return loop
  \<^verbatim>\<open>for x in xs { ...? }\<close>, machine integers and their big-endian byte forms, and the
  generic lemmas on relations and lists the components use.

  Conventions of the model, used by every component theory:
  \<^item> a Rust \<^verbatim>\<open>Result<T, E>\<close> is \<open>('t, 'e) result\<close>; every \<^verbatim>\<open>?\<close> is a \<open>case\<close> that
    returns the \<open>Err\<close> branch unchanged;
  \<^item> a method taking \<^verbatim>\<open>&mut self\<close> returns the pair of its result and the state it leaves
    behind, also on an error path, so that partial mutation stays visible;
  \<^item> \<^verbatim>\<open>usize\<close> is the 64-bit one; lengths and counts are \<open>nat\<close>, and the checked
    conversions keep their overflow branches.
\<close>

section \<open>Theorem collections\<close>

named_theorems result_simps \<open>rewriting of Result-valued loops and binds\<close>
named_theorems btree_simps \<open>lookup and iteration laws of the ordered containers\<close>
named_theorems causal_intros \<open>introduction rules for causal reachability\<close>
named_theorems codec_simps \<open>byte writers and readers\<close>
named_theorems apc_defs \<open>unfolding of operations of the model in functional proofs\<close>

section \<open>Results and early-return loops\<close>

datatype ('t, 'e) result = Ok 't | Err 'e

definition is_ok :: "('t, 'e) result \<Rightarrow> bool" where
  "is_ok r = (case r of Ok _ \<Rightarrow> True | Err _ \<Rightarrow> False)"

text \<open>\<^verbatim>\<open>map_err\<close>: the conversion every \<^verbatim>\<open>?\<close> applies to a foreign error type.\<close>

definition map_err :: "('e \<Rightarrow> 'f) \<Rightarrow> ('t, 'e) result \<Rightarrow> ('t, 'f) result" where
  "map_err f r = (case r of Ok x \<Rightarrow> Ok x | Err e \<Rightarrow> Err (f e))"

text \<open>\<^verbatim>\<open>for x in xs { s = f(s, x)?; }\<close>\<close>

fun try_fold :: "('s \<Rightarrow> 'a \<Rightarrow> ('s, 'e) result) \<Rightarrow> 's \<Rightarrow> 'a list \<Rightarrow> ('s, 'e) result" where
  "try_fold f s [] = Ok s"
| "try_fold f s (x # xs) =
     (case f s x of Err e \<Rightarrow> Err e | Ok s' \<Rightarrow> try_fold f s' xs)"

text \<open>The same loop over a place that is updated in it: \<^verbatim>\<open>for x in xs { self.step(x)?; }\<close>.
  On an error the place keeps what the earlier rounds wrote.\<close>

fun try_each :: "('s \<Rightarrow> 'a \<Rightarrow> (unit, 'e) result \<times> 's) \<Rightarrow> 's \<Rightarrow> 'a list \<Rightarrow> (unit, 'e) result \<times> 's" where
  "try_each f s [] = (Ok (), s)"
| "try_each f s (x # xs) =
     (case f s x of (Err e, s') \<Rightarrow> (Err e, s') | (Ok _, s') \<Rightarrow> try_each f s' xs)"

definition in_place :: "('s \<Rightarrow> 'a \<Rightarrow> ('s, 'e) result) \<Rightarrow> 's \<Rightarrow> 'a \<Rightarrow> (unit, 'e) result \<times> 's" where
  "in_place f s x = (case f s x of Err e \<Rightarrow> (Err e, s) | Ok s' \<Rightarrow> (Ok (), s'))"

lemma is_ok_simps [simp]: "is_ok (Ok x)" "\<not> is_ok (Err e)"
  by (simp_all add: is_ok_def)

lemma is_ok_iff: "is_ok r \<longleftrightarrow> (\<exists>x. r = Ok x)"
  by (cases r) auto

lemma map_err_simps [simp, result_simps]:
  "map_err f (Ok x) = Ok x" "map_err f (Err e) = Err (f e)"
  by (simp_all add: map_err_def)

lemma map_err_Ok_iff [simp]: "map_err f r = Ok x \<longleftrightarrow> r = Ok x"
  by (cases r) auto

lemma map_err_Err_iff: "map_err f r = Err e \<longleftrightarrow> (\<exists>e'. r = Err e' \<and> e = f e')"
  by (cases r) auto

lemma map_err_cong: "map_err f r = map_err g r" if "\<And>e. r = Err e \<Longrightarrow> f e = g e"
  using that by (cases r) auto

text \<open>Inversion of guards, early returns and binds, without splitting the goal.\<close>

lemma guard_Ok [result_simps]:
  "(if c then Err e else x) = Ok v \<longleftrightarrow> \<not> c \<and> x = Ok v"
  "(if c then x else Err e) = Ok v \<longleftrightarrow> c \<and> x = Ok v"
  by auto

lemma bind_Ok [result_simps]:
  "(case x of Err e \<Rightarrow> Err (h e) | Ok a \<Rightarrow> f a) = Ok v \<longleftrightarrow> (\<exists>a. x = Ok a \<and> f a = Ok v)"
  by (cases x) auto

lemma ok_or_Ok [result_simps]:
  "(case y of None \<Rightarrow> Err e | Some a \<Rightarrow> f a) = Ok v \<longleftrightarrow> (\<exists>a. y = Some a \<and> f a = Ok v)"
  by (cases y) auto

lemma try_fold_append [result_simps]:
  "try_fold f s (xs @ ys) =
     (case try_fold f s xs of Err e \<Rightarrow> Err e | Ok s' \<Rightarrow> try_fold f s' ys)"
  by (induction xs arbitrary: s) (auto split: result.splits)

lemma try_fold_invariant:
  assumes "try_fold f s xs = Ok s'" and "P s"
    and "\<And>s x s'. x \<in> set xs \<Longrightarrow> P s \<Longrightarrow> f s x = Ok s' \<Longrightarrow> P s'"
  shows "P s'"
  using assms
proof (induction xs arbitrary: s)
  case (Cons a xs)
  then obtain t where t: "f s a = Ok t" and rest: "try_fold f t xs = Ok s'"
    by (auto split: result.splits)
  from Cons.prems(2,3) t have "P t" by auto
  with rest Cons.IH Cons.prems(3) show ?case by auto
qed simp

lemma try_fold_unit_Ok [result_simps]:
  "try_fold (\<lambda>_ x. g x) u xs = Ok u' \<longleftrightarrow>
     (\<forall>x \<in> set xs. g x = Ok ()) \<and> u' = u" for u :: unit
  by (induction xs arbitrary: u) (auto split: result.splits)

lemma try_fold_Err_elim:
  assumes "try_fold f s xs = Err e"
  obtains ys x zs s' where "xs = ys @ x # zs" and "try_fold f s ys = Ok s'" and "f s' x = Err e"
proof -
  have "\<exists>ys x zs s'. xs = ys @ x # zs \<and> try_fold f s ys = Ok s' \<and> f s' x = Err e"
    using assms
  proof (induction xs arbitrary: s)
    case (Cons a xs)
    show ?case
    proof (cases "f s a")
      case (Ok s')
      with Cons obtain ys x zs s'' where
        "xs = ys @ x # zs" "try_fold f s' ys = Ok s''" "f s'' x = Err e" by fastforce
      with Ok show ?thesis by (intro exI [of _ "a # ys"]) auto
    next
      case (Err e')
      with Cons.prems show ?thesis by (intro exI [of _ "[]"]) auto
    qed
  qed simp
  with that show ?thesis by blast
qed

text \<open>An in-place loop succeeds exactly when the functional one does, with the same state.\<close>

lemma try_each_in_place:
  "try_each (in_place f) s xs = (Ok (), s') \<longleftrightarrow> try_fold f s xs = Ok s'"
  "fst (try_each (in_place f) s xs) = Err e \<longleftrightarrow> try_fold f s xs = Err e"
  by (induction xs arbitrary: s) (auto simp: in_place_def split: result.splits)

section \<open>Lists\<close>

lemma pair_of_two: "length bs = 2 \<Longrightarrow> [bs ! 0, bs ! 1] = bs"
  by (cases bs; cases "tl bs") auto

lemma foldl_snoc: "foldl (\<lambda>ys y. ys @ [y]) acc xs = acc @ xs"
  by (induction xs arbitrary: acc) auto

lemma map_of_rev_distinct: "distinct (map fst es) \<Longrightarrow> map_of (rev es) = map_of es"
  by (simp add: distinct_map map_of_eqI rev_map map_of_inject_set set_eq_iff)

lemma find_SomeD: "find P xs = Some x \<Longrightarrow> x \<in> set xs \<and> P x"
  by (induction xs) (auto split: if_splits)

lemma map_le_lookup: "m \<subseteq>\<^sub>m m' \<Longrightarrow> m k = Some v \<Longrightarrow> m' k = Some v"
  by (metis domI map_le_def)

section \<open>Machine integers\<close>

type_synonym u8 = "8 word"
type_synonym u16 = "16 word"
type_synonym u32 = "32 word"
type_synonym u64 = "64 word"
type_synonym bytes = "u8 list"

text \<open>A byte-string literal \<^verbatim>\<open>b"..."\<close>.\<close>

definition ascii :: "string \<Rightarrow> bytes" where
  "ascii s = map (\<lambda>c. word_of_nat (of_char c)) s"

lemma length_ascii [simp]: "length (ascii s) = length s"
  by (simp add: ascii_def)

definition usize_max :: nat where
  "usize_max = 2 ^ 64 - 1"

text \<open>The documented upper bound of the length of any \<^verbatim>\<open>Vec<u8>\<close> or slice (\<^verbatim>\<open>isize::MAX\<close>).\<close>

definition isize_max :: nat where
  "isize_max = 2 ^ 63 - 1"

text \<open>\<^verbatim>\<open>usize::checked_add\<close>.\<close>

definition checked_add_usize :: "nat \<Rightarrow> nat \<Rightarrow> nat option" where
  "checked_add_usize a b = (if a + b \<le> usize_max then Some (a + b) else None)"

lemma checked_add_usize_small: "a + b \<le> usize_max \<Longrightarrow> checked_add_usize a b = Some (a + b)"
  by (simp add: checked_add_usize_def)

lemma isize_le_usize: "n \<le> isize_max \<Longrightarrow> n \<le> usize_max"
  by (simp add: isize_max_def usize_max_def)

text \<open>The words below a bound, in order.\<close>

lemma words_below: "{i :: 'a::len word. i < t} = set (map word_of_nat [0..<unat t])"
proof -
  have "i < t \<Longrightarrow> i \<in> word_of_nat ` {0..<unat t}" for i :: "'a word"
    by (rule image_eqI [of _ _ "unat i"]) (simp_all add: word_less_nat_alt)
  moreover have "n < unat t \<Longrightarrow> (word_of_nat n :: 'a word) < t" for n
    by (metis le_unat_uoi less_imp_le word_less_nat_alt)
  ultimately show ?thesis by auto
qed

lemma sorted_words_below:
  fixes t :: "'a::len word"
  shows "sorted_wrt (<) (map word_of_nat [0..<unat t] :: 'a word list)"
proof -
  have "(word_of_nat a :: 'a word) < word_of_nat b" if "a < b" "b < unat t" for a b
    using that le_unat_uoi [of a t] le_unat_uoi [of b t] by (simp add: word_less_nat_alt)
  then show ?thesis by (auto simp: sorted_wrt_map sorted_wrt_iff_nth_less)
qed

lemma card_words_below: "card {i :: 'a::len word. i < t} = unat t"
  using sorted_words_below [of t] strict_sorted_iff distinct_card
  unfolding words_below by (metis diff_zero length_map length_upt)

text \<open>Big-endian bytes of a value: \<open>be_bytes n v\<close> is the \<open>n\<close> low-order base-256 digits
  of \<open>v\<close>, most significant first; \<open>be_value\<close> reads them back.\<close>

fun be_bytes :: "nat \<Rightarrow> nat \<Rightarrow> bytes" where
  "be_bytes 0 v = []"
| "be_bytes (Suc n) v = be_bytes n (v div 256) @ [word_of_nat (v mod 256)]"

definition be_value :: "bytes \<Rightarrow> nat" where
  "be_value bs = foldl (\<lambda>acc b. acc * 256 + unat b) 0 bs"

text \<open>\<^verbatim>\<open>to_be_bytes\<close> and \<^verbatim>\<open>from_be_bytes\<close> of an unsigned integer of any width.\<close>

definition to_be_bytes :: "'a::len word \<Rightarrow> bytes" where
  "to_be_bytes w = be_bytes (LENGTH('a) div 8) (unat w)"

definition from_be_bytes :: "bytes \<Rightarrow> 'a::len word" where
  "from_be_bytes bs = word_of_nat (be_value bs)"

lemma length_be_bytes [simp, codec_simps]: "length (be_bytes n v) = n"
  by (induction n v rule: be_bytes.induct) auto

lemma be_value_Nil [simp]: "be_value [] = 0"
  by (simp add: be_value_def)

lemma be_value_snoc [simp]: "be_value (bs @ [b]) = be_value bs * 256 + unat b"
  by (simp add: be_value_def)

lemma unat_u8_mod: "unat (word_of_nat (v mod 256) :: u8) = v mod 256"
  by (simp add: unat_of_nat)

lemma be_value_be_bytes: "v < 256 ^ n \<Longrightarrow> be_value (be_bytes n v) = v"
proof (induction n v rule: be_bytes.induct)
  case (2 n v)
  then have "v div 256 < 256 ^ n"
    by (metis less_mult_imp_div_less mult.commute power_Suc)
  with 2 show ?case by (simp add: unat_u8_mod)
qed simp

lemma be_value_bound: "be_value bs < 256 ^ length bs"
proof (induction bs rule: rev_induct)
  case (snoc b bs)
  have "unat b < 256" using unsigned_less [of b] by simp
  with snoc show ?case by simp
qed simp

lemma be_bytes_be_value: "be_bytes (length bs) (be_value bs) = bs"
proof (induction bs rule: rev_induct)
  case (snoc b bs)
  have "unat b < 256" using unsigned_less [of b] by simp
  then have "(be_value bs * 256 + unat b) div 256 = be_value bs"
    and "(be_value bs * 256 + unat b) mod 256 = unat b" by simp_all
  with snoc show ?case by simp
qed simp

lemma length_to_be_bytes [simp, codec_simps]:
  "length (to_be_bytes (w :: u16)) = 2" "length (to_be_bytes (x :: u32)) = 4"
  "length (to_be_bytes (y :: u64)) = 8" "length (to_be_bytes (z :: 256 word)) = 32"
  by (simp_all add: to_be_bytes_def)

lemma pow256: "(256 :: nat) ^ n = 2 ^ (8 * n)"
  by (simp add: power_mult)

lemma from_to_be_bytes_gen:
  "8 dvd LENGTH('a) \<Longrightarrow> from_be_bytes (to_be_bytes w) = (w :: 'a::len word)"
  using unsigned_less [of w]
  by (simp add: from_be_bytes_def to_be_bytes_def be_value_be_bytes pow256)

lemma from_to_be_bytes [simp, codec_simps]:
  "from_be_bytes (to_be_bytes (w :: u16)) = w" "from_be_bytes (to_be_bytes (x :: u32)) = x"
  "from_be_bytes (to_be_bytes (y :: u64)) = y" "from_be_bytes (to_be_bytes (z :: 256 word)) = z"
  by (simp_all add: from_to_be_bytes_gen)

lemma to_from_be_bytes_gen:
  assumes "8 * length bs = LENGTH('a)"
  shows "to_be_bytes (from_be_bytes bs :: 'a::len word) = bs"
proof -
  have "be_value bs < 2 ^ LENGTH('a)"
    using be_value_bound [of bs] assms by (simp add: pow256)
  then have "unat (word_of_nat (be_value bs) :: 'a word) = be_value bs"
    by (simp add: unat_of_nat take_bit_nat_eq_self)
  moreover have "LENGTH('a) div 8 = length bs" using assms by simp
  ultimately show ?thesis
    by (simp add: from_be_bytes_def to_be_bytes_def be_bytes_be_value)
qed

lemma to_from_be_bytes:
  "length bs = 2 \<Longrightarrow> to_be_bytes (from_be_bytes bs :: u16) = bs"
  "length bs = 4 \<Longrightarrow> to_be_bytes (from_be_bytes bs :: u32) = bs"
  "length bs = 8 \<Longrightarrow> to_be_bytes (from_be_bytes bs :: u64) = bs"
  "length bs = 32 \<Longrightarrow> to_be_bytes (from_be_bytes bs :: 256 word) = bs"
  by (simp_all add: to_from_be_bytes_gen)

lemma to_be_bytes_inject:
  "8 dvd LENGTH('a) \<Longrightarrow> to_be_bytes v = to_be_bytes w \<longleftrightarrow> v = (w :: 'a::len word)"
  by (metis from_to_be_bytes_gen)

end
