(* ===== verification/BTree_Containers.thy ===== *)
theory BTree_Containers
  imports APC_Prelude
begin

text \<open>
  The ordered containers of Rust's standard library that the program is built on.
  A \<^verbatim>\<open>BTreeMap<K, V>\<close> is the type \<open>('k, 'v) btree_map\<close> of association lists with
  strictly ascending keys, so that equality is equality of contents and iteration is in
  canonical key order, as in Rust. A \<^verbatim>\<open>BTreeSet<K>\<close> is a map into \<open>unit\<close>, as in the
  standard library. Component proofs see maps only through \<open>bm_get\<close> and sets only through
  \<open>bs_set\<close>; both are extensional (\<open>bm_eqI\<close>, \<open>bs_eq_iff\<close>).
\<close>

section \<open>Maps\<close>

typedef (overloaded) ('k::linorder, 'v) btree_map =
  "{xs :: ('k \<times> 'v) list. sorted_wrt (<) (map fst xs)}"
  morphisms bm_entries Abs_btree_map
  by (rule exI [of _ "[]"]) simp

setup_lifting type_definition_btree_map

fun alist_put :: "'k::linorder \<Rightarrow> 'v \<Rightarrow> ('k \<times> 'v) list \<Rightarrow> ('k \<times> 'v) list" where
  "alist_put k v [] = [(k, v)]"
| "alist_put k v (e # es) =
     (if k = fst e then (k, v) # es
      else if k < fst e then (k, v) # e # es
      else e # alist_put k v es)"

definition alist_drop :: "'k \<Rightarrow> ('k \<times> 'v) list \<Rightarrow> ('k \<times> 'v) list" where
  "alist_drop k es = filter (\<lambda>e. fst e \<noteq> k) es"

lemma keys_alist_put: "fst ` set (alist_put k v es) = insert k (fst ` set es)"
  by (induction es) auto

lemma ascending_alist_put:
  "sorted_wrt (<) (map fst es) \<Longrightarrow> sorted_wrt (<) (map fst (alist_put k v es))"
proof (induction es)
  case (Cons e es)
  have rest: "\<forall>k' \<in> fst ` set es. fst e < k'" "sorted_wrt (<) (map fst es)"
    using Cons.prems by auto
  then have grow: "fst e < k \<Longrightarrow> \<forall>k' \<in> fst ` set (alist_put k v es). fst e < k'"
    by (simp add: keys_alist_put)
  consider "k = fst e" | "k < fst e" | "fst e < k" by fastforce
  then show ?case
  proof cases
    case 2
    with rest show ?thesis by (auto intro: less_trans)
  next
    case 3
    with grow Cons.IH rest show ?thesis by auto
  qed (use rest in auto)
qed simp

lemma ascending_alist_drop:
  "sorted_wrt (<) (map fst es) \<Longrightarrow> sorted_wrt (<) (map fst (alist_drop k es))"
  by (induction es) (auto simp: alist_drop_def)

lemma map_of_alist_put: "map_of (alist_put k v es) = (map_of es)(k \<mapsto> v)"
  by (induction es) (auto simp: fun_eq_iff)

lemma map_of_alist_drop: "map_of (alist_drop k es) = (map_of es)(k := None)"
  by (induction es) (auto simp: alist_drop_def fun_eq_iff)

lift_definition bm_empty :: "('k::linorder, 'v) btree_map" is "[]" by simp
lift_definition bm_get :: "('k::linorder, 'v) btree_map \<Rightarrow> 'k \<Rightarrow> 'v option" is map_of .
lift_definition bm_insert ::
  "'k::linorder \<Rightarrow> 'v \<Rightarrow> ('k, 'v) btree_map \<Rightarrow> ('k, 'v) btree_map"
  is alist_put by (rule ascending_alist_put)
lift_definition bm_remove ::
  "'k::linorder \<Rightarrow> ('k, 'v) btree_map \<Rightarrow> ('k, 'v) btree_map"
  is alist_drop by (rule ascending_alist_drop)

definition bm_keys :: "('k::linorder, 'v) btree_map \<Rightarrow> 'k list" where
  "bm_keys m = map fst (bm_entries m)"

definition bm_values :: "('k::linorder, 'v) btree_map \<Rightarrow> 'v list" where
  "bm_values m = map snd (bm_entries m)"

definition bm_contains_key :: "('k::linorder, 'v) btree_map \<Rightarrow> 'k \<Rightarrow> bool" where
  "bm_contains_key m k = (bm_get m k \<noteq> None)"

definition bm_len :: "('k::linorder, 'v) btree_map \<Rightarrow> nat" where
  "bm_len m = length (bm_entries m)"

definition bm_is_empty :: "('k::linorder, 'v) btree_map \<Rightarrow> bool" where
  "bm_is_empty m = (bm_entries m = [])"

text \<open>\<^verbatim>\<open>BTreeMap::from_iter\<close>: later entries replace earlier ones.\<close>

definition bm_from_list :: "('k::linorder \<times> 'v) list \<Rightarrow> ('k, 'v) btree_map" where
  "bm_from_list es = fold (\<lambda>(k, v). bm_insert k v) es bm_empty"

section \<open>Sets\<close>

type_synonym 'k btree_set = "('k, unit) btree_map"

definition bs_iter :: "'k::linorder btree_set \<Rightarrow> 'k list" where
  "bs_iter s = bm_keys s"

definition bs_contains :: "'k::linorder btree_set \<Rightarrow> 'k \<Rightarrow> bool" where
  "bs_contains s k = bm_contains_key s k"

definition bs_insert :: "'k::linorder \<Rightarrow> 'k btree_set \<Rightarrow> 'k btree_set" where
  "bs_insert k s = bm_insert k () s"

definition bs_remove :: "'k::linorder \<Rightarrow> 'k btree_set \<Rightarrow> 'k btree_set" where
  "bs_remove k s = bm_remove k s"

definition bs_from_list :: "'k::linorder list \<Rightarrow> 'k btree_set" where
  "bs_from_list ks = fold bs_insert ks bm_empty"

text \<open>\<^verbatim>\<open>BTreeSet::extend\<close>.\<close>

definition bs_extend :: "'k::linorder list \<Rightarrow> 'k btree_set \<Rightarrow> 'k btree_set" where
  "bs_extend ks s = fold bs_insert ks s"

definition bs_is_subset :: "'k::linorder btree_set \<Rightarrow> 'k btree_set \<Rightarrow> bool" where
  "bs_is_subset s t = list_all (bs_contains t) (bs_iter s)"

text \<open>\<^verbatim>\<open>into_iter().next_back()\<close>: the greatest element.\<close>

definition bs_next_back :: "'k::linorder btree_set \<Rightarrow> 'k option" where
  "bs_next_back s = (case rev (bs_iter s) of [] \<Rightarrow> None | k # _ \<Rightarrow> Some k)"

text \<open>The contents of a set; the abstraction every set lemma is stated with.\<close>

definition bs_set :: "'k::linorder btree_set \<Rightarrow> 'k set" where
  "bs_set s = set (bs_iter s)"

section \<open>Laws of maps\<close>

lemma bm_get_empty [simp, btree_simps]: "bm_get bm_empty k = None"
  by transfer simp

lemma bm_get_insert [simp, btree_simps]: "bm_get (bm_insert k v m) = (bm_get m)(k \<mapsto> v)"
  by transfer (rule map_of_alist_put)

lemma dom_bm_insert: "dom (bm_get (bm_insert k v m)) = insert k (dom (bm_get m))"
  by simp

lemma bm_get_remove [simp, btree_simps]: "bm_get (bm_remove k m) = (bm_get m)(k := None)"
  by transfer (rule map_of_alist_drop)

lemma dom_bm_empty [simp]: "dom (bm_get bm_empty) = {}"
  by auto

lemma bm_keys_ascending: "sorted_wrt (<) (bm_keys m)"
  unfolding bm_keys_def by transfer

lemma bm_keys_distinct [simp]: "distinct (bm_keys m)"
  using bm_keys_ascending strict_sorted_iff by blast

lemma bm_keys_sorted [simp]: "sorted (bm_keys m)"
  using bm_keys_ascending strict_sorted_iff by blast

lemma bm_get_conv_map_of: "bm_get m = map_of (bm_entries m)"
  by transfer simp

lemma bm_entries_iff [simp, btree_simps]: "(k, v) \<in> set (bm_entries m) \<longleftrightarrow> bm_get m k = Some v"
  using bm_keys_distinct [of m] by (simp add: bm_get_conv_map_of bm_keys_def)

lemma set_bm_keys [simp, btree_simps]: "set (bm_keys m) = dom (bm_get m)"
  by (simp add: bm_keys_def bm_get_conv_map_of dom_map_of_conv_image_fst)

lemma set_bm_values [btree_simps]: "set (bm_values m) = ran (bm_get m)"
proof
  show "set (bm_values m) \<subseteq> ran (bm_get m)"
    by (auto simp: bm_values_def ran_def)
  show "ran (bm_get m) \<subseteq> set (bm_values m)"
    by (force simp: bm_values_def ran_def simp flip: bm_entries_iff)
qed

lemma finite_dom_bm_get [simp]: "finite (dom (bm_get m))"
  by (metis List.finite_set set_bm_keys)

lemma bm_contains_key_iff [simp, btree_simps]: "bm_contains_key m k \<longleftrightarrow> k \<in> dom (bm_get m)"
  by (auto simp: bm_contains_key_def)

lemma bm_len_card: "bm_len m = card (dom (bm_get m))"
  by (metis bm_keys_def bm_keys_distinct bm_len_def distinct_card length_map set_bm_keys)

lemma bm_is_empty_iff [simp, btree_simps]: "bm_is_empty m \<longleftrightarrow> dom (bm_get m) = {}"
  by (metis bm_is_empty_def bm_keys_def list.map_disc_iff set_bm_keys set_empty)

lemma bm_entries_conv_keys: "bm_entries m = map (\<lambda>k. (k, the (bm_get m k))) (bm_keys m)"
proof -
  have "e = (fst e, the (bm_get m (fst e)))" if "e \<in> set (bm_entries m)" for e
    using that by (metis bm_entries_iff option.sel prod.collapse)
  then have "map (\<lambda>e. (fst e, the (bm_get m (fst e)))) (bm_entries m) = bm_entries m"
    by (simp add: map_idI)
  then show ?thesis by (simp add: bm_keys_def comp_def)
qed

lemma bm_eqI: "(\<And>k. bm_get m k = bm_get m' k) \<Longrightarrow> m = m'"
proof -
  assume eq: "\<And>k. bm_get m k = bm_get m' k"
  then have "bm_get m = bm_get m'" by auto
  then have "bm_keys m = bm_keys m'"
    by (metis bm_keys_distinct bm_keys_sorted set_bm_keys sorted_distinct_set_unique)
  with eq show ?thesis
    by (metis bm_entries_conv_keys bm_entries_inject ext)
qed

lemma bm_eq_iff: "m = m' \<longleftrightarrow> bm_get m = bm_get m'"
  by (auto intro: bm_eqI)

lemma bm_insert_same: "bm_get m k = Some v \<Longrightarrow> bm_insert k v m = m"
  by (auto intro: bm_eqI)

lemma bm_entries_empty: "bm_entries bm_empty = []"
  by transfer simp

lemma bm_entries_single: "bm_entries (bm_insert k v bm_empty) = [(k, v)]"
  by transfer simp

lemma bm_entries_pair: "k < l \<Longrightarrow> bm_entries (bm_insert k v (bm_insert l w bm_empty)) = [(k, v), (l, w)]"
  by transfer auto

lemma bm_get_from_list:
  "distinct (map fst es) \<Longrightarrow> bm_get (bm_from_list es) = map_of es"
proof -
  have "bm_get (fold (\<lambda>(k, v). bm_insert k v) es m) k =
      (case map_of (rev es) k of Some v \<Rightarrow> Some v | None \<Rightarrow> bm_get m k)" for m k
    by (induction es arbitrary: m) (auto simp: map_of_append map_add_def split: option.splits)
  moreover assume "distinct (map fst es)"
  then have "map_of (rev es) = map_of es"
    by (rule map_of_rev_distinct)
  ultimately show ?thesis
    by (auto simp: bm_from_list_def fun_eq_iff split: option.splits)
qed

lemma bm_from_entries [simp]: "bm_from_list (bm_entries m) = m"
proof (rule bm_eqI)
  have "distinct (map fst (bm_entries m))"
    using bm_keys_distinct [of m] by (simp add: bm_keys_def)
  then show "bm_get (bm_from_list (bm_entries m)) k = bm_get m k" for k
    by (simp only: bm_get_from_list bm_get_conv_map_of [of m])
qed

section \<open>Laws of sets\<close>

lemma bs_set_dom: "bs_set s = dom (bm_get s)"
  by (simp add: bs_set_def bs_iter_def)

lemma finite_bs_set [simp]: "finite (bs_set s)"
  by (simp add: bs_set_def)

lemma set_bs_iter [simp, btree_simps]: "set (bs_iter s) = bs_set s"
  by (simp add: bs_set_def)

lemma bs_iter_ascending: "sorted_wrt (<) (bs_iter s)"
  by (simp add: bs_iter_def bm_keys_ascending)

lemma distinct_bs_iter [simp]: "distinct (bs_iter s)"
  by (simp add: bs_iter_def)

lemma sorted_bs_iter [simp]: "sorted (bs_iter s)"
  by (simp add: bs_iter_def)

lemma bs_contains_iff [simp, btree_simps]: "bs_contains s k \<longleftrightarrow> k \<in> bs_set s"
  by (simp add: bs_contains_def bs_set_dom)

lemma bs_set_empty [simp, btree_simps]: "bs_set bm_empty = {}"
  by (simp add: bs_set_dom dom_def)

lemma bs_set_insert [simp, btree_simps]: "bs_set (bs_insert k s) = insert k (bs_set s)"
  by (simp add: bs_set_dom bs_insert_def)

lemma bs_set_remove [simp, btree_simps]: "bs_set (bs_remove k s) = bs_set s - {k}"
  by (simp add: bs_set_dom bs_remove_def)

lemma bs_eq_iff: "s = t \<longleftrightarrow> bs_set s = bs_set t"
proof
  assume eq: "bs_set s = bs_set t"
  have "bm_get s k = bm_get t k" for k
    using eq by (cases "bm_get s k"; cases "bm_get t k") (auto simp: bs_set_dom set_eq_iff)
  then show "s = t" by (rule bm_eqI)
qed simp

lemma bs_set_extend [simp, btree_simps]: "bs_set (bs_extend ks s) = bs_set s \<union> set ks"
  unfolding bs_extend_def by (induction ks arbitrary: s) auto

lemma bs_set_from_list [simp, btree_simps]: "bs_set (bs_from_list ks) = set ks"
  using bs_set_extend [of ks bm_empty] by (simp add: bs_from_list_def bs_extend_def)

lemma bs_from_iter [simp]: "bs_from_list (bs_iter s) = s"
  by (simp add: bs_eq_iff)

lemma bs_is_subset_iff [simp, btree_simps]: "bs_is_subset s t \<longleftrightarrow> bs_set s \<subseteq> bs_set t"
  by (auto simp: bs_is_subset_def list_all_iff)

lemma bs_iter_eq_Nil [simp]: "bs_iter s = [] \<longleftrightarrow> bs_set s = {}"
  by (metis set_bs_iter set_empty)

lemma bs_iter_singleton: "bs_set s = {k} \<Longrightarrow> bs_iter s = [k]"
proof -
  assume "bs_set s = {k}"
  then have "set (bs_iter s) = set [k]" by simp
  then show ?thesis
    by (intro sorted_distinct_set_unique) simp_all
qed

lemma bs_is_empty_iff: "bm_is_empty s \<longleftrightarrow> bs_set s = {}"
  by (simp add: bs_set_dom)

lemma length_bs_iter: "length (bs_iter s) = card (bs_set s)"
  by (metis distinct_bs_iter distinct_card set_bs_iter)

lemma bs_next_back_None [simp]: "bs_next_back s = None \<longleftrightarrow> bs_set s = {}"
proof -
  have "bs_next_back s = None \<longleftrightarrow> bs_iter s = []"
    by (cases "rev (bs_iter s)") (auto simp: bs_next_back_def simp del: bs_iter_eq_Nil)
  then show ?thesis by simp
qed

lemma bs_next_back_Max: "bs_set s \<noteq> {} \<Longrightarrow> bs_next_back s = Some (Max (bs_set s))"
proof -
  assume ne: "bs_set s \<noteq> {}"
  then obtain xs x where xs: "bs_iter s = xs @ [x]"
    by (metis bs_iter_eq_Nil rev_exhaust)
  have "sorted (xs @ [x])" using sorted_bs_iter [of s] xs by simp
  then have "\<forall>y \<in> bs_set s. y \<le> x" and "x \<in> bs_set s"
    using xs by (auto simp: bs_set_def sorted_append)
  then have "Max (bs_set s) = x" by (intro Max_eqI) auto
  with xs show ?thesis by (simp add: bs_next_back_def)
qed

section \<open>Class instances\<close>

instantiation btree_map :: (linorder, equal) equal
begin

definition equal_btree_map :: "('a, 'b) btree_map \<Rightarrow> ('a, 'b) btree_map \<Rightarrow> bool" where
  "equal_btree_map m m' = (bm_entries m = bm_entries m')"

instance
  by standard (simp add: equal_btree_map_def bm_entries_inject)

end

instantiation btree_map :: (linorder, type) size
begin

definition size_btree_map :: "('a, 'b) btree_map \<Rightarrow> nat" where
  "size_btree_map m = bm_len m"

instance ..

end

end
