(* ===== verification/Core_Ids.thy ===== *)
theory Core_Ids
  imports BTree_Containers
begin

text \<open>
  The identities of \<^verbatim>\<open>apc-core/src/id.rs\<close> and the error type of \<^verbatim>\<open>apc-core/src/error.rs\<close>.
  The macro \<^verbatim>\<open>opaque_id!\<close> generates five distinct newtypes around \<^verbatim>\<open>[u8; 32]\<close>; here it is
  one type \<open>'tag opaque_id\<close> over the 256-bit word those bytes spell in big-endian order,
  with a phantom tag per identity, so identities of different kinds do not mix.
  \<open>opaque_id_less_lexicographic\<close> shows that the derived \<^verbatim>\<open>Ord\<close> of the byte array, unsigned
  lexicographic order, is the order used here.
\<close>

section \<open>Opaque identities\<close>

definition LOGICAL_ID_BYTES :: nat where
  "LOGICAL_ID_BYTES = 32"

datatype 'tag opaque_id = OpaqueId (id_word: "256 word")

definition opaque_id_from_bytes :: "bytes \<Rightarrow> 'tag opaque_id" where
  "opaque_id_from_bytes bs = OpaqueId (from_be_bytes bs)"

definition opaque_id_as_bytes :: "'tag opaque_id \<Rightarrow> bytes" where
  "opaque_id_as_bytes i = to_be_bytes (id_word i)"

datatype continuum_tag = ContinuumTag
datatype atom_tag = AtomTag
datatype replica_tag = ReplicaTag
datatype revision_tag = RevisionTag
datatype working_epoch_tag = WorkingEpochTag

type_synonym ContinuumId = "continuum_tag opaque_id"
type_synonym AtomId = "atom_tag opaque_id"
type_synonym ReplicaId = "replica_tag opaque_id"
type_synonym RevisionId = "revision_tag opaque_id"
type_synonym WorkingEpochId = "working_epoch_tag opaque_id"

instantiation opaque_id :: (type) linorder
begin

definition less_eq_opaque_id :: "'a opaque_id \<Rightarrow> 'a opaque_id \<Rightarrow> bool" where
  "less_eq_opaque_id i j = (id_word i \<le> id_word j)"

definition less_opaque_id :: "'a opaque_id \<Rightarrow> 'a opaque_id \<Rightarrow> bool" where
  "less_opaque_id i j = (id_word i < id_word j)"

instance
  by standard
    (auto simp: less_eq_opaque_id_def less_opaque_id_def opaque_id.expand)

end

section \<open>Errors of the core\<close>

datatype CoreError =
    DuplicateRevisionConflict RevisionId
  | RevisionAlreadyKnown RevisionId
  | UnknownRevision RevisionId
  | MissingParent RevisionId RevisionId
  | CausalCycle RevisionId
  | DuplicateAtomId AtomId
  | ContinuumMismatch ContinuumId ContinuumId
  | WorkingEpochAlreadyOpen WorkingEpochId
  | NoWorkingEpoch
  | DirtyObservationRequiresSeal
  | UnexpectedPreObservationRevision RevisionId
  | InvalidWorkingSnapshot
  | UnknownLocalRevision RevisionId
  | FinalizedStatementConflict RevisionId
  | HandoffRequiresFinalizedRevision RevisionId
  | InvalidFinalizationSnapshot

section \<open>Byte form and canonical order\<close>

lemma length_opaque_id_as_bytes [simp, codec_simps]: "length (opaque_id_as_bytes i) = 32"
  by (simp add: opaque_id_as_bytes_def)

lemma opaque_id_from_as_bytes [simp, codec_simps]:
  "opaque_id_from_bytes (opaque_id_as_bytes i) = i"
  by (simp add: opaque_id_as_bytes_def opaque_id_from_bytes_def)

lemma opaque_id_as_from_bytes:
  "length bs = 32 \<Longrightarrow> opaque_id_as_bytes (opaque_id_from_bytes bs) = bs"
  by (simp add: opaque_id_as_bytes_def opaque_id_from_bytes_def to_from_be_bytes)

lemma opaque_id_as_bytes_inject [simp]:
  "opaque_id_as_bytes i = opaque_id_as_bytes j \<longleftrightarrow> i = j"
  by (metis opaque_id_from_as_bytes)

text \<open>Unsigned lexicographic comparison of byte strings, the derived \<^verbatim>\<open>Ord\<close> of arrays.\<close>

fun bytes_less :: "bytes \<Rightarrow> bytes \<Rightarrow> bool" where
  "bytes_less _ [] = False"
| "bytes_less [] (_ # _) = True"
| "bytes_less (a # as) (b # bs) = (a < b \<or> a = b \<and> bytes_less as bs)"

lemma bytes_less_snoc:
  "length xs = length ys \<Longrightarrow>
     bytes_less (xs @ [a]) (ys @ [b]) \<longleftrightarrow> bytes_less xs ys \<or> xs = ys \<and> a < b"
  by (induction xs ys rule: list_induct2) auto

lemma be_bytes_inject:
  "v < 256 ^ n \<Longrightarrow> w < 256 ^ n \<Longrightarrow> be_bytes n v = be_bytes n w \<longleftrightarrow> v = w"
  by (metis be_value_be_bytes)

lemma less_iff_div_mod:
  "0 < d \<Longrightarrow> v < w \<longleftrightarrow> v div d < w div d \<or> v div d = w div d \<and> v mod d < w mod d" for v w d :: nat
proof -
  assume "0 < d"
  then have r: "v mod d < d" "w mod d < d" by simp_all
  have eq: "v = d * (v div d) + v mod d" "w = d * (w div d) + w mod d" by simp_all
  consider "v div d < w div d" | "v div d = w div d" | "w div d < v div d" by linarith
  then show ?thesis
  proof cases
    case 1
    then have "v < w" using div_le_mono leD not_le by blast
    with 1 show ?thesis by simp
  next
    case 2
    with eq show ?thesis by (metis nat_add_left_cancel_less less_irrefl)
  next
    case 3
    then have "w < v" using div_le_mono leD not_le by blast
    with 3 show ?thesis by simp
  qed
qed

lemma bytes_less_be_bytes:
  "v < 256 ^ n \<Longrightarrow> w < 256 ^ n \<Longrightarrow> bytes_less (be_bytes n v) (be_bytes n w) \<longleftrightarrow> v < w"
proof (induction n arbitrary: v w)
  case (Suc n)
  have small: "v div 256 < 256 ^ n" "w div 256 < 256 ^ n"
    using Suc.prems by (simp_all add: less_mult_imp_div_less mult.commute)
  have digit: "(word_of_nat (v mod 256) :: u8) < word_of_nat (w mod 256) \<longleftrightarrow> v mod 256 < w mod 256"
    by (simp add: word_less_nat_alt unat_u8_mod)
  have "v < w \<longleftrightarrow> v div 256 < w div 256 \<or> v div 256 = w div 256 \<and> v mod 256 < w mod 256"
    by (rule less_iff_div_mod) simp
  with Suc.IH [OF small] digit be_bytes_inject [OF small] show ?case
    by (simp add: bytes_less_snoc)
qed simp

lemma id_word_bound: "unat (w :: 256 word) < 256 ^ 32"
  using unsigned_less [of w] by simp

text \<open>
  The canonical order of identities, which breaks ties between concurrent revisions, is
  unsigned lexicographic order of their 32 bytes.
\<close>

lemma opaque_id_less_lexicographic:
  "i < j \<longleftrightarrow> bytes_less (opaque_id_as_bytes i) (opaque_id_as_bytes j)"
proof -
  have "bytes_less (be_bytes 32 (unat (id_word i))) (be_bytes 32 (unat (id_word j))) \<longleftrightarrow>
      unat (id_word i) < unat (id_word j)"
    by (rule bytes_less_be_bytes) (rule id_word_bound)+
  then show ?thesis
    by (simp add: less_opaque_id_def opaque_id_as_bytes_def to_be_bytes_def word_less_nat_alt)
qed

end
