(* ===== verification/Scalar_Register.thy ===== *)
theory Scalar_Register
  imports Core_Ids
begin

text \<open>
  The causal scalar register of \<^verbatim>\<open>apc-core/src/scalar.rs\<close>: immutable revisions with explicit
  direct parents, keyed by revision identity. This theory holds the data and every operation
  of the file (construction, insertion, merge, frontier, materialization, ancestry, validation),
  each traversal as the stack loop or the recursion the source has. The theory
  \<open>Scalar_Causality\<close> proves them correct against the causal graph.

  A \<^verbatim>\<open>Vec\<close> used as a stack is a list with its top first: \<^verbatim>\<open>pop\<close> takes the head and
  \<^verbatim>\<open>extend\<close> with an ascending iterator puts the reversed iterator in front.
\<close>

section \<open>Data\<close>

record 'v ScalarRevision =
  rev_id :: RevisionId
  rev_value :: 'v
  rev_parents :: "RevisionId btree_set"

type_synonym 'v revision_map = "(RevisionId, 'v ScalarRevision) btree_map"

record 'v ScalarRegister =
  revisions :: "'v revision_map"

definition ScalarRevision_new :: "RevisionId \<Rightarrow> 'v \<Rightarrow> RevisionId btree_set \<Rightarrow> 'v ScalarRevision" where
  "ScalarRevision_new i v ps = \<lparr>rev_id = i, rev_value = v, rev_parents = ps\<rparr>"

definition ScalarRegister_new :: "'v ScalarRegister" where
  "ScalarRegister_new = \<lparr>revisions = bm_empty\<rparr>"

definition ScalarRegister_len :: "'v ScalarRegister \<Rightarrow> nat" where
  "ScalarRegister_len reg = bm_len (revisions reg)"

definition ScalarRegister_is_empty :: "'v ScalarRegister \<Rightarrow> bool" where
  "ScalarRegister_is_empty reg = bm_is_empty (revisions reg)"

definition ScalarRegister_revision :: "'v ScalarRegister \<Rightarrow> RevisionId \<Rightarrow> 'v ScalarRevision option" where
  "ScalarRegister_revision reg i = bm_get (revisions reg) i"

definition ScalarRegister_revisions :: "'v ScalarRegister \<Rightarrow> 'v ScalarRevision list" where
  "ScalarRegister_revisions reg = bm_values (revisions reg)"

section \<open>Validation\<close>

text \<open>The inner loop \<^verbatim>\<open>for parent in &revision.parents\<close>, shared by \<^verbatim>\<open>insert_revision\<close> and
  \<^verbatim>\<open>validate\<close>: the first parent, in identity order, that the map does not hold.\<close>

definition check_parents :: "'v revision_map \<Rightarrow> 'v ScalarRevision \<Rightarrow> (unit, CoreError) result" where
  "check_parents m r =
     (case find (\<lambda>p. \<not> bm_contains_key m p) (bs_iter (rev_parents r)) of
        Some p \<Rightarrow> Err (MissingParent (rev_id r) p)
      | None \<Rightarrow> Ok ())"

type_synonym visit_state = "RevisionId btree_set \<times> RevisionId btree_set"

function visit_for_cycle ::
    "'v revision_map \<Rightarrow> RevisionId \<Rightarrow> visit_state \<Rightarrow> (visit_state, CoreError) result"
  and visit_parents ::
    "'v revision_map \<Rightarrow> RevisionId list \<Rightarrow> visit_state \<Rightarrow> (visit_state, CoreError) result"
where
  "visit_for_cycle m i (visiting, complete) =
     (if bs_contains complete i then Ok (visiting, complete)
      else if bs_contains visiting i then Err (CausalCycle i)
      else
        (case (case bm_get m i of
                 None \<Rightarrow> Ok (bs_insert i visiting, complete)
               | Some r \<Rightarrow> visit_parents m (bs_iter (rev_parents r)) (bs_insert i visiting, complete)) of
           Err e \<Rightarrow> Err e
         | Ok (visiting', complete') \<Rightarrow> Ok (bs_remove i visiting', bs_insert i complete')))"
| "visit_parents m [] st = Ok st"
| "visit_parents m (p # ps) st =
     (case visit_for_cycle m p st of
        Err e \<Rightarrow> Err e
      | Ok st' \<Rightarrow> visit_parents m ps st')"
  by pat_completeness auto

text \<open>A visit that returns leaves \<^verbatim>\<open>visiting\<close> as it found it; termination rests on this.\<close>

lemma visit_restores_visiting:
  "visit_for_cycle_visit_parents_dom (Inl (m, i, st)) \<Longrightarrow>
     visit_for_cycle m i st = Ok st' \<Longrightarrow> fst st' = fst st"
  "visit_for_cycle_visit_parents_dom (Inr (m, ps, st)) \<Longrightarrow>
     visit_parents m ps st = Ok st' \<Longrightarrow> fst st' = fst st"
proof (induction arbitrary: st' and st' rule: visit_for_cycle_visit_parents.pinduct)
  case (1 m i visiting complete)
  then show ?case
    by (fastforce simp: visit_for_cycle.psimps bs_eq_iff split: if_splits option.splits result.splits)
next
  case (2 m st)
  then show ?case by (simp add: visit_parents.psimps)
next
  case (3 m p ps st)
  then show ?case by (auto simp: visit_parents.psimps split: result.splits)
qed

termination visit_for_cycle
proof (relation "inv_image (less_than <*lex*> less_than)
    (\<lambda>x. case x of
       Inl (m, i, st) \<Rightarrow> (card (dom (bm_get m) - bs_set (fst st)), 0)
     | Inr (m, ps, st) \<Rightarrow> (card (dom (bm_get m) - bs_set (fst st)), Suc (length ps)))", goal_cases)
  case (2 m i visiting complete r)
  then have "i \<in> dom (bm_get m) - bs_set visiting" by auto
  then have "card (dom (bm_get m) - insert i (bs_set visiting)) < card (dom (bm_get m) - bs_set visiting)"
    by (intro psubset_card_mono) auto
  then show ?case by simp
qed (auto dest: visit_restores_visiting)

definition ScalarRegister_validate :: "'v ScalarRegister \<Rightarrow> (unit, CoreError) result" where
  "ScalarRegister_validate reg =
     (case try_fold (\<lambda>_ r. check_parents (revisions reg) r) () (bm_values (revisions reg)) of
        Err e \<Rightarrow> Err e
      | Ok _ \<Rightarrow>
          (case try_fold (\<lambda>st i. visit_for_cycle (revisions reg) i st) (bm_empty, bm_empty)
                 (bm_keys (revisions reg)) of
             Err e \<Rightarrow> Err e
           | Ok _ \<Rightarrow> Ok ()))"

section \<open>Construction, insertion and merge\<close>

text \<open>The \<^verbatim>\<open>match map.get(&id)\<close> of \<^verbatim>\<open>from_revisions\<close> and of \<^verbatim>\<open>merge\<close>.\<close>

definition absorb_revision ::
    "'v revision_map \<Rightarrow> RevisionId \<times> 'v ScalarRevision \<Rightarrow> ('v revision_map, CoreError) result" where
  "absorb_revision m e =
     (case e of (i, r) \<Rightarrow>
        (case bm_get m i of
           Some existing \<Rightarrow> if existing = r then Ok m else Err (DuplicateRevisionConflict i)
         | None \<Rightarrow> Ok (bm_insert i r m)))"

definition ScalarRegister_from_revisions ::
    "'v ScalarRevision list \<Rightarrow> ('v ScalarRegister, CoreError) result" where
  "ScalarRegister_from_revisions rs =
     (case try_fold absorb_revision bm_empty (map (\<lambda>r. (rev_id r, r)) rs) of
        Err e \<Rightarrow> Err e
      | Ok m \<Rightarrow>
          (case ScalarRegister_validate \<lparr>revisions = m\<rparr> of
             Err e \<Rightarrow> Err e
           | Ok _ \<Rightarrow> Ok \<lparr>revisions = m\<rparr>))"

definition ScalarRegister_insert_revision ::
    "'v ScalarRegister \<Rightarrow> 'v ScalarRevision \<Rightarrow> (unit, CoreError) result \<times> 'v ScalarRegister" where
  "ScalarRegister_insert_revision reg r =
     (case bm_get (revisions reg) (rev_id r) of
        Some existing \<Rightarrow>
          (if existing = r then Ok () else Err (DuplicateRevisionConflict (rev_id r)), reg)
      | None \<Rightarrow>
          (case check_parents (revisions reg) r of
             Err e \<Rightarrow> (Err e, reg)
           | Ok _ \<Rightarrow> (Ok (), reg\<lparr>revisions := bm_insert (rev_id r) r (revisions reg)\<rparr>)))"

definition ScalarRegister_merge ::
    "'v ScalarRegister \<Rightarrow> 'v ScalarRegister \<Rightarrow> ('v ScalarRegister, CoreError) result" where
  "ScalarRegister_merge self other =
     (case try_fold absorb_revision (revisions self) (bm_entries (revisions other)) of
        Err e \<Rightarrow> Err e
      | Ok m \<Rightarrow>
          (case ScalarRegister_validate \<lparr>revisions = m\<rparr> of
             Err e \<Rightarrow> Err e
           | Ok _ \<Rightarrow> Ok \<lparr>revisions = m\<rparr>))"

section \<open>Traversals\<close>

text \<open>The \<^verbatim>\<open>while let Some(id) = stack.pop()\<close> loop of \<^verbatim>\<open>frontier_ids\<close>.\<close>

function mark_dominated ::
    "'v revision_map \<Rightarrow> RevisionId list \<Rightarrow> RevisionId btree_set \<Rightarrow> RevisionId btree_set" where
  "mark_dominated m [] dominated = dominated"
| "mark_dominated m (i # stack) dominated =
     (if bs_contains dominated i then mark_dominated m stack dominated
      else
        (case bm_get m i of
           None \<Rightarrow> mark_dominated m stack (bs_insert i dominated)
         | Some r \<Rightarrow> mark_dominated m (rev (bs_iter (rev_parents r)) @ stack) (bs_insert i dominated)))"
  by pat_completeness auto

lemma unseen_decreases:
  assumes "i \<notin> bs_set seen" and "bm_get m i = Some r"
  shows "card (dom (bm_get m) - insert i (bs_set seen)) < card (dom (bm_get m) - bs_set seen)"
  using assms by (intro psubset_card_mono) auto

lemma unseen_absent:
  "bm_get m i = None \<Longrightarrow> dom (bm_get m) - insert i S = dom (bm_get m) - S"
  by auto

termination mark_dominated
  by (relation "inv_image (less_than <*lex*> less_than)
      (\<lambda>(m, stack, seen). (card (dom (bm_get m) - bs_set seen), length stack))")
    (auto simp: unseen_decreases unseen_absent)

definition ScalarRegister_frontier_ids :: "'v ScalarRegister \<Rightarrow> RevisionId btree_set" where
  "ScalarRegister_frontier_ids reg =
     (let m = revisions reg;
          dominated = fold (\<lambda>r. mark_dominated m (rev (bs_iter (rev_parents r)))) (bm_values m) bm_empty
      in bs_from_list (filter (\<lambda>i. \<not> bs_contains dominated i) (bm_keys m)))"

definition ScalarRegister_assign ::
    "'v ScalarRegister \<Rightarrow> RevisionId \<Rightarrow> 'v \<Rightarrow> (unit, CoreError) result \<times> 'v ScalarRegister" where
  "ScalarRegister_assign reg i v =
     ScalarRegister_insert_revision reg (ScalarRevision_new i v (ScalarRegister_frontier_ids reg))"

definition ScalarRegister_materialized_revision :: "'v ScalarRegister \<Rightarrow> 'v ScalarRevision option" where
  "ScalarRegister_materialized_revision reg =
     (case bs_next_back (ScalarRegister_frontier_ids reg) of
        None \<Rightarrow> None
      | Some winner \<Rightarrow> bm_get (revisions reg) winner)"

definition ScalarRegister_materialized :: "'v ScalarRegister \<Rightarrow> 'v option" where
  "ScalarRegister_materialized reg = map_option rev_value (ScalarRegister_materialized_revision reg)"

text \<open>The search loop of \<^verbatim>\<open>is_ancestor\<close>, with its early \<^verbatim>\<open>return true\<close>.\<close>

function ancestor_search ::
    "'v revision_map \<Rightarrow> RevisionId \<Rightarrow> RevisionId list \<Rightarrow> RevisionId btree_set \<Rightarrow> bool" where
  "ancestor_search m a [] seen = False"
| "ancestor_search m a (i # stack) seen =
     (if i = a then True
      else if bs_contains seen i then ancestor_search m a stack seen
      else
        (case bm_get m i of
           None \<Rightarrow> ancestor_search m a stack (bs_insert i seen)
         | Some r \<Rightarrow> ancestor_search m a (rev (bs_iter (rev_parents r)) @ stack) (bs_insert i seen)))"
  by pat_completeness auto

termination ancestor_search
  by (relation "inv_image (less_than <*lex*> less_than)
      (\<lambda>(m, a, stack, seen). (card (dom (bm_get m) - bs_set seen), length stack))")
    (auto simp: unseen_decreases unseen_absent)

definition ScalarRegister_is_ancestor ::
    "'v ScalarRegister \<Rightarrow> RevisionId \<Rightarrow> RevisionId \<Rightarrow> bool" where
  "ScalarRegister_is_ancestor reg ancestor descendant =
     (case bm_get (revisions reg) descendant of
        None \<Rightarrow> False
      | Some r \<Rightarrow> ancestor_search (revisions reg) ancestor (rev (bs_iter (rev_parents r))) bm_empty)"

end
