(* ===== verification/Scalar_Causality.thy ===== *)
theory Scalar_Causality
  imports Scalar_Register
begin

text \<open>
  Correctness of the causal register. The abstract specification is the causal graph
  \<open>causal_edge\<close> of a revision map (child to direct parent) with its transitive closure; the
  stack loops and the recursion of \<open>Scalar_Register\<close> are proved to compute it: validation
  decides closedness and acyclicity, the frontier is the set of causally maximal revisions,
  \<^verbatim>\<open>is_ancestor\<close> is strict reachability. On top of it come the merge laws of valid registers
  and the behaviour of local assignment.
\<close>

section \<open>The causal graph\<close>

definition causal_edge :: "'v revision_map \<Rightarrow> (RevisionId \<times> RevisionId) set" where
  "causal_edge m = {(c, p). \<exists>r. bm_get m c = Some r \<and> p \<in> bs_set (rev_parents r)}"

text \<open>Every revision is stored under its own identity; the private field of the source keeps
  this by construction.\<close>

definition keyed_by_id :: "'v revision_map \<Rightarrow> bool" where
  "keyed_by_id m \<longleftrightarrow> (\<forall>i r. bm_get m i = Some r \<longrightarrow> rev_id r = i)"

definition parents_closed :: "'v revision_map \<Rightarrow> bool" where
  "parents_closed m \<longleftrightarrow> (\<forall>i r. bm_get m i = Some r \<longrightarrow> bs_set (rev_parents r) \<subseteq> dom (bm_get m))"

definition register_valid :: "'v ScalarRegister \<Rightarrow> bool" where
  "register_valid reg \<longleftrightarrow>
     keyed_by_id (revisions reg) \<and> parents_closed (revisions reg) \<and> acyclic (causal_edge (revisions reg))"

lemma causal_edge_Image:
  "causal_edge m `` {i} = (case bm_get m i of None \<Rightarrow> {} | Some r \<Rightarrow> bs_set (rev_parents r))"
  by (auto simp: causal_edge_def split: option.splits)

lemma causal_edge_Domain: "(c, p) \<in> causal_edge m \<Longrightarrow> c \<in> dom (bm_get m)"
  by (auto simp: causal_edge_def)

lemma causal_trancl_Domain: "(c, p) \<in> (causal_edge m)\<^sup>+ \<Longrightarrow> c \<in> dom (bm_get m)"
  by (metis causal_edge_Domain tranclD)

lemma parents_closed_iff:
  "parents_closed m \<longleftrightarrow> Range (causal_edge m) \<subseteq> dom (bm_get m)"
  by (fastforce simp: parents_closed_def causal_edge_def)

lemma finite_causal_edge: "finite (causal_edge m)"
proof (rule finite_subset)
  show "causal_edge m \<subseteq> (\<Union>c \<in> dom (bm_get m). {c} \<times> bs_set (rev_parents (the (bm_get m c))))"
    by (auto simp: causal_edge_def)
qed auto

lemma Image_insert_point: "E `` insert x A = E `` {x} \<union> E `` A"
  by auto

lemma Image_closed_rtrancl: "E `` D \<subseteq> D \<Longrightarrow> E\<^sup>* `` D = D"
  by (rule Image_closed_trancl)

lemma rtrancl_Image_absorb:
  "P \<subseteq> E\<^sup>* `` A \<Longrightarrow> E\<^sup>* `` (A \<union> P) = E\<^sup>* `` A"
  by (auto intro: rtrancl_trans)

section \<open>The stack loops compute reachability\<close>

lemma push_parents_reach:
  assumes "bm_get m i = Some r"
  shows "(causal_edge m)\<^sup>* `` (insert i D \<union> (bs_set (rev_parents r) \<union> S)) =
    (causal_edge m)\<^sup>* `` (D \<union> insert i S)"
proof -
  have "bs_set (rev_parents r) \<subseteq> (causal_edge m)\<^sup>* `` (D \<union> insert i S)"
    using assms by (auto simp: causal_edge_def intro!: r_into_rtrancl)
  from rtrancl_Image_absorb [OF this] show ?thesis
    by (simp add: Un_ac insert_commute)
qed

lemma bs_set_mark_dominated:
  "causal_edge m `` bs_set D \<subseteq> bs_set D \<union> set stack \<Longrightarrow>
     bs_set (mark_dominated m stack D) = (causal_edge m)\<^sup>* `` (bs_set D \<union> set stack)"
proof (induction m stack D rule: mark_dominated.induct)
  case (1 m D)
  then show ?case by (simp add: Image_closed_rtrancl)
next
  case (2 m i stack D)
  show ?case
  proof (cases "i \<in> bs_set D")
    case True
    with 2 show ?thesis by (simp add: insert_absorb)
  next
    case new: False
    show ?thesis
    proof (cases "bm_get m i")
      case None
      then have "causal_edge m `` insert i (bs_set D) \<subseteq> insert i (bs_set D) \<union> set stack"
        using "2.prems" by (subst Image_insert_point) (auto simp: causal_edge_Image)
      with None new "2.IH"(2) show ?thesis by simp
    next
      case (Some r)
      then have "causal_edge m `` insert i (bs_set D) \<subseteq>
          insert i (bs_set D) \<union> (bs_set (rev_parents r) \<union> set stack)"
        using "2.prems" by (subst Image_insert_point) (auto simp: causal_edge_Image)
      with Some new "2.IH"(3) have "bs_set (mark_dominated m (i # stack) D) =
          (causal_edge m)\<^sup>* `` (insert i (bs_set D) \<union> (bs_set (rev_parents r) \<union> set stack))"
        by (simp del: Un_insert_left)
      then show ?thesis by (simp add: push_parents_reach [OF Some] del: Un_insert_left)
    qed
  qed
qed

lemma fold_mark_dominated:
  "causal_edge m `` bs_set D \<subseteq> bs_set D \<Longrightarrow>
     bs_set (fold (\<lambda>r. mark_dominated m (rev (bs_iter (rev_parents r)))) rs D) =
     (causal_edge m)\<^sup>* `` (bs_set D \<union> (\<Union>r \<in> set rs. bs_set (rev_parents r)))"
proof (induction rs arbitrary: D)
  case Nil
  then show ?case by (simp add: Image_closed_rtrancl)
next
  case (Cons r rs)
  let ?E = "causal_edge m"
  let ?D = "mark_dominated m (rev (bs_iter (rev_parents r))) D"
  have D: "bs_set ?D = ?E\<^sup>* `` (bs_set D \<union> bs_set (rev_parents r))"
    using Cons.prems bs_set_mark_dominated [of m D "rev (bs_iter (rev_parents r))"] by auto
  then have "?E `` bs_set ?D \<subseteq> bs_set ?D" by (auto intro: rtrancl_into_rtrancl)
  from Cons.IH [OF this] D show ?case
    by (auto intro: rtrancl_trans)
qed

text \<open>The frontier is what no revision of the register has as a parent.\<close>

lemma bs_set_frontier_ids:
  "bs_set (ScalarRegister_frontier_ids reg) =
     dom (bm_get (revisions reg)) - Range (causal_edge (revisions reg))"
proof -
  let ?m = "revisions reg"
  have "(\<Union>r \<in> set (bm_values ?m). bs_set (rev_parents r)) = Range (causal_edge ?m)"
    by (force simp: set_bm_values ran_def causal_edge_def)
  moreover have "(causal_edge ?m)\<^sup>* `` Range (causal_edge ?m) = Range (causal_edge ?m)"
    by (rule Image_closed_rtrancl) auto
  ultimately show ?thesis
    using fold_mark_dominated [of ?m bm_empty "bm_values ?m"]
    by (auto simp: ScalarRegister_frontier_ids_def Let_def)
qed

lemma frontier_subset: "bs_set (ScalarRegister_frontier_ids reg) \<subseteq> dom (bm_get (revisions reg))"
  by (auto simp: bs_set_frontier_ids)

lemma ancestor_search_reach:
  "a \<notin> bs_set D \<Longrightarrow> causal_edge m `` bs_set D \<subseteq> bs_set D \<union> set stack \<Longrightarrow>
     ancestor_search m a stack D \<longleftrightarrow> a \<in> (causal_edge m)\<^sup>* `` (bs_set D \<union> set stack)"
proof (induction m a stack D rule: ancestor_search.induct)
  case (1 m a D)
  then show ?case by (simp add: Image_closed_rtrancl)
next
  case (2 m a i stack D)
  show ?case
  proof (cases "i = a \<or> i \<in> bs_set D")
    case True
    with 2 show ?thesis by (auto simp: insert_absorb)
  next
    case new: False
    show ?thesis
    proof (cases "bm_get m i")
      case None
      then have "causal_edge m `` insert i (bs_set D) \<subseteq> insert i (bs_set D) \<union> set stack"
        using "2.prems" by (subst Image_insert_point) (auto simp: causal_edge_Image)
      with None new "2.IH"(2) "2.prems" show ?thesis by auto
    next
      case (Some r)
      then have "causal_edge m `` insert i (bs_set D) \<subseteq>
          insert i (bs_set D) \<union> (bs_set (rev_parents r) \<union> set stack)"
        using "2.prems" by (subst Image_insert_point) (auto simp: causal_edge_Image)
      moreover have "a \<noteq> i" using new by auto
      ultimately have "ancestor_search m a (i # stack) D \<longleftrightarrow>
          a \<in> (causal_edge m)\<^sup>* `` (insert i (bs_set D) \<union> (bs_set (rev_parents r) \<union> set stack))"
        using Some new "2.IH"(3) "2.prems"(1) by (simp del: Un_insert_left)
      then show ?thesis by (simp add: push_parents_reach [OF Some] del: Un_insert_left)
    qed
  qed
qed

lemma is_ancestor_trancl:
  "ScalarRegister_is_ancestor reg a d \<longleftrightarrow> (d, a) \<in> (causal_edge (revisions reg))\<^sup>+"
proof (cases "bm_get (revisions reg) d")
  case None
  then show ?thesis
    by (auto simp: ScalarRegister_is_ancestor_def dest: causal_trancl_Domain)
next
  case (Some r)
  then have "causal_edge (revisions reg) `` {d} = bs_set (rev_parents r)"
    by (simp add: causal_edge_Image)
  then have "(d, a) \<in> (causal_edge (revisions reg))\<^sup>+ \<longleftrightarrow>
      a \<in> (causal_edge (revisions reg))\<^sup>* `` bs_set (rev_parents r)"
    by (auto simp: trancl_unfold_left)
  with Some show ?thesis
    by (simp add: ScalarRegister_is_ancestor_def ancestor_search_reach)
qed

section \<open>Cycle detection\<close>

definition search_inv :: "'v revision_map \<Rightarrow> visit_state \<Rightarrow> bool" where
  "search_inv m st \<longleftrightarrow>
     causal_edge m `` bs_set (snd st) \<subseteq> bs_set (snd st) \<and>
     (\<forall>i \<in> bs_set (snd st). (i, i) \<notin> (causal_edge m)\<^sup>+) \<and>
     bs_set (fst st) \<inter> bs_set (snd st) = {}"

lemma closed_trancl: "E `` C \<subseteq> C \<Longrightarrow> (p, i) \<in> E\<^sup>* \<Longrightarrow> p \<in> C \<Longrightarrow> i \<in> C"
  using Image_closed_rtrancl by blast

lemma search_inv_complete:
  assumes "search_inv m (bs_insert i visiting, complete)"
    and "causal_edge m `` {i} \<subseteq> bs_set complete" and "i \<notin> bs_set visiting"
  shows "search_inv m (visiting, bs_insert i complete)"
proof -
  have "(i, i) \<notin> (causal_edge m)\<^sup>+"
  proof
    assume "(i, i) \<in> (causal_edge m)\<^sup>+"
    then obtain p where "(i, p) \<in> causal_edge m" "(p, i) \<in> (causal_edge m)\<^sup>*"
      by (meson tranclD)
    with assms(2) have "i \<in> bs_set complete"
      using assms(1) closed_trancl [of "causal_edge m" "bs_set complete" p i]
      by (auto simp: search_inv_def)
    with assms(1) show False by (auto simp: search_inv_def)
  qed
  moreover have "causal_edge m `` bs_set (bs_insert i complete) \<subseteq> bs_set (bs_insert i complete)"
    using assms(1,2) by (auto simp: search_inv_def)
  ultimately show ?thesis using assms by (auto simp: search_inv_def)
qed

lemma visit_sound:
  "search_inv m st \<Longrightarrow> visit_for_cycle m i st = Ok st' \<Longrightarrow>
     search_inv m st' \<and> fst st' = fst st \<and> bs_set (snd st) \<union> {i} \<subseteq> bs_set (snd st')"
  "search_inv m st \<Longrightarrow> visit_parents m ps st = Ok st' \<Longrightarrow>
     search_inv m st' \<and> fst st' = fst st \<and> bs_set (snd st) \<union> set ps \<subseteq> bs_set (snd st')"
proof (induction m i st and m ps st arbitrary: st' and st'
    rule: visit_for_cycle_visit_parents.induct)
  case (1 m i visiting complete)
  show ?case
  proof (cases "i \<in> bs_set complete")
    case True
    with 1 show ?thesis by auto
  next
    case new: False
    with "1.prems" have fresh: "i \<notin> bs_set visiting"
      by (auto split: if_splits)
    let ?st = "(bs_insert i visiting, complete)"
    let ?r = "case bm_get m i of None \<Rightarrow> Ok ?st
      | Some r \<Rightarrow> visit_parents m (bs_iter (rev_parents r)) ?st"
    from new fresh "1.prems"(2) obtain visiting' complete' where
      r: "?r = Ok (visiting', complete')"
      and st': "st' = (bs_remove i visiting', bs_insert i complete')"
      by (auto split: result.splits)
    have inv: "search_inv m ?st"
      using new "1.prems"(1) by (auto simp: search_inv_def)
    have post: "search_inv m (visiting', complete') \<and> visiting' = bs_insert i visiting
        \<and> bs_set complete \<union> causal_edge m `` {i} \<subseteq> bs_set complete'"
    proof (cases "bm_get m i")
      case None
      with r inv show ?thesis by (auto simp: causal_edge_Image)
    next
      case (Some r')
      with r "1.IH" [OF _ _ Some inv] new fresh show ?thesis by (auto simp: causal_edge_Image)
    qed
    then have "bs_remove i visiting' = visiting"
      using fresh by (simp add: bs_eq_iff)
    moreover have "search_inv m (visiting, bs_insert i complete')"
      using post fresh by (auto intro: search_inv_complete)
    ultimately show ?thesis using post st' by auto
  qed
next
  case (2 m st)
  then show ?case by simp
next
  case (3 m p ps st)
  from "3.prems"(2) obtain st1 where st1: "visit_for_cycle m p st = Ok st1"
    and rest: "visit_parents m ps st1 = Ok st'" by (auto split: result.splits)
  from "3.IH"(1) [OF "3.prems"(1) st1] "3.IH"(2) [OF st1 _ rest] show ?case by auto
qed

lemma visit_keeps_visiting:
  "visit_for_cycle m i st = Ok st' \<Longrightarrow> fst st' = fst st"
  "visit_parents m ps st = Ok st' \<Longrightarrow> fst st' = fst st"
proof (induction m i st and m ps st arbitrary: st' and st'
    rule: visit_for_cycle_visit_parents.induct)
  case (1 m i visiting complete)
  then show ?case
    by (fastforce simp: bs_eq_iff split: if_splits option.splits result.splits)
qed (auto split: result.splits)

lemma visit_error:
  "\<forall>u \<in> bs_set (fst st). (u, i) \<in> (causal_edge m)\<^sup>+ \<Longrightarrow> visit_for_cycle m i st = Err e \<Longrightarrow>
     \<exists>j. e = CausalCycle j \<and> (j, j) \<in> (causal_edge m)\<^sup>+"
  "\<forall>u \<in> bs_set (fst st). \<forall>p \<in> set ps. (u, p) \<in> (causal_edge m)\<^sup>+ \<Longrightarrow>
     visit_parents m ps st = Err e \<Longrightarrow> \<exists>j. e = CausalCycle j \<and> (j, j) \<in> (causal_edge m)\<^sup>+"
proof (induction m i st and m ps st rule: visit_for_cycle_visit_parents.induct)
  case (1 m i visiting complete)
  show ?case
  proof (cases "i \<in> bs_set complete \<or> i \<in> bs_set visiting")
    case True
    with 1 show ?thesis by (auto split: if_splits)
  next
    case new: False
    with "1.prems"(2) obtain r where r: "bm_get m i = Some r"
      and err: "visit_parents m (bs_iter (rev_parents r)) (bs_insert i visiting, complete) = Err e"
      by (auto split: option.splits result.splits)
    from r have "(i, p) \<in> causal_edge m" if "p \<in> bs_set (rev_parents r)" for p
      using that by (auto simp: causal_edge_def)
    then have "\<forall>u \<in> insert i (bs_set visiting). \<forall>p \<in> bs_set (rev_parents r). (u, p) \<in> (causal_edge m)\<^sup>+"
      using "1.prems"(1) by (auto intro: trancl_into_trancl)
    with "1.IH" [OF _ _ r] new err show ?thesis by simp
  qed
next
  case (3 m p ps st)
  then show ?case
    by (auto split: result.splits dest: visit_keeps_visiting)
qed auto

section \<open>Validation decides validity\<close>

lemma check_parents_Ok:
  "check_parents m r = Ok () \<longleftrightarrow> bs_set (rev_parents r) \<subseteq> dom (bm_get m)"
proof (cases "find (\<lambda>p. \<not> bm_contains_key m p) (bs_iter (rev_parents r))")
  case None
  then have "check_parents m r = Ok ()" by (simp add: check_parents_def)
  moreover from None have "bs_set (rev_parents r) \<subseteq> dom (bm_get m)"
    by (auto simp: find_None_iff)
  ultimately show ?thesis by simp
next
  case (Some p)
  with find_SomeD [OF Some] show ?thesis by (auto simp: check_parents_def)
qed

lemma check_parents_Err:
  "check_parents m r = Err e \<Longrightarrow>
     \<exists>p \<in> bs_set (rev_parents r). e = MissingParent (rev_id r) p \<and> p \<notin> dom (bm_get m)"
  by (auto simp: check_parents_def split: option.splits dest!: find_SomeD)

lemma parent_scan_Ok:
  "try_fold (\<lambda>_ r. check_parents m r) () (bm_values m) = Ok u \<longleftrightarrow> parents_closed m"
  by (auto simp: try_fold_unit_Ok check_parents_Ok set_bm_values ran_def parents_closed_def)

lemma cycle_scan_Ok:
  assumes "try_fold (\<lambda>st i. visit_for_cycle m i st) st ks = Ok st'" and "search_inv m st"
  shows "search_inv m st' \<and> bs_set (snd st) \<union> set ks \<subseteq> bs_set (snd st')"
  using assms
proof (induction ks arbitrary: st)
  case (Cons k ks)
  then obtain st1 where visit: "visit_for_cycle m k st = Ok st1"
    and rest: "try_fold (\<lambda>st i. visit_for_cycle m i st) st1 ks = Ok st'"
    by (auto split: result.splits)
  from visit_sound(1) [OF Cons.prems(2) visit] Cons.IH [OF rest] show ?case by auto
qed simp

lemma cycle_scan_Err:
  assumes "try_fold (\<lambda>st i. visit_for_cycle m i st) st ks = Err e" and "bs_set (fst st) = {}"
  shows "\<exists>j. e = CausalCycle j \<and> (j, j) \<in> (causal_edge m)\<^sup>+"
  using assms
proof (induction ks arbitrary: st)
  case (Cons k ks)
  show ?case
  proof (cases "visit_for_cycle m k st")
    case (Ok st1)
    with Cons.prems have "bs_set (fst st1) = {}" by (metis visit_keeps_visiting(1))
    with Cons Ok show ?thesis by auto
  next
    case (Err e')
    with Cons.prems show ?thesis by (auto dest: visit_error(1) [rotated])
  qed
qed simp

lemma search_inv_empty: "search_inv m (bm_empty, bm_empty)"
  by (simp add: search_inv_def)

lemma validate_Ok_iff:
  "ScalarRegister_validate reg = Ok () \<longleftrightarrow>
     parents_closed (revisions reg) \<and> acyclic (causal_edge (revisions reg))"
proof -
  let ?m = "revisions reg"
  let ?scan = "try_fold (\<lambda>st i. visit_for_cycle ?m i st) (bm_empty, bm_empty) (bm_keys ?m)"
  have "is_ok ?scan \<longleftrightarrow> acyclic (causal_edge ?m)"
  proof (cases ?scan)
    case (Ok st)
    then have "search_inv ?m st" "dom (bm_get ?m) \<subseteq> bs_set (snd st)"
      using cycle_scan_Ok [OF Ok search_inv_empty] by auto
    then have "acyclic (causal_edge ?m)"
      unfolding acyclic_def search_inv_def by (meson causal_trancl_Domain subsetD)
    with Ok show ?thesis by simp
  next
    case (Err e)
    then show ?thesis using cycle_scan_Err [OF Err] by (auto simp: acyclic_def)
  qed
  then show ?thesis
    by (auto simp: ScalarRegister_validate_def parent_scan_Ok is_ok_iff split: result.splits)
      (metis parent_scan_Ok result.distinct(1) result.exhaust)+
qed

lemma validate_Err:
  assumes "ScalarRegister_validate reg = Err e"
  shows "(\<exists>r p. r \<in> ran (bm_get (revisions reg)) \<and> p \<in> bs_set (rev_parents r) \<and>
            p \<notin> dom (bm_get (revisions reg)) \<and> e = MissingParent (rev_id r) p) \<or>
         parents_closed (revisions reg) \<and>
         (\<exists>j. e = CausalCycle j \<and> (j, j) \<in> (causal_edge (revisions reg))\<^sup>+)"
proof (cases "try_fold (\<lambda>_ r. check_parents (revisions reg) r) () (bm_values (revisions reg))")
  case (Ok u)
  with assms have "try_fold (\<lambda>st i. visit_for_cycle (revisions reg) i st) (bm_empty, bm_empty)
      (bm_keys (revisions reg)) = Err e"
    by (auto simp: ScalarRegister_validate_def split: result.splits)
  from cycle_scan_Err [OF this] Ok show ?thesis by (simp add: parent_scan_Ok)
next
  case (Err e')
  with assms have "e' = e" by (simp add: ScalarRegister_validate_def)
  with Err obtain r where "r \<in> ran (bm_get (revisions reg))" and "check_parents (revisions reg) r = Err e"
    by (metis try_fold_Err_elim in_set_conv_decomp set_bm_values)
  from check_parents_Err [OF this(2)] this(1) show ?thesis by blast
qed

lemma register_valid_iff:
  "register_valid reg \<longleftrightarrow> keyed_by_id (revisions reg) \<and> ScalarRegister_validate reg = Ok ()"
  by (auto simp: register_valid_def validate_Ok_iff)

end
