(* ===== verification/Scalar_Merge.thy ===== *)
theory Scalar_Merge
  imports Scalar_Causality
begin

text \<open>
  State merge and local assignment of the causal register. For valid registers, merge is
  the least upper bound in the order of contained statements: it fails exactly when the two
  sides hold different statements under one identity, and never because of a cycle. From this
  characterisation follow commutativity, associativity and idempotence, the stability of
  ancestry under merge, and the frontier of the merged state. Local assignment observes
  the complete frontier and becomes the only visible revision.
\<close>

section \<open>The absorbing loop\<close>

lemma absorb_revision_Ok:
  "absorb_revision m (i, r) = Ok m' \<longleftrightarrow> bm_get m i \<in> {None, Some r} \<and> m' = bm_insert i r m"
  by (auto simp: absorb_revision_def bm_insert_same split: option.splits if_splits)

lemma absorb_all_Ok_aux:
  "try_fold absorb_revision m es = Ok m' \<Longrightarrow>
     bm_get m \<subseteq>\<^sub>m bm_get m' \<and> (\<forall>(i, r) \<in> set es. bm_get m' i = Some r) \<and>
     dom (bm_get m') = dom (bm_get m) \<union> fst ` set es"
proof (induction es arbitrary: m)
  case (Cons e es)
  obtain j q where e: "e = (j, q)" by fastforce
  with Cons.prems have old: "bm_get m j \<in> {None, Some q}"
    and rest: "try_fold absorb_revision (bm_insert j q m) es = Ok m'"
    by (auto simp: absorb_revision_Ok split: result.splits)
  from old have grow: "bm_get m \<subseteq>\<^sub>m bm_get (bm_insert j q m)"
    by (auto simp: map_le_def)
  note IH = Cons.IH [OF rest]
  from IH have le: "bm_get (bm_insert j q m) \<subseteq>\<^sub>m bm_get m'" by (rule conjunct1)
  from IH have es: "\<forall>(i, r) \<in> set es. bm_get m' i = Some r" by blast
  from IH have d: "dom (bm_get m') = insert j (dom (bm_get m)) \<union> fst ` set es"
    by (simp only: dom_bm_insert)
  from le have "bm_get m' j = Some q" by (auto simp: map_le_def)
  with grow le es d e show ?case by (auto intro: map_le_trans)
qed simp

lemma absorb_all_Ok:
  assumes "try_fold absorb_revision m es = Ok m'"
  shows "bm_get m \<subseteq>\<^sub>m bm_get m'" and "(i, r) \<in> set es \<Longrightarrow> bm_get m' i = Some r"
    and "dom (bm_get m') = dom (bm_get m) \<union> fst ` set es"
  using absorb_all_Ok_aux [OF assms] by auto

lemma absorb_all_bounded:
  assumes "bm_get m \<subseteq>\<^sub>m bm_get u" and "\<And>i r. (i, r) \<in> set es \<Longrightarrow> bm_get u i = Some r"
  shows "is_ok (try_fold absorb_revision m es)"
  using assms
proof (induction es arbitrary: m)
  case (Cons e es)
  obtain j q where e: "e = (j, q)" by fastforce
  with Cons.prems have q: "bm_get u j = Some q" by simp
  then have "bm_get m j \<in> {None, Some q}"
    using Cons.prems(1) by (cases "bm_get m j") (auto simp: map_le_def dom_def)
  then have step: "absorb_revision m e = Ok (bm_insert j q m)"
    by (simp add: e absorb_revision_Ok)
  have "bm_get (bm_insert j q m) \<subseteq>\<^sub>m bm_get u"
    using q Cons.prems(1) by (auto simp: map_le_def)
  from Cons.IH [OF this] Cons.prems(2) step show ?case by simp
qed simp

text \<open>The reported conflict is the least identity under which the two sides differ.\<close>

lemma absorb_all_Err:
  assumes "try_fold absorb_revision m es = Err e" and asc: "sorted_wrt (<) (map fst es)"
  shows "\<exists>i r r'. e = DuplicateRevisionConflict i \<and> bm_get m i = Some r \<and> (i, r') \<in> set es \<and> r \<noteq> r' \<and>
    (\<forall>j q q'. j < i \<longrightarrow> bm_get m j = Some q \<longrightarrow> (j, q') \<in> set es \<longrightarrow> q = q')"
proof -
  from assms(1) obtain ys x zs m' where es: "es = ys @ x # zs"
    and ys: "try_fold absorb_revision m ys = Ok m'" and x: "absorb_revision m' x = Err e"
    by (rule try_fold_Err_elim)
  obtain i r' where xi: "x = (i, r')" by fastforce
  have "i \<notin> fst ` set ys" using asc es xi by (auto simp: sorted_wrt_append)
  then have "i \<in> dom (bm_get m') \<Longrightarrow> bm_get m i = bm_get m' i"
    using absorb_all_Ok(1,3) [OF ys] by (auto simp: map_le_def)
  with x xi obtain r where r: "bm_get m i = Some r" "r \<noteq> r'" "e = DuplicateRevisionConflict i"
    by (auto simp: absorb_revision_def split: option.splits if_splits)
  have "q = q'" if "j < i" and q: "bm_get m j = Some q" and q': "(j, q') \<in> set es" for j q q'
  proof -
    have "(j, q') \<in> set ys" using that asc es xi by (auto simp: sorted_wrt_append)
    then have "bm_get m' j = Some q'" by (rule absorb_all_Ok(2) [OF ys])
    with q show ?thesis using absorb_all_Ok(1) [OF ys] by (force simp: map_le_def)
  qed
  with r es xi show ?thesis by auto
qed

section \<open>Merge is the least upper bound of valid registers\<close>

definition compatible :: "'v ScalarRegister \<Rightarrow> 'v ScalarRegister \<Rightarrow> bool" where
  "compatible a b \<longleftrightarrow>
     (\<forall>i \<in> dom (bm_get (revisions a)) \<inter> dom (bm_get (revisions b)).
        bm_get (revisions a) i = bm_get (revisions b) i)"

definition register_le :: "'v ScalarRegister \<Rightarrow> 'v ScalarRegister \<Rightarrow> bool" where
  "register_le a b \<longleftrightarrow> bm_get (revisions a) \<subseteq>\<^sub>m bm_get (revisions b)"

lemma register_eq_iff: "a = b \<longleftrightarrow> bm_get (revisions a) = bm_get (revisions b)" for a :: "'v ScalarRegister"
  by (cases a; cases b) (simp add: bm_eq_iff)

lemma register_le_refl [simp]: "register_le a a"
  by (simp add: register_le_def)

lemma register_le_trans: "register_le a b \<Longrightarrow> register_le b c \<Longrightarrow> register_le a c"
  by (auto simp: register_le_def intro: map_le_trans)

lemma register_le_antisym: "register_le a b \<Longrightarrow> register_le b a \<Longrightarrow> a = b"
  by (simp add: register_le_def register_eq_iff map_le_antisym)

lemma causal_edge_mono: "bm_get a \<subseteq>\<^sub>m bm_get b \<Longrightarrow> causal_edge a \<subseteq> causal_edge b"
  by (fastforce simp: causal_edge_def map_le_def dom_def)

text \<open>The history of a revision that a closed register holds is complete: no larger register
  adds an ancestor to it.\<close>

lemma causal_history_stable:
  assumes "bm_get a \<subseteq>\<^sub>m bm_get b" and "parents_closed a" and "x \<in> dom (bm_get a)"
    and "(x, y) \<in> (causal_edge b)\<^sup>+"
  shows "(x, y) \<in> (causal_edge a)\<^sup>+ \<and> y \<in> dom (bm_get a)"
  using assms(4)
proof (induction rule: trancl_induct)
  case (base y)
  have "bm_get b x = bm_get a x" using assms(1,3) by (auto simp: map_le_def)
  with base have "(x, y) \<in> causal_edge a" by (auto simp: causal_edge_def)
  with assms(2) show ?case by (auto simp: parents_closed_iff)
next
  case (step y z)
  have "bm_get b y = bm_get a y" using assms(1) step.IH by (auto simp: map_le_def)
  with step.hyps have "(y, z) \<in> causal_edge a" by (auto simp: causal_edge_def)
  with step.IH assms(2) show ?case by (auto simp: parents_closed_iff intro: trancl_into_trancl)
qed

lemma causal_trancl_mono:
  "bm_get a \<subseteq>\<^sub>m bm_get b \<Longrightarrow> (x, y) \<in> (causal_edge a)\<^sup>+ \<Longrightarrow> (x, y) \<in> (causal_edge b)\<^sup>+"
  by (rule trancl_mono [OF _ causal_edge_mono])

text \<open>The union of two valid registers that agree on their common identities is valid.\<close>

lemma union_valid:
  assumes "register_valid a" and "register_valid b" and "register_le a c" and "register_le b c"
    and "dom (bm_get (revisions c)) = dom (bm_get (revisions a)) \<union> dom (bm_get (revisions b))"
  shows "register_valid c"
proof -
  have part: "\<exists>d. (d = a \<or> d = b) \<and> i \<in> dom (bm_get (revisions d))
      \<and> bm_get (revisions c) i = bm_get (revisions d) i" if "i \<in> dom (bm_get (revisions c))" for i
    using that assms(3,4,5) unfolding register_le_def map_le_def by (metis Un_iff)
  have valid: "d = a \<or> d = b \<Longrightarrow> register_valid d \<and> bm_get (revisions d) \<subseteq>\<^sub>m bm_get (revisions c)" for d
    using assms(1-4) by (auto simp: register_le_def)
  have "keyed_by_id (revisions c)"
    unfolding keyed_by_id_def
  proof (intro allI impI)
    fix i r assume "bm_get (revisions c) i = Some r"
    then obtain d where "d = a \<or> d = b" and "bm_get (revisions d) i = Some r"
      using part by (metis domI)
    with valid show "rev_id r = i" by (auto simp: register_valid_def keyed_by_id_def)
  qed
  moreover have "parents_closed (revisions c)"
    unfolding parents_closed_def
  proof (intro allI impI)
    fix i r assume "bm_get (revisions c) i = Some r"
    then obtain d where "d = a \<or> d = b" and "bm_get (revisions d) i = Some r"
      using part by (metis domI)
    then have "bs_set (rev_parents r) \<subseteq> dom (bm_get (revisions d))"
      using valid by (auto simp: register_valid_def parents_closed_def)
    with valid \<open>d = a \<or> d = b\<close> show "bs_set (rev_parents r) \<subseteq> dom (bm_get (revisions c))"
      using assms(5) by blast
  qed
  moreover have "acyclic (causal_edge (revisions c))"
    unfolding acyclic_def
  proof (intro allI notI)
    fix x assume cycle: "(x, x) \<in> (causal_edge (revisions c))\<^sup>+"
    then obtain d where d: "d = a \<or> d = b" and "x \<in> dom (bm_get (revisions d))"
      using part [OF causal_trancl_Domain [OF cycle]] by blast
    with cycle have "(x, x) \<in> (causal_edge (revisions d))\<^sup>+"
      using causal_history_stable [of "revisions d" "revisions c" x x] valid [OF d]
      by (simp add: register_valid_def)
    with valid [OF d] show False by (auto simp: register_valid_def acyclic_def)
  qed
  ultimately show ?thesis by (simp add: register_valid_def)
qed

lemma merge_Ok_imp_lub:
  assumes "ScalarRegister_merge a b = Ok c"
  shows "register_le a c" and "register_le b c"
    and "dom (bm_get (revisions c)) = dom (bm_get (revisions a)) \<union> dom (bm_get (revisions b))"
proof -
  from assms have absorb:
    "try_fold absorb_revision (revisions a) (bm_entries (revisions b)) = Ok (revisions c)"
    by (auto simp: ScalarRegister_merge_def split: result.splits)
  show "register_le a c" using absorb_all_Ok(1) [OF absorb] by (simp add: register_le_def)
  show "register_le b c"
    using absorb_all_Ok(2) [OF absorb] by (auto simp: register_le_def map_le_def)
  show "dom (bm_get (revisions c)) = dom (bm_get (revisions a)) \<union> dom (bm_get (revisions b))"
    using absorb_all_Ok(3) [OF absorb] by (metis bm_keys_def list.set_map set_bm_keys)
qed

lemma merge_Ok_iff:
  assumes "register_valid a" and "register_valid b"
  shows "ScalarRegister_merge a b = Ok c \<longleftrightarrow>
    register_le a c \<and> register_le b c \<and>
    dom (bm_get (revisions c)) = dom (bm_get (revisions a)) \<union> dom (bm_get (revisions b))"
    (is "?merge \<longleftrightarrow> ?lub")
proof
  assume ?merge
  then show ?lub by (simp add: merge_Ok_imp_lub)
next
  assume lub: ?lub
  have "is_ok (try_fold absorb_revision (revisions a) (bm_entries (revisions b)))"
    using lub by (intro absorb_all_bounded [of _ "revisions c"])
      (auto simp: register_le_def map_le_def dom_def)
  then obtain m where m: "try_fold absorb_revision (revisions a) (bm_entries (revisions b)) = Ok m"
    by (auto simp: is_ok_iff)
  have le: "bm_get (revisions a) \<subseteq>\<^sub>m bm_get m" "bm_get (revisions b) \<subseteq>\<^sub>m bm_get m"
    using absorb_all_Ok(1,2) [OF m] by (auto simp: map_le_def)
  have dom: "dom (bm_get m) = dom (bm_get (revisions a)) \<union> dom (bm_get (revisions b))"
    using absorb_all_Ok(3) [OF m] by (metis bm_keys_def list.set_map set_bm_keys)
  have "bm_get m i = bm_get (revisions c) i" for i
    using le dom lub unfolding register_le_def map_le_def by (metis Un_iff domIff)
  then have "m = revisions c" by (rule bm_eqI)
  moreover have "register_valid c" using union_valid [OF assms] lub by blast
  ultimately show ?merge
    using m by (cases c) (simp add: ScalarRegister_merge_def register_valid_iff)
qed

section \<open>Merge laws\<close>

lemma merge_valid:
  "register_valid a \<Longrightarrow> register_valid b \<Longrightarrow> ScalarRegister_merge a b = Ok c \<Longrightarrow> register_valid c"
  by (rule union_valid [of a b c]) (simp_all add: merge_Ok_imp_lub)

lemma merge_bounded:
  assumes "register_valid a" and "register_valid b" and "register_le a u" and "register_le b u"
  shows "\<exists>c. ScalarRegister_merge a b = Ok c \<and> register_le c u"
proof -
  have "is_ok (try_fold absorb_revision (revisions a) (bm_entries (revisions b)))"
    using assms(3,4) by (intro absorb_all_bounded [of _ "revisions u"])
      (auto simp: register_le_def map_le_def dom_def)
  then obtain m where m: "try_fold absorb_revision (revisions a) (bm_entries (revisions b)) = Ok m"
    by (auto simp: is_ok_iff)
  let ?c = "\<lparr>revisions = m\<rparr>"
  have le: "register_le a ?c" "register_le b ?c"
    using absorb_all_Ok(1,2) [OF m] by (auto simp: register_le_def map_le_def)
  have dom: "dom (bm_get m) = dom (bm_get (revisions a)) \<union> dom (bm_get (revisions b))"
    using absorb_all_Ok(3) [OF m] by (metis bm_keys_def list.set_map set_bm_keys)
  with le have "ScalarRegister_merge a b = Ok ?c"
    by (simp add: merge_Ok_iff [OF assms(1,2)])
  moreover have "register_le ?c u"
    using le dom assms(3,4) unfolding register_le_def map_le_def
    by (metis (no_types, lifting) ScalarRegister.select_convs(1) Un_iff)
  ultimately show ?thesis by blast
qed

text \<open>Two valid registers fail to merge only on an identity with two different statements, and
  the error names the least such identity.\<close>

lemma merge_Err:
  assumes "register_valid a" and "register_valid b" and "ScalarRegister_merge a b = Err e"
  shows "\<exists>i r r'. e = DuplicateRevisionConflict i \<and> bm_get (revisions a) i = Some r \<and>
    bm_get (revisions b) i = Some r' \<and> r \<noteq> r' \<and>
    (\<forall>j q q'. j < i \<longrightarrow> bm_get (revisions a) j = Some q \<longrightarrow> bm_get (revisions b) j = Some q' \<longrightarrow> q = q')"
proof (cases "try_fold absorb_revision (revisions a) (bm_entries (revisions b))")
  case (Err e')
  with assms(3) have "e' = e" by (simp add: ScalarRegister_merge_def)
  with absorb_all_Err [OF Err] bm_keys_ascending [of "revisions b"] show ?thesis
    by (auto simp: bm_keys_def)
next
  case (Ok m)
  have le: "register_le a \<lparr>revisions = m\<rparr>" "register_le b \<lparr>revisions = m\<rparr>"
    using absorb_all_Ok(1,2) [OF Ok] by (auto simp: register_le_def map_le_def)
  with merge_bounded [OF assms(1,2)] assms(3) show ?thesis by force
qed

lemma merge_commute:
  assumes "register_valid a" and "register_valid b"
  shows "ScalarRegister_merge a b = ScalarRegister_merge b a"
proof (cases "ScalarRegister_merge a b")
  case (Ok c)
  then show ?thesis using merge_Ok_iff assms by (metis Un_commute)
next
  case (Err e)
  show ?thesis
  proof (cases "ScalarRegister_merge b a")
    case (Ok c)
    then have "ScalarRegister_merge a b = Ok c" using merge_Ok_iff assms by (metis Un_commute)
    with Err show ?thesis by simp
  next
    case err': (Err e')
    from merge_Err [OF assms Err] merge_Err [OF assms(2,1) err'] have "e = e'"
      by (metis linorder_neqE)
    with Err err' show ?thesis by simp
  qed
qed

lemma merge_assoc:
  assumes v: "register_valid a" "register_valid b" "register_valid c"
    and ab: "ScalarRegister_merge a b = Ok ab" and abc: "ScalarRegister_merge ab c = Ok r"
  shows "\<exists>bc. ScalarRegister_merge b c = Ok bc \<and> ScalarRegister_merge a bc = Ok r"
proof -
  note ab' = merge_Ok_imp_lub [OF ab] and abc' = merge_Ok_imp_lub [OF abc]
  have "register_le b r" using ab'(2) abc'(1) by (rule register_le_trans)
  from merge_bounded [OF v(2,3) this abc'(2)] obtain bc where
    bc: "ScalarRegister_merge b c = Ok bc" and "register_le bc r" by blast
  moreover have "register_le a r" using ab'(1) abc'(1) by (rule register_le_trans)
  moreover have "register_valid bc" using merge_valid v(2,3) bc by blast
  ultimately have "ScalarRegister_merge a bc = Ok r"
    using merge_Ok_iff [OF v(1)] merge_Ok_imp_lub(3) [OF bc] ab'(3) abc'(3)
    by (simp add: Un_assoc)
  with bc show ?thesis by blast
qed

lemma merge_absorb:
  assumes "register_valid a" and "register_valid b" and "register_le a b"
  shows "ScalarRegister_merge a b = Ok b"
  using map_le_implies_dom_le [of "bm_get (revisions a)" "bm_get (revisions b)"] assms
  by (simp add: merge_Ok_iff register_le_def Un_absorb1)

lemma merge_idem: "register_valid a \<Longrightarrow> ScalarRegister_merge a a = Ok a"
  by (simp add: merge_absorb)

lemma merge_Ok_lookup:
  assumes "ScalarRegister_merge a b = Ok c"
  shows "bm_get (revisions c) i =
    (case bm_get (revisions a) i of Some r \<Rightarrow> Some r | None \<Rightarrow> bm_get (revisions b) i)"
proof -
  note lub = merge_Ok_imp_lub [OF assms]
  have "i \<in> dom (bm_get (revisions c)) \<longleftrightarrow> i \<in> dom (bm_get (revisions a)) \<or> i \<in> dom (bm_get (revisions b))"
    using lub(3) by blast
  with lub(1,2) show ?thesis
    by (auto simp: register_le_def map_le_def domIff split: option.splits) (metis domI option.inject)+
qed

lemma merge_Ok_compatible:
  assumes "register_valid a" and "register_valid b"
  shows "(\<exists>c. ScalarRegister_merge a b = Ok c) \<longleftrightarrow> compatible a b"
proof
  assume "\<exists>c. ScalarRegister_merge a b = Ok c"
  then obtain c where "ScalarRegister_merge a b = Ok c" ..
  from merge_Ok_imp_lub [OF this] show "compatible a b"
    by (auto simp: compatible_def register_le_def map_le_def)
next
  assume comp: "compatible a b"
  show "\<exists>c. ScalarRegister_merge a b = Ok c"
  proof (cases "ScalarRegister_merge a b")
    case (Err e)
    from merge_Err [OF assms Err] obtain i r r' where
      "bm_get (revisions a) i = Some r" "bm_get (revisions b) i = Some r'" "r \<noteq> r'" by blast
    with comp show ?thesis by (force simp: compatible_def)
  qed simp
qed

section \<open>Frontier, ancestry and the visible value\<close>

lemma union_causal_edge:
  assumes "register_le a c" and "register_le b c"
    and "dom (bm_get (revisions c)) = dom (bm_get (revisions a)) \<union> dom (bm_get (revisions b))"
  shows "causal_edge (revisions c) = causal_edge (revisions a) \<union> causal_edge (revisions b)"
proof
  show "causal_edge (revisions a) \<union> causal_edge (revisions b) \<subseteq> causal_edge (revisions c)"
    using assms(1,2) causal_edge_mono by (auto simp: register_le_def)
  show "causal_edge (revisions c) \<subseteq> causal_edge (revisions a) \<union> causal_edge (revisions b)"
    using assms by (auto simp: causal_edge_def register_le_def map_le_def) (metis UnE domI domIff)
qed

lemma merge_trancl:
  assumes "register_valid a" and "register_valid b" and "ScalarRegister_merge a b = Ok c"
  shows "(y, x) \<in> (causal_edge (revisions c))\<^sup>+ \<longleftrightarrow>
    (y, x) \<in> (causal_edge (revisions a))\<^sup>+ \<or> (y, x) \<in> (causal_edge (revisions b))\<^sup>+"
proof
  note lub = merge_Ok_imp_lub [OF assms(3)]
  assume path: "(y, x) \<in> (causal_edge (revisions c))\<^sup>+"
  then have "y \<in> dom (bm_get (revisions a)) \<union> dom (bm_get (revisions b))"
    using causal_trancl_Domain lub(3) by blast
  then show "(y, x) \<in> (causal_edge (revisions a))\<^sup>+ \<or> (y, x) \<in> (causal_edge (revisions b))\<^sup>+"
    using causal_history_stable [OF _ _ _ path] assms(1,2) lub(1,2)
    by (auto simp: register_le_def register_valid_def)
qed (use merge_Ok_imp_lub [OF assms(3)] causal_trancl_mono in \<open>auto simp: register_le_def\<close>)

lemma merge_frontier_subset:
  assumes "register_valid a" and "register_valid b" and "ScalarRegister_merge a b = Ok c"
  shows "bs_set (ScalarRegister_frontier_ids c) \<subseteq>
    bs_set (ScalarRegister_frontier_ids a) \<union> bs_set (ScalarRegister_frontier_ids b)"
  using union_causal_edge [OF merge_Ok_imp_lub [OF assms(3)]] merge_Ok_imp_lub(3) [OF assms(3)]
  by (auto simp: bs_set_frontier_ids)

lemma frontier_nonempty:
  assumes "register_valid reg" and "dom (bm_get (revisions reg)) \<noteq> {}"
  shows "bs_set (ScalarRegister_frontier_ids reg) \<noteq> {}"
proof -
  let ?E = "causal_edge (revisions reg)"
  have "wf ?E" using assms(1) finite_causal_edge
    by (auto simp: register_valid_def intro: finite_acyclic_wf)
  with assms(2) obtain z where "z \<in> dom (bm_get (revisions reg))"
    and "\<And>y. (y, z) \<in> ?E \<Longrightarrow> y \<notin> dom (bm_get (revisions reg))"
    by (metis ex_in_conv wfE_min)
  then have "z \<in> bs_set (ScalarRegister_frontier_ids reg)"
    by (auto simp: bs_set_frontier_ids dest: causal_edge_Domain)
  then show ?thesis by blast
qed

lemma materialized_revision_Max:
  assumes "register_valid reg" and "dom (bm_get (revisions reg)) \<noteq> {}"
  shows "\<exists>r. ScalarRegister_materialized_revision reg = Some r \<and>
    rev_id r = Max (bs_set (ScalarRegister_frontier_ids reg)) \<and>
    bm_get (revisions reg) (rev_id r) = Some r"
proof -
  let ?F = "bs_set (ScalarRegister_frontier_ids reg)"
  have "Max ?F \<in> ?F" using frontier_nonempty [OF assms] by simp
  then obtain r where "bm_get (revisions reg) (Max ?F) = Some r"
    using frontier_subset [of reg] by auto
  moreover have "rev_id r = Max ?F"
    using calculation assms(1) by (auto simp: register_valid_def keyed_by_id_def)
  ultimately show ?thesis
    using frontier_nonempty [OF assms]
    by (simp add: ScalarRegister_materialized_revision_def bs_next_back_Max)
qed

section \<open>Insertion and local assignment\<close>

lemma insert_revision_valid:
  assumes "register_valid reg" and "rev_id r \<notin> dom (bm_get (revisions reg))"
    and "bs_set (rev_parents r) \<subseteq> dom (bm_get (revisions reg))"
  shows "register_valid (reg\<lparr>revisions := bm_insert (rev_id r) r (revisions reg)\<rparr>)"
proof -
  let ?m = "revisions reg" and ?m' = "bm_insert (rev_id r) r (revisions reg)"
  have le: "bm_get ?m \<subseteq>\<^sub>m bm_get ?m'" using assms(2) by (auto simp: map_le_def)
  have "Range (causal_edge ?m') \<subseteq> Range (causal_edge ?m) \<union> bs_set (rev_parents r)"
    by (auto simp: causal_edge_def split: if_splits)
  then have closed: "parents_closed ?m'"
    using assms unfolding register_valid_def parents_closed_iff dom_bm_insert by blast
  have "acyclic (causal_edge ?m')"
    unfolding acyclic_def
  proof (intro allI notI)
    fix x assume cycle: "(x, x) \<in> (causal_edge ?m')\<^sup>+"
    show False
    proof (cases "x \<in> dom (bm_get ?m)")
      case True
      with cycle le assms(1) have "(x, x) \<in> (causal_edge ?m)\<^sup>+"
        using causal_history_stable [of ?m ?m' x x] by (simp add: register_valid_def)
      with assms(1) show False by (auto simp: register_valid_def acyclic_def)
    next
      case False
      with cycle have x: "x = rev_id r" by (auto dest: causal_trancl_Domain)
      from cycle obtain y where "(y, x) \<in> causal_edge ?m'" by (meson tranclE)
      with x have "rev_id r \<in> Range (causal_edge ?m) \<or> rev_id r \<in> bs_set (rev_parents r)"
        by (auto simp: causal_edge_def split: if_splits)
      with assms show False by (auto simp: register_valid_def parents_closed_iff)
    qed
  qed
  moreover have "keyed_by_id ?m'" using assms(1) by (auto simp: register_valid_def keyed_by_id_def)
  ultimately show ?thesis using closed by (simp add: register_valid_def)
qed

lemma insert_revision_fresh:
  assumes "rev_id r \<notin> dom (bm_get (revisions reg))"
    and "bs_set (rev_parents r) \<subseteq> dom (bm_get (revisions reg))"
  shows "ScalarRegister_insert_revision reg r =
    (Ok (), reg\<lparr>revisions := bm_insert (rev_id r) r (revisions reg)\<rparr>)"
proof -
  have "bm_get (revisions reg) (rev_id r) = None" using assms(1) by auto
  moreover have "check_parents (revisions reg) r = Ok ()" using assms(2) by (simp add: check_parents_Ok)
  ultimately show ?thesis by (simp add: ScalarRegister_insert_revision_def)
qed

lemma insert_revision_preserves_valid:
  "register_valid reg \<Longrightarrow> register_valid (snd (ScalarRegister_insert_revision reg r))"
proof (cases "rev_id r \<in> dom (bm_get (revisions reg)) \<or> \<not> bs_set (rev_parents r) \<subseteq> dom (bm_get (revisions reg))")
  case True
  assume "register_valid reg"
  with True show ?thesis
    by (auto simp: ScalarRegister_insert_revision_def check_parents_Ok split: option.splits result.splits)
next
  case False
  assume "register_valid reg"
  with False show ?thesis by (simp add: insert_revision_fresh insert_revision_valid)
qed

definition assigned :: "'v ScalarRegister \<Rightarrow> RevisionId \<Rightarrow> 'v \<Rightarrow> 'v ScalarRegister" where
  "assigned reg i v =
     reg\<lparr>revisions := bm_insert i (ScalarRevision_new i v (ScalarRegister_frontier_ids reg)) (revisions reg)\<rparr>"

lemma assign_fresh:
  assumes "i \<notin> dom (bm_get (revisions reg))"
  shows "ScalarRegister_assign reg i v = (Ok (), assigned reg i v)"
  using assms frontier_subset [of reg]
  by (simp add: ScalarRegister_assign_def assigned_def insert_revision_fresh ScalarRevision_new_def)

lemma assigned_valid:
  assumes "register_valid reg" and "i \<notin> dom (bm_get (revisions reg))"
  shows "register_valid (assigned reg i v)"
  using insert_revision_valid [of reg "ScalarRevision_new i v (ScalarRegister_frontier_ids reg)"]
    assms frontier_subset [of reg]
  by (simp add: assigned_def ScalarRevision_new_def)

lemma assigned_frontier:
  assumes "register_valid reg" and "i \<notin> dom (bm_get (revisions reg))"
  shows "bs_set (ScalarRegister_frontier_ids (assigned reg i v)) = {i}"
proof -
  let ?m = "revisions reg"
  have edges: "causal_edge (revisions (assigned reg i v)) =
      causal_edge ?m \<union> {i} \<times> (dom (bm_get ?m) - Range (causal_edge ?m))"
    using assms(2) bs_set_frontier_ids [of reg]
    by (auto simp: causal_edge_def assigned_def ScalarRevision_new_def split: if_splits)
  have "Range (causal_edge ?m) \<subseteq> dom (bm_get ?m)"
    using assms(1) by (simp add: register_valid_def parents_closed_iff)
  then have "Range (causal_edge (revisions (assigned reg i v))) = dom (bm_get ?m)"
    unfolding edges by auto
  then show ?thesis
    using assms(2) by (auto simp: bs_set_frontier_ids) (auto simp: assigned_def)
qed

lemma assigned_materialized:
  assumes "register_valid reg" and "i \<notin> dom (bm_get (revisions reg))"
  shows "ScalarRegister_materialized (assigned reg i v) = Some v"
proof -
  have "bs_next_back (ScalarRegister_frontier_ids (assigned reg i v)) = Some i"
    using assigned_frontier [OF assms] by (simp add: bs_next_back_Max)
  then show ?thesis
    by (simp add: ScalarRegister_materialized_def ScalarRegister_materialized_revision_def
        assigned_def ScalarRevision_new_def)
qed

lemma ScalarRegister_new_valid [simp]: "register_valid ScalarRegister_new"
  by (simp add: ScalarRegister_new_def register_valid_def keyed_by_id_def parents_closed_def
      causal_edge_def acyclic_def)

lemma from_revisions_valid:
  assumes "ScalarRegister_from_revisions rs = Ok reg"
  shows "register_valid reg"
proof -
  from assms obtain m where fold: "try_fold absorb_revision bm_empty (map (\<lambda>r. (rev_id r, r)) rs) = Ok m"
    and reg: "reg = \<lparr>revisions = m\<rparr>" and val: "ScalarRegister_validate reg = Ok ()"
    by (auto simp: ScalarRegister_from_revisions_def split: result.splits)
  have "rev_id r = i" if "bm_get m i = Some r" for i r
  proof -
    have "i \<in> fst ` set (map (\<lambda>r. (rev_id r, r)) rs)"
      using absorb_all_Ok(3) [OF fold] that by (auto simp: dom_def)
    then obtain r' where "(i, r') \<in> set (map (\<lambda>r. (rev_id r, r)) rs)" by force
    with absorb_all_Ok(2) [OF fold this] that show ?thesis by auto
  qed
  with reg val show ?thesis by (simp add: register_valid_iff keyed_by_id_def)
qed

text \<open>A valid register is rebuilt from the list of its revisions.\<close>

lemma absorb_own_entries: "try_fold absorb_revision bm_empty (bm_entries m) = Ok m"
proof -
  have "is_ok (try_fold absorb_revision bm_empty (bm_entries m))"
    by (rule absorb_all_bounded [of _ m]) (simp_all add: map_le_def)
  then obtain m' where m': "try_fold absorb_revision bm_empty (bm_entries m) = Ok m'"
    unfolding is_ok_iff ..
  have "fst ` set (bm_entries m) = dom (bm_get m)"
    by (metis bm_keys_def list.set_map set_bm_keys)
  then have "dom (bm_get m') = dom (bm_get m)" using absorb_all_Ok(3) [OF m'] by simp
  moreover have "bm_get m k = Some r \<Longrightarrow> bm_get m' k = Some r" for k r
    using absorb_all_Ok(2) [OF m'] by simp
  ultimately have "bm_get m' k = bm_get m k" for k
    by (cases "bm_get m k") (auto simp: domIff)
  then have "m' = m" by (rule bm_eqI)
  with m' show ?thesis by simp
qed

lemma from_revisions_revisions:
  assumes "register_valid reg"
  shows "ScalarRegister_from_revisions (ScalarRegister_revisions reg) = Ok reg"
proof -
  have key: "rev_id (snd e) = fst e" if "e \<in> set (bm_entries (revisions reg))" for e
    using that assms bm_entries_iff [of "fst e" "snd e" "revisions reg"]
    by (auto simp: register_valid_def keyed_by_id_def simp del: bm_entries_iff)
  then have "map (\<lambda>r. (rev_id r, r)) (bm_values (revisions reg)) = bm_entries (revisions reg)"
    by (simp add: bm_values_def comp_def map_idI)
  then show ?thesis
    using assms
    by (cases reg) (simp add: ScalarRegister_from_revisions_def ScalarRegister_revisions_def absorb_own_entries
        register_valid_iff)
qed

end
