(* ===== verification/Merge_State.thy ===== *)
theory Merge_State
  imports Scalar_Merge
begin

text \<open>
  The trait \<^verbatim>\<open>MergeState\<close> of \<^verbatim>\<open>apc-core/src/merge.rs\<close> as a locale with the laws its
  documentation promises (determinism, commutativity, associativity, idempotence for valid
  states), and the shells of \<^verbatim>\<open>apc-core/src/state.rs\<close> that compose it: \<^verbatim>\<open>AtomMap\<close> and
  \<^verbatim>\<open>ContinuumState\<close>. The client lemmas proved once in the locale are the order of states
  that merge induces and strong convergence: the outcome of merging in a collection of
  states depends on neither the delivery order nor repetition. The locale is
  interpreted on \<^verbatim>\<open>ScalarRegister\<close>, on maps of mergeable states and on continua.
\<close>

section \<open>The interface\<close>

locale merge_state =
  fixes merge :: "'s \<Rightarrow> 's \<Rightarrow> ('s, 'e) result"
    and valid :: "'s \<Rightarrow> bool"
  assumes valid_merge: "valid a \<Longrightarrow> valid b \<Longrightarrow> merge a b = Ok c \<Longrightarrow> valid c"
    and commutes: "valid a \<Longrightarrow> valid b \<Longrightarrow> merge a b = Ok c \<Longrightarrow> merge b a = Ok c"
    and associates: "valid a \<Longrightarrow> valid b \<Longrightarrow> valid c \<Longrightarrow> merge a b = Ok ab \<Longrightarrow> merge ab c = Ok r \<Longrightarrow>
      \<exists>bc. merge b c = Ok bc \<and> merge a bc = Ok r"
    and idempotent: "valid a \<Longrightarrow> merge a a = Ok a"
begin

lemma upper1: "valid a \<Longrightarrow> valid b \<Longrightarrow> merge a b = Ok c \<Longrightarrow> merge a c = Ok c"
  by (metis associates idempotent result.inject(1))

lemma upper2: "valid a \<Longrightarrow> valid b \<Longrightarrow> merge a b = Ok c \<Longrightarrow> merge b c = Ok c"
  by (metis upper1 commutes)

lemma le_trans:
  "valid a \<Longrightarrow> valid b \<Longrightarrow> valid c \<Longrightarrow> merge a b = Ok b \<Longrightarrow> merge b c = Ok c \<Longrightarrow> merge a c = Ok c"
  by (metis associates result.inject(1))

lemma le_antisym:
  "valid a \<Longrightarrow> valid b \<Longrightarrow> merge a b = Ok b \<Longrightarrow> merge b a = Ok a \<Longrightarrow> a = b"
  by (metis commutes result.inject(1))

lemma bounded_merge:
  assumes v: "valid a" "valid b" "valid u" and "merge a u = Ok u" "merge b u = Ok u"
  shows "\<exists>c. merge a b = Ok c \<and> valid c \<and> merge c u = Ok u"
proof -
  from assms have "merge u b = Ok u" "merge u a = Ok u" using commutes by blast+
  with associates [OF v(3,2,1)] obtain c where c: "merge b a = Ok c" "merge u c = Ok u" by blast
  then have "valid c" using valid_merge v by blast
  with c v show ?thesis using commutes by blast
qed

text \<open>Folding a list of states into a start state is the least upper bound of them all.\<close>

lemma merge_all_upper:
  "valid s \<Longrightarrow> \<forall>x \<in> set xs. valid x \<Longrightarrow> try_fold merge s xs = Ok r \<Longrightarrow>
     valid r \<and> (\<forall>x \<in> insert s (set xs). merge x r = Ok r)"
proof (induction xs arbitrary: s)
  case Nil
  then show ?case by (simp add: idempotent)
next
  case (Cons x xs)
  then obtain s1 where s1: "merge s x = Ok s1" and rest: "try_fold merge s1 xs = Ok r"
    by (auto split: result.splits)
  have v1: "valid s1" using Cons.prems s1 by (metis list.set_intros(1) valid_merge)
  from Cons.IH [OF v1 _ rest] Cons.prems(2) have
    r: "valid r" "merge s1 r = Ok r" "\<forall>y \<in> set xs. merge y r = Ok r" by auto
  moreover have "valid s" "valid x" using Cons.prems by simp_all
  then have "merge s s1 = Ok s1" "merge x s1 = Ok s1" using upper1 upper2 s1 by metis+
  then have "merge s r = Ok r" "merge x r = Ok r"
    using le_trans [OF _ v1 r(1) _ r(2)] \<open>valid s\<close> \<open>valid x\<close> by metis+
  ultimately show ?case by auto
qed

lemma merge_all_least:
  "valid s \<Longrightarrow> \<forall>x \<in> set xs. valid x \<Longrightarrow> valid u \<Longrightarrow> \<forall>x \<in> insert s (set xs). merge x u = Ok u \<Longrightarrow>
     \<exists>r. try_fold merge s xs = Ok r \<and> merge r u = Ok u"
proof (induction xs arbitrary: s)
  case (Cons x xs)
  then obtain s1 where "merge s x = Ok s1" "valid s1" "merge s1 u = Ok u"
    using bounded_merge [of s x u] by auto
  with Cons show ?case by auto
qed simp

lemma convergence:
  assumes "valid s" and "\<forall>x \<in> set xs. valid x" and "set ys = set xs" and "try_fold merge s xs = Ok r"
  shows "try_fold merge s ys = Ok r"
proof -
  have up: "valid r" "\<forall>x \<in> insert s (set ys). merge x r = Ok r"
    using merge_all_upper [OF assms(1,2,4)] assms(3) by auto
  obtain q where q: "try_fold merge s ys = Ok q" "merge q r = Ok r"
    using merge_all_least [OF assms(1) _ up] assms(2,3) by auto
  have upq: "valid q" "\<forall>x \<in> insert s (set xs). merge x q = Ok q"
    using merge_all_upper [OF assms(1) _ q(1)] assms(2,3) by auto
  obtain r' where "try_fold merge s xs = Ok r'" "merge r' q = Ok q"
    using merge_all_least [OF assms(1,2) upq] by auto
  with assms(4) have "merge r q = Ok q" by simp
  with q(2) up(1) upq(1) have "q = r" by (auto intro: le_antisym)
  with q(1) show ?thesis by simp
qed

end

section \<open>Keyed composition\<close>

text \<open>The body \<^verbatim>\<open>if let Some(left) = merged.get(key) ...\<close> shared by \<^verbatim>\<open>AtomMap\<close> and
  \<^verbatim>\<open>SyncProjection\<close>: a shared key delegates to its own merge, a new key is copied.\<close>

definition merge_entry ::
    "('s \<Rightarrow> 's \<Rightarrow> ('s, 'e) result) \<Rightarrow> ('k::linorder, 's) btree_map \<Rightarrow> 'k \<times> 's \<Rightarrow>
     (('k, 's) btree_map, 'e) result" where
  "merge_entry mrg m e =
     (case e of (k, incoming) \<Rightarrow>
        (case bm_get m k of
           Some current \<Rightarrow>
             (case mrg current incoming of
                Err er \<Rightarrow> Err er
              | Ok v \<Rightarrow> Ok (bm_insert k v m))
         | None \<Rightarrow> Ok (bm_insert k incoming m)))"

definition merge_entries ::
    "('s \<Rightarrow> 's \<Rightarrow> ('s, 'e) result) \<Rightarrow> ('k::linorder, 's) btree_map \<Rightarrow> ('k, 's) btree_map \<Rightarrow>
     (('k, 's) btree_map, 'e) result" where
  "merge_entries mrg m m' = try_fold (merge_entry mrg) m (bm_entries m')"

record 'a AtomMap =
  atoms :: "(AtomId, 'a) btree_map"

definition AtomMap_new :: "'a AtomMap" where
  "AtomMap_new = \<lparr>atoms = bm_empty\<rparr>"

definition AtomMap_get :: "'a AtomMap \<Rightarrow> AtomId \<Rightarrow> 'a option" where
  "AtomMap_get am i = bm_get (atoms am) i"

definition AtomMap_insert_new :: "'a AtomMap \<Rightarrow> AtomId \<Rightarrow> 'a \<Rightarrow> (unit, CoreError) result \<times> 'a AtomMap" where
  "AtomMap_insert_new am i a =
     (if bm_contains_key (atoms am) i then (Err (DuplicateAtomId i), am)
      else (Ok (), am\<lparr>atoms := bm_insert i a (atoms am)\<rparr>))"

definition AtomMap_merge_state ::
    "('a \<Rightarrow> 'a \<Rightarrow> ('a, CoreError) result) \<Rightarrow> 'a AtomMap \<Rightarrow> 'a AtomMap \<Rightarrow> ('a AtomMap, CoreError) result" where
  "AtomMap_merge_state mrg self other =
     (case merge_entries mrg (atoms self) (atoms other) of
        Err e \<Rightarrow> Err e
      | Ok m \<Rightarrow> Ok \<lparr>atoms = m\<rparr>)"

record 'a ContinuumState =
  continuum_id :: ContinuumId
  cs_atoms :: "'a AtomMap"

definition ContinuumState_new :: "ContinuumId \<Rightarrow> 'a ContinuumState" where
  "ContinuumState_new c = \<lparr>continuum_id = c, cs_atoms = AtomMap_new\<rparr>"

definition ContinuumState_merge_state ::
    "('a \<Rightarrow> 'a \<Rightarrow> ('a, CoreError) result) \<Rightarrow> 'a ContinuumState \<Rightarrow> 'a ContinuumState \<Rightarrow>
     ('a ContinuumState, CoreError) result" where
  "ContinuumState_merge_state mrg self other =
     (if continuum_id self \<noteq> continuum_id other
      then Err (ContinuumMismatch (continuum_id self) (continuum_id other))
      else
        (case AtomMap_merge_state mrg (cs_atoms self) (cs_atoms other) of
           Err e \<Rightarrow> Err e
         | Ok am \<Rightarrow> Ok \<lparr>continuum_id = continuum_id self, cs_atoms = am\<rparr>))"

section \<open>Composition inherits the laws\<close>

text \<open>The pointwise merge of two optional values at one key.\<close>

definition merge_opt ::
    "('s \<Rightarrow> 's \<Rightarrow> ('s, 'e) result) \<Rightarrow> 's option \<Rightarrow> 's option \<Rightarrow> 's option \<Rightarrow> bool" where
  "merge_opt mrg x y z =
     (case (x, y) of
        (Some a, Some b) \<Rightarrow> (\<exists>c. mrg a b = Ok c \<and> z = Some c)
      | (Some a, None) \<Rightarrow> z = Some a
      | (None, _) \<Rightarrow> z = y)"

lemma merge_opt_unique: "merge_opt mrg x y z \<Longrightarrow> merge_opt mrg x y z' \<Longrightarrow> z = z'"
  by (auto simp: merge_opt_def split: option.splits)

lemma merge_entry_Ok:
  "merge_entry mrg m (k, v) = Ok m' \<longleftrightarrow>
     (\<exists>w. merge_opt mrg (bm_get m k) (Some v) (Some w) \<and> m' = bm_insert k w m)"
  by (auto simp: merge_entry_def merge_opt_def split: option.splits result.splits)

lemma merge_fold_Ok:
  assumes "distinct (map fst es)"
  shows "try_fold (merge_entry mrg) m es = Ok r \<longleftrightarrow>
    (\<forall>k. merge_opt mrg (bm_get m k) (map_of es k) (bm_get r k))"
  using assms
proof (induction es arbitrary: m)
  case Nil
  have "(\<forall>k. merge_opt mrg (bm_get m k) None (bm_get r k)) \<longleftrightarrow> (\<forall>k. bm_get r k = bm_get m k)"
    by (rule iff_allI) (auto simp: merge_opt_def split: option.splits)
  then show ?case by (auto simp: bm_eq_iff)
next
  case (Cons e es)
  obtain k v where e: "e = (k, v)" by fastforce
  have "try_fold (merge_entry mrg) m (e # es) = Ok r \<longleftrightarrow>
      (\<exists>w. merge_opt mrg (bm_get m k) (Some v) (Some w) \<and>
        try_fold (merge_entry mrg) (bm_insert k w m) es = Ok r)"
  proof (cases "merge_entry mrg m (k, v)")
    case (Ok m1)
    then obtain w where w: "merge_opt mrg (bm_get m k) (Some v) (Some w)" "m1 = bm_insert k w m"
      by (auto simp: merge_entry_Ok)
    with Ok show ?thesis by (auto simp: e dest: merge_opt_unique)
  next
    case (Err er)
    then have "\<nexists>w. merge_opt mrg (bm_get m k) (Some v) (Some w)"
      using merge_entry_Ok [of mrg m k v] by auto
    with Err show ?thesis by (simp add: e)
  qed
  also have "\<dots> \<longleftrightarrow> (\<exists>w. merge_opt mrg (bm_get m k) (Some v) (Some w) \<and>
      (\<forall>j. merge_opt mrg (bm_get (bm_insert k w m) j) (map_of es j) (bm_get r j)))"
    using Cons by simp
  also have "\<dots> \<longleftrightarrow> (\<forall>j. merge_opt mrg (bm_get m j) (map_of (e # es) j) (bm_get r j))"
  proof -
    have none: "map_of es k = None"
      using Cons.prems e by (simp add: map_of_eq_None_iff)
    have at_k: "merge_opt mrg (Some w) None (bm_get r k) \<longleftrightarrow> bm_get r k = Some w" for w
      by (simp add: merge_opt_def)
    have some: "merge_opt mrg (bm_get m k) (Some v) z \<Longrightarrow> z \<noteq> None" for z
      by (auto simp: merge_opt_def split: option.splits)
    show ?thesis
      using none at_k some by (auto simp: e split: if_splits) (metis option.exhaust)+
  qed
  finally show ?case .
qed

lemma merge_entries_Ok:
  "merge_entries mrg m m' = Ok r \<longleftrightarrow> (\<forall>k. merge_opt mrg (bm_get m k) (bm_get m' k) (bm_get r k))"
  unfolding merge_entries_def bm_get_conv_map_of [of m']
  using bm_keys_distinct [of m'] by (intro merge_fold_Ok) (simp add: bm_keys_def)

lemma merge_entries_dom:
  assumes "merge_entries mrg m m' = Ok r"
  shows "dom (bm_get r) = dom (bm_get m) \<union> dom (bm_get m')"
proof -
  have "k \<in> dom (bm_get r) \<longleftrightarrow> k \<in> dom (bm_get m) \<union> dom (bm_get m')" for k
    using assms [unfolded merge_entries_Ok, rule_format, of k]
    by (cases "bm_get m k"; cases "bm_get m' k") (auto simp: merge_opt_def)
  then show ?thesis by blast
qed

lemma merge_fold_defined:
  assumes "distinct (map fst es)" and "\<And>k. \<exists>z. merge_opt mrg (bm_get m k) (map_of es k) z"
  shows "\<exists>r. try_fold (merge_entry mrg) m es = Ok r"
  using assms
proof (induction es arbitrary: m)
  case (Cons e es)
  obtain k v where e: "e = (k, v)" by fastforce
  from Cons.prems(2) [of k] e obtain w where w: "merge_opt mrg (bm_get m k) (Some v) (Some w)"
    by (cases "bm_get m k") (auto simp: merge_opt_def)
  then have step: "merge_entry mrg m e = Ok (bm_insert k w m)" by (auto simp: e merge_entry_Ok)
  have none: "map_of es k = None" using Cons.prems(1) e by (simp add: map_of_eq_None_iff)
  have "\<exists>z. merge_opt mrg (bm_get (bm_insert k w m) j) (map_of es j) z" for j
    using Cons.prems(2) [of j] none by (cases "j = k") (auto simp: e merge_opt_def)
  with Cons step show ?case by simp
qed simp

lemma merge_entries_defined:
  "(\<And>k. \<exists>z. merge_opt mrg (bm_get m k) (bm_get m' k) z) \<Longrightarrow> \<exists>r. merge_entries mrg m m' = Ok r"
  unfolding merge_entries_def bm_get_conv_map_of [of m']
  using bm_keys_distinct [of m'] by (intro merge_fold_defined) (simp_all add: bm_keys_def)

definition keyed_valid :: "('s \<Rightarrow> bool) \<Rightarrow> ('k::linorder, 's) btree_map \<Rightarrow> bool" where
  "keyed_valid valid m \<longleftrightarrow> (\<forall>k v. bm_get m k = Some v \<longrightarrow> valid v)"

definition valid_opt :: "('s \<Rightarrow> bool) \<Rightarrow> 's option \<Rightarrow> bool" where
  "valid_opt valid x \<longleftrightarrow> (\<forall>v. x = Some v \<longrightarrow> valid v)"

lemma keyed_valid_opt: "keyed_valid valid m \<longleftrightarrow> (\<forall>k. valid_opt valid (bm_get m k))"
  by (auto simp: keyed_valid_def valid_opt_def)

context merge_state
begin

lemma opt_valid:
  "valid_opt valid x \<Longrightarrow> valid_opt valid y \<Longrightarrow> merge_opt merge x y z \<Longrightarrow> valid_opt valid z"
  by (auto simp: valid_opt_def merge_opt_def intro: valid_merge split: option.splits)

lemma opt_commutes:
  "valid_opt valid x \<Longrightarrow> valid_opt valid y \<Longrightarrow> merge_opt merge x y z \<Longrightarrow> merge_opt merge y x z"
  by (auto simp: valid_opt_def merge_opt_def intro: commutes split: option.splits)

lemma opt_idempotent: "valid_opt valid x \<Longrightarrow> merge_opt merge x x x"
  by (auto simp: valid_opt_def merge_opt_def intro: idempotent split: option.splits)

lemma opt_associates:
  assumes v: "valid_opt valid x" "valid_opt valid y" "valid_opt valid w"
    and "merge_opt merge x y xy" and "merge_opt merge xy w r"
  shows "\<exists>yw. merge_opt merge y w yw \<and> merge_opt merge x yw r"
proof (cases "x = None \<or> y = None \<or> w = None")
  case True
  then show ?thesis using assms(4,5)
    by (cases x; cases y; cases w) (auto simp: merge_opt_def split: option.splits)
next
  case False
  then obtain a b c where abc: "x = Some a" "y = Some b" "w = Some c" by (cases x; cases y; cases w) auto
  with assms(4) obtain ab where ab: "merge a b = Ok ab" "xy = Some ab" by (auto simp: merge_opt_def)
  with assms(5) abc obtain d where d: "merge ab c = Ok d" "r = Some d" by (auto simp: merge_opt_def)
  have "valid a" "valid b" "valid c" using v abc by (simp_all add: valid_opt_def)
  with associates ab d obtain bc where "merge b c = Ok bc" "merge a bc = Ok d" by blast
  with abc d show ?thesis by (auto simp: merge_opt_def)
qed

end

text \<open>A map from any ordered key to mergeable states is mergeable.\<close>

locale keyed_merge = elem: merge_state merge valid
  for merge :: "'s \<Rightarrow> 's \<Rightarrow> ('s, 'e) result" and valid :: "'s \<Rightarrow> bool" +
  fixes key :: "'k::linorder itself"

sublocale keyed_merge \<subseteq> keyed: merge_state
  "merge_entries merge :: ('k, 's) btree_map \<Rightarrow> ('k, 's) btree_map \<Rightarrow> (('k, 's) btree_map, 'e) result"
  "keyed_valid valid"
proof unfold_locales
  fix a b c :: "('k, 's) btree_map"
  assume v: "keyed_valid valid a" "keyed_valid valid b"
  show "keyed_valid valid c" if "merge_entries merge a b = Ok c"
    using that v elem.opt_valid by (metis keyed_valid_opt merge_entries_Ok)
  show "merge_entries merge b a = Ok c" if "merge_entries merge a b = Ok c"
    using that v elem.opt_commutes by (metis keyed_valid_opt merge_entries_Ok)
next
  fix a b c ab r :: "('k, 's) btree_map"
  assume v: "keyed_valid valid a" "keyed_valid valid b" "keyed_valid valid c"
    and ab: "merge_entries merge a b = Ok ab" and r: "merge_entries merge ab c = Ok r"
  have pw: "\<exists>yw. merge_opt merge (bm_get b k) (bm_get c k) yw \<and> merge_opt merge (bm_get a k) yw (bm_get r k)" for k
    using elem.opt_associates [of "bm_get a k" "bm_get b k" "bm_get c k" "bm_get ab k" "bm_get r k"]
      v ab r by (auto simp: keyed_valid_opt merge_entries_Ok)
  then obtain bc where bc: "merge_entries merge b c = Ok bc"
    using merge_entries_defined [of merge b c] by blast
  have "merge_opt merge (bm_get a k) (bm_get bc k) (bm_get r k)" for k
    using pw [of k] bc merge_opt_unique by (metis merge_entries_Ok)
  with bc show "\<exists>bc. merge_entries merge b c = Ok bc \<and> merge_entries merge a bc = Ok r"
    by (auto simp: merge_entries_Ok)
next
  fix a :: "('k, 's) btree_map"
  show "keyed_valid valid a \<Longrightarrow> merge_entries merge a a = Ok a"
    using elem.opt_idempotent by (simp add: merge_entries_Ok keyed_valid_opt)
qed

section \<open>Interpretations\<close>

interpretation scalar: merge_state ScalarRegister_merge register_valid
  by unfold_locales (auto simp: merge_commute merge_idem intro: merge_valid merge_assoc)

interpretation atom_map: keyed_merge ScalarRegister_merge register_valid "TYPE(AtomId)"
  by unfold_locales

definition atom_map_valid :: "'v ScalarRegister AtomMap \<Rightarrow> bool" where
  "atom_map_valid am \<longleftrightarrow> keyed_valid register_valid (atoms am)"

lemma AtomMap_merge_Ok:
  "AtomMap_merge_state mrg a b = Ok c \<longleftrightarrow> merge_entries mrg (atoms a) (atoms b) = Ok (atoms c)"
  by (cases c) (auto simp: AtomMap_merge_state_def split: result.splits)

interpretation atoms: merge_state "AtomMap_merge_state ScalarRegister_merge" atom_map_valid
proof unfold_locales
  fix a b c ab r :: "'v ScalarRegister AtomMap"
  show "atom_map_valid a \<Longrightarrow> atom_map_valid b \<Longrightarrow>
      AtomMap_merge_state ScalarRegister_merge a b = Ok c \<Longrightarrow> atom_map_valid c"
    unfolding atom_map_valid_def AtomMap_merge_Ok by (rule atom_map.keyed.valid_merge)
  show "atom_map_valid a \<Longrightarrow> atom_map_valid b \<Longrightarrow>
      AtomMap_merge_state ScalarRegister_merge a b = Ok c \<Longrightarrow>
      AtomMap_merge_state ScalarRegister_merge b a = Ok c"
    unfolding atom_map_valid_def AtomMap_merge_Ok by (rule atom_map.keyed.commutes)
  show "atom_map_valid a \<Longrightarrow> atom_map_valid b \<Longrightarrow> atom_map_valid c \<Longrightarrow>
      AtomMap_merge_state ScalarRegister_merge a b = Ok ab \<Longrightarrow>
      AtomMap_merge_state ScalarRegister_merge ab c = Ok r \<Longrightarrow>
      \<exists>bc. AtomMap_merge_state ScalarRegister_merge b c = Ok bc \<and>
        AtomMap_merge_state ScalarRegister_merge a bc = Ok r"
    unfolding atom_map_valid_def AtomMap_merge_Ok
    using atom_map.keyed.associates by (metis AtomMap.select_convs(1))
  show "atom_map_valid a \<Longrightarrow> AtomMap_merge_state ScalarRegister_merge a a = Ok a"
    unfolding atom_map_valid_def AtomMap_merge_Ok by (rule atom_map.keyed.idempotent)
qed

lemma ContinuumState_merge_Ok:
  "ContinuumState_merge_state mrg a b = Ok c \<longleftrightarrow>
     continuum_id a = continuum_id b \<and> continuum_id c = continuum_id a \<and>
     AtomMap_merge_state mrg (cs_atoms a) (cs_atoms b) = Ok (cs_atoms c)"
  by (cases c) (auto simp: ContinuumState_merge_state_def split: result.splits)

definition continuum_valid :: "'v ScalarRegister ContinuumState \<Rightarrow> bool" where
  "continuum_valid cs \<longleftrightarrow> atom_map_valid (cs_atoms cs)"

interpretation continuum: merge_state "ContinuumState_merge_state ScalarRegister_merge" continuum_valid
proof unfold_locales
  fix a b c ab r :: "'v ScalarRegister ContinuumState"
  show "continuum_valid a \<Longrightarrow> continuum_valid b \<Longrightarrow>
      ContinuumState_merge_state ScalarRegister_merge a b = Ok c \<Longrightarrow> continuum_valid c"
    unfolding continuum_valid_def ContinuumState_merge_Ok using atoms.valid_merge by blast
  show "continuum_valid a \<Longrightarrow> continuum_valid b \<Longrightarrow>
      ContinuumState_merge_state ScalarRegister_merge a b = Ok c \<Longrightarrow>
      ContinuumState_merge_state ScalarRegister_merge b a = Ok c"
    unfolding continuum_valid_def ContinuumState_merge_Ok using atoms.commutes by metis
  show "continuum_valid a \<Longrightarrow> continuum_valid b \<Longrightarrow> continuum_valid c \<Longrightarrow>
      ContinuumState_merge_state ScalarRegister_merge a b = Ok ab \<Longrightarrow>
      ContinuumState_merge_state ScalarRegister_merge ab c = Ok r \<Longrightarrow>
      \<exists>bc. ContinuumState_merge_state ScalarRegister_merge b c = Ok bc \<and>
        ContinuumState_merge_state ScalarRegister_merge a bc = Ok r"
    unfolding continuum_valid_def ContinuumState_merge_Ok
    using atoms.associates by (metis ContinuumState.select_convs)
  show "continuum_valid a \<Longrightarrow> ContinuumState_merge_state ScalarRegister_merge a a = Ok a"
    unfolding continuum_valid_def ContinuumState_merge_Ok using atoms.idempotent by simp
qed

end
