(* ===== verification/Scalar_Properties.thy ===== *)
theory Scalar_Properties
  imports Merge_State
begin

text \<open>
  What the scalar register and the composed states of \<^verbatim>\<open>apc-core\<close> promise, stated over
  the operations themselves, each with a concrete instance: two replicas that edit one base
  value concurrently, and a third that reuses a revision identity for another value.
\<close>

section \<open>Sample registers\<close>

definition sample_revision :: "nat \<Rightarrow> nat \<Rightarrow> nat list \<Rightarrow> nat ScalarRevision" where
  "sample_revision i v ps =
     ScalarRevision_new (OpaqueId (word_of_nat i)) v (bs_from_list (map (\<lambda>p. OpaqueId (word_of_nat p)) ps))"

definition sample_register :: "nat ScalarRevision list \<Rightarrow> nat ScalarRegister" where
  "sample_register rs = \<lparr>revisions = bm_from_list (map (\<lambda>r. (rev_id r, r)) rs)\<rparr>"

definition reg_base :: "nat ScalarRegister" where
  "reg_base = sample_register [sample_revision 1 10 []]"

definition reg_left :: "nat ScalarRegister" where
  "reg_left = sample_register [sample_revision 1 10 [], sample_revision 2 20 [1]]"

definition reg_right :: "nat ScalarRegister" where
  "reg_right = sample_register [sample_revision 1 10 [], sample_revision 3 30 [1]]"

definition reg_clash :: "nat ScalarRegister" where
  "reg_clash = sample_register [sample_revision 1 10 [], sample_revision 2 99 [1]]"

definition reg_both :: "nat ScalarRegister" where
  "reg_both = sample_register [sample_revision 1 10 [], sample_revision 2 20 [1], sample_revision 3 30 [1]]"

lemma sample_register_valid:
  "ScalarRegister_from_revisions rs = Ok (sample_register rs) \<Longrightarrow> register_valid (sample_register rs)"
  by (rule from_revisions_valid)

lemma sample_valid [simp]:
  "register_valid reg_base" "register_valid reg_left" "register_valid reg_right"
  "register_valid reg_clash" "register_valid reg_both"
  unfolding reg_base_def reg_left_def reg_right_def reg_clash_def reg_both_def
  by (rule sample_register_valid, code_simp)+

lemma sample_merges:
  "ScalarRegister_merge reg_left reg_right = Ok reg_both"
  "ScalarRegister_merge reg_left reg_clash = Err (DuplicateRevisionConflict (OpaqueId 2))"
  "ScalarRegister_merge reg_base reg_left = Ok reg_left"
  by code_simp+

section \<open>Validation\<close>

text \<open>
  C3. Validation accepts exactly the registers in which every parent is present and no
  revision is its own ancestor; the recursive cycle search with its two colour sets is
  complete as well as sound.
\<close>

theorem validate_decides_closed_acyclic:
  "ScalarRegister_validate reg = Ok () \<longleftrightarrow>
     (\<forall>i r. ScalarRegister_revision reg i = Some r \<longrightarrow>
        (\<forall>p \<in> bs_set (rev_parents r). ScalarRegister_revision reg p \<noteq> None)) \<and>
     (\<forall>i. \<not> ScalarRegister_is_ancestor reg i i)"
  by (auto simp: validate_Ok_iff parents_closed_def acyclic_def is_ancestor_trancl
      ScalarRegister_revision_def)

theorem validate_decides_closed_acyclic_witness:
  "ScalarRegister_validate reg_both = Ok () \<and> \<not> ScalarRegister_is_ancestor reg_both (OpaqueId 3) (OpaqueId 3)"
proof -
  have "ScalarRegister_validate reg_both = Ok ()" by code_simp
  with validate_decides_closed_acyclic [of reg_both] show ?thesis by blast
qed

text \<open>
  A rejected register is rejected for a real defect: either the reported parent is named
  by the reported revision and absent, or all parents are present and the reported revision is
  its own ancestor.
\<close>

lemma validate_error_sound:
  assumes "ScalarRegister_validate reg = Err e"
  shows "(\<exists>i r p. ScalarRegister_revision reg i = Some r \<and> p \<in> bs_set (rev_parents r) \<and>
            ScalarRegister_revision reg p = None \<and> e = MissingParent (rev_id r) p) \<or>
         (\<exists>j. e = CausalCycle j \<and> ScalarRegister_is_ancestor reg j j)"
  using validate_Err [OF assms]
  by (auto simp: ScalarRegister_revision_def is_ancestor_trancl ran_def domIff)

section \<open>Frontier and visible value\<close>

text \<open>
  C4. The causal frontier is exactly the set of known revisions that are an ancestor of no
  known revision, whatever the traversal order.
\<close>

theorem frontier_is_maximal:
  "bs_set (ScalarRegister_frontier_ids reg) =
     {i. ScalarRegister_revision reg i \<noteq> None \<and> (\<forall>d. \<not> ScalarRegister_is_ancestor reg i d)}"
proof -
  have "i \<in> Range (causal_edge (revisions reg)) \<longleftrightarrow> (\<exists>d. (d, i) \<in> (causal_edge (revisions reg))\<^sup>+)" for i
    by (metis Range_iff tranclD2 r_into_trancl')
  then show ?thesis
    by (auto simp: bs_set_frontier_ids is_ancestor_trancl ScalarRegister_revision_def)
qed

text \<open>
  C5. In a valid non-empty register the materialized revision exists, is a stored frontier
  revision, and carries the greatest identity of the frontier, so every replica with the same
  revisions shows the same value.
\<close>

theorem materialized_is_greatest_frontier:
  assumes "register_valid reg" and "\<not> ScalarRegister_is_empty reg"
  shows "\<exists>r. ScalarRegister_materialized_revision reg = Some r \<and>
    ScalarRegister_materialized reg = Some (rev_value r) \<and>
    ScalarRegister_revision reg (rev_id r) = Some r \<and>
    bs_contains (ScalarRegister_frontier_ids reg) (rev_id r) \<and>
    (\<forall>i \<in> bs_set (ScalarRegister_frontier_ids reg). i \<le> rev_id r)"
proof -
  have ne: "dom (bm_get (revisions reg)) \<noteq> {}"
    using assms(2) by (simp add: ScalarRegister_is_empty_def)
  from materialized_revision_Max [OF assms(1) ne] Max_in [OF finite_bs_set frontier_nonempty [OF assms(1) ne]]
  show ?thesis by (auto simp: ScalarRegister_materialized_def ScalarRegister_revision_def)
qed

theorem materialized_is_greatest_frontier_witness:
  "\<not> ScalarRegister_is_empty reg_both \<and> (\<exists>v. ScalarRegister_materialized reg_both = Some v)"
proof -
  have ne: "\<not> ScalarRegister_is_empty reg_both" by code_simp
  from materialized_is_greatest_frontier [OF sample_valid(5) ne] ne show ?thesis by blast
qed

text \<open>
  A local assignment under a fresh identity succeeds on any valid register, keeps it valid,
  names the complete previous frontier as parents, and becomes the only frontier revision, so
  its value is the visible one even against larger identities.
\<close>

lemma assign_becomes_visible:
  assumes "register_valid reg" and "ScalarRegister_revision reg i = None"
  shows "\<exists>reg'. ScalarRegister_assign reg i v = (Ok (), reg') \<and> register_valid reg' \<and>
    ScalarRegister_revision reg' i = Some (ScalarRevision_new i v (ScalarRegister_frontier_ids reg)) \<and>
    bs_iter (ScalarRegister_frontier_ids reg') = [i] \<and>
    ScalarRegister_materialized reg' = Some v"
proof -
  have fresh: "i \<notin> dom (bm_get (revisions reg))"
    using assms(2) by (auto simp: ScalarRegister_revision_def)
  have "bs_set (ScalarRegister_frontier_ids (assigned reg i v)) = {i}"
    using assigned_frontier [OF assms(1) fresh] .
  then have "bs_iter (ScalarRegister_frontier_ids (assigned reg i v)) = [i]"
    by (simp add: bs_iter_singleton)
  with assign_fresh [OF fresh] assigned_valid [OF assms(1) fresh] assigned_materialized [OF assms(1) fresh]
  show ?thesis by (simp add: assigned_def ScalarRegister_revision_def)
qed

lemma assign_becomes_visible_witness:
  "\<exists>reg'. ScalarRegister_assign reg_both (OpaqueId 0) 77 = (Ok (), reg') \<and>
     ScalarRegister_materialized reg' = Some 77"
proof -
  have "ScalarRegister_revision reg_both (OpaqueId 0) = None" by code_simp
  from assign_becomes_visible [OF sample_valid(5) this] show ?thesis by blast
qed

section \<open>Merge\<close>

text \<open>
  C2. Merging two valid registers succeeds exactly when no identity carries two different
  revisions, and the result is their union: valid, holding the revisions of either side and
  nothing else. No closedness or cycle error can arise between valid replicas.
\<close>

theorem merge_is_union:
  assumes "register_valid a" and "register_valid b"
  shows "((\<exists>c. ScalarRegister_merge a b = Ok c) \<longleftrightarrow> compatible a b) \<and>
    (\<forall>c. ScalarRegister_merge a b = Ok c \<longrightarrow> register_valid c \<and>
      (\<forall>i. ScalarRegister_revision c i =
        (case ScalarRegister_revision a i of Some r \<Rightarrow> Some r | None \<Rightarrow> ScalarRegister_revision b i)))"
  using merge_Ok_compatible [OF assms] merge_valid [OF assms] merge_Ok_lookup [of a b]
  unfolding ScalarRegister_revision_def by blast

theorem merge_is_union_witness:
  "(\<exists>c. ScalarRegister_merge reg_left reg_right = Ok c) = compatible reg_left reg_right \<and>
   register_valid reg_both"
  using merge_is_union [OF sample_valid(2,3)] sample_merges(1) by blast

text \<open>
  When a merge of valid registers fails, the error names a revision identity to which the
  two sides really attach different statements, and the least such identity, so both replicas
  report the same one.
\<close>

lemma merge_error_is_least_conflict:
  assumes "register_valid a" and "register_valid b" and "ScalarRegister_merge a b = Err e"
  shows "\<exists>i r r'. e = DuplicateRevisionConflict i \<and> ScalarRegister_revision a i = Some r \<and>
    ScalarRegister_revision b i = Some r' \<and> r \<noteq> r' \<and>
    (\<forall>j q q'. j < i \<longrightarrow> ScalarRegister_revision a j = Some q \<longrightarrow> ScalarRegister_revision b j = Some q' \<longrightarrow> q = q')"
  using merge_Err [OF assms] by (simp add: ScalarRegister_revision_def)

text \<open>
  The join laws of valid registers: merge commutes (on success and on error alike),
  regroups, and is idempotent; merging in a state that was already included changes nothing.
\<close>

lemma merge_join_laws:
  assumes "register_valid a" and "register_valid b" and "register_valid c"
  shows "ScalarRegister_merge a b = ScalarRegister_merge b a \<and>
    ScalarRegister_merge a a = Ok a \<and>
    (\<forall>ab r. ScalarRegister_merge a b = Ok ab \<longrightarrow> ScalarRegister_merge ab c = Ok r \<longrightarrow>
       (\<exists>bc. ScalarRegister_merge b c = Ok bc \<and> ScalarRegister_merge a bc = Ok r)) \<and>
    (\<forall>ab. ScalarRegister_merge a b = Ok ab \<longrightarrow> ScalarRegister_merge ab a = Ok ab)"
  using merge_commute [OF assms(1,2)] merge_idem [OF assms(1)] merge_assoc [OF assms]
    scalar.upper1 [OF assms(1,2)] scalar.commutes [OF assms(1)] merge_valid [OF assms(1,2)]
  by blast

text \<open>
  Merge neither adds nor loses causality: in the merged register a revision is an ancestor
  of another exactly when it was on one of the two sides. Hence a stale replica cannot roll a
  visible descendant back: every revision it brings that was already superseded stays superseded.
\<close>

lemma merge_preserves_ancestry:
  assumes "register_valid a" and "register_valid b" and "ScalarRegister_merge a b = Ok c"
  shows "(\<forall>x y. ScalarRegister_is_ancestor c x y \<longleftrightarrow>
      ScalarRegister_is_ancestor a x y \<or> ScalarRegister_is_ancestor b x y) \<and>
    bs_set (ScalarRegister_frontier_ids c) \<subseteq>
      bs_set (ScalarRegister_frontier_ids a) \<union> bs_set (ScalarRegister_frontier_ids b)"
  using merge_trancl [OF assms] merge_frontier_subset [OF assms]
  by (simp add: is_ancestor_trancl)

lemma merge_preserves_ancestry_witness:
  "ScalarRegister_is_ancestor reg_both (OpaqueId 1) (OpaqueId 2) \<and>
   bs_set (ScalarRegister_frontier_ids reg_both) \<subseteq>
     bs_set (ScalarRegister_frontier_ids reg_left) \<union> bs_set (ScalarRegister_frontier_ids reg_right)"
proof -
  have "ScalarRegister_is_ancestor reg_left (OpaqueId 1) (OpaqueId 2)" by code_simp
  with merge_preserves_ancestry [OF sample_valid(2,3) sample_merges(1)] show ?thesis by blast
qed

section \<open>Convergence\<close>

text \<open>
  C1. Strong convergence of one merge domain: from the same valid start, absorbing the same
  collection of valid replica states gives the same register whatever the delivery order and
  however often each state is delivered again.
\<close>

theorem scalar_convergence:
  assumes "register_valid s" and "\<forall>x \<in> set xs. register_valid x" and "set ys = set xs"
    and "try_fold ScalarRegister_merge s xs = Ok r"
  shows "try_fold ScalarRegister_merge s ys = Ok r"
  using assms by (rule scalar.convergence)

theorem scalar_convergence_witness:
  "try_fold ScalarRegister_merge reg_base [reg_right, reg_left, reg_right] = Ok reg_both"
proof -
  have "try_fold ScalarRegister_merge reg_base [reg_left, reg_right] = Ok reg_both"
    by (simp add: sample_merges)
  then show ?thesis
    using scalar_convergence [of reg_base "[reg_left, reg_right]" "[reg_right, reg_left, reg_right]"]
    by (simp add: insert_commute)
qed

definition cont_of :: "nat \<Rightarrow> nat ScalarRegister \<Rightarrow> nat ScalarRegister ContinuumState" where
  "cont_of a reg = \<lparr>continuum_id = OpaqueId 9, cs_atoms = \<lparr>atoms = bm_insert (OpaqueId (word_of_nat a)) reg bm_empty\<rparr>\<rparr>"

lemma cont_of_valid: "register_valid reg \<Longrightarrow> continuum_valid (cont_of a reg)"
  by (simp add: cont_of_def continuum_valid_def atom_map_valid_def keyed_valid_def split: if_splits)

text \<open>
  A continuum of registers inherits strong convergence from its atoms: replicas of one
  continuum that absorbed the same set of states, in any order and multiplicity, are equal.
\<close>

lemma continuum_convergence:
  assumes "continuum_valid s" and "\<forall>x \<in> set xs. continuum_valid x" and "set ys = set xs"
    and "try_fold (ContinuumState_merge_state ScalarRegister_merge) s xs = Ok r"
  shows "try_fold (ContinuumState_merge_state ScalarRegister_merge) s ys = Ok r"
  using assms by (rule continuum.convergence)

lemma continuum_convergence_witness:
  "\<exists>r. try_fold (ContinuumState_merge_state ScalarRegister_merge) (cont_of 1 reg_base)
      [cont_of 2 reg_right, cont_of 1 reg_left, cont_of 2 reg_right] = Ok r"
proof -
  have "is_ok (try_fold (ContinuumState_merge_state ScalarRegister_merge) (cont_of 1 reg_base)
      [cont_of 1 reg_left, cont_of 2 reg_right])"
    by (simp add: cont_of_def ContinuumState_merge_state_def AtomMap_merge_state_def merge_entries_def
        merge_entry_def bm_entries_single sample_merges)
  then obtain r where "try_fold (ContinuumState_merge_state ScalarRegister_merge) (cont_of 1 reg_base)
      [cont_of 1 reg_left, cont_of 2 reg_right] = Ok r" by (auto simp: is_ok_iff)
  then have "try_fold (ContinuumState_merge_state ScalarRegister_merge) (cont_of 1 reg_base)
      [cont_of 2 reg_right, cont_of 1 reg_left, cont_of 2 reg_right] = Ok r"
    using continuum_convergence [of "cont_of 1 reg_base" "[cont_of 1 reg_left, cont_of 2 reg_right]"
      "[cont_of 2 reg_right, cont_of 1 reg_left, cont_of 2 reg_right]" r]
    by (simp only: set_simps cont_of_valid sample_valid insert_commute insert_absorb2 ball_simps simp_thms)
  then show ?thesis ..
qed

end
