(* ===== verification/Working_Scalar.thy ===== *)
theory Working_Scalar
  imports Scalar_Merge
begin

text \<open>
  Local working state over one merge domain, \<^verbatim>\<open>apc-core/src/working.rs\<close>: edits collect in a
  pending epoch that remembers the frontier it observed; sealing turns the epoch into one causal
  revision; remote state becomes observable only after a pending epoch was sealed. The invariant
  \<open>working_valid\<close> says the register is valid and a pending epoch still observes exactly the
  current frontier; every operation keeps it, on error paths too.
\<close>

section \<open>Data and operations\<close>

record 'v WorkingEpoch =
  epoch_id :: WorkingEpochId
  epoch_value :: 'v
  observed_frontier :: "RevisionId btree_set"

record 'v WorkingSnapshot =
  snap_causal :: "'v ScalarRegister"
  snap_pending :: "'v WorkingEpoch option"

record 'v WorkingScalar =
  ws_causal :: "'v ScalarRegister"
  ws_pending :: "'v WorkingEpoch option"

definition WorkingScalar_from_causal :: "'v ScalarRegister \<Rightarrow> ('v WorkingScalar, CoreError) result" where
  "WorkingScalar_from_causal causal =
     (case ScalarRegister_validate causal of
        Err e \<Rightarrow> Err e
      | Ok _ \<Rightarrow> Ok \<lparr>ws_causal = causal, ws_pending = None\<rparr>)"

definition WorkingScalar_is_dirty :: "'v WorkingScalar \<Rightarrow> bool" where
  "WorkingScalar_is_dirty ws = (ws_pending ws \<noteq> None)"

definition WorkingScalar_working_value :: "'v WorkingScalar \<Rightarrow> 'v option" where
  "WorkingScalar_working_value ws =
     (case ws_pending ws of
        Some epoch \<Rightarrow> Some (epoch_value epoch)
      | None \<Rightarrow> ScalarRegister_materialized (ws_causal ws))"

definition WorkingScalar_begin_epoch ::
    "'v WorkingScalar \<Rightarrow> WorkingEpochId \<Rightarrow> 'v \<Rightarrow> (unit, CoreError) result \<times> 'v WorkingScalar" where
  "WorkingScalar_begin_epoch ws i v =
     (case ws_pending ws of
        Some pending \<Rightarrow> (Err (WorkingEpochAlreadyOpen (epoch_id pending)), ws)
      | None \<Rightarrow>
          (Ok (), ws\<lparr>ws_pending := Some \<lparr>epoch_id = i, epoch_value = v,
             observed_frontier = ScalarRegister_frontier_ids (ws_causal ws)\<rparr>\<rparr>))"

definition WorkingScalar_update_pending ::
    "'v WorkingScalar \<Rightarrow> 'v \<Rightarrow> (unit, CoreError) result \<times> 'v WorkingScalar" where
  "WorkingScalar_update_pending ws v =
     (case ws_pending ws of
        None \<Rightarrow> (Err NoWorkingEpoch, ws)
      | Some pending \<Rightarrow> (Ok (), ws\<lparr>ws_pending := Some (pending\<lparr>epoch_value := v\<rparr>)\<rparr>))"

definition WorkingScalar_seal ::
    "'v WorkingScalar \<Rightarrow> RevisionId \<Rightarrow> ('v ScalarRevision, CoreError) result \<times> 'v WorkingScalar" where
  "WorkingScalar_seal ws i =
     (if ScalarRegister_revision (ws_causal ws) i \<noteq> None then (Err (RevisionAlreadyKnown i), ws)
      else
        (case ws_pending ws of
           None \<Rightarrow> (Err NoWorkingEpoch, ws)
         | Some pending \<Rightarrow>
             (let revision = ScalarRevision_new i (epoch_value pending) (observed_frontier pending)
              in case ScalarRegister_insert_revision (ws_causal ws) revision of
                   (Err e, causal) \<Rightarrow> (Err e, ws\<lparr>ws_causal := causal\<rparr>)
                 | (Ok _, causal) \<Rightarrow> (Ok revision, ws\<lparr>ws_causal := causal, ws_pending := None\<rparr>))))"

definition WorkingScalar_observe_remote ::
    "'v WorkingScalar \<Rightarrow> 'v ScalarRegister \<Rightarrow> RevisionId option \<Rightarrow>
     ('v ScalarRevision option, CoreError) result \<times> 'v WorkingScalar" where
  "WorkingScalar_observe_remote ws remote pre_observation_revision_id =
     (case ScalarRegister_validate remote of
        Err e \<Rightarrow> (Err e, ws)
      | Ok _ \<Rightarrow>
          (case (case (ws_pending ws, pre_observation_revision_id) of
                   (Some _, Some i) \<Rightarrow>
                     (case WorkingScalar_seal ws i of
                        (Err e, ws') \<Rightarrow> (Err e, ws')
                      | (Ok r, ws') \<Rightarrow> (Ok (Some r), ws'))
                 | (Some _, None) \<Rightarrow> (Err DirtyObservationRequiresSeal, ws)
                 | (None, Some i) \<Rightarrow> (Err (UnexpectedPreObservationRevision i), ws)
                 | (None, None) \<Rightarrow> (Ok None, ws)) of
             (Err e, ws') \<Rightarrow> (Err e, ws')
           | (Ok sealed, ws') \<Rightarrow>
               (case ScalarRegister_merge (ws_causal ws') remote of
                  Err e \<Rightarrow> (Err e, ws')
                | Ok causal \<Rightarrow> (Ok sealed, ws'\<lparr>ws_causal := causal\<rparr>))))"

definition WorkingScalar_snapshot :: "'v WorkingScalar \<Rightarrow> 'v WorkingSnapshot" where
  "WorkingScalar_snapshot ws = \<lparr>snap_causal = ws_causal ws, snap_pending = ws_pending ws\<rparr>"

definition WorkingScalar_restore :: "'v WorkingSnapshot \<Rightarrow> ('v WorkingScalar, CoreError) result" where
  "WorkingScalar_restore snapshot =
     (case ScalarRegister_validate (snap_causal snapshot) of
        Err e \<Rightarrow> Err e
      | Ok _ \<Rightarrow>
          (if (case snap_pending snapshot of
                 Some pending \<Rightarrow> observed_frontier pending \<noteq> ScalarRegister_frontier_ids (snap_causal snapshot)
               | None \<Rightarrow> False)
           then Err InvalidWorkingSnapshot
           else Ok \<lparr>ws_causal = snap_causal snapshot, ws_pending = snap_pending snapshot\<rparr>))"

section \<open>The invariant\<close>

definition working_valid :: "'v WorkingScalar \<Rightarrow> bool" where
  "working_valid ws \<longleftrightarrow> register_valid (ws_causal ws) \<and>
     (\<forall>e. ws_pending ws = Some e \<longrightarrow> observed_frontier e = ScalarRegister_frontier_ids (ws_causal ws))"

lemma working_validD [dest]: "working_valid ws \<Longrightarrow> register_valid (ws_causal ws)"
  by (simp add: working_valid_def)

text \<open>The only path on which sealing changes anything, and its result.\<close>

lemma seal_cases:
  assumes "working_valid ws"
  obtains (known) "ScalarRegister_revision (ws_causal ws) i \<noteq> None"
      "WorkingScalar_seal ws i = (Err (RevisionAlreadyKnown i), ws)"
  | (clean) "ws_pending ws = None" "ScalarRegister_revision (ws_causal ws) i = None"
      "WorkingScalar_seal ws i = (Err NoWorkingEpoch, ws)"
  | (sealed) e where "ws_pending ws = Some e" "ScalarRegister_revision (ws_causal ws) i = None"
      "WorkingScalar_seal ws i =
        (Ok (ScalarRevision_new i (epoch_value e) (ScalarRegister_frontier_ids (ws_causal ws))),
         \<lparr>ws_causal = assigned (ws_causal ws) i (epoch_value e), ws_pending = None\<rparr>)"
proof (cases "ScalarRegister_revision (ws_causal ws) i = None")
  case False
  then show ?thesis using known by (simp add: WorkingScalar_seal_def)
next
  case fresh: True
  show ?thesis
  proof (cases "ws_pending ws")
    case None
    then show ?thesis using fresh clean by (simp add: WorkingScalar_seal_def)
  next
    case (Some e)
    let ?r = "ScalarRevision_new i (epoch_value e) (ScalarRegister_frontier_ids (ws_causal ws))"
    have obs: "observed_frontier e = ScalarRegister_frontier_ids (ws_causal ws)"
      using assms Some by (simp add: working_valid_def)
    have "ScalarRegister_assign (ws_causal ws) i (epoch_value e) =
        (Ok (), assigned (ws_causal ws) i (epoch_value e))"
      using fresh by (intro assign_fresh) (simp add: ScalarRegister_revision_def domIff)
    then have ins: "ScalarRegister_insert_revision (ws_causal ws) ?r =
        (Ok (), assigned (ws_causal ws) i (epoch_value e))"
      by (simp add: ScalarRegister_assign_def)
    show ?thesis
      by (rule sealed [OF Some fresh]) (simp add: WorkingScalar_seal_def fresh Some obs ins Let_def)
  qed
qed

lemma assigned_pending_valid:
  "register_valid reg \<Longrightarrow> ScalarRegister_revision reg i = None \<Longrightarrow> register_valid (assigned reg i v)"
  by (rule assigned_valid) (simp_all add: ScalarRegister_revision_def domIff)

lemma seal_valid:
  assumes "working_valid ws"
  shows "working_valid (snd (WorkingScalar_seal ws i))"
  using assms by (cases rule: seal_cases [OF assms, of i])
    (auto simp: working_valid_def assigned_pending_valid)

lemma begin_epoch_valid: "working_valid ws \<Longrightarrow> working_valid (snd (WorkingScalar_begin_epoch ws i v))"
  by (auto simp: working_valid_def WorkingScalar_begin_epoch_def split: option.splits)

lemma update_pending_valid: "working_valid ws \<Longrightarrow> working_valid (snd (WorkingScalar_update_pending ws v))"
  by (auto simp: working_valid_def WorkingScalar_update_pending_def split: option.splits)

text \<open>The four ways an observation can end, with the state each leaves behind.\<close>

lemma observe_remote_cases:
  assumes "working_valid ws" and "register_valid remote"
  obtains (refused) e where "WorkingScalar_observe_remote ws remote pre = (Err e, ws)"
  | (clean) causal where "ws_pending ws = None" "pre = None"
      "ScalarRegister_merge (ws_causal ws) remote = Ok causal"
      "WorkingScalar_observe_remote ws remote pre = (Ok None, ws\<lparr>ws_causal := causal\<rparr>)"
  | (sealed) i e causal where "ws_pending ws = Some e" "pre = Some i"
      "ScalarRegister_revision (ws_causal ws) i = None"
      "ScalarRegister_merge (assigned (ws_causal ws) i (epoch_value e)) remote = Ok causal"
      "WorkingScalar_observe_remote ws remote pre =
        (Ok (Some (ScalarRevision_new i (epoch_value e) (ScalarRegister_frontier_ids (ws_causal ws)))),
         \<lparr>ws_causal = causal, ws_pending = None\<rparr>)"
  | (stranded) i e err where "ws_pending ws = Some e" "pre = Some i"
      "ScalarRegister_revision (ws_causal ws) i = None"
      "ScalarRegister_merge (assigned (ws_causal ws) i (epoch_value e)) remote = Err err"
      "WorkingScalar_observe_remote ws remote pre =
        (Err err, \<lparr>ws_causal = assigned (ws_causal ws) i (epoch_value e), ws_pending = None\<rparr>)"
proof -
  have val: "ScalarRegister_validate remote = Ok ()" using assms(2) by (simp add: register_valid_iff)
  show ?thesis
  proof (cases "ws_pending ws")
    case None
    show ?thesis
    proof (cases pre)
      case p: None
      show ?thesis
        by (cases "ScalarRegister_merge (ws_causal ws) remote")
          (use clean refused None p val in \<open>auto simp: WorkingScalar_observe_remote_def\<close>)
    qed (use refused None val in \<open>auto simp: WorkingScalar_observe_remote_def\<close>)
  next
    case (Some e)
    show ?thesis
    proof (cases pre)
      case None
      then show ?thesis using refused Some val by (auto simp: WorkingScalar_observe_remote_def)
    next
      case p: (Some i)
      show ?thesis
        using assms(1)
      proof (cases rule: seal_cases [where i = i])
        case known
        then show ?thesis using refused Some p val by (auto simp: WorkingScalar_observe_remote_def)
      next
        case clean
        then show ?thesis using Some by simp
      next
        case s: (sealed e')
        then have "e' = e" using Some by simp
        with s show ?thesis
          by (cases "ScalarRegister_merge (assigned (ws_causal ws) i (epoch_value e)) remote")
            (use sealed stranded Some p val s \<open>e' = e\<close> in \<open>auto simp: WorkingScalar_observe_remote_def\<close>)
      qed
    qed
  qed
qed

lemma observe_remote_valid:
  assumes "working_valid ws" and "register_valid remote"
  shows "working_valid (snd (WorkingScalar_observe_remote ws remote pre))"
  using assms
proof (cases rule: observe_remote_cases [where pre = pre])
  case (clean causal)
  then have "register_valid causal" using assms by (blast intro: merge_valid)
  then show ?thesis using clean by (simp add: working_valid_def)
next
  case (sealed i e causal)
  then have "register_valid causal" using assms by (blast intro: merge_valid assigned_pending_valid)
  then show ?thesis using sealed by (simp add: working_valid_def)
next
  case (stranded i e err)
  then show ?thesis using assms assigned_pending_valid by (auto simp: working_valid_def)
qed (use assms in simp)

lemma from_causal_valid:
  "keyed_by_id (revisions reg) \<Longrightarrow> WorkingScalar_from_causal reg = Ok ws \<Longrightarrow> working_valid ws"
  by (auto simp: WorkingScalar_from_causal_def working_valid_def register_valid_iff split: result.splits)

lemma working_restore_snapshot:
  "working_valid ws \<Longrightarrow> WorkingScalar_restore (WorkingScalar_snapshot ws) = Ok ws"
  by (cases ws)
    (auto simp: WorkingScalar_restore_def WorkingScalar_snapshot_def working_valid_def register_valid_iff
      split: option.splits)

lemma working_restore_valid:
  "keyed_by_id (revisions (snap_causal s)) \<Longrightarrow> WorkingScalar_restore s = Ok ws \<Longrightarrow>
     working_valid ws \<and> WorkingScalar_snapshot ws = s"
  by (auto simp: WorkingScalar_restore_def WorkingScalar_snapshot_def working_valid_def register_valid_iff
      split: option.splits result.splits if_splits)

end
