(* ===== verification/Finalization_Ledger.thy ===== *)
theory Finalization_Ledger
  imports Scalar_Merge
begin

text \<open>
  Finalization and exposure bookkeeping of one replica, \<^verbatim>\<open>apc-core/src/finalization.rs\<close>:
  which causal revisions are local, which statements are frozen, which identities may already be
  visible outside. \<open>ledger_wf\<close> is what \<^verbatim>\<open>restore\<close> checks of a snapshot; \<open>ledger_sealed\<close>
  adds the exposure discipline that \<^verbatim>\<open>handoff\<close> enforces: everything exposed is frozen, and
  exposure is closed under local causal dependencies.
\<close>

section \<open>Data and operations\<close>

record 'v FinalizedStatement =
  fs_revision_id :: RevisionId
  fs_value :: 'v
  fs_parents :: "RevisionId btree_set"

definition FinalizedStatement_from :: "'v ScalarRevision \<Rightarrow> 'v FinalizedStatement" where
  "FinalizedStatement_from r =
     \<lparr>fs_revision_id = rev_id r, fs_value = rev_value r, fs_parents = rev_parents r\<rparr>"

record 'v FinalizationSnapshot =
  snap_local_revision_ids :: "RevisionId btree_set"
  snap_finalized :: "(RevisionId, 'v FinalizedStatement) btree_map"
  snap_exposed_local_ids :: "RevisionId btree_set"
  snap_handed_off_local_ids :: "RevisionId btree_set"

record 'v FinalizationLedger =
  local_revision_ids :: "RevisionId btree_set"
  finalized :: "(RevisionId, 'v FinalizedStatement) btree_map"
  exposed_local_ids :: "RevisionId btree_set"
  handed_off_local_ids :: "RevisionId btree_set"

definition FinalizationLedger_new :: "'v FinalizationLedger" where
  "FinalizationLedger_new = \<lparr>local_revision_ids = bm_empty, finalized = bm_empty,
     exposed_local_ids = bm_empty, handed_off_local_ids = bm_empty\<rparr>"

definition FinalizationLedger_register_local ::
    "'v FinalizationLedger \<Rightarrow> 'v ScalarRegister \<Rightarrow> RevisionId \<Rightarrow>
     (unit, CoreError) result \<times> 'v FinalizationLedger" where
  "FinalizationLedger_register_local led causal i =
     (if ScalarRegister_revision causal i = None then (Err (UnknownRevision i), led)
      else (Ok (), led\<lparr>local_revision_ids := bs_insert i (local_revision_ids led)\<rparr>))"

definition FinalizationLedger_finalize ::
    "'v FinalizationLedger \<Rightarrow> 'v ScalarRegister \<Rightarrow> RevisionId \<Rightarrow>
     ('v FinalizedStatement, CoreError) result \<times> 'v FinalizationLedger" where
  "FinalizationLedger_finalize led causal i =
     (if \<not> bs_contains (local_revision_ids led) i then (Err (UnknownLocalRevision i), led)
      else
        (case ScalarRegister_revision causal i of
           None \<Rightarrow> (Err (UnknownRevision i), led)
         | Some revision \<Rightarrow>
             (let statement = FinalizedStatement_from revision
              in case bm_get (finalized led) i of
                   Some existing \<Rightarrow>
                     (if existing \<noteq> statement then (Err (FinalizedStatementConflict i), led)
                      else (Ok existing, led))
                 | None \<Rightarrow> (Ok statement, led\<lparr>finalized := bm_insert i statement (finalized led)\<rparr>))))"

definition check_statement ::
    "'v ScalarRegister \<Rightarrow> RevisionId \<times> 'v FinalizedStatement \<Rightarrow> (unit, CoreError) result" where
  "check_statement causal e =
     (case e of (i, statement) \<Rightarrow>
        (case ScalarRegister_revision causal i of
           None \<Rightarrow> Err (UnknownRevision i)
         | Some revision \<Rightarrow>
             (if statement \<noteq> FinalizedStatement_from revision then Err (FinalizedStatementConflict i)
              else Ok ())))"

definition FinalizationLedger_validate_against ::
    "'v FinalizationLedger \<Rightarrow> 'v ScalarRegister \<Rightarrow> (unit, CoreError) result" where
  "FinalizationLedger_validate_against led causal =
     (case ScalarRegister_validate causal of
        Err e \<Rightarrow> Err e
      | Ok _ \<Rightarrow> try_fold (\<lambda>_. check_statement causal) () (bm_entries (finalized led)))"

text \<open>The \<^verbatim>\<open>while let Some(revision_id) = stack.pop()\<close> loop of \<^verbatim>\<open>handoff\<close>.\<close>

function handoff_closure ::
    "'v ScalarRegister \<Rightarrow> RevisionId list \<Rightarrow> RevisionId btree_set \<Rightarrow>
     (RevisionId btree_set, CoreError) result" where
  "handoff_closure causal [] closure = Ok closure"
| "handoff_closure causal (i # stack) closure =
     (if bs_contains closure i then handoff_closure causal stack closure
      else
        (case ScalarRegister_revision causal i of
           None \<Rightarrow> Err (UnknownRevision i)
         | Some r \<Rightarrow> handoff_closure causal (rev (bs_iter (rev_parents r)) @ stack) (bs_insert i closure)))"
  by pat_completeness auto

termination handoff_closure
  by (relation "inv_image (less_than <*lex*> less_than)
      (\<lambda>(reg, stack, seen). (card (dom (bm_get (revisions reg)) - bs_set seen), length stack))")
    (auto simp: unseen_decreases ScalarRegister_revision_def)

definition FinalizationLedger_handoff ::
    "'v FinalizationLedger \<Rightarrow> 'v ScalarRegister \<Rightarrow> RevisionId list \<Rightarrow>
     (unit, CoreError) result \<times> 'v FinalizationLedger" where
  "FinalizationLedger_handoff led causal revision_ids =
     (case FinalizationLedger_validate_against led causal of
        Err e \<Rightarrow> (Err e, led)
      | Ok _ \<Rightarrow>
          (let direct = bs_from_list revision_ids
           in case handoff_closure causal (rev (bs_iter direct)) bm_empty of
                Err e \<Rightarrow> (Err e, led)
              | Ok closure \<Rightarrow>
                  (let is_local = bs_contains (local_revision_ids led)
                   in case find (\<lambda>i. \<not> bm_contains_key (finalized led) i)
                             (filter is_local (bs_iter closure)) of
                        Some i \<Rightarrow> (Err (HandoffRequiresFinalizedRevision i), led)
                      | None \<Rightarrow>
                          (Ok (), led\<lparr>exposed_local_ids :=
                               bs_extend (filter is_local (bs_iter closure)) (exposed_local_ids led),
                             handed_off_local_ids :=
                               bs_extend (filter is_local (bs_iter direct)) (handed_off_local_ids led)\<rparr>))))"

definition FinalizationLedger_snapshot :: "'v FinalizationLedger \<Rightarrow> 'v FinalizationSnapshot" where
  "FinalizationLedger_snapshot led =
     \<lparr>snap_local_revision_ids = local_revision_ids led, snap_finalized = finalized led,
      snap_exposed_local_ids = exposed_local_ids led, snap_handed_off_local_ids = handed_off_local_ids led\<rparr>"

definition FinalizationLedger_restore ::
    "'v FinalizationSnapshot \<Rightarrow> 'v ScalarRegister \<Rightarrow> ('v FinalizationLedger, CoreError) result" where
  "FinalizationLedger_restore snapshot causal =
     (let ledger = \<lparr>local_revision_ids = snap_local_revision_ids snapshot,
            finalized = snap_finalized snapshot,
            exposed_local_ids = snap_exposed_local_ids snapshot,
            handed_off_local_ids = snap_handed_off_local_ids snapshot\<rparr>
      in if \<not> bs_is_subset (exposed_local_ids ledger) (local_revision_ids ledger)
            \<or> \<not> bs_is_subset (handed_off_local_ids ledger) (exposed_local_ids ledger)
            \<or> \<not> list_all (bs_contains (local_revision_ids ledger)) (bm_keys (finalized ledger))
         then Err InvalidFinalizationSnapshot
         else
           (case find (\<lambda>i. ScalarRegister_revision causal i = None) (bs_iter (local_revision_ids ledger)) of
              Some i \<Rightarrow> Err (UnknownRevision i)
            | None \<Rightarrow>
                (case FinalizationLedger_validate_against ledger causal of
                   Err e \<Rightarrow> Err e
                 | Ok _ \<Rightarrow> Ok ledger)))"

section \<open>Invariants\<close>

abbreviation known :: "'v ScalarRegister \<Rightarrow> RevisionId set" where
  "known causal \<equiv> dom (bm_get (revisions causal))"

definition statements_match :: "'v FinalizationLedger \<Rightarrow> 'v ScalarRegister \<Rightarrow> bool" where
  "statements_match led causal \<longleftrightarrow>
     (\<forall>i st. bm_get (finalized led) i = Some st \<longrightarrow>
        (\<exists>r. bm_get (revisions causal) i = Some r \<and> st = FinalizedStatement_from r))"

definition ledger_wf :: "'v FinalizationLedger \<Rightarrow> 'v ScalarRegister \<Rightarrow> bool" where
  "ledger_wf led causal \<longleftrightarrow>
     bs_set (local_revision_ids led) \<subseteq> known causal \<and>
     bs_set (exposed_local_ids led) \<subseteq> bs_set (local_revision_ids led) \<and>
     bs_set (handed_off_local_ids led) \<subseteq> bs_set (exposed_local_ids led) \<and>
     dom (bm_get (finalized led)) \<subseteq> bs_set (local_revision_ids led) \<and>
     statements_match led causal"

definition ledger_sealed :: "'v FinalizationLedger \<Rightarrow> 'v ScalarRegister \<Rightarrow> bool" where
  "ledger_sealed led causal \<longleftrightarrow>
     bs_set (exposed_local_ids led) \<subseteq> dom (bm_get (finalized led)) \<and>
     (\<forall>i \<in> bs_set (exposed_local_ids led). \<forall>j. (i, j) \<in> (causal_edge (revisions causal))\<^sup>+ \<longrightarrow>
        j \<in> bs_set (local_revision_ids led) \<longrightarrow> j \<in> bs_set (exposed_local_ids led))"

section \<open>Operations\<close>

lemma check_statement_Ok:
  "check_statement causal (i, st) = Ok () \<longleftrightarrow>
     (\<exists>r. bm_get (revisions causal) i = Some r \<and> st = FinalizedStatement_from r)"
  by (auto simp: check_statement_def ScalarRegister_revision_def split: option.splits)

lemma validate_against_Ok:
  "FinalizationLedger_validate_against led causal = Ok () \<longleftrightarrow>
     ScalarRegister_validate causal = Ok () \<and> statements_match led causal"
proof -
  have "(\<forall>e \<in> set (bm_entries (finalized led)). check_statement causal e = Ok ()) \<longleftrightarrow>
      statements_match led causal"
    by (simp add: statements_match_def Ball_def check_statement_Ok)
  then show ?thesis
    by (auto simp: FinalizationLedger_validate_against_def try_fold_unit_Ok split: result.splits)
qed

lemma handoff_closure_Ok:
  assumes "parents_closed (revisions causal)"
    and "set stack \<union> bs_set closure \<subseteq> known causal"
    and "causal_edge (revisions causal) `` bs_set closure \<subseteq> bs_set closure \<union> set stack"
  shows "\<exists>c. handoff_closure causal stack closure = Ok c \<and>
    bs_set c = (causal_edge (revisions causal))\<^sup>* `` (bs_set closure \<union> set stack)"
  using assms
proof (induction causal stack closure rule: handoff_closure.induct)
  case (1 causal closure)
  then show ?case by (simp add: Image_closed_rtrancl)
next
  case (2 causal i stack closure)
  show ?case
  proof (cases "i \<in> bs_set closure")
    case True
    with 2 show ?thesis by (auto simp: insert_absorb)
  next
    case False
    from "2.prems"(2) obtain r where r: "bm_get (revisions causal) i = Some r" by auto
    have ps: "bs_set (rev_parents r) \<subseteq> known causal"
      using "2.prems"(1) r by (auto simp: parents_closed_def)
    have edge: "causal_edge (revisions causal) `` {i} = bs_set (rev_parents r)"
      using r by (simp add: causal_edge_Image)
    have "\<exists>c. handoff_closure causal (rev (bs_iter (rev_parents r)) @ stack) (bs_insert i closure) = Ok c \<and>
        bs_set c = (causal_edge (revisions causal))\<^sup>* ``
          (bs_set (bs_insert i closure) \<union> set (rev (bs_iter (rev_parents r)) @ stack))"
      using False r "2.prems" ps edge
      by (intro "2.IH"(2)) (auto simp: ScalarRegister_revision_def)
    with False r push_parents_reach [OF r, of "bs_set closure" "set stack"] show ?thesis
      by (auto simp: ScalarRegister_revision_def)
  qed
qed

lemma handoff_closure_Err:
  "handoff_closure causal stack closure = Err e \<Longrightarrow>
     \<exists>i. e = UnknownRevision i \<and> i \<notin> known causal \<and> (\<exists>s \<in> set stack. (s, i) \<in> (causal_edge (revisions causal))\<^sup>*)"
proof (induction causal stack closure rule: handoff_closure.induct)
  case (2 causal i stack closure)
  show ?case
  proof (cases "bs_contains closure i")
    case True
    with 2 show ?thesis by fastforce
  next
    case False
    show ?thesis
    proof (cases "ScalarRegister_revision causal i")
      case None
      with False "2.prems" show ?thesis by (auto simp: ScalarRegister_revision_def)
    next
      case (Some r)
      from "2.IH"(2) [OF False Some] False Some "2.prems" obtain k s where
        k: "e = UnknownRevision k" "k \<notin> known causal" "(s, k) \<in> (causal_edge (revisions causal))\<^sup>*"
        and s: "s \<in> bs_set (rev_parents r) \<union> set stack" by auto
      from s show ?thesis
      proof
        assume "s \<in> bs_set (rev_parents r)"
        then have "(i, s) \<in> causal_edge (revisions causal)"
          using Some by (auto simp: causal_edge_def ScalarRegister_revision_def)
        with k show ?thesis by (auto intro: converse_rtrancl_into_rtrancl)
      qed (use k in auto)
    qed
  qed
qed simp

text \<open>A closure that is returned has looked every stacked identity up.\<close>

lemma handoff_closure_visits:
  "handoff_closure causal stack closure = Ok c \<Longrightarrow>
     set stack - bs_set closure \<subseteq> known causal \<and> bs_set closure \<subseteq> bs_set c"
proof (induction causal stack closure rule: handoff_closure.induct)
  case (2 causal i stack closure)
  then show ?case
    by (cases "i \<in> bs_set closure"; cases "ScalarRegister_revision causal i")
      (auto simp: ScalarRegister_revision_def)
qed simp

text \<open>The causal closure a handoff exposes.\<close>

definition causal_closure :: "'v ScalarRegister \<Rightarrow> RevisionId list \<Rightarrow> RevisionId set" where
  "causal_closure causal ids = (causal_edge (revisions causal))\<^sup>* `` set ids"

lemma handoff_spec:
  assumes "register_valid causal" and "statements_match led causal" and "set ids \<subseteq> known causal"
  shows "if causal_closure causal ids \<inter> bs_set (local_revision_ids led) \<subseteq> dom (bm_get (finalized led))
    then \<exists>led'. FinalizationLedger_handoff led causal ids = (Ok (), led') \<and>
      local_revision_ids led' = local_revision_ids led \<and> finalized led' = finalized led \<and>
      bs_set (exposed_local_ids led') = bs_set (exposed_local_ids led) \<union>
        causal_closure causal ids \<inter> bs_set (local_revision_ids led) \<and>
      bs_set (handed_off_local_ids led') = bs_set (handed_off_local_ids led) \<union>
        set ids \<inter> bs_set (local_revision_ids led)
    else \<exists>i \<in> causal_closure causal ids. FinalizationLedger_handoff led causal ids =
      (Err (HandoffRequiresFinalizedRevision i), led) \<and> i \<in> bs_set (local_revision_ids led) \<and>
      bm_get (finalized led) i = None"
proof -
  have val: "FinalizationLedger_validate_against led causal = Ok ()"
    using assms(1,2) by (simp add: validate_against_Ok register_valid_iff)
  obtain c where c: "handoff_closure causal (rev (bs_iter (bs_from_list ids))) bm_empty = Ok c"
    and setc: "bs_set c = causal_closure causal ids"
    using handoff_closure_Ok [of causal "rev (bs_iter (bs_from_list ids))" bm_empty] assms(1,3)
    by (auto simp: register_valid_def causal_closure_def)
  show ?thesis
  proof (cases "find (\<lambda>i. \<not> bm_contains_key (finalized led) i)
      (filter (bs_contains (local_revision_ids led)) (bs_iter c))")
    case None
    then have "causal_closure causal ids \<inter> bs_set (local_revision_ids led) \<subseteq> dom (bm_get (finalized led))"
      by (auto simp: find_None_iff setc)
    with None show ?thesis
      by (auto simp: FinalizationLedger_handoff_def val c Let_def setc simp del: bm_contains_key_iff)
  next
    case (Some i)
    then have "i \<in> causal_closure causal ids" "i \<in> bs_set (local_revision_ids led)"
      "bm_get (finalized led) i = None"
      by (auto dest!: find_SomeD simp: setc)
    with Some show ?thesis
      by (auto simp: FinalizationLedger_handoff_def val c Let_def simp del: bm_contains_key_iff)
  qed
qed

lemma handoff_unknown:
  assumes "register_valid causal" and "statements_match led causal" and "\<not> set ids \<subseteq> known causal"
  shows "\<exists>i \<in> set ids - known causal. FinalizationLedger_handoff led causal ids = (Err (UnknownRevision i), led)"
proof -
  have val: "FinalizationLedger_validate_against led causal = Ok ()"
    using assms(1,2) by (simp add: validate_against_Ok register_valid_iff)
  let ?E = "causal_edge (revisions causal)"
  have closed: "Range ?E \<subseteq> known causal"
    using assms(1) by (simp add: register_valid_def parents_closed_iff)
  show ?thesis
  proof (cases "handoff_closure causal (rev (bs_iter (bs_from_list ids))) bm_empty")
    case (Ok c)
    have "False"
      using handoff_closure_visits [OF Ok] assms(3) by auto
    then show ?thesis ..
  next
    case (Err e)
    then obtain i s where i: "e = UnknownRevision i" "i \<notin> known causal" "s \<in> set ids" "(s, i) \<in> ?E\<^sup>*"
      using handoff_closure_Err [OF Err] by auto
    then have "i = s" using closed by (metis Range_iff rtranclE subsetD)
    with i Err show ?thesis
      by (auto simp: FinalizationLedger_handoff_def val Let_def)
  qed
qed

section \<open>Preservation\<close>

lemma ledger_new_wf [simp]:
  "ledger_wf FinalizationLedger_new causal" "ledger_sealed FinalizationLedger_new causal"
  by (simp_all add: ledger_wf_def ledger_sealed_def statements_match_def FinalizationLedger_new_def fun_eq_iff)

text \<open>The causal register may grow under the ledger.\<close>

lemma statements_match_mono:
  "statements_match led a \<Longrightarrow> register_le a b \<Longrightarrow> statements_match led b"
  unfolding statements_match_def register_le_def map_le_def by (metis domI)

lemma ledger_wf_mono:
  assumes "ledger_wf led a" and "register_le a b"
  shows "ledger_wf led b"
proof -
  have "known a \<subseteq> known b" using assms(2) by (simp add: register_le_def map_le_implies_dom_le)
  with assms(1) statements_match_mono [OF _ assms(2)] show ?thesis
    unfolding ledger_wf_def by (meson subset_trans)
qed

lemma ledger_sealed_mono:
  assumes "ledger_sealed led a" and "ledger_wf led a" and "register_le a b" and "register_valid a"
  shows "ledger_sealed led b"
proof -
  have stable: "(i, j) \<in> (causal_edge (revisions a))\<^sup>+"
    if "i \<in> bs_set (exposed_local_ids led)" and "(i, j) \<in> (causal_edge (revisions b))\<^sup>+" for i j
    using that assms(2-4)
      causal_history_stable [of "revisions a" "revisions b" i j]
    by (auto simp: ledger_wf_def register_le_def register_valid_def)
  with assms(1) show ?thesis unfolding ledger_sealed_def by blast
qed

text \<open>Registering a revision that nothing exposed depends on.\<close>

lemma register_local_known:
  "i \<in> known causal \<Longrightarrow> FinalizationLedger_register_local led causal i =
     (Ok (), led\<lparr>local_revision_ids := bs_insert i (local_revision_ids led)\<rparr>)"
  by (auto simp: FinalizationLedger_register_local_def ScalarRegister_revision_def)

lemma register_local_wf:
  "ledger_wf led causal \<Longrightarrow> ledger_wf (snd (FinalizationLedger_register_local led causal i)) causal"
  by (auto simp: ledger_wf_def FinalizationLedger_register_local_def ScalarRegister_revision_def
      statements_match_def)

lemma register_local_sealed:
  assumes "ledger_sealed led causal"
    and "\<And>e. e \<in> bs_set (exposed_local_ids led) \<Longrightarrow> (e, i) \<notin> (causal_edge (revisions causal))\<^sup>+"
  shows "ledger_sealed (snd (FinalizationLedger_register_local led causal i)) causal"
  using assms by (auto simp: ledger_sealed_def FinalizationLedger_register_local_def)

lemma finalize_cases:
  assumes "ledger_wf led causal"
  obtains (foreign) "i \<notin> bs_set (local_revision_ids led)"
      "FinalizationLedger_finalize led causal i = (Err (UnknownLocalRevision i), led)"
  | (frozen) r where "i \<in> bs_set (local_revision_ids led)" "bm_get (revisions causal) i = Some r"
      "FinalizationLedger_finalize led causal i = (Ok (FinalizedStatement_from r),
         led\<lparr>finalized := bm_insert i (FinalizedStatement_from r) (finalized led)\<rparr>)"
proof (cases "i \<in> bs_set (local_revision_ids led)")
  case False
  then show ?thesis using foreign by (simp add: FinalizationLedger_finalize_def)
next
  case True
  then obtain r where r: "bm_get (revisions causal) i = Some r" using assms by (auto simp: ledger_wf_def)
  show ?thesis
  proof (rule frozen [OF True r])
    show "FinalizationLedger_finalize led causal i = (Ok (FinalizedStatement_from r),
         led\<lparr>finalized := bm_insert i (FinalizedStatement_from r) (finalized led)\<rparr>)"
    proof (cases "bm_get (finalized led) i")
      case (Some st)
      then have "st = FinalizedStatement_from r"
        using assms r by (fastforce simp: ledger_wf_def statements_match_def)
      with Some True r show ?thesis
        by (simp add: FinalizationLedger_finalize_def ScalarRegister_revision_def Let_def bm_insert_same)
    qed (use True r in \<open>simp add: FinalizationLedger_finalize_def ScalarRegister_revision_def Let_def\<close>)
  qed
qed

lemma finalize_wf:
  assumes "ledger_wf led causal"
  shows "ledger_wf (snd (FinalizationLedger_finalize led causal i)) causal"
  using assms by (cases rule: finalize_cases [OF assms, of i])
    (auto simp: ledger_wf_def statements_match_def)

lemma finalize_sealed:
  assumes "ledger_wf led causal" and "ledger_sealed led causal"
  shows "ledger_sealed (snd (FinalizationLedger_finalize led causal i)) causal"
  using assms by (cases rule: finalize_cases [OF assms(1), of i]) (auto simp: ledger_sealed_def)

lemma handoff_Err_unchanged:
  "fst (FinalizationLedger_handoff led causal ids) = Err e \<Longrightarrow>
     snd (FinalizationLedger_handoff led causal ids) = led"
  by (auto simp: FinalizationLedger_handoff_def Let_def split: result.splits option.splits)

lemma handoff_Ok:
  assumes "register_valid causal" and "ledger_wf led causal"
    and "FinalizationLedger_handoff led causal ids = (Ok (), led')"
  shows "set ids \<subseteq> known causal" 
    and "causal_closure causal ids \<inter> bs_set (local_revision_ids led) \<subseteq> dom (bm_get (finalized led))"
    and "local_revision_ids led' = local_revision_ids led" and "finalized led' = finalized led"
    and "bs_set (exposed_local_ids led') = bs_set (exposed_local_ids led) \<union>
        causal_closure causal ids \<inter> bs_set (local_revision_ids led)"
    and "bs_set (handed_off_local_ids led') = bs_set (handed_off_local_ids led) \<union>
        set ids \<inter> bs_set (local_revision_ids led)"
proof -
  have m: "statements_match led causal" using assms(2) by (simp add: ledger_wf_def)
  show k: "set ids \<subseteq> known causal"
    using handoff_unknown [OF assms(1) m, of ids] assms(3) by fastforce
  note spec = handoff_spec [OF assms(1) m k]
  show fin: "causal_closure causal ids \<inter> bs_set (local_revision_ids led) \<subseteq> dom (bm_get (finalized led))"
    using spec assms(3) by (auto split: if_splits)
  show "local_revision_ids led' = local_revision_ids led" "finalized led' = finalized led"
    "bs_set (exposed_local_ids led') = bs_set (exposed_local_ids led) \<union>
        causal_closure causal ids \<inter> bs_set (local_revision_ids led)"
    "bs_set (handed_off_local_ids led') = bs_set (handed_off_local_ids led) \<union>
        set ids \<inter> bs_set (local_revision_ids led)"
    using spec fin assms(3) by auto
qed

lemma handoff_preserves:
  assumes "register_valid causal" and "ledger_wf led causal" and "ledger_sealed led causal"
  shows "ledger_wf (snd (FinalizationLedger_handoff led causal ids)) causal \<and>
    ledger_sealed (snd (FinalizationLedger_handoff led causal ids)) causal"
proof (cases "fst (FinalizationLedger_handoff led causal ids)")
  case (Ok u)
  then obtain led' where h: "FinalizationLedger_handoff led causal ids = (Ok (), led')"
    by (cases "FinalizationLedger_handoff led causal ids") auto
  note spec = handoff_Ok [OF assms(1,2) h]
  have direct: "set ids \<subseteq> causal_closure causal ids" by (auto simp: causal_closure_def)
  have down: "j \<in> causal_closure causal ids"
    if "i \<in> causal_closure causal ids" "(i, j) \<in> (causal_edge (revisions causal))\<^sup>+" for i j
    using that unfolding causal_closure_def by (meson ImageE ImageI rtrancl_trans trancl_into_rtrancl)
  have "ledger_wf led' causal"
    using assms(2) spec direct unfolding ledger_wf_def statements_match_def by auto
  moreover have "ledger_sealed led' causal"
    unfolding ledger_sealed_def spec(3-5) using assms(3) spec(2) down
    by (auto simp: ledger_sealed_def)
  ultimately show ?thesis using h by simp
next
  case (Err e)
  with handoff_Err_unchanged [of led causal ids e] assms show ?thesis by simp
qed

lemma restore_Ok_iff:
  assumes "register_valid causal"
  shows "FinalizationLedger_restore s causal = Ok led \<longleftrightarrow>
    s = FinalizationLedger_snapshot led \<and> ledger_wf led causal"
proof -
  let ?led = "\<lparr>local_revision_ids = snap_local_revision_ids s, finalized = snap_finalized s,
    exposed_local_ids = snap_exposed_local_ids s, handed_off_local_ids = snap_handed_off_local_ids s\<rparr>"
  have eq: "s = FinalizationLedger_snapshot led \<longleftrightarrow> led = ?led"
    by (cases s; cases led) (auto simp: FinalizationLedger_snapshot_def)
  have loc: "find (\<lambda>i. ScalarRegister_revision causal i = None) (bs_iter (snap_local_revision_ids s)) = None
      \<longleftrightarrow> bs_set (snap_local_revision_ids s) \<subseteq> known causal"
    by (auto simp: find_None_iff ScalarRegister_revision_def)
  have "FinalizationLedger_restore s causal = Ok led \<longleftrightarrow> led = ?led \<and> ledger_wf ?led causal"
  proof (cases "bs_set (snap_local_revision_ids s) \<subseteq> known causal")
    case True
    then show ?thesis
      using validate_against_Ok [of ?led causal] assms loc
      by (auto simp: FinalizationLedger_restore_def Let_def ledger_wf_def register_valid_iff list_all_iff
          split: result.splits)
  next
    case False
    with loc have "find (\<lambda>i. ScalarRegister_revision causal i = None)
        (bs_iter (snap_local_revision_ids s)) \<noteq> None" by simp
    with False show ?thesis
      by (auto simp: FinalizationLedger_restore_def Let_def ledger_wf_def)
  qed
  with eq show ?thesis by metis
qed

end
