(* ===== verification/Local_Domain.thy ===== *)
theory Local_Domain
  imports Working_Scalar Finalization_Ledger Scalar_Properties
begin

text \<open>
  The local state machine of one scalar merge domain, \<^verbatim>\<open>apc-core/src/domain.rs\<close>, which
  couples the working state and the finalization ledger. The machine is the step relation
  \<open>domain_step\<close> over its public operations, taken with every outcome (a failing call steps
  to whatever state it leaves behind) and with crash recovery through a snapshot;
  \<open>domain_reachable\<close> starts it from any register \<^verbatim>\<open>from_causal\<close> accepts.
\<close>

section \<open>Data and operations\<close>

record 'v LocalScalarSnapshot =
  snap_working :: "'v WorkingSnapshot"
  snap_finalization :: "'v FinalizationSnapshot"

record 'v LocalScalarDomain =
  working :: "'v WorkingScalar"
  finalization :: "'v FinalizationLedger"

definition LocalScalarDomain_from_causal :: "'v ScalarRegister \<Rightarrow> ('v LocalScalarDomain, CoreError) result" where
  "LocalScalarDomain_from_causal causal =
     (case WorkingScalar_from_causal causal of
        Err e \<Rightarrow> Err e
      | Ok ws \<Rightarrow> Ok \<lparr>working = ws, finalization = FinalizationLedger_new\<rparr>)"

definition LocalScalarDomain_causal :: "'v LocalScalarDomain \<Rightarrow> 'v ScalarRegister" where
  "LocalScalarDomain_causal d = ws_causal (working d)"

definition LocalScalarDomain_pending :: "'v LocalScalarDomain \<Rightarrow> 'v WorkingEpoch option" where
  "LocalScalarDomain_pending d = ws_pending (working d)"

definition LocalScalarDomain_working_value :: "'v LocalScalarDomain \<Rightarrow> 'v option" where
  "LocalScalarDomain_working_value d = WorkingScalar_working_value (working d)"

definition LocalScalarDomain_begin_epoch ::
    "'v LocalScalarDomain \<Rightarrow> WorkingEpochId \<Rightarrow> 'v \<Rightarrow> (unit, CoreError) result \<times> 'v LocalScalarDomain" where
  "LocalScalarDomain_begin_epoch d i v =
     (case WorkingScalar_begin_epoch (working d) i v of (res, ws) \<Rightarrow> (res, d\<lparr>working := ws\<rparr>))"

definition LocalScalarDomain_update_pending ::
    "'v LocalScalarDomain \<Rightarrow> 'v \<Rightarrow> (unit, CoreError) result \<times> 'v LocalScalarDomain" where
  "LocalScalarDomain_update_pending d v =
     (case WorkingScalar_update_pending (working d) v of (res, ws) \<Rightarrow> (res, d\<lparr>working := ws\<rparr>))"

definition LocalScalarDomain_seal_local ::
    "'v LocalScalarDomain \<Rightarrow> RevisionId \<Rightarrow> ('v ScalarRevision, CoreError) result \<times> 'v LocalScalarDomain" where
  "LocalScalarDomain_seal_local d i =
     (case WorkingScalar_seal (working d) i of
        (Err e, ws) \<Rightarrow> (Err e, d\<lparr>working := ws\<rparr>)
      | (Ok revision, ws) \<Rightarrow>
          (case FinalizationLedger_register_local (finalization d) (ws_causal ws) i of
             (Err e, led) \<Rightarrow> (Err e, d\<lparr>working := ws, finalization := led\<rparr>)
           | (Ok _, led) \<Rightarrow> (Ok revision, d\<lparr>working := ws, finalization := led\<rparr>)))"

definition LocalScalarDomain_observe_remote ::
    "'v LocalScalarDomain \<Rightarrow> 'v ScalarRegister \<Rightarrow> RevisionId option \<Rightarrow>
     ('v ScalarRevision option, CoreError) result \<times> 'v LocalScalarDomain" where
  "LocalScalarDomain_observe_remote d remote pre =
     (case WorkingScalar_observe_remote (working d) remote pre of
        (Err e, ws) \<Rightarrow> (Err e, d\<lparr>working := ws\<rparr>)
      | (Ok None, ws) \<Rightarrow> (Ok None, d\<lparr>working := ws\<rparr>)
      | (Ok (Some revision), ws) \<Rightarrow>
          (case FinalizationLedger_register_local (finalization d) (ws_causal ws) (rev_id revision) of
             (Err e, led) \<Rightarrow> (Err e, d\<lparr>working := ws, finalization := led\<rparr>)
           | (Ok _, led) \<Rightarrow> (Ok (Some revision), d\<lparr>working := ws, finalization := led\<rparr>)))"

definition LocalScalarDomain_finalize ::
    "'v LocalScalarDomain \<Rightarrow> RevisionId \<Rightarrow> ('v FinalizedStatement, CoreError) result \<times> 'v LocalScalarDomain" where
  "LocalScalarDomain_finalize d i =
     (case FinalizationLedger_finalize (finalization d) (ws_causal (working d)) i of
        (res, led) \<Rightarrow> (res, d\<lparr>finalization := led\<rparr>))"

definition LocalScalarDomain_handoff ::
    "'v LocalScalarDomain \<Rightarrow> RevisionId list \<Rightarrow> (unit, CoreError) result \<times> 'v LocalScalarDomain" where
  "LocalScalarDomain_handoff d ids =
     (case FinalizationLedger_handoff (finalization d) (ws_causal (working d)) ids of
        (res, led) \<Rightarrow> (res, d\<lparr>finalization := led\<rparr>))"

definition LocalScalarDomain_snapshot :: "'v LocalScalarDomain \<Rightarrow> 'v LocalScalarSnapshot" where
  "LocalScalarDomain_snapshot d =
     \<lparr>snap_working = WorkingScalar_snapshot (working d),
      snap_finalization = FinalizationLedger_snapshot (finalization d)\<rparr>"

definition LocalScalarDomain_restore :: "'v LocalScalarSnapshot \<Rightarrow> ('v LocalScalarDomain, CoreError) result" where
  "LocalScalarDomain_restore s =
     (case WorkingScalar_restore (snap_working s) of
        Err e \<Rightarrow> Err e
      | Ok ws \<Rightarrow>
          (case FinalizationLedger_restore (snap_finalization s) (ws_causal ws) of
             Err e \<Rightarrow> Err e
           | Ok led \<Rightarrow> Ok \<lparr>working = ws, finalization = led\<rparr>))"

section \<open>The state machine\<close>

inductive domain_step :: "'v LocalScalarDomain \<Rightarrow> 'v LocalScalarDomain \<Rightarrow> bool" where
  begin_epoch: "domain_step d (snd (LocalScalarDomain_begin_epoch d i v))"
| update_pending: "domain_step d (snd (LocalScalarDomain_update_pending d v))"
| seal_local: "domain_step d (snd (LocalScalarDomain_seal_local d r))"
| observe_remote: "keyed_by_id (revisions remote) \<Longrightarrow>
    domain_step d (snd (LocalScalarDomain_observe_remote d remote pre))"
| finalize: "domain_step d (snd (LocalScalarDomain_finalize d r))"
| handoff: "domain_step d (snd (LocalScalarDomain_handoff d ids))"
| recover: "LocalScalarDomain_restore (LocalScalarDomain_snapshot d) = Ok d' \<Longrightarrow> domain_step d d'"

inductive_cases domain_stepE: "domain_step d d'"

inductive domain_reachable :: "'v LocalScalarDomain \<Rightarrow> bool" where
  start: "keyed_by_id (revisions reg) \<Longrightarrow> LocalScalarDomain_from_causal reg = Ok d \<Longrightarrow> domain_reachable d"
| step: "domain_reachable d \<Longrightarrow> domain_step d d' \<Longrightarrow> domain_reachable d'"

definition domain_valid :: "'v LocalScalarDomain \<Rightarrow> bool" where
  "domain_valid d \<longleftrightarrow> working_valid (working d) \<and>
     ledger_wf (finalization d) (ws_causal (working d)) \<and>
     ledger_sealed (finalization d) (ws_causal (working d))"

text \<open>What no step may undo: known revisions, frozen statements, ownership, exposure.\<close>

definition domain_grows :: "'v LocalScalarDomain \<Rightarrow> 'v LocalScalarDomain \<Rightarrow> bool" where
  "domain_grows d d' \<longleftrightarrow>
     register_le (ws_causal (working d)) (ws_causal (working d')) \<and>
     bs_set (local_revision_ids (finalization d)) \<subseteq> bs_set (local_revision_ids (finalization d')) \<and>
     bm_get (finalized (finalization d)) \<subseteq>\<^sub>m bm_get (finalized (finalization d')) \<and>
     bs_set (exposed_local_ids (finalization d)) \<subseteq> bs_set (exposed_local_ids (finalization d')) \<and>
     bs_set (handed_off_local_ids (finalization d)) \<subseteq> bs_set (handed_off_local_ids (finalization d'))"

lemma domain_grows_refl [simp]: "domain_grows d d"
  by (simp add: domain_grows_def)

lemma domain_grows_trans: "domain_grows a b \<Longrightarrow> domain_grows b c \<Longrightarrow> domain_grows a c"
  unfolding domain_grows_def using register_le_trans map_le_trans by blast

section \<open>Each operation keeps the invariant and grows the state\<close>

lemma register_le_assigned:
  "ScalarRegister_revision reg i = None \<Longrightarrow> register_le reg (assigned reg i v)"
  by (auto simp: register_le_def assigned_def map_le_def ScalarRegister_revision_def)

lemma known_assigned: "known (assigned reg i v) = insert i (known reg)"
  by (simp add: assigned_def)

lemma domain_update_all [simp]:
  "d\<lparr>working := ws, finalization := led\<rparr> = \<lparr>working = ws, finalization = led\<rparr>"
  for d :: "'v LocalScalarDomain"
  by (cases d) simp

lemma clean_update_causal:
  "ws_pending ws = None \<Longrightarrow> ws\<lparr>ws_causal := c\<rparr> = \<lparr>ws_causal = c, ws_pending = None\<rparr>" for ws :: "'v WorkingScalar"
  by (cases ws) simp

lemma domain_validD:
  assumes "domain_valid d"
  shows "working_valid (working d)" and "register_valid (ws_causal (working d))"
    and "ledger_wf (finalization d) (ws_causal (working d))"
    and "ledger_sealed (finalization d) (ws_causal (working d))"
  using assms by (auto simp: domain_valid_def)

lemma domain_ledger_mono:
  assumes "domain_valid d" and "register_le (ws_causal (working d)) causal"
  shows "ledger_wf (finalization d) causal" and "ledger_sealed (finalization d) causal"
  using ledger_wf_mono [OF domain_validD(3) [OF assms(1)] assms(2)]
    ledger_sealed_mono [OF domain_validD(4,3) [OF assms(1)] assms(2) domain_validD(2) [OF assms(1)]]
  by simp_all

lemma grown_domain_valid:
  assumes "domain_valid d" and "register_le (ws_causal (working d)) causal" and "register_valid causal"
  shows "domain_valid (d\<lparr>working := \<lparr>ws_causal = causal, ws_pending = None\<rparr>\<rparr>)"
    and "domain_grows d (d\<lparr>working := \<lparr>ws_causal = causal, ws_pending = None\<rparr>\<rparr>)"
  using domain_ledger_mono [OF assms(1,2)] assms(2,3)
  by (simp_all add: domain_valid_def domain_grows_def working_valid_def)

lemma sealed_domain_valid:
  assumes d: "domain_valid d" and fresh: "ScalarRegister_revision (ws_causal (working d)) i = None"
    and le: "register_le (ws_causal (working d)) causal" and val: "register_valid causal"
    and i: "i \<in> known causal"
  defines "d' \<equiv> \<lparr>working = \<lparr>ws_causal = causal, ws_pending = None\<rparr>,
      finalization = snd (FinalizationLedger_register_local (finalization d) causal i)\<rparr>"
  shows "domain_valid d'" and "domain_grows d d'"
proof -
  let ?led = "finalization d" and ?reg = "ws_causal (working d)"
  have wf: "ledger_wf ?led causal" and s: "ledger_sealed ?led causal"
    using domain_ledger_mono [OF d le] .
  have "(e, i) \<notin> (causal_edge (revisions causal))\<^sup>+" if "e \<in> bs_set (exposed_local_ids ?led)" for e
  proof
    assume path: "(e, i) \<in> (causal_edge (revisions causal))\<^sup>+"
    have "e \<in> known ?reg" using d that by (auto simp: domain_valid_def ledger_wf_def)
    moreover have "parents_closed (revisions ?reg)"
      using d by (auto simp: domain_valid_def working_valid_def register_valid_def)
    ultimately have "i \<in> known ?reg"
      using causal_history_stable [OF _ _ _ path] le by (auto simp: register_le_def)
    with fresh show False by (auto simp: ScalarRegister_revision_def)
  qed
  with s wf have "ledger_wf (finalization d') causal" "ledger_sealed (finalization d') causal"
    by (auto simp: d'_def intro!: register_local_wf register_local_sealed)
  with val show "domain_valid d'" by (simp add: domain_valid_def working_valid_def d'_def)
  show "domain_grows d d'"
    using le i by (auto simp: domain_grows_def d'_def register_local_known)
qed

lemma seal_local_valid:
  assumes "domain_valid d"
  shows "domain_valid (snd (LocalScalarDomain_seal_local d i)) \<and>
    domain_grows d (snd (LocalScalarDomain_seal_local d i))"
proof -
  have wv: "working_valid (working d)" using assms by (simp add: domain_valid_def)
  then show ?thesis
  proof (cases rule: seal_cases [where i = i])
    case (sealed e)
    let ?c = "assigned (ws_causal (working d)) i (epoch_value e)"
    have "register_valid ?c" using assigned_pending_valid [OF domain_validD(2) [OF assms] sealed(2)] .
    moreover have i: "i \<in> known ?c" by (simp add: known_assigned)
    moreover have "snd (LocalScalarDomain_seal_local d i) =
        \<lparr>working = \<lparr>ws_causal = ?c, ws_pending = None\<rparr>,
         finalization = snd (FinalizationLedger_register_local (finalization d) ?c i)\<rparr>"
      by (simp add: LocalScalarDomain_seal_local_def sealed(3) register_local_known [OF i])
    ultimately show ?thesis
      using sealed_domain_valid [OF assms sealed(2) register_le_assigned [OF sealed(2)]] by metis
  qed (use assms in \<open>simp_all add: LocalScalarDomain_seal_local_def\<close>)
qed

lemma domain_observe_valid:
  assumes "domain_valid d" and "register_valid remote"
  shows "domain_valid (snd (LocalScalarDomain_observe_remote d remote pre)) \<and>
    domain_grows d (snd (LocalScalarDomain_observe_remote d remote pre))"
proof -
  have wv: "working_valid (working d)" using assms by (simp add: domain_valid_def)
  from wv assms(2) show ?thesis
  proof (cases rule: observe_remote_cases [where pre = pre])
    case (refused e)
    with assms(1) show ?thesis by (simp add: LocalScalarDomain_observe_remote_def)
  next
    case (clean causal)
    have "register_le (ws_causal (working d)) causal" using merge_Ok_imp_lub(1) [OF clean(3)] .
    moreover have "register_valid causal" using merge_valid [OF domain_validD(2) [OF assms(1)] assms(2) clean(3)] .
    moreover have "snd (LocalScalarDomain_observe_remote d remote pre) =
        d\<lparr>working := \<lparr>ws_causal = causal, ws_pending = None\<rparr>\<rparr>"
      by (simp add: LocalScalarDomain_observe_remote_def clean(4) clean_update_causal [OF clean(1)])
    ultimately show ?thesis using grown_domain_valid [OF assms(1)] by metis
  next
    case (sealed i e causal)
    let ?c = "assigned (ws_causal (working d)) i (epoch_value e)"
    have v: "register_valid ?c" using assigned_pending_valid [OF domain_validD(2) [OF assms(1)] sealed(3)] .
    have le: "register_le (ws_causal (working d)) causal"
      using register_le_assigned [OF sealed(3)] merge_Ok_imp_lub(1) [OF sealed(4)] register_le_trans by blast
    have i: "i \<in> known causal" using merge_Ok_imp_lub(3) [OF sealed(4)] by (simp add: known_assigned)
    have "snd (LocalScalarDomain_observe_remote d remote pre) =
        \<lparr>working = \<lparr>ws_causal = causal, ws_pending = None\<rparr>,
         finalization = snd (FinalizationLedger_register_local (finalization d) causal i)\<rparr>"
      by (simp add: LocalScalarDomain_observe_remote_def sealed(5) ScalarRevision_new_def
          register_local_known [OF i])
    then show ?thesis
      using sealed_domain_valid [OF assms(1) sealed(3) le merge_valid [OF v assms(2) sealed(4)] i] by metis
  next
    case (stranded i e err)
    let ?c = "assigned (ws_causal (working d)) i (epoch_value e)"
    have "register_valid ?c" "register_le (ws_causal (working d)) ?c"
      using assigned_pending_valid [OF domain_validD(2) [OF assms(1)] stranded(3)]
        register_le_assigned [OF stranded(3)] by simp_all
    moreover have "snd (LocalScalarDomain_observe_remote d remote pre) =
        d\<lparr>working := \<lparr>ws_causal = ?c, ws_pending = None\<rparr>\<rparr>"
      by (simp add: LocalScalarDomain_observe_remote_def stranded(5))
    ultimately show ?thesis using grown_domain_valid [OF assms(1)] by metis
  qed
qed

lemma observe_remote_invalid:
  "ScalarRegister_validate remote = Err e \<Longrightarrow> LocalScalarDomain_observe_remote d remote pre = (Err e, d)"
  by (simp add: LocalScalarDomain_observe_remote_def WorkingScalar_observe_remote_def)

lemma begin_update_valid:
  assumes "domain_valid d"
  shows "domain_valid (snd (LocalScalarDomain_begin_epoch d i v)) \<and>
      domain_grows d (snd (LocalScalarDomain_begin_epoch d i v))"
    and "domain_valid (snd (LocalScalarDomain_update_pending d v)) \<and>
      domain_grows d (snd (LocalScalarDomain_update_pending d v))"
proof -
  have "ws_causal (snd (WorkingScalar_begin_epoch (working d) i v)) = ws_causal (working d)"
    "ws_causal (snd (WorkingScalar_update_pending (working d) v)) = ws_causal (working d)"
    by (simp_all add: WorkingScalar_begin_epoch_def WorkingScalar_update_pending_def split: option.splits)
  with assms begin_epoch_valid [of "working d" i v] update_pending_valid [of "working d" v]
  show "domain_valid (snd (LocalScalarDomain_begin_epoch d i v)) \<and>
      domain_grows d (snd (LocalScalarDomain_begin_epoch d i v))"
    "domain_valid (snd (LocalScalarDomain_update_pending d v)) \<and>
      domain_grows d (snd (LocalScalarDomain_update_pending d v))"
    by (auto simp: LocalScalarDomain_begin_epoch_def LocalScalarDomain_update_pending_def
        domain_valid_def domain_grows_def split: prod.splits)
qed

lemma finalize_handoff_valid:
  assumes "domain_valid d"
  shows "domain_valid (snd (LocalScalarDomain_finalize d i)) \<and>
      domain_grows d (snd (LocalScalarDomain_finalize d i))"
    and "domain_valid (snd (LocalScalarDomain_handoff d ids)) \<and>
      domain_grows d (snd (LocalScalarDomain_handoff d ids))"
proof -
  let ?led = "finalization d" and ?reg = "ws_causal (working d)"
  have rv: "register_valid ?reg" and wf: "ledger_wf ?led ?reg" and s: "ledger_sealed ?led ?reg"
    using assms by (auto simp: domain_valid_def)
  have "domain_grows d (d\<lparr>finalization := snd (FinalizationLedger_finalize ?led ?reg i)\<rparr>)"
    using wf
  proof (cases rule: finalize_cases [where i = i])
    case (frozen r)
    have "bm_get (finalized ?led) i \<in> {None, Some (FinalizedStatement_from r)}"
      using wf frozen(2) by (cases "bm_get (finalized ?led) i")
        (fastforce simp: ledger_wf_def statements_match_def)+
    with frozen show ?thesis by (auto simp: domain_grows_def map_le_def)
  qed simp
  with assms finalize_wf [OF wf, of i] finalize_sealed [OF wf s, of i]
  show "domain_valid (snd (LocalScalarDomain_finalize d i)) \<and>
      domain_grows d (snd (LocalScalarDomain_finalize d i))"
    by (auto simp: LocalScalarDomain_finalize_def domain_valid_def split: prod.splits)
  have "domain_grows d (d\<lparr>finalization := snd (FinalizationLedger_handoff ?led ?reg ids)\<rparr>)"
  proof (cases "fst (FinalizationLedger_handoff ?led ?reg ids)")
    case (Ok u)
    then obtain led' where h: "FinalizationLedger_handoff ?led ?reg ids = (Ok (), led')"
      by (cases "FinalizationLedger_handoff ?led ?reg ids") auto
    from handoff_Ok [OF rv wf h] h show ?thesis by (auto simp: domain_grows_def)
  qed (simp add: handoff_Err_unchanged)
  with assms handoff_preserves [OF rv wf s, of ids]
  show "domain_valid (snd (LocalScalarDomain_handoff d ids)) \<and>
      domain_grows d (snd (LocalScalarDomain_handoff d ids))"
    by (auto simp: LocalScalarDomain_handoff_def domain_valid_def split: prod.splits)
qed

lemma domain_restore_snapshot:
  assumes "domain_valid d"
  shows "LocalScalarDomain_restore (LocalScalarDomain_snapshot d) = Ok d"
proof -
  have rv: "register_valid (ws_causal (working d))" and "working_valid (working d)"
    and "ledger_wf (finalization d) (ws_causal (working d))"
    using assms by (auto simp: domain_valid_def)
  then show ?thesis
    using restore_Ok_iff [OF rv, of "FinalizationLedger_snapshot (finalization d)" "finalization d"]
    by (cases d) (simp add: LocalScalarDomain_restore_def LocalScalarDomain_snapshot_def working_restore_snapshot)
qed

text \<open>What any restored domain satisfies, whatever snapshot it came from.\<close>

definition domain_wf :: "'v LocalScalarDomain \<Rightarrow> bool" where
  "domain_wf d \<longleftrightarrow> working_valid (working d) \<and> ledger_wf (finalization d) (ws_causal (working d))"

lemma domain_valid_wf: "domain_valid d \<Longrightarrow> domain_wf d"
  by (simp add: domain_valid_def domain_wf_def)

lemma restore_wf_snapshot:
  assumes "domain_wf d"
  shows "LocalScalarDomain_restore (LocalScalarDomain_snapshot d) = Ok d"
proof -
  have rv: "register_valid (ws_causal (working d))" using assms by (simp add: domain_wf_def working_valid_def)
  with assms show ?thesis
    using restore_Ok_iff [OF rv, of "FinalizationLedger_snapshot (finalization d)" "finalization d"]
    by (cases d) (simp add: LocalScalarDomain_restore_def LocalScalarDomain_snapshot_def working_restore_snapshot domain_wf_def)
qed

lemma snapshot_inject: "LocalScalarDomain_snapshot d = LocalScalarDomain_snapshot d' \<longleftrightarrow> d = d'"
  by (cases d; cases d'; cases "working d"; cases "working d'"; cases "finalization d"; cases "finalization d'")
    (auto simp: LocalScalarDomain_snapshot_def WorkingScalar_snapshot_def FinalizationLedger_snapshot_def)

lemma restored_domain_wf:
  assumes "keyed_by_id (revisions (snap_causal (snap_working s)))" and "LocalScalarDomain_restore s = Ok d"
  shows "domain_wf d \<and> LocalScalarDomain_snapshot d = s"
proof -
  from assms(2) obtain ws led where ws: "WorkingScalar_restore (snap_working s) = Ok ws"
    and led: "FinalizationLedger_restore (snap_finalization s) (ws_causal ws) = Ok led"
    and d: "d = \<lparr>working = ws, finalization = led\<rparr>"
    by (auto simp: LocalScalarDomain_restore_def split: result.splits)
  have w: "working_valid ws" "WorkingScalar_snapshot ws = snap_working s"
    using working_restore_valid [OF assms(1) ws] by simp_all
  then have "register_valid (ws_causal ws)" by (simp add: working_valid_def)
  from restore_Ok_iff [OF this] led have "snap_finalization s = FinalizationLedger_snapshot led" "ledger_wf led (ws_causal ws)"
    by simp_all
  with w d show ?thesis by (cases s) (simp add: domain_wf_def LocalScalarDomain_snapshot_def)
qed

lemma domain_wfD:
  assumes "domain_wf d"
  shows "working_valid (working d)" and "register_valid (LocalScalarDomain_causal d)"
    and "ledger_wf (finalization d) (LocalScalarDomain_causal d)"
  using assms by (auto simp: domain_wf_def working_valid_def LocalScalarDomain_causal_def)

lemma handoff_domain_wf:
  assumes "domain_wf d" and "LocalScalarDomain_handoff d ids = (Ok u, d')"
  shows "domain_wf d' \<and> working d' = working d \<and> set ids \<subseteq> known (LocalScalarDomain_causal d) \<and>
    causal_closure (LocalScalarDomain_causal d) ids \<inter> bs_set (local_revision_ids (finalization d))
      \<subseteq> dom (bm_get (finalized (finalization d))) \<and>
    local_revision_ids (finalization d') = local_revision_ids (finalization d) \<and>
    finalized (finalization d') = finalized (finalization d) \<and>
    bs_set (exposed_local_ids (finalization d')) = bs_set (exposed_local_ids (finalization d)) \<union>
      causal_closure (LocalScalarDomain_causal d) ids \<inter> bs_set (local_revision_ids (finalization d))"
proof -
  note wf = domain_wfD [OF assms(1)]
  from assms(2) obtain led where
    h: "FinalizationLedger_handoff (finalization d) (LocalScalarDomain_causal d) ids = (Ok (), led)"
    and d': "d' = d\<lparr>finalization := led\<rparr>"
    by (auto simp: LocalScalarDomain_handoff_def LocalScalarDomain_causal_def split: prod.splits)
  note spec = handoff_Ok [OF wf(2,3) h]
  have "set ids \<subseteq> causal_closure (LocalScalarDomain_causal d) ids" by (auto simp: causal_closure_def)
  then have "ledger_wf led (LocalScalarDomain_causal d)"
    using wf(3) spec unfolding ledger_wf_def statements_match_def by auto
  with wf(1) spec d' show ?thesis by (simp add: domain_wf_def LocalScalarDomain_causal_def)
qed

lemma observe_domain_wf:
  assumes "domain_wf d" and "register_valid remote" and "LocalScalarDomain_observe_remote d remote pre = (Ok sealed, d')"
  shows "domain_wf d' \<and> register_le (LocalScalarDomain_causal d) (LocalScalarDomain_causal d') \<and>
    register_le remote (LocalScalarDomain_causal d') \<and> LocalScalarDomain_pending d' = None"
proof -
  note wf = domain_wfD [OF assms(1), unfolded LocalScalarDomain_causal_def]
  from wf(1) assms(2) show ?thesis
  proof (cases rule: observe_remote_cases [where pre = pre])
    case (clean causal)
    have "register_le (ws_causal (working d)) causal" "register_le remote causal"
      using merge_Ok_imp_lub(1,2) [OF clean(3)] by simp_all
    moreover have "register_valid causal" using merge_valid [OF wf(2) assms(2) clean(3)] .
    ultimately show ?thesis
      using assms(3) ledger_wf_mono [OF wf(3)]
      by (auto simp: LocalScalarDomain_observe_remote_def clean(4) clean_update_causal [OF clean(1)] domain_wf_def
          LocalScalarDomain_causal_def LocalScalarDomain_pending_def working_valid_def)
  next
    case (sealed i e causal)
    let ?c = "assigned (ws_causal (working d)) i (epoch_value e)"
    have v: "register_valid ?c" using assigned_pending_valid [OF wf(2) sealed(3)] .
    have le: "register_le (ws_causal (working d)) causal" "register_le remote causal"
      using register_le_assigned [OF sealed(3)] merge_Ok_imp_lub(1,2) [OF sealed(4)] register_le_trans by blast+
    have i: "i \<in> known causal" using merge_Ok_imp_lub(3) [OF sealed(4)] by (simp add: known_assigned)
    show ?thesis
      using assms(3) le merge_valid [OF v assms(2) sealed(4)] register_local_wf [OF ledger_wf_mono [OF wf(3) le(1)], of i]
      by (auto simp: LocalScalarDomain_observe_remote_def sealed(5) ScalarRevision_new_def register_local_known [OF i]
          domain_wf_def LocalScalarDomain_causal_def LocalScalarDomain_pending_def working_valid_def)
  qed (use assms(3) in \<open>auto simp: LocalScalarDomain_observe_remote_def\<close>)
qed

lemma domain_step_valid:
  assumes "domain_step d d'" and "domain_valid d"
  shows "domain_valid d' \<and> domain_grows d d'"
  using assms(1)
proof cases
  case (observe_remote remote pre)
  show ?thesis
  proof (cases "ScalarRegister_validate remote")
    case (Ok u)
    then have "register_valid remote" using observe_remote(2) by (simp add: register_valid_iff)
    then show ?thesis using observe_remote(1) domain_observe_valid [OF assms(2)] by simp
  next
    case (Err e)
    then show ?thesis using observe_remote(1) observe_remote_invalid assms(2) by fastforce
  qed
next
  case recover
  then show ?thesis using domain_restore_snapshot [OF assms(2)] assms(2) by simp
qed (simp_all only: begin_update_valid [OF assms(2)] seal_local_valid [OF assms(2)]
    finalize_handoff_valid [OF assms(2)] simp_thms)

lemma domain_reachable_valid: "domain_reachable d \<Longrightarrow> domain_valid d"
proof (induction rule: domain_reachable.induct)
  case (start reg d)
  then show ?case
    using from_causal_valid
    by (fastforce simp: LocalScalarDomain_from_causal_def domain_valid_def split: result.splits)
next
  case (step d d')
  then show ?case using domain_step_valid by blast
qed

lemma domain_steps_valid:
  "domain_step\<^sup>*\<^sup>* d d' \<Longrightarrow> domain_valid d \<Longrightarrow> domain_valid d' \<and> domain_grows d d'"
  by (induction rule: rtranclp_induct) (auto dest: domain_step_valid intro: domain_grows_trans)

section \<open>Sample domains\<close>

definition dom_clean :: "nat LocalScalarDomain" where
  "dom_clean = \<lparr>working = \<lparr>ws_causal = reg_base, ws_pending = None\<rparr>, finalization = FinalizationLedger_new\<rparr>"

definition dom_dirty :: "nat LocalScalarDomain" where
  "dom_dirty = snd (LocalScalarDomain_begin_epoch dom_clean (OpaqueId 7) 20)"

definition dom_frozen :: "nat LocalScalarDomain" where
  "dom_frozen = snd (LocalScalarDomain_finalize (snd (LocalScalarDomain_seal_local dom_dirty (OpaqueId 2))) (OpaqueId 2))"

definition dom_exposed :: "nat LocalScalarDomain" where
  "dom_exposed = snd (LocalScalarDomain_handoff dom_frozen [OpaqueId 2])"

lemma dom_clean_reachable: "domain_reachable dom_clean"
proof (rule domain_reachable.start)
  show "keyed_by_id (revisions reg_base)" using sample_valid(1) by (simp add: register_valid_def)
  show "LocalScalarDomain_from_causal reg_base = Ok dom_clean" by code_simp
qed

lemma dom_dirty_reachable: "domain_reachable dom_dirty"
  unfolding dom_dirty_def using dom_clean_reachable by (rule domain_reachable.step) (rule domain_step.begin_epoch)

lemma dom_frozen_reachable: "domain_reachable dom_frozen"
  unfolding dom_frozen_def using dom_dirty_reachable
  by (meson domain_reachable.step domain_step.seal_local domain_step.finalize)

lemma dom_exposed_reachable: "domain_reachable dom_exposed"
  unfolding dom_exposed_def using dom_frozen_reachable by (rule domain_reachable.step) (rule domain_step.handoff)

section \<open>Properties of the state machine\<close>

text \<open>
  C6. In every reachable state, after any sequence of successful, failing and recovering calls,
  the causal register is valid and a pending epoch still names exactly the current frontier as
  what it observed; so sealing it can only fail on an identity that is already known.
\<close>

theorem domain_working_invariant:
  assumes "domain_reachable d"
  shows "ScalarRegister_validate (LocalScalarDomain_causal d) = Ok () \<and>
    (\<forall>e i. LocalScalarDomain_pending d = Some e \<longrightarrow>
       observed_frontier e = ScalarRegister_frontier_ids (LocalScalarDomain_causal d) \<and>
       (ScalarRegister_revision (LocalScalarDomain_causal d) i = None \<longrightarrow>
          fst (LocalScalarDomain_seal_local d i) = Ok (ScalarRevision_new i (epoch_value e) (observed_frontier e))))"
proof (intro conjI allI impI)
  note v = domain_reachable_valid [OF assms]
  show "ScalarRegister_validate (LocalScalarDomain_causal d) = Ok ()"
    using domain_validD(2) [OF v] by (simp add: LocalScalarDomain_causal_def register_valid_iff)
  fix e i assume pend: "LocalScalarDomain_pending d = Some e"
  then show obs: "observed_frontier e = ScalarRegister_frontier_ids (LocalScalarDomain_causal d)"
    using domain_validD(1) [OF v]
    by (simp add: working_valid_def LocalScalarDomain_pending_def LocalScalarDomain_causal_def)
  assume fresh: "ScalarRegister_revision (LocalScalarDomain_causal d) i = None"
  from domain_validD(1) [OF v] show "fst (LocalScalarDomain_seal_local d i) =
      Ok (ScalarRevision_new i (epoch_value e) (observed_frontier e))"
  proof (cases rule: seal_cases [where i = i])
    case (sealed e')
    have "i \<in> known (assigned (ws_causal (working d)) i (epoch_value e'))" by (simp add: known_assigned)
    then show ?thesis using sealed obs pend
      by (simp add: LocalScalarDomain_seal_local_def register_local_known LocalScalarDomain_pending_def
          LocalScalarDomain_causal_def)
  qed (use fresh pend in \<open>simp_all add: LocalScalarDomain_pending_def LocalScalarDomain_causal_def\<close>)
qed

theorem domain_working_invariant_witness:
  "ScalarRegister_validate (LocalScalarDomain_causal dom_dirty) = Ok () \<and>
   is_ok (fst (LocalScalarDomain_seal_local dom_dirty (OpaqueId 2)))"
proof -
  have "ScalarRegister_revision (LocalScalarDomain_causal dom_dirty) (OpaqueId 2) = None"
    and "LocalScalarDomain_pending dom_dirty \<noteq> None" by code_simp+
  with domain_working_invariant [OF dom_dirty_reachable] show ?thesis by (auto simp: is_ok_iff)
qed

text \<open>
  C7. The exposure discipline holds in every reachable state: what was handed off is exposed;
  what is exposed is local, frozen, and still stated in the causal register exactly as frozen;
  and every local causal ancestor of an exposed revision is exposed too.
\<close>

theorem exposure_discipline:
  assumes "domain_reachable d"
  shows "bs_set (handed_off_local_ids (finalization d)) \<subseteq> bs_set (exposed_local_ids (finalization d)) \<and>
    (\<forall>i \<in> bs_set (exposed_local_ids (finalization d)).
       i \<in> bs_set (local_revision_ids (finalization d)) \<and>
       (\<exists>r. ScalarRegister_revision (LocalScalarDomain_causal d) i = Some r \<and>
          bm_get (finalized (finalization d)) i = Some (FinalizedStatement_from r)) \<and>
       (\<forall>a. ScalarRegister_is_ancestor (LocalScalarDomain_causal d) a i \<longrightarrow>
          a \<in> bs_set (local_revision_ids (finalization d)) \<longrightarrow>
          a \<in> bs_set (exposed_local_ids (finalization d))))"
proof -
  note v = domain_validD(3,4) [OF domain_reachable_valid [OF assms]]
  have "\<exists>r. bm_get (revisions (ws_causal (working d))) i = Some r \<and>
      bm_get (finalized (finalization d)) i = Some (FinalizedStatement_from r)"
    if "i \<in> bs_set (exposed_local_ids (finalization d))" for i
  proof -
    from that v(2) obtain st where "bm_get (finalized (finalization d)) i = Some st"
      by (auto simp: ledger_sealed_def)
    with v(1) show ?thesis by (fastforce simp: ledger_wf_def statements_match_def)
  qed
  with v show ?thesis
    by (auto simp: ledger_wf_def ledger_sealed_def is_ancestor_trancl ScalarRegister_revision_def
        LocalScalarDomain_causal_def)
qed

theorem exposure_discipline_witness:
  "OpaqueId 2 \<in> bs_set (exposed_local_ids (finalization dom_exposed)) \<and>
   (\<exists>r. ScalarRegister_revision (LocalScalarDomain_causal dom_exposed) (OpaqueId 2) = Some r \<and>
      bm_get (finalized (finalization dom_exposed)) (OpaqueId 2) = Some (FinalizedStatement_from r))"
proof -
  have "bs_contains (exposed_local_ids (finalization dom_exposed)) (OpaqueId 2)" by code_simp
  then have "OpaqueId 2 \<in> bs_set (exposed_local_ids (finalization dom_exposed))" by simp
  with exposure_discipline [OF dom_exposed_reachable] show ?thesis by blast
qed

text \<open>
  C8. Nothing published is ever taken back: along any run, also across failed calls and crash
  recovery, known revisions keep their statement, frozen statements stay frozen unchanged, and
  ownership, exposure and handoff only grow.
\<close>

theorem frozen_and_exposed_are_permanent:
  assumes "domain_reachable d" and "domain_step\<^sup>*\<^sup>* d d'"
  shows "(\<forall>i r. ScalarRegister_revision (LocalScalarDomain_causal d) i = Some r \<longrightarrow>
      ScalarRegister_revision (LocalScalarDomain_causal d') i = Some r) \<and>
    (\<forall>i st. bm_get (finalized (finalization d)) i = Some st \<longrightarrow>
      bm_get (finalized (finalization d')) i = Some st) \<and>
    bs_set (local_revision_ids (finalization d)) \<subseteq> bs_set (local_revision_ids (finalization d')) \<and>
    bs_set (exposed_local_ids (finalization d)) \<subseteq> bs_set (exposed_local_ids (finalization d')) \<and>
    bs_set (handed_off_local_ids (finalization d)) \<subseteq> bs_set (handed_off_local_ids (finalization d'))"
proof -
  have "domain_grows d d'"
    using domain_steps_valid [OF assms(2)] domain_reachable_valid [OF assms(1)] by simp
  then show ?thesis
    by (auto simp: domain_grows_def register_le_def ScalarRegister_revision_def LocalScalarDomain_causal_def
        dest: map_le_lookup)
qed

theorem frozen_and_exposed_are_permanent_witness:
  "bm_get (finalized (finalization (snd (LocalScalarDomain_observe_remote dom_exposed reg_right None)))) (OpaqueId 2) =
   Some \<lparr>fs_revision_id = OpaqueId 2, fs_value = 20, fs_parents = bs_from_list [OpaqueId 1]\<rparr>"
proof -
  have "domain_step\<^sup>*\<^sup>* dom_exposed (snd (LocalScalarDomain_observe_remote dom_exposed reg_right None))"
    using sample_valid(3) by (auto simp: register_valid_def intro: domain_step.observe_remote)
  moreover have "bm_get (finalized (finalization dom_exposed)) (OpaqueId 2) =
      Some \<lparr>fs_revision_id = OpaqueId 2, fs_value = 20, fs_parents = bs_from_list [OpaqueId 1]\<rparr>"
    by code_simp
  ultimately show ?thesis
    using frozen_and_exposed_are_permanent [OF dom_exposed_reachable] by blast
qed

text \<open>
  C9. Observing remote state over pending local work never invents causality: on success the
  work is sealed first, with the pending value and the frontier it really observed as parents;
  the seal and the remote revisions are both kept; and no revision that was unknown before the
  observation is an ancestor of the sealed one.
\<close>

theorem observe_remote_no_false_causality:
  assumes "domain_reachable d" and "register_valid remote" and "LocalScalarDomain_pending d = Some e"
    and "LocalScalarDomain_observe_remote d remote (Some i) = (Ok sealed, d')"
  shows "sealed = Some (ScalarRevision_new i (epoch_value e) (observed_frontier e)) \<and>
    LocalScalarDomain_pending d' = None \<and>
    ScalarRegister_revision (LocalScalarDomain_causal d') i = sealed \<and>
    i \<in> bs_set (local_revision_ids (finalization d')) \<and>
    register_le remote (LocalScalarDomain_causal d') \<and>
    (\<forall>x. ScalarRegister_revision (LocalScalarDomain_causal d) x = None \<longrightarrow>
       \<not> ScalarRegister_is_ancestor (LocalScalarDomain_causal d') x i)"
proof -
  note v = domain_validD [OF domain_reachable_valid [OF assms(1)]]
  from v(1) assms(2) show ?thesis
  proof (cases rule: observe_remote_cases [where pre = "Some i"])
    case (sealed j e' causal)
    let ?c = "assigned (ws_causal (working d)) i (epoch_value e)"
    have ij: "j = i" "e' = e" using sealed(1,2) assms(3) by (simp_all add: LocalScalarDomain_pending_def)
    note lub = merge_Ok_imp_lub [OF sealed(4) [unfolded ij]]
    have i: "i \<in> known causal" using lub(3) by (simp add: known_assigned)
    have d': "d' = \<lparr>working = \<lparr>ws_causal = causal, ws_pending = None\<rparr>,
        finalization = snd (FinalizationLedger_register_local (finalization d) causal i)\<rparr>"
      and s: "sealed = Some (ScalarRevision_new i (epoch_value e) (ScalarRegister_frontier_ids (ws_causal (working d))))"
      using assms(4) sealed(5) by (simp_all add: LocalScalarDomain_observe_remote_def ij
          ScalarRevision_new_def register_local_known [OF i])
    have valid: "register_valid ?c" using assigned_pending_valid [OF v(2)] sealed(3) ij by simp
    have own: "bm_get (revisions ?c) i =
        Some (ScalarRevision_new i (epoch_value e) (ScalarRegister_frontier_ids (ws_causal (working d))))"
      by (simp add: assigned_def)
    have "x = i \<or> x \<in> known (ws_causal (working d))" if "(i, x) \<in> (causal_edge (revisions causal))\<^sup>+" for x
      using causal_history_stable [OF _ _ _ that, of "revisions ?c"] lub(1) valid
      by (auto simp: register_le_def register_valid_def known_assigned)
    moreover have "acyclic (causal_edge (revisions causal))"
      using merge_valid [OF valid assms(2) sealed(4) [unfolded ij]] by (simp add: register_valid_def)
    moreover have "bm_get (revisions causal) i = bm_get (revisions ?c) i"
      using lub(1) own map_le_lookup by (fastforce simp: register_le_def)
    ultimately show ?thesis
      using v(1) assms(3) lub(2) own d' s i
      by (auto simp: LocalScalarDomain_pending_def LocalScalarDomain_causal_def ScalarRegister_revision_def
          is_ancestor_trancl working_valid_def register_local_known acyclic_def)
  qed (use assms(3,4) in \<open>auto simp: LocalScalarDomain_pending_def LocalScalarDomain_observe_remote_def\<close>)
qed

theorem observe_remote_no_false_causality_witness:
  "\<exists>d'. LocalScalarDomain_observe_remote dom_dirty reg_right (Some (OpaqueId 2)) =
     (Ok (Some (sample_revision 2 20 [1])), d') \<and>
     \<not> ScalarRegister_is_ancestor (LocalScalarDomain_causal d') (OpaqueId 3) (OpaqueId 2)"
proof -
  have "fst (LocalScalarDomain_observe_remote dom_dirty reg_right (Some (OpaqueId 2))) =
      Ok (Some (sample_revision 2 20 [1]))"
    and fresh: "ScalarRegister_revision (LocalScalarDomain_causal dom_dirty) (OpaqueId 3) = None"
    and "LocalScalarDomain_pending dom_dirty \<noteq> None" by code_simp+
  then obtain d' e where "LocalScalarDomain_observe_remote dom_dirty reg_right (Some (OpaqueId 2)) =
      (Ok (Some (sample_revision 2 20 [1])), d')" and "LocalScalarDomain_pending dom_dirty = Some e"
    by (metis not_None_eq prod.collapse)
  with observe_remote_no_false_causality [OF dom_dirty_reachable sample_valid(3)] fresh show ?thesis
    by blast
qed

text \<open>
  A handoff succeeds exactly when the handed revisions are known and every local revision
  in their causal closure is frozen; it then exposes that closure and nothing else. A refused
  handoff changes nothing.
\<close>

lemma handoff_exposes_frozen_closure:
  assumes "domain_reachable d"
  shows "(fst (LocalScalarDomain_handoff d ids) = Ok () \<longleftrightarrow>
      set ids \<subseteq> known (LocalScalarDomain_causal d) \<and>
      causal_closure (LocalScalarDomain_causal d) ids \<inter> bs_set (local_revision_ids (finalization d))
        \<subseteq> dom (bm_get (finalized (finalization d)))) \<and>
    (\<forall>d'. LocalScalarDomain_handoff d ids = (Ok (), d') \<longrightarrow>
      bs_set (exposed_local_ids (finalization d')) = bs_set (exposed_local_ids (finalization d)) \<union>
        causal_closure (LocalScalarDomain_causal d) ids \<inter> bs_set (local_revision_ids (finalization d))) \<and>
    (\<forall>e d'. LocalScalarDomain_handoff d ids = (Err e, d') \<longrightarrow> d' = d)"
proof -
  note v = domain_validD [OF domain_reachable_valid [OF assms]]
  let ?h = "FinalizationLedger_handoff (finalization d) (ws_causal (working d)) ids"
  have m: "statements_match (finalization d) (ws_causal (working d))" using v(3) by (simp add: ledger_wf_def)
  have ok: "\<exists>led'. ?h = (Ok (), led')" if "fst ?h = Ok ()" using that by (cases ?h) auto
  have iff: "fst ?h = Ok () \<longleftrightarrow> set ids \<subseteq> known (ws_causal (working d)) \<and>
      causal_closure (ws_causal (working d)) ids \<inter> bs_set (local_revision_ids (finalization d))
        \<subseteq> dom (bm_get (finalized (finalization d)))"
    (is "_ \<longleftrightarrow> ?known \<and> ?frozen")
  proof
    assume "fst ?h = Ok ()"
    with ok obtain led' where "?h = (Ok (), led')" by blast
    from handoff_Ok(1,2) [OF v(2,3) this] show "?known \<and> ?frozen" ..
  next
    assume k: "?known \<and> ?frozen"
    then show "fst ?h = Ok ()" using handoff_spec [OF v(2) m, of ids] by auto
  qed
  have exp: "bs_set (exposed_local_ids led') = bs_set (exposed_local_ids (finalization d)) \<union>
      causal_closure (ws_causal (working d)) ids \<inter> bs_set (local_revision_ids (finalization d))"
    if "?h = (Ok (), led')" for led'
    using handoff_Ok(5) [OF v(2,3) that] .
  have err: "led' = finalization d" if "?h = (Err e, led')" for e led'
    using handoff_Err_unchanged [of "finalization d" "ws_causal (working d)" ids e] that by simp
  show ?thesis
    using iff exp err
    by (auto simp: LocalScalarDomain_handoff_def LocalScalarDomain_causal_def split: prod.splits)
qed

lemma handoff_exposes_frozen_closure_witness:
  "fst (LocalScalarDomain_handoff dom_frozen [OpaqueId 2]) = Ok () \<and>
   causal_closure (LocalScalarDomain_causal dom_frozen) [OpaqueId 2] \<inter>
     bs_set (local_revision_ids (finalization dom_frozen)) \<subseteq> dom (bm_get (finalized (finalization dom_frozen)))"
proof -
  have "fst (LocalScalarDomain_handoff dom_frozen [OpaqueId 2]) = Ok ()" by code_simp
  with handoff_exposes_frozen_closure [OF dom_frozen_reachable, of "[OpaqueId 2]"] show ?thesis by blast
qed

text \<open>
  C40. A known gap: when the merge of a dirty observation fails after the seal, the call reports
  the error but the sealed revision stays in the causal register without being registered as
  local and the pending epoch is gone; the revision can then never be finalized.
\<close>

theorem failed_observation_strands_seal:
  assumes "domain_reachable d" and "register_valid remote" and "LocalScalarDomain_pending d = Some e"
    and "ScalarRegister_revision (LocalScalarDomain_causal d) i = None"
    and "\<not> compatible (assigned (LocalScalarDomain_causal d) i (epoch_value e)) remote"
  shows "\<exists>err d'. LocalScalarDomain_observe_remote d remote (Some i) = (Err err, d') \<and>
    LocalScalarDomain_pending d' = None \<and>
    ScalarRegister_revision (LocalScalarDomain_causal d') i =
      Some (ScalarRevision_new i (epoch_value e) (observed_frontier e)) \<and>
    LocalScalarDomain_finalize d' i = (Err (UnknownLocalRevision i), d')"
proof -
  note v = domain_validD [OF domain_reachable_valid [OF assms(1)]]
  have fresh: "ScalarRegister_revision (ws_causal (working d)) i = None"
    using assms(4) by (simp add: LocalScalarDomain_causal_def)
  have notlocal: "i \<notin> bs_set (local_revision_ids (finalization d))"
    using v(3) fresh by (auto simp: ledger_wf_def ScalarRegister_revision_def)
  have bad: "\<nexists>c. ScalarRegister_merge (assigned (ws_causal (working d)) i (epoch_value e)) remote = Ok c"
    using assms(5) merge_Ok_compatible [OF assigned_pending_valid [OF v(2) fresh] assms(2)]
    by (simp add: LocalScalarDomain_causal_def)
  from v(1) assms(2) show ?thesis
  proof (cases rule: observe_remote_cases [where pre = "Some i"])
    case (refused er)
    have "ScalarRegister_validate remote = Ok ()" using assms(2) by (simp add: register_valid_iff)
    with refused v(1) fresh assms(3) bad have False
      by (cases rule: seal_cases [OF v(1), of i]; cases "ScalarRegister_merge (assigned (ws_causal (working d)) i (epoch_value e)) remote")
        (auto simp: WorkingScalar_observe_remote_def LocalScalarDomain_pending_def
          dest: arg_cong [where f = ws_pending])
    then show ?thesis ..
  next
    case (stranded j e' err)
    with assms(3) have ij: "j = i" "e' = e" by (simp_all add: LocalScalarDomain_pending_def)
    show ?thesis
      using stranded v(1) notlocal assms(3)
      by (auto simp: ij LocalScalarDomain_observe_remote_def LocalScalarDomain_pending_def
          LocalScalarDomain_causal_def LocalScalarDomain_finalize_def FinalizationLedger_finalize_def
          ScalarRegister_revision_def assigned_def working_valid_def)
  qed (use assms(3) bad in \<open>auto simp: LocalScalarDomain_pending_def\<close>)
qed

theorem failed_observation_strands_seal_witness:
  "\<exists>err d'. LocalScalarDomain_observe_remote dom_dirty reg_clash (Some (OpaqueId 2)) = (Err err, d') \<and>
     LocalScalarDomain_finalize d' (OpaqueId 2) = (Err (UnknownLocalRevision (OpaqueId 2)), d')"
proof -
  obtain e where e: "LocalScalarDomain_pending dom_dirty = Some e" "epoch_value e = 20"
    by (simp add: dom_dirty_def dom_clean_def LocalScalarDomain_begin_epoch_def WorkingScalar_begin_epoch_def
        LocalScalarDomain_pending_def)
  have fresh: "ScalarRegister_revision (LocalScalarDomain_causal dom_dirty) (OpaqueId 2) = None"
    and "bm_get (revisions (assigned (LocalScalarDomain_causal dom_dirty) (OpaqueId 2) 20)) (OpaqueId 2) \<noteq> None"
    and "bm_get (revisions reg_clash) (OpaqueId 2) \<noteq> None"
    and "bm_get (revisions (assigned (LocalScalarDomain_causal dom_dirty) (OpaqueId 2) 20)) (OpaqueId 2) \<noteq>
      bm_get (revisions reg_clash) (OpaqueId 2)" by code_simp+
  then have "\<not> compatible (assigned (LocalScalarDomain_causal dom_dirty) (OpaqueId 2) (epoch_value e)) reg_clash"
    unfolding compatible_def e by blast
  from failed_observation_strands_seal [OF dom_dirty_reachable sample_valid(4) e(1) fresh this]
  show ?thesis by blast
qed

end
