(* ===== verification/Sync_Projection.thy ===== *)
theory Sync_Projection
  imports Local_Domain "HOL-Library.List_Lexorder"
begin

text \<open>
  Semantic synchronization state, \<^verbatim>\<open>apc-sync/src/projection.rs\<close>: the mergeable projection
  (a map from domain keys to registers) and the local view that separates state from publication
  dirtiness. A projection is an instance of the keyed composition of \<open>Merge_State\<close>.
\<close>

section \<open>Keys\<close>

datatype DomainKey = DomainKey (dk_atom_id: AtomId) (dk_domain: bytes)

text \<open>The derived \<^verbatim>\<open>Ord\<close>: atom identity first, then the domain bytes lexicographically.\<close>

instantiation DomainKey :: linorder
begin

definition less_DomainKey :: "DomainKey \<Rightarrow> DomainKey \<Rightarrow> bool" where
  "less_DomainKey a b =
     (dk_atom_id a < dk_atom_id b \<or> dk_atom_id a = dk_atom_id b \<and> dk_domain a < dk_domain b)"

definition less_eq_DomainKey :: "DomainKey \<Rightarrow> DomainKey \<Rightarrow> bool" where
  "less_eq_DomainKey a b =
     (dk_atom_id a < dk_atom_id b \<or> dk_atom_id a = dk_atom_id b \<and> dk_domain a \<le> dk_domain b)"

instance
  by standard (auto simp: less_DomainKey_def less_eq_DomainKey_def intro: DomainKey.expand)

end

datatype ProjectionError = EmptyDomainIdentifier

definition DomainKey_new :: "AtomId \<Rightarrow> bytes \<Rightarrow> (DomainKey, ProjectionError) result" where
  "DomainKey_new i domain = (if domain = [] then Err EmptyDomainIdentifier else Ok (DomainKey i domain))"

section \<open>Projections\<close>

record (overloaded) ('k, 's) SyncProjection =
  domains :: "('k::linorder, 's) btree_map"

definition SyncProjection_new :: "('k::linorder, 's) SyncProjection" where
  "SyncProjection_new = \<lparr>domains = bm_empty\<rparr>"

definition SyncProjection_from_domains :: "('k::linorder, 's) btree_map \<Rightarrow> ('k, 's) SyncProjection" where
  "SyncProjection_from_domains m = \<lparr>domains = m\<rparr>"

definition SyncProjection_is_empty :: "('k::linorder, 's) SyncProjection \<Rightarrow> bool" where
  "SyncProjection_is_empty p = bm_is_empty (domains p)"

definition SyncProjection_len :: "('k::linorder, 's) SyncProjection \<Rightarrow> nat" where
  "SyncProjection_len p = bm_len (domains p)"

definition SyncProjection_get :: "('k::linorder, 's) SyncProjection \<Rightarrow> 'k \<Rightarrow> 's option" where
  "SyncProjection_get p k = bm_get (domains p) k"

definition SyncProjection_merge ::
    "('s \<Rightarrow> 's \<Rightarrow> ('s, 'e) result) \<Rightarrow> ('k::linorder, 's) SyncProjection \<Rightarrow> ('k, 's) SyncProjection \<Rightarrow>
     (('k, 's) SyncProjection, 'e) result" where
  "SyncProjection_merge mrg self other =
     (case merge_entries mrg (domains self) (domains other) of
        Err e \<Rightarrow> Err e
      | Ok m \<Rightarrow> Ok \<lparr>domains = m\<rparr>)"

type_synonym ScalarSyncProjection = "(DomainKey, bytes ScalarRegister) SyncProjection"

section \<open>Local dirtiness\<close>

record (overloaded) ('k, 's) DirtyDomainState =
  dds_domains :: "('k::linorder, 's) btree_map"
  dds_dirty :: "('k::linorder) btree_set"

definition DirtyDomainState_new :: "('k::linorder, 's) DirtyDomainState" where
  "DirtyDomainState_new = \<lparr>dds_domains = bm_empty, dds_dirty = bm_empty\<rparr>"

definition DirtyDomainState_get :: "('k::linorder, 's) DirtyDomainState \<Rightarrow> 'k \<Rightarrow> 's option" where
  "DirtyDomainState_get ds k = bm_get (dds_domains ds) k"

definition DirtyDomainState_set_local ::
    "('k::linorder, 's) DirtyDomainState \<Rightarrow> 'k \<Rightarrow> 's \<Rightarrow> ('k, 's) DirtyDomainState" where
  "DirtyDomainState_set_local ds k s =
     \<lparr>dds_domains = bm_insert k s (dds_domains ds), dds_dirty = bs_insert k (dds_dirty ds)\<rparr>"

definition DirtyDomainState_import_projection ::
    "('s \<Rightarrow> 's \<Rightarrow> ('s, 'e) result) \<Rightarrow> ('k::linorder, 's) DirtyDomainState \<Rightarrow> ('k, 's) SyncProjection \<Rightarrow>
     (unit, 'e) result \<times> ('k, 's) DirtyDomainState" where
  "DirtyDomainState_import_projection mrg ds projection =
     (case try_each (in_place (merge_entry mrg)) (dds_domains ds) (bm_entries (domains projection)) of
        (res, m) \<Rightarrow> (res, ds\<lparr>dds_domains := m\<rparr>))"

definition DirtyDomainState_export_dirty ::
    "('k::linorder, 's) DirtyDomainState \<Rightarrow> ('k, 's) SyncProjection option" where
  "DirtyDomainState_export_dirty ds =
     (if bm_is_empty (dds_dirty ds) then None
      else Some (SyncProjection_from_domains (bm_from_list
        (List.map_filter (\<lambda>k. map_option (\<lambda>s. (k, s)) (bm_get (dds_domains ds) k)) (bs_iter (dds_dirty ds))))))"

definition acknowledge_entry ::
    "('k::linorder, 's) btree_map \<Rightarrow> 'k \<times> 's \<Rightarrow> 'k btree_set \<Rightarrow> 'k btree_set" where
  "acknowledge_entry m e dirty =
     (case e of (k, exported) \<Rightarrow> if bm_get m k = Some exported then bs_remove k dirty else dirty)"

definition DirtyDomainState_acknowledge ::
    "('k::linorder, 's) DirtyDomainState \<Rightarrow> ('k, 's) SyncProjection \<Rightarrow> ('k, 's) DirtyDomainState" where
  "DirtyDomainState_acknowledge ds projection =
     ds\<lparr>dds_dirty := fold (acknowledge_entry (dds_domains ds)) (bm_entries (domains projection)) (dds_dirty ds)\<rparr>"

section \<open>Laws\<close>

lemma SyncProjection_merge_Ok:
  "SyncProjection_merge mrg a b = Ok c \<longleftrightarrow> merge_entries mrg (domains a) (domains b) = Ok (domains c)"
  by (cases c) (auto simp: SyncProjection_merge_def split: result.splits)

definition projection_valid :: "('k::linorder, 'v ScalarRegister) SyncProjection \<Rightarrow> bool" where
  "projection_valid p \<longleftrightarrow> keyed_valid register_valid (domains p)"

interpretation domain_map: keyed_merge ScalarRegister_merge register_valid "TYPE(DomainKey)"
  by unfold_locales

interpretation projections: merge_state
  "SyncProjection_merge ScalarRegister_merge ::
     (DomainKey, 'v ScalarRegister) SyncProjection \<Rightarrow> (DomainKey, 'v ScalarRegister) SyncProjection \<Rightarrow>
     ((DomainKey, 'v ScalarRegister) SyncProjection, CoreError) result"
  projection_valid
proof unfold_locales
  fix a b c ab r :: "(DomainKey, 'v ScalarRegister) SyncProjection"
  show "projection_valid a \<Longrightarrow> projection_valid b \<Longrightarrow>
      SyncProjection_merge ScalarRegister_merge a b = Ok c \<Longrightarrow> projection_valid c"
    unfolding projection_valid_def SyncProjection_merge_Ok by (rule domain_map.keyed.valid_merge)
  show "projection_valid a \<Longrightarrow> projection_valid b \<Longrightarrow>
      SyncProjection_merge ScalarRegister_merge a b = Ok c \<Longrightarrow>
      SyncProjection_merge ScalarRegister_merge b a = Ok c"
    unfolding projection_valid_def SyncProjection_merge_Ok by (rule domain_map.keyed.commutes)
  show "projection_valid a \<Longrightarrow> projection_valid b \<Longrightarrow> projection_valid c \<Longrightarrow>
      SyncProjection_merge ScalarRegister_merge a b = Ok ab \<Longrightarrow>
      SyncProjection_merge ScalarRegister_merge ab c = Ok r \<Longrightarrow>
      \<exists>bc. SyncProjection_merge ScalarRegister_merge b c = Ok bc \<and>
        SyncProjection_merge ScalarRegister_merge a bc = Ok r"
    unfolding projection_valid_def SyncProjection_merge_Ok
    using domain_map.keyed.associates by (metis SyncProjection.select_convs(1))
  show "projection_valid a \<Longrightarrow> SyncProjection_merge ScalarRegister_merge a a = Ok a"
    unfolding projection_valid_def SyncProjection_merge_Ok by (rule domain_map.keyed.idempotent)
qed

lemma import_projection_Ok:
  "DirtyDomainState_import_projection mrg ds p = (Ok (), ds') \<longleftrightarrow>
     merge_entries mrg (dds_domains ds) (domains p) = Ok (dds_domains ds') \<and> dds_dirty ds' = dds_dirty ds"
  by (cases ds; cases ds')
    (auto simp: DirtyDomainState_import_projection_def merge_entries_def split: prod.splits
      dest: try_each_in_place(1) [THEN iffD1] try_each_in_place(1) [THEN iffD2])

lemma fold_acknowledge_entry:
  "bs_set (fold (acknowledge_entry m) es D) = bs_set D - {k. \<exists>v. (k, v) \<in> set es \<and> bm_get m k = Some v}"
  by (induction es arbitrary: D) (auto simp: acknowledge_entry_def split: prod.splits if_splits)

lemma dirty_acknowledge:
  "bs_set (dds_dirty (DirtyDomainState_acknowledge ds p)) =
     {k \<in> bs_set (dds_dirty ds). bm_get (domains p) k = None \<or> bm_get (domains p) k \<noteq> bm_get (dds_domains ds) k}"
  by (auto simp: DirtyDomainState_acknowledge_def fold_acknowledge_entry)

text \<open>Every dirty key has a state; the local operations keep this.\<close>

definition dirty_wf :: "('k::linorder, 's) DirtyDomainState \<Rightarrow> bool" where
  "dirty_wf ds \<longleftrightarrow> bs_set (dds_dirty ds) \<subseteq> dom (bm_get (dds_domains ds))"

lemma map_of_map_filter:
  "map_of (List.map_filter (\<lambda>k. map_option (\<lambda>s. (k, s)) (f k)) ks) k = (if k \<in> set ks then f k else None)"
  by (induction ks) (auto simp: List.map_filter_simps split: option.splits)

lemma distinct_map_filter:
  "distinct ks \<Longrightarrow> distinct (map fst (List.map_filter (\<lambda>k. map_option (\<lambda>s. (k, s)) (f k)) ks))"
proof (induction ks)
  case (Cons k ks)
  have "set (map fst (List.map_filter (\<lambda>k. map_option (\<lambda>s. (k, s)) (f k)) ks)) \<subseteq> set ks" for ks
    by (induction ks) (auto simp: List.map_filter_simps split: option.splits)
  with Cons show ?case by (auto simp: List.map_filter_simps split: option.splits)
qed (simp add: List.map_filter_simps)

lemma export_dirty_get:
  "DirtyDomainState_export_dirty ds = Some p \<longleftrightarrow>
     bs_set (dds_dirty ds) \<noteq> {} \<and>
     (\<forall>k. bm_get (domains p) k = (if k \<in> bs_set (dds_dirty ds) then bm_get (dds_domains ds) k else None))"
proof -
  let ?l = "List.map_filter (\<lambda>k. map_option (\<lambda>s. (k, s)) (bm_get (dds_domains ds) k)) (bs_iter (dds_dirty ds))"
  have "bm_get (bm_from_list ?l) = map_of ?l"
    by (rule bm_get_from_list) (rule distinct_map_filter, simp)
  then have get: "bm_get (bm_from_list ?l) k =
      (if k \<in> bs_set (dds_dirty ds) then bm_get (dds_domains ds) k else None)" for k
    by (simp add: map_of_map_filter)
  have "DirtyDomainState_export_dirty ds = Some p \<longleftrightarrow>
      bs_set (dds_dirty ds) \<noteq> {} \<and> bm_get (domains p) = bm_get (bm_from_list ?l)"
    by (cases p) (auto simp: DirtyDomainState_export_dirty_def SyncProjection_from_domains_def
        bs_is_empty_iff bm_eq_iff simp del: bm_is_empty_iff)
  then show ?thesis by (simp only: fun_eq_iff get)
qed

section \<open>Properties\<close>

definition sample_projection :: "nat \<Rightarrow> 'v ScalarRegister \<Rightarrow> (DomainKey, 'v ScalarRegister) SyncProjection" where
  "sample_projection a reg = \<lparr>domains = bm_insert (DomainKey (OpaqueId (word_of_nat a)) [1]) reg bm_empty\<rparr>"

lemma sample_projection_valid: "register_valid reg \<Longrightarrow> projection_valid (sample_projection a reg)"
  by (simp add: sample_projection_def projection_valid_def keyed_valid_def split: if_splits)

lemma sample_projection_merge:
  "ScalarRegister_merge r1 r2 = Ok r \<Longrightarrow>
     SyncProjection_merge ScalarRegister_merge (sample_projection a r1) (sample_projection a r2) =
       Ok (sample_projection a r)"
  by (simp add: sample_projection_def SyncProjection_merge_def merge_entries_def merge_entry_def
      bm_entries_single bm_eq_iff)

text \<open>
  Semantic projections converge: absorbing the same set of valid projections in any order
  and multiplicity gives the same projection. Publication identities play no part in it.
\<close>

lemma projection_convergence:
  fixes s :: "(DomainKey, 'v ScalarRegister) SyncProjection"
  assumes "projection_valid s" and "\<forall>x \<in> set xs. projection_valid x" and "set ys = set xs"
    and "try_fold (SyncProjection_merge ScalarRegister_merge) s xs = Ok r"
  shows "try_fold (SyncProjection_merge ScalarRegister_merge) s ys = Ok r"
  using assms by (rule projections.convergence)

text \<open>
  Importing a remote projection is the projection merge done in place: it succeeds exactly
  when the merge does and with its result, it neither sets nor clears a dirty marker, and also
  a failed import leaves the dirty markers alone.
\<close>

lemma import_projection_is_merge:
  "(DirtyDomainState_import_projection mrg ds p = (Ok (), ds') \<longleftrightarrow>
     SyncProjection_merge mrg \<lparr>domains = dds_domains ds\<rparr> p = Ok \<lparr>domains = dds_domains ds'\<rparr> \<and>
     dds_dirty ds' = dds_dirty ds) \<and>
   dds_dirty (snd (DirtyDomainState_import_projection mrg ds p)) = dds_dirty ds"
  by (simp add: import_projection_Ok SyncProjection_merge_Ok)
    (simp add: DirtyDomainState_import_projection_def split: prod.splits)

text \<open>
  No local contribution is lost by an acknowledgement that arrives late: acknowledging an
  exported projection clears a key only if its state is still exactly the exported one, so a
  domain edited or merged in between stays dirty; acknowledged at once, nothing stays dirty.
\<close>

lemma acknowledge_keeps_newer_work:
  assumes "DirtyDomainState_export_dirty ds = Some p" and "dirty_wf ds"
  shows "bs_set (dds_dirty (DirtyDomainState_acknowledge ds p)) = {} \<and>
    (\<forall>ds'. bs_set (dds_dirty (DirtyDomainState_acknowledge ds' p)) =
       {k \<in> bs_set (dds_dirty ds'). k \<notin> bs_set (dds_dirty ds) \<or>
          DirtyDomainState_get ds' k \<noteq> DirtyDomainState_get ds k})"
proof -
  have get: "bm_get (domains p) k = (if k \<in> bs_set (dds_dirty ds) then bm_get (dds_domains ds) k else None)" for k
    using assms(1) by (simp add: export_dirty_get)
  have some: "k \<in> bs_set (dds_dirty ds) \<Longrightarrow> bm_get (dds_domains ds) k \<noteq> None" for k
    using assms(2) by (auto simp: dirty_wf_def)
  show ?thesis
    by (auto simp: dirty_acknowledge get DirtyDomainState_get_def dest!: some split: if_splits)
qed

lemma acknowledge_keeps_newer_work_witness:
  "let ds = DirtyDomainState_set_local (DirtyDomainState_new :: (nat, nat) DirtyDomainState) 1 10;
       ds' = DirtyDomainState_set_local ds 1 11
   in \<exists>p. DirtyDomainState_export_dirty ds = Some p \<and>
        1 \<in> bs_set (dds_dirty (DirtyDomainState_acknowledge ds' p))"
proof -
  let ?ds = "DirtyDomainState_set_local (DirtyDomainState_new :: (nat, nat) DirtyDomainState) 1 10"
  let ?ds' = "DirtyDomainState_set_local ?ds 1 11"
  have wf: "dirty_wf ?ds" and "\<not> bm_is_empty (dds_dirty ?ds)"
    by (simp_all add: dirty_wf_def DirtyDomainState_set_local_def DirtyDomainState_new_def bs_is_empty_iff
        del: bm_is_empty_iff)
  then obtain p where p: "DirtyDomainState_export_dirty ?ds = Some p"
    by (simp add: DirtyDomainState_export_dirty_def)
  have "1 \<in> bs_set (dds_dirty ?ds')" "DirtyDomainState_get ?ds' 1 \<noteq> DirtyDomainState_get ?ds 1"
    by (simp_all add: DirtyDomainState_set_local_def DirtyDomainState_new_def DirtyDomainState_get_def)
  with acknowledge_keeps_newer_work [OF p wf] p show ?thesis unfolding Let_def by blast
qed

end
