(* ===== verification/Byte_Codec.thy ===== *)
theory Byte_Codec
  imports Core_Ids
begin

text \<open>
  The byte reader and writers that every codec of the program carries its own copy of
  (\<^verbatim>\<open>apc-sync/src/codec.rs\<close>, \<^verbatim>\<open>wire.rs\<close>, \<^verbatim>\<open>recovery.rs\<close>, \<^verbatim>\<open>apc-runtime/src/trusted_state.rs\<close>).
  The copies differ only in the error constructors they use, so the operations take those as
  arguments. A reader is local to its decoder and dropped on the first error: a reading step
  returns the value and the advanced reader, or the error.

  Two notions carry all codec proofs: \<open>reads p bs a\<close> (the step reads the value \<open>a\<close>
  from exactly the bytes \<open>bs\<close>, wherever they stand in a buffer) gives round trips, and
  \<open>p_stable p\<close> (what a step reads does not depend on the bytes behind it) gives rejection of
  truncated input. Both compose along \<open>p_bind\<close> and the counted loop.
\<close>

section \<open>Reader\<close>

record Reader =
  rd_bytes :: bytes
  rd_position :: nat

type_synonym ('a, 'e) parser = "Reader \<Rightarrow> ('a \<times> Reader, 'e) result"

definition Reader_new :: "bytes \<Rightarrow> Reader" where
  "Reader_new bs = \<lparr>rd_bytes = bs, rd_position = 0\<rparr>"

definition Reader_is_finished :: "Reader \<Rightarrow> bool" where
  "Reader_is_finished r = (rd_position r = length (rd_bytes r))"

definition Reader_remaining :: "Reader \<Rightarrow> nat" where
  "Reader_remaining r = length (rd_bytes r) - rd_position r"

text \<open>\<^verbatim>\<open>self.bytes.get(position..end)\<close> with \<^verbatim>\<open>position <= end\<close>.\<close>

definition get_range :: "'a list \<Rightarrow> nat \<Rightarrow> nat \<Rightarrow> 'a list option" where
  "get_range xs i j = (if i \<le> j \<and> j \<le> length xs then Some (take (j - i) (drop i xs)) else None)"

definition Reader_read_exact :: "'e \<Rightarrow> 'e \<Rightarrow> nat \<Rightarrow> (bytes, 'e) parser" where
  "Reader_read_exact overflow eof len r =
     (case checked_add_usize (rd_position r) len of
        None \<Rightarrow> Err overflow
      | Some end \<Rightarrow>
          (case get_range (rd_bytes r) (rd_position r) end of
             None \<Rightarrow> Err eof
           | Some sl \<Rightarrow> Ok (sl, r\<lparr>rd_position := end\<rparr>)))"

text \<open>Sequencing with \<^verbatim>\<open>?\<close>.\<close>

definition p_bind :: "('a, 'e) parser \<Rightarrow> ('a \<Rightarrow> ('b, 'e) parser) \<Rightarrow> ('b, 'e) parser" where
  "p_bind p f r = (case p r of Err e \<Rightarrow> Err e | Ok (a, r') \<Rightarrow> f a r')"

definition p_lift :: "('a, 'e) result \<Rightarrow> ('a, 'e) parser" where
  "p_lift x r = (case x of Err e \<Rightarrow> Err e | Ok a \<Rightarrow> Ok (a, r))"

definition p_return :: "'a \<Rightarrow> ('a, 'e) parser" where
  "p_return a r = Ok (a, r)"

text \<open>\<^verbatim>\<open>if !cond { return Err(e) }\<close>\<close>

definition p_guard :: "bool \<Rightarrow> 'e \<Rightarrow> (unit, 'e) parser" where
  "p_guard c e r = (if c then Ok ((), r) else Err e)"

text \<open>\<^verbatim>\<open>for _ in 0..count { ... }\<close> over a state.\<close>

fun read_loop :: "nat \<Rightarrow> ('s \<Rightarrow> ('s, 'e) parser) \<Rightarrow> 's \<Rightarrow> ('s, 'e) parser" where
  "read_loop 0 f s = p_return s"
| "read_loop (Suc n) f s = p_bind (f s) (read_loop n f)"

definition Reader_read_word :: "'e \<Rightarrow> 'e \<Rightarrow> ('a::len word, 'e) parser" where
  "Reader_read_word overflow eof =
     p_bind (Reader_read_exact overflow eof (LENGTH('a) div 8)) (\<lambda>bs. p_return (from_be_bytes bs))"

definition Reader_read_u16 :: "'e \<Rightarrow> 'e \<Rightarrow> (u16, 'e) parser" where
  "Reader_read_u16 = Reader_read_word"

definition Reader_read_u32 :: "'e \<Rightarrow> 'e \<Rightarrow> (u32, 'e) parser" where
  "Reader_read_u32 = Reader_read_word"

definition Reader_read_u64 :: "'e \<Rightarrow> 'e \<Rightarrow> (u64, 'e) parser" where
  "Reader_read_u64 = Reader_read_word"

text \<open>\<^verbatim>\<open>usize::try_from\<close> of a \<^verbatim>\<open>u64\<close>.\<close>

definition usize_try_from :: "'e \<Rightarrow> u64 \<Rightarrow> (nat, 'e) result" where
  "usize_try_from overflow w = (if unat w \<le> usize_max then Ok (unat w) else Err overflow)"

definition Reader_read_len :: "'e \<Rightarrow> 'e \<Rightarrow> (nat, 'e) parser" where
  "Reader_read_len overflow eof =
     p_bind (Reader_read_u64 overflow eof) (\<lambda>w. p_lift (usize_try_from overflow w))"

definition Reader_read_vec :: "'e \<Rightarrow> 'e \<Rightarrow> (bytes, 'e) parser" where
  "Reader_read_vec overflow eof = p_bind (Reader_read_len overflow eof) (Reader_read_exact overflow eof)"

definition Reader_read_id :: "'e \<Rightarrow> 'e \<Rightarrow> ('tag opaque_id, 'e) parser" where
  "Reader_read_id overflow eof =
     p_bind (Reader_read_exact overflow eof 32) (\<lambda>bs. p_return (opaque_id_from_bytes bs))"

section \<open>Writers\<close>

text \<open>A writer appends to \<^verbatim>\<open>out\<close>; \<^verbatim>\<open>u64::try_from(len)\<close> guards the length prefix.\<close>

definition write_len :: "'e \<Rightarrow> bytes \<Rightarrow> nat \<Rightarrow> (bytes, 'e) result" where
  "write_len overflow out len =
     (if len < 2 ^ 64 then Ok (out @ to_be_bytes (word_of_nat len :: u64)) else Err overflow)"

definition write_bytes :: "'e \<Rightarrow> bytes \<Rightarrow> bytes \<Rightarrow> (bytes, 'e) result" where
  "write_bytes overflow out bs =
     (case write_len overflow out (length bs) of Err e \<Rightarrow> Err e | Ok out' \<Rightarrow> Ok (out' @ bs))"

section \<open>Reading from anywhere in a buffer\<close>

definition reads :: "('a, 'e) parser \<Rightarrow> bytes \<Rightarrow> 'a \<Rightarrow> bool" where
  "reads p bs a \<longleftrightarrow> (\<forall>pre post. length (pre @ bs @ post) \<le> isize_max \<longrightarrow>
     p \<lparr>rd_bytes = pre @ bs @ post, rd_position = length pre\<rparr> =
       Ok (a, \<lparr>rd_bytes = pre @ bs @ post, rd_position = length pre + length bs\<rparr>))"

lemma readsI:
  assumes "\<And>pre post. length (pre @ bs @ post) \<le> isize_max \<Longrightarrow>
     p \<lparr>rd_bytes = pre @ bs @ post, rd_position = length pre\<rparr> =
       Ok (a, \<lparr>rd_bytes = pre @ bs @ post, rd_position = length pre + length bs\<rparr>)"
  shows "reads p bs a"
  using assms by (simp add: reads_def)

lemma readsD:
  "reads p bs a \<Longrightarrow> length (pre @ bs @ post) \<le> isize_max \<Longrightarrow>
     p \<lparr>rd_bytes = pre @ bs @ post, rd_position = length pre\<rparr> =
       Ok (a, \<lparr>rd_bytes = pre @ bs @ post, rd_position = length pre + length bs\<rparr>)"
  by (simp add: reads_def)

lemma reads_return: "reads (p_return a) [] a"
  by (simp add: reads_def p_return_def)

lemma reads_lift: "x = Ok a \<Longrightarrow> reads (p_lift x) [] a"
  by (simp add: reads_def p_lift_def)

lemma reads_guard: "c \<Longrightarrow> reads (p_guard c e) [] ()"
  by (simp add: reads_def p_guard_def)

lemma reads_bind:
  assumes "reads p bs a" and "reads (f a) cs b"
  shows "reads (p_bind p f) (bs @ cs) b"
proof (rule readsI)
  fix pre post :: bytes
  assume len: "length (pre @ (bs @ cs) @ post) \<le> isize_max"
  have "p \<lparr>rd_bytes = pre @ bs @ (cs @ post), rd_position = length pre\<rparr> =
      Ok (a, \<lparr>rd_bytes = pre @ bs @ (cs @ post), rd_position = length pre + length bs\<rparr>)"
    using len by (intro readsD [OF assms(1)]) simp
  moreover have "f a \<lparr>rd_bytes = (pre @ bs) @ cs @ post, rd_position = length (pre @ bs)\<rparr> =
      Ok (b, \<lparr>rd_bytes = (pre @ bs) @ cs @ post, rd_position = length (pre @ bs) + length cs\<rparr>)"
    using len by (intro readsD [OF assms(2)]) simp
  ultimately show "p_bind p f \<lparr>rd_bytes = pre @ (bs @ cs) @ post, rd_position = length pre\<rparr> =
      Ok (b, \<lparr>rd_bytes = pre @ (bs @ cs) @ post, rd_position = length pre + length (bs @ cs)\<rparr>)"
    by (simp add: p_bind_def add.assoc)
qed

lemma reads_bind_pure: "reads p bs a \<Longrightarrow> reads (f a) [] b \<Longrightarrow> reads (p_bind p f) bs b"
  using reads_bind [of p bs a f "[]" b] by simp

lemma reads_pure_bind: "reads p [] a \<Longrightarrow> reads (f a) bs b \<Longrightarrow> reads (p_bind p f) bs b"
  using reads_bind [of p "[]" a f bs b] by simp

lemma reads_exact: "n = length bs \<Longrightarrow> reads (Reader_read_exact ov eof n) bs bs"
  by (rule readsI)
    (simp add: Reader_read_exact_def checked_add_usize_def get_range_def isize_max_def usize_max_def)

lemma reads_word:
  assumes "8 dvd LENGTH('a::len)"
  shows "reads (Reader_read_word ov eof) (to_be_bytes w) (w :: 'a word)"
  unfolding Reader_read_word_def
  by (rule reads_bind_pure [OF reads_exact])
    (use assms reads_return [of w] in \<open>simp_all add: to_be_bytes_def from_to_be_bytes_gen [unfolded to_be_bytes_def]\<close>)

lemma reads_u16 [codec_simps]: "reads (Reader_read_u16 ov eof) (to_be_bytes w) w"
  unfolding Reader_read_u16_def by (rule reads_word) simp

lemma reads_u32 [codec_simps]: "reads (Reader_read_u32 ov eof) (to_be_bytes w) w"
  unfolding Reader_read_u32_def by (rule reads_word) simp

lemma reads_u64 [codec_simps]: "reads (Reader_read_u64 ov eof) (to_be_bytes w) w"
  unfolding Reader_read_u64_def by (rule reads_word) simp

lemma reads_len:
  "n < 2 ^ 64 \<Longrightarrow> reads (Reader_read_len ov eof) (to_be_bytes (word_of_nat n :: u64)) n"
  unfolding Reader_read_len_def
  by (rule reads_bind_pure [OF reads_u64], rule reads_lift)
    (simp add: usize_try_from_def usize_max_def unat_of_nat)

lemma reads_id: "reads (Reader_read_id ov eof) (opaque_id_as_bytes i) i"
  unfolding Reader_read_id_def
  by (rule reads_bind_pure [OF reads_exact]) (simp_all add: reads_return)

lemma reads_vec:
  "length bs < 2 ^ 64 \<Longrightarrow>
     reads (Reader_read_vec ov eof) (to_be_bytes (word_of_nat (length bs) :: u64) @ bs) bs"
  unfolding Reader_read_vec_def by (rule reads_bind [OF reads_len reads_exact]) simp_all

text \<open>A counted loop reads a list of items, one per round.\<close>

lemma reads_loop:
  assumes "\<And>ys x zs. xs = ys @ x # zs \<Longrightarrow> reads (f (foldl g s ys)) (enc x) (g (foldl g s ys) x)"
  shows "reads (read_loop (length xs) f s) (concat (map enc xs)) (foldl g s xs)"
  using assms
proof (induction xs arbitrary: s)
  case Nil
  then show ?case by (simp add: reads_return)
next
  case (Cons x xs)
  have "reads (f s) (enc x) (g s x)" using Cons.prems [of "[]" x xs] by simp
  moreover have "reads (read_loop (length xs) f (g s x)) (concat (map enc xs)) (foldl g (g s x) xs)"
  proof (rule Cons.IH)
    fix ys y zs assume "xs = ys @ y # zs"
    then show "reads (f (foldl g (g s x) ys)) (enc y) (g (foldl g (g s x) ys) y)"
      using Cons.prems [of "x # ys" y zs] by simp
  qed
  ultimately show ?case by (simp add: reads_bind)
qed

section \<open>Independence of what follows\<close>

definition p_stable :: "('a, 'e) parser \<Rightarrow> bool" where
  "p_stable p \<longleftrightarrow> (\<forall>bs i a r. p \<lparr>rd_bytes = bs, rd_position = i\<rparr> = Ok (a, r) \<longrightarrow> i \<le> length bs \<longrightarrow>
     (\<exists>j. r = \<lparr>rd_bytes = bs, rd_position = j\<rparr> \<and> j \<le> length bs \<and>
        (\<forall>cs. p \<lparr>rd_bytes = bs @ cs, rd_position = i\<rparr> = Ok (a, \<lparr>rd_bytes = bs @ cs, rd_position = j\<rparr>))))"

lemma p_stableE:
  assumes "p_stable p" and "p \<lparr>rd_bytes = bs, rd_position = i\<rparr> = Ok (a, r)" and "i \<le> length bs"
  obtains j where "r = \<lparr>rd_bytes = bs, rd_position = j\<rparr>" and "j \<le> length bs"
    and "\<And>cs. p \<lparr>rd_bytes = bs @ cs, rd_position = i\<rparr> = Ok (a, \<lparr>rd_bytes = bs @ cs, rd_position = j\<rparr>)"
  using assms unfolding p_stable_def by blast

lemma p_stable_exact [intro]: "p_stable (Reader_read_exact ov eof n)"
  by (auto simp: p_stable_def Reader_read_exact_def get_range_def split: option.splits if_splits)

lemma p_stable_return [intro]: "p_stable (p_return a)"
  by (auto simp: p_stable_def p_return_def)

lemma p_stable_lift [intro]: "p_stable (p_lift x)"
  by (auto simp: p_stable_def p_lift_def split: result.splits)

lemma p_stable_guard [intro]: "p_stable (p_guard c e)"
  by (auto simp: p_stable_def p_guard_def)

lemma p_stable_bind [intro]:
  assumes "p_stable p" and "\<And>a. p_stable (f a)"
  shows "p_stable (p_bind p f)"
  unfolding p_stable_def
proof (intro allI impI)
  fix bs i b r
  assume run: "p_bind p f \<lparr>rd_bytes = bs, rd_position = i\<rparr> = Ok (b, r)" and i: "i \<le> length bs"
  then obtain a r1 where first: "p \<lparr>rd_bytes = bs, rd_position = i\<rparr> = Ok (a, r1)"
    and second: "f a r1 = Ok (b, r)" by (auto simp: p_bind_def split: result.splits)
  from assms(1) first i obtain j where j: "r1 = \<lparr>rd_bytes = bs, rd_position = j\<rparr>" "j \<le> length bs"
    "\<And>cs. p \<lparr>rd_bytes = bs @ cs, rd_position = i\<rparr> = Ok (a, \<lparr>rd_bytes = bs @ cs, rd_position = j\<rparr>)"
    by (rule p_stableE) blast
  from assms(2) second [unfolded j(1)] j(2) obtain k where "r = \<lparr>rd_bytes = bs, rd_position = k\<rparr>" "k \<le> length bs"
    "\<And>cs. f a \<lparr>rd_bytes = bs @ cs, rd_position = j\<rparr> = Ok (b, \<lparr>rd_bytes = bs @ cs, rd_position = k\<rparr>)"
    by (rule p_stableE) blast
  with j(3) show "\<exists>j. r = \<lparr>rd_bytes = bs, rd_position = j\<rparr> \<and> j \<le> length bs \<and>
      (\<forall>cs. p_bind p f \<lparr>rd_bytes = bs @ cs, rd_position = i\<rparr> = Ok (b, \<lparr>rd_bytes = bs @ cs, rd_position = j\<rparr>))"
    by (auto simp: p_bind_def)
qed

lemma p_stable_loop [intro]: "(\<And>s. p_stable (f s)) \<Longrightarrow> p_stable (read_loop n f s)"
  by (induction n arbitrary: s) auto

lemma p_stable_words [intro]:
  "p_stable (Reader_read_u16 ov eof)" "p_stable (Reader_read_u32 ov eof)" "p_stable (Reader_read_u64 ov eof)"
  by (auto simp: Reader_read_u16_def Reader_read_u32_def Reader_read_u64_def Reader_read_word_def)

lemma p_stable_len [intro]: "p_stable (Reader_read_len ov eof)"
  by (auto simp: Reader_read_len_def)

lemma p_stable_vec [intro]: "p_stable (Reader_read_vec ov eof)"
  by (auto simp: Reader_read_vec_def)

lemma p_stable_id [intro]: "p_stable (Reader_read_id ov eof)"
  by (auto simp: Reader_read_id_def)

lemmas p_stable_intros =
  p_stable_exact p_stable_return p_stable_lift p_stable_guard p_stable_bind p_stable_loop
  p_stable_words p_stable_len p_stable_vec p_stable_id

section \<open>Whole-buffer decoding\<close>

text \<open>A decoder runs a reading step over the whole buffer and refuses trailing bytes.\<close>

definition decode_all :: "'e \<Rightarrow> ('a, 'e) parser \<Rightarrow> bytes \<Rightarrow> ('a, 'e) result" where
  "decode_all trailing p bs =
     (case p (Reader_new bs) of
        Err e \<Rightarrow> Err e
      | Ok (a, r) \<Rightarrow> if \<not> Reader_is_finished r then Err trailing else Ok a)"

lemma decode_all_reads:
  assumes "reads p bs a" and "length (bs @ post) \<le> isize_max"
  shows "decode_all trailing p (bs @ post) = (if post = [] then Ok a else Err trailing)"
proof -
  have "p \<lparr>rd_bytes = bs @ post, rd_position = 0\<rparr> = Ok (a, \<lparr>rd_bytes = bs @ post, rd_position = length bs\<rparr>)"
    using readsD [OF assms(1), of "[]" post] assms(2) by simp
  then show ?thesis by (simp add: decode_all_def Reader_new_def Reader_is_finished_def)
qed

lemma decode_all_truncated:
  assumes "p_stable p" and "decode_all trailing p (bs @ cs) = Ok a" and "cs \<noteq> []"
  shows "\<not> is_ok (decode_all trailing p bs)"
proof
  assume "is_ok (decode_all trailing p bs)"
  then obtain b where "decode_all trailing p bs = Ok b" by (auto simp: is_ok_iff)
  then obtain r where run: "p \<lparr>rd_bytes = bs, rd_position = 0\<rparr> = Ok (b, r)" and fin: "Reader_is_finished r"
    by (auto simp: decode_all_def Reader_new_def split: result.splits if_splits)
  from assms(1) run obtain j where "r = \<lparr>rd_bytes = bs, rd_position = j\<rparr>"
    "p \<lparr>rd_bytes = bs @ cs, rd_position = 0\<rparr> = Ok (b, \<lparr>rd_bytes = bs @ cs, rd_position = j\<rparr>)"
    by (rule p_stableE) auto
  with fin assms(2,3) show False
    by (auto simp: decode_all_def Reader_new_def Reader_is_finished_def split: if_splits)
qed

abbreviation len_prefix :: "nat \<Rightarrow> bytes" where
  "len_prefix n \<equiv> to_be_bytes (word_of_nat n :: u64)"

lemma write_len_Ok: "write_len ov out n = Ok out' \<longleftrightarrow> n < 2 ^ 64 \<and> out' = out @ to_be_bytes (word_of_nat n :: u64)"
  by (auto simp: write_len_def)

lemma write_bytes_Ok:
  "write_bytes ov out bs = Ok out' \<longleftrightarrow>
     length bs < 2 ^ 64 \<and> out' = out @ to_be_bytes (word_of_nat (length bs) :: u64) @ bs"
  by (auto simp: write_bytes_def write_len_def)

text \<open>A loop of writers appends the concatenation of what each round writes.\<close>

lemma try_fold_write:
  assumes "try_fold f out xs = Ok out'"
    and "\<And>x o1 o2. x \<in> set xs \<Longrightarrow> f o1 x = Ok o2 \<Longrightarrow> P x \<and> o2 = o1 @ enc x"
  shows "(\<forall>x \<in> set xs. P x) \<and> out' = out @ concat (map enc xs)"
  using assms
proof (induction xs arbitrary: out)
  case (Cons x xs)
  then obtain o1 where "f out x = Ok o1" "try_fold f o1 xs = Ok out'"
    by (auto split: result.splits)
  with Cons show ?case by fastforce
qed simp

text \<open>Invariants of a counted loop, and inversion of a sequence.\<close>

lemma read_loop_invariant:
  assumes "read_loop n f s r = Ok (s', r')" and "P s"
    and "\<And>s r s' r'. P s \<Longrightarrow> f s r = Ok (s', r') \<Longrightarrow> P s'"
  shows "P s'"
  using assms(1,2)
proof (induction n arbitrary: s r)
  case (Suc n)
  then obtain s1 r1 where "f s r = Ok (s1, r1)" "read_loop n f s1 r1 = Ok (s', r')"
    by (auto simp: p_bind_def split: result.splits)
  with Suc.IH Suc.prems(2) assms(3) show ?case by blast
qed (simp add: p_return_def)

lemma p_bind_Ok: "p_bind p f r = Ok (b, r') \<longleftrightarrow> (\<exists>a r1. p r = Ok (a, r1) \<and> f a r1 = Ok (b, r'))"
  by (auto simp: p_bind_def split: result.splits)

lemma p_lift_Ok [simp]: "p_lift x r = Ok (b, r') \<longleftrightarrow> x = Ok b \<and> r' = r"
  by (auto simp: p_lift_def split: result.splits)

lemma p_return_Ok [simp]: "p_return a r = Ok (b, r') \<longleftrightarrow> b = a \<and> r' = r"
  by (auto simp: p_return_def)

lemma p_guard_Ok [simp]: "p_guard c e r = Ok (u, r') \<longleftrightarrow> c \<and> r' = r"
  by (auto simp: p_guard_def)

lemma decode_all_Ok: "decode_all t p bs = Ok a \<longleftrightarrow> (\<exists>r. p (Reader_new bs) = Ok (a, r) \<and> Reader_is_finished r)"
  by (auto simp: decode_all_def split: result.splits if_splits)

section \<open>What a step consumed\<close>

definition rest :: "Reader \<Rightarrow> bytes" where
  "rest r = drop (rd_position r) (rd_bytes r)"

lemma rest_new [simp]: "rest (Reader_new bs) = bs"
  by (simp add: rest_def Reader_new_def)

lemma Reader_remaining_rest: "Reader_remaining r = length (rest r)"
  by (simp add: Reader_remaining_def rest_def)

lemma read_exact_rest:
  assumes "Reader_read_exact ov eof n r = Ok (bs, r')"
  shows "rest r = bs @ rest r'" and "length bs = n"
proof -
  from assms have "rd_position r + n \<le> length (rd_bytes r)" "bs = take n (drop (rd_position r) (rd_bytes r))"
    "r' = r\<lparr>rd_position := rd_position r + n\<rparr>"
    by (auto simp: Reader_read_exact_def checked_add_usize_def get_range_def split: option.splits if_splits)
  then show "rest r = bs @ rest r'" "length bs = n"
    using append_take_drop_id [of n "drop (rd_position r) (rd_bytes r)"]
    by (simp_all add: rest_def add.commute)
qed

lemma read_word_rest:
  assumes "Reader_read_word ov eof r = Ok (w :: 'a::len word, r')" and "8 dvd LENGTH('a)"
  shows "rest r = to_be_bytes w @ rest r'"
proof -
  from assms(1) obtain bs where run: "Reader_read_exact ov eof (LENGTH('a) div 8) r = Ok (bs, r')"
    and w: "w = from_be_bytes bs"
    by (auto simp: Reader_read_word_def p_bind_Ok)
  have "to_be_bytes w = bs"
    unfolding w using read_exact_rest(2) [OF run] assms(2) by (intro to_from_be_bytes_gen) simp
  with read_exact_rest(1) [OF run] show ?thesis by simp
qed

lemma read_fields_rest:
  "Reader_read_u16 ov eof r = Ok (w16, r') \<Longrightarrow> rest r = to_be_bytes w16 @ rest r'"
  "Reader_read_u32 ov eof r = Ok (w32, r') \<Longrightarrow> rest r = to_be_bytes w32 @ rest r'"
  "Reader_read_u64 ov eof r = Ok (w64, r') \<Longrightarrow> rest r = to_be_bytes w64 @ rest r'"
  by (simp_all add: Reader_read_u16_def Reader_read_u32_def Reader_read_u64_def read_word_rest)

lemma read_id_rest:
  assumes "Reader_read_id ov eof r = Ok (i, r')"
  shows "rest r = opaque_id_as_bytes i @ rest r'"
proof -
  from assms obtain bs where run: "Reader_read_exact ov eof 32 r = Ok (bs, r')" and "i = opaque_id_from_bytes bs"
    by (auto simp: Reader_read_id_def p_bind_Ok)
  with read_exact_rest [OF run] show ?thesis by (simp add: opaque_id_as_from_bytes)
qed

section \<open>Steps that look at the end of the buffer\<close>

text \<open>\<^verbatim>\<open>reader.remaining()\<close> makes a step depend on where the buffer ends: \<open>reads_end\<close> is
  \<open>reads\<close> for bytes that are all that is left.\<close>

definition p_remaining :: "(nat, 'e) parser" where
  "p_remaining r = Ok (Reader_remaining r, r)"

lemma p_remaining_Ok [simp]: "p_remaining r = Ok (n, r') \<longleftrightarrow> n = Reader_remaining r \<and> r' = r"
  by (auto simp: p_remaining_def)

definition reads_end :: "('a, 'e) parser \<Rightarrow> bytes \<Rightarrow> 'a \<Rightarrow> bool" where
  "reads_end p bs a \<longleftrightarrow> (\<forall>pre. length (pre @ bs) \<le> isize_max \<longrightarrow>
     p \<lparr>rd_bytes = pre @ bs, rd_position = length pre\<rparr> =
       Ok (a, \<lparr>rd_bytes = pre @ bs, rd_position = length pre + length bs\<rparr>))"

lemma reads_imp_reads_end: "reads p bs a \<Longrightarrow> reads_end p bs a"
  unfolding reads_end_def using readsD [of p bs a _ "[]"] by simp

lemma reads_end_bind:
  assumes "reads p bs a" and "reads_end (f a) cs b"
  shows "reads_end (p_bind p f) (bs @ cs) b"
  unfolding reads_end_def
proof (intro allI impI)
  fix pre :: bytes assume len: "length (pre @ bs @ cs) \<le> isize_max"
  have "p \<lparr>rd_bytes = pre @ bs @ cs, rd_position = length pre\<rparr> =
      Ok (a, \<lparr>rd_bytes = pre @ bs @ cs, rd_position = length pre + length bs\<rparr>)"
    using len by (intro readsD [OF assms(1)]) simp
  moreover have "f a \<lparr>rd_bytes = (pre @ bs) @ cs, rd_position = length (pre @ bs)\<rparr> =
      Ok (b, \<lparr>rd_bytes = (pre @ bs) @ cs, rd_position = length (pre @ bs) + length cs\<rparr>)"
    using assms(2) len unfolding reads_end_def by (metis append_assoc)
  ultimately show "p_bind p f \<lparr>rd_bytes = pre @ bs @ cs, rd_position = length pre\<rparr> =
      Ok (b, \<lparr>rd_bytes = pre @ bs @ cs, rd_position = length pre + length (bs @ cs)\<rparr>)"
    by (simp add: p_bind_def add.assoc)
qed

lemma reads_end_pure_bind: "reads p [] a \<Longrightarrow> reads_end (f a) bs b \<Longrightarrow> reads_end (p_bind p f) bs b"
  using reads_end_bind [of p "[]" a f bs b] by simp

lemma reads_end_remaining: "reads_end (f (length bs)) bs b \<Longrightarrow> reads_end (p_bind p_remaining f) bs b"
  by (simp add: reads_end_def p_bind_def p_remaining_def Reader_remaining_def)

lemma reads_end_new:
  "reads_end p bs a \<Longrightarrow> length bs \<le> isize_max \<Longrightarrow>
     p (Reader_new bs) = Ok (a, \<lparr>rd_bytes = bs, rd_position = length bs\<rparr>)"
  unfolding reads_end_def Reader_new_def by (metis add.left_neutral append_Nil list.size(3))

end
