(* ===== verification/Revision_Codec.thy ===== *)
theory Revision_Codec
  imports Scalar_Properties Byte_Codec
begin

text \<open>
  The byte form of sets of revision identities, revisions and scalar registers. Two codecs carry
  a copy of these functions each, \<^verbatim>\<open>apc-sync/src/codec.rs\<close> and
  \<^verbatim>\<open>apc-runtime/src/trusted_state.rs\<close>, which differ in the error constructors only; those are
  arguments here: \<open>ov\<close> for a length overflow, \<open>eof\<close> for truncation, \<open>dup\<close> for a repeated
  identity and \<open>core\<close> to wrap a semantic error.
\<close>

section \<open>Encoding\<close>

definition write_id_set :: "'e \<Rightarrow> bytes \<Rightarrow> RevisionId btree_set \<Rightarrow> (bytes, 'e) result" where
  "write_id_set ov out ids =
     (case write_len ov out (bm_len ids) of
        Err e \<Rightarrow> Err e
      | Ok out1 \<Rightarrow> Ok (fold (\<lambda>i o1. o1 @ opaque_id_as_bytes i) (bs_iter ids) out1))"

definition write_revision :: "'e \<Rightarrow> bytes \<Rightarrow> bytes ScalarRevision \<Rightarrow> (bytes, 'e) result" where
  "write_revision ov out revision =
     (case write_bytes ov (out @ opaque_id_as_bytes (rev_id revision)) (rev_value revision) of
        Err e \<Rightarrow> Err e
      | Ok out1 \<Rightarrow> write_id_set ov out1 (rev_parents revision))"

definition write_register :: "'e \<Rightarrow> bytes \<Rightarrow> bytes ScalarRegister \<Rightarrow> (bytes, 'e) result" where
  "write_register ov out register =
     (case write_len ov out (ScalarRegister_len register) of
        Err e \<Rightarrow> Err e
      | Ok out1 \<Rightarrow> try_fold (write_revision ov) out1 (ScalarRegister_revisions register))"

section \<open>Decoding\<close>

definition read_set_member :: "'e \<Rightarrow> 'e \<Rightarrow> 'e \<Rightarrow> RevisionId btree_set \<Rightarrow> (RevisionId btree_set, 'e) parser" where
  "read_set_member ov eof dup ids =
     p_bind (Reader_read_id ov eof) (\<lambda>i.
       p_lift (if bs_contains ids i then Err dup else Ok (bs_insert i ids)))"

definition read_id_set :: "'e \<Rightarrow> 'e \<Rightarrow> 'e \<Rightarrow> (RevisionId btree_set, 'e) parser" where
  "read_id_set ov eof dup =
     p_bind (Reader_read_len ov eof) (\<lambda>count. read_loop count (read_set_member ov eof dup) bm_empty)"

definition read_revision ::
    "'e \<Rightarrow> 'e \<Rightarrow> 'e \<Rightarrow> bytes ScalarRevision list \<Rightarrow> (bytes ScalarRevision list, 'e) parser" where
  "read_revision ov eof dup revs =
     p_bind (Reader_read_id ov eof) (\<lambda>i.
     p_bind (Reader_read_vec ov eof) (\<lambda>v.
     p_bind (read_id_set ov eof dup) (\<lambda>ps. p_return (revs @ [ScalarRevision_new i v ps]))))"

definition read_register ::
    "'e \<Rightarrow> 'e \<Rightarrow> 'e \<Rightarrow> (CoreError \<Rightarrow> 'e) \<Rightarrow> (bytes ScalarRegister, 'e) parser" where
  "read_register ov eof dup core =
     p_bind (Reader_read_len ov eof) (\<lambda>revision_count.
     p_bind (read_loop revision_count (read_revision ov eof dup) []) (\<lambda>revs.
       p_lift (map_err core (ScalarRegister_from_revisions revs))))"

section \<open>What the writers write\<close>

definition enc_ids :: "RevisionId btree_set \<Rightarrow> bytes" where
  "enc_ids ids = len_prefix (length (bs_iter ids)) @ concat (map opaque_id_as_bytes (bs_iter ids))"

definition enc_revision :: "bytes ScalarRevision \<Rightarrow> bytes" where
  "enc_revision r = opaque_id_as_bytes (rev_id r) @
     (len_prefix (length (rev_value r)) @ rev_value r) @ enc_ids (rev_parents r)"

definition enc_register :: "bytes ScalarRegister \<Rightarrow> bytes" where
  "enc_register reg = len_prefix (length (ScalarRegister_revisions reg)) @
     concat (map enc_revision (ScalarRegister_revisions reg))"

text \<open>The sizes a successful write has checked.\<close>

definition revision_fits :: "bytes ScalarRevision \<Rightarrow> bool" where
  "revision_fits r \<longleftrightarrow> length (rev_value r) < 2 ^ 64 \<and> length (bs_iter (rev_parents r)) < 2 ^ 64"

definition register_fits :: "bytes ScalarRegister \<Rightarrow> bool" where
  "register_fits reg \<longleftrightarrow> length (ScalarRegister_revisions reg) < 2 ^ 64 \<and>
     (\<forall>r \<in> set (ScalarRegister_revisions reg). revision_fits r)"

lemma fold_append_ids: "fold (\<lambda>i o1. o1 @ opaque_id_as_bytes i) xs out = out @ concat (map opaque_id_as_bytes xs)"
  by (induction xs arbitrary: out) auto

lemma bm_len_iter: "bm_len ids = length (bs_iter ids)"
  by (simp add: bm_len_def bs_iter_def bm_keys_def)

lemma register_len: "ScalarRegister_len reg = length (ScalarRegister_revisions reg)"
  by (simp add: ScalarRegister_len_def ScalarRegister_revisions_def bm_len_def bm_values_def)

lemma write_id_set_Ok:
  "write_id_set ov out ids = Ok out' \<longleftrightarrow> length (bs_iter ids) < 2 ^ 64 \<and> out' = out @ enc_ids ids"
  by (auto simp: write_id_set_def write_len_def fold_append_ids enc_ids_def bm_len_iter)

lemma write_revision_Ok:
  "write_revision ov out r = Ok out' \<longleftrightarrow> revision_fits r \<and> out' = out @ enc_revision r"
  by (auto simp: write_revision_def write_bytes_def write_len_def write_id_set_Ok revision_fits_def enc_revision_def)

lemma write_register_Ok:
  assumes "write_register ov out reg = Ok out'"
  shows "register_fits reg \<and> out' = out @ enc_register reg"
proof -
  from assms obtain out1 where n: "length (ScalarRegister_revisions reg) < 2 ^ 64"
    and out1: "out1 = out @ len_prefix (length (ScalarRegister_revisions reg))"
    and loop: "try_fold (write_revision ov) out1 (ScalarRegister_revisions reg) = Ok out'"
    by (auto simp: write_register_def write_len_def register_len split: if_splits)
  from try_fold_write [OF loop, of revision_fits enc_revision] n out1 show ?thesis
    by (simp add: write_revision_Ok register_fits_def enc_register_def)
qed

section \<open>Reading back what was written\<close>

lemma reads_id_set:
  assumes "length (bs_iter ids) < 2 ^ 64"
  shows "reads (read_id_set ov eof dup) (enc_ids ids) ids"
  unfolding read_id_set_def enc_ids_def
proof (rule reads_bind [OF reads_len [OF assms]])
  have member: "reads (read_set_member ov eof dup s) (opaque_id_as_bytes i) (bs_insert i s)" if "i \<notin> bs_set s" for s i
    unfolding read_set_member_def
    by (rule reads_bind_pure [OF reads_id]) (simp add: that reads_lift)
  have acc: "bs_set (foldl (\<lambda>s i. bs_insert i s) s ys) = bs_set s \<union> set ys" for s ys
    by (induction ys arbitrary: s) auto
  have "reads (read_loop (length (bs_iter ids)) (read_set_member ov eof dup) bm_empty)
      (concat (map opaque_id_as_bytes (bs_iter ids))) (foldl (\<lambda>s i. bs_insert i s) bm_empty (bs_iter ids))"
  proof (rule reads_loop)
    fix ys x zs assume "bs_iter ids = ys @ x # zs"
    then have "x \<notin> set ys" using distinct_bs_iter [of ids] by simp
    then show "reads (read_set_member ov eof dup (foldl (\<lambda>s i. bs_insert i s) bm_empty ys)) (opaque_id_as_bytes x)
        (bs_insert x (foldl (\<lambda>s i. bs_insert i s) bm_empty ys))"
      by (intro member) (simp add: acc)
  qed
  moreover have "foldl (\<lambda>s i. bs_insert i s) bm_empty (bs_iter ids) = ids"
    by (simp add: bs_eq_iff acc)
  ultimately show "reads (read_loop (length (bs_iter ids)) (read_set_member ov eof dup) bm_empty)
      (concat (map opaque_id_as_bytes (bs_iter ids))) ids" by simp
qed

lemma reads_revision:
  assumes "revision_fits r"
  shows "reads (read_revision ov eof dup acc) (enc_revision r) (acc @ [r])"
proof -
  have "reads (p_return (acc @ [ScalarRevision_new (rev_id r) (rev_value r) (rev_parents r)])) [] (acc @ [r])"
    using reads_return [of "acc @ [r]"] by (cases r) (simp add: ScalarRevision_new_def)
  moreover have "length (rev_value r) < 2 ^ 64" "length (bs_iter (rev_parents r)) < 2 ^ 64"
    using assms by (simp_all add: revision_fits_def)
  ultimately show ?thesis
    unfolding read_revision_def enc_revision_def
    by (intro reads_bind [OF reads_id] reads_bind [OF reads_vec] reads_bind_pure [OF reads_id_set])
qed

lemma reads_register:
  assumes "register_fits reg" and "register_valid reg"
  shows "reads (read_register ov eof dup core) (enc_register reg) reg"
  unfolding read_register_def enc_register_def
proof (rule reads_bind [OF reads_len])
  show "length (ScalarRegister_revisions reg) < 2 ^ 64" using assms(1) by (simp add: register_fits_def)
  have "reads (read_loop (length (ScalarRegister_revisions reg)) (read_revision ov eof dup) [])
      (concat (map enc_revision (ScalarRegister_revisions reg)))
      (foldl (\<lambda>ys y. ys @ [y]) [] (ScalarRegister_revisions reg))"
    using assms(1) by (intro reads_loop reads_revision) (auto simp: register_fits_def)
  then have loop: "reads (read_loop (length (ScalarRegister_revisions reg)) (read_revision ov eof dup) [])
      (concat (map enc_revision (ScalarRegister_revisions reg))) (ScalarRegister_revisions reg)"
    by (simp add: foldl_snoc)
  show "reads (p_bind (read_loop (length (ScalarRegister_revisions reg)) (read_revision ov eof dup) [])
      (\<lambda>revs. p_lift (map_err core (ScalarRegister_from_revisions revs))))
      (concat (map enc_revision (ScalarRegister_revisions reg))) reg"
    by (rule reads_bind_pure [OF loop], rule reads_lift) (simp add: from_revisions_revisions [OF assms(2)])
qed

lemma p_stable_id_set [intro]: "p_stable (read_id_set ov eof dup)"
  unfolding read_id_set_def read_set_member_def by (intro p_stable_intros)

lemma p_stable_register [intro]: "p_stable (read_register ov eof dup core)"
  unfolding read_register_def read_revision_def by (intro p_stable_intros p_stable_id_set)

text \<open>A loop that inserts one decoded entry per round rebuilds the map whose entries were written.\<close>

lemma get_foldl_insert:
  "bm_get (foldl (\<lambda>m e. bm_insert (fst e) (snd e) m) m ys) = bm_get m ++ map_of (rev ys)"
  by (induction ys arbitrary: m) (auto simp: map_add_def fun_eq_iff split: option.splits)

lemma foldl_insert_entries: "foldl (\<lambda>m e. bm_insert (fst e) (snd e) m) bm_empty (bm_entries m) = m"
proof (rule bm_eqI)
  have "distinct (map fst (bm_entries m))" using bm_keys_distinct [of m] by (simp add: bm_keys_def)
  then have "map_of (rev (bm_entries m)) = map_of (bm_entries m)" by (simp add: map_of_rev_distinct)
  then show "bm_get (foldl (\<lambda>m e. bm_insert (fst e) (snd e) m) bm_empty (bm_entries m)) k = bm_get m k" for k
    by (simp add: get_foldl_insert map_add_def bm_get_conv_map_of [of m] split: option.splits)
qed

lemma reads_map_loop:
  assumes "\<And>acc k v. (k, v) \<in> set (bm_entries m) \<Longrightarrow> k \<notin> dom (bm_get acc) \<Longrightarrow>
      reads (f acc) (enc (k, v)) (bm_insert k v acc)"
  shows "reads (read_loop (length (bm_entries m)) f bm_empty) (concat (map enc (bm_entries m))) m"
proof -
  let ?ins = "\<lambda>m e. bm_insert (fst e) (snd e) m"
  have dist: "distinct (map fst (bm_entries m))" using bm_keys_distinct [of m] by (simp add: bm_keys_def)
  have "reads (read_loop (length (bm_entries m)) f bm_empty) (concat (map enc (bm_entries m)))
      (foldl ?ins bm_empty (bm_entries m))"
  proof (rule reads_loop)
    fix ys e zs assume es: "bm_entries m = ys @ e # zs"
    then have "map_of (rev ys) (fst e) = None" using dist by (auto simp: map_of_eq_None_iff)
    then have "fst e \<notin> dom (bm_get (foldl ?ins bm_empty ys))" by (simp add: get_foldl_insert map_add_def domIff)
    then show "reads (f (foldl ?ins bm_empty ys)) (enc e) (?ins (foldl ?ins bm_empty ys) e)"
      using assms [of "fst e" "snd e" "foldl ?ins bm_empty ys"] es by simp
  qed
  then show ?thesis by (simp only: foldl_insert_entries)
qed

end
