(* ===== verification/Scalar_Codec.thy ===== *)
theory Scalar_Codec
  imports Sync_Projection Revision_Codec
begin

text \<open>
  The deterministic encoding of a clear scalar projection, \<^verbatim>\<open>apc-sync/src/codec.rs\<close>.
\<close>

section \<open>Encoding\<close>

datatype SyncCodecError =
    Sync_InvalidMagic
  | Sync_UnsupportedVersion u16
  | Sync_UnexpectedEof
  | Sync_LengthOverflow
  | Sync_TrailingBytes
  | Sync_DuplicateDomain
  | Sync_DuplicateRevisionInSet
  | Sync_Projection ProjectionError
  | Sync_Core CoreError

definition SYNC_MAGIC :: bytes where
  "SYNC_MAGIC = ascii ''APCSYNC1''"

definition SYNC_VERSION :: u16 where
  "SYNC_VERSION = 1"

definition write_domain :: "bytes \<Rightarrow> DomainKey \<times> bytes ScalarRegister \<Rightarrow> (bytes, SyncCodecError) result" where
  "write_domain out e =
     (case e of (key, register) \<Rightarrow>
        (case ScalarRegister_validate register of
           Err er \<Rightarrow> Err (Sync_Core er)
         | Ok _ \<Rightarrow>
             (case write_bytes Sync_LengthOverflow (out @ opaque_id_as_bytes (dk_atom_id key)) (dk_domain key) of
                Err er \<Rightarrow> Err er
              | Ok out1 \<Rightarrow> write_register Sync_LengthOverflow out1 register)))"

definition encode_scalar_projection :: "ScalarSyncProjection \<Rightarrow> (bytes, SyncCodecError) result" where
  "encode_scalar_projection projection =
     (case write_len Sync_LengthOverflow (SYNC_MAGIC @ to_be_bytes SYNC_VERSION) (SyncProjection_len projection) of
        Err e \<Rightarrow> Err e
      | Ok out \<Rightarrow> try_fold write_domain out (bm_entries (domains projection)))"

section \<open>Decoding\<close>

abbreviation "sync_read_exact \<equiv> Reader_read_exact Sync_LengthOverflow Sync_UnexpectedEof"
abbreviation "sync_read_len \<equiv> Reader_read_len Sync_LengthOverflow Sync_UnexpectedEof"
abbreviation "sync_read_vec \<equiv> Reader_read_vec Sync_LengthOverflow Sync_UnexpectedEof"

definition sync_read_atom_id :: "(AtomId, SyncCodecError) parser" where
  "sync_read_atom_id = Reader_read_id Sync_LengthOverflow Sync_UnexpectedEof"

definition sync_read_register :: "(bytes ScalarRegister, SyncCodecError) parser" where
  "sync_read_register =
     read_register Sync_LengthOverflow Sync_UnexpectedEof Sync_DuplicateRevisionInSet Sync_Core"

definition read_domain ::
    "(DomainKey, bytes ScalarRegister) btree_map \<Rightarrow>
     ((DomainKey, bytes ScalarRegister) btree_map, SyncCodecError) parser" where
  "read_domain m =
     p_bind sync_read_atom_id (\<lambda>atom_id.
     p_bind sync_read_vec (\<lambda>domain.
     p_bind (p_lift (map_err Sync_Projection (DomainKey_new atom_id domain))) (\<lambda>key.
     p_bind sync_read_register (\<lambda>register.
       p_lift (if bm_contains_key m key then Err Sync_DuplicateDomain else Ok (bm_insert key register m))))))"

definition read_scalar_projection :: "(ScalarSyncProjection, SyncCodecError) parser" where
  "read_scalar_projection =
     p_bind (sync_read_exact (length SYNC_MAGIC)) (\<lambda>magic.
     p_bind (p_guard (magic = SYNC_MAGIC) Sync_InvalidMagic) (\<lambda>_.
     p_bind (Reader_read_u16 Sync_LengthOverflow Sync_UnexpectedEof) (\<lambda>version.
     p_bind (p_guard (version = SYNC_VERSION) (Sync_UnsupportedVersion version)) (\<lambda>_.
     p_bind sync_read_len (\<lambda>domain_count.
     p_bind (read_loop domain_count read_domain bm_empty) (\<lambda>m.
       p_return (SyncProjection_from_domains m)))))))"

definition decode_scalar_projection :: "bytes \<Rightarrow> (ScalarSyncProjection, SyncCodecError) result" where
  "decode_scalar_projection = decode_all Sync_TrailingBytes read_scalar_projection"

section \<open>What the writers write\<close>

definition enc_domain :: "DomainKey \<times> bytes ScalarRegister \<Rightarrow> bytes" where
  "enc_domain e = opaque_id_as_bytes (dk_atom_id (fst e)) @
     (len_prefix (length (dk_domain (fst e))) @ dk_domain (fst e)) @ enc_register (snd e)"

lemma write_domain_Ok:
  assumes "write_domain out (key, reg) = Ok out'"
  shows "ScalarRegister_validate reg = Ok () \<and> length (dk_domain key) < 2 ^ 64 \<and> register_fits reg \<and>
    out' = out @ enc_domain (key, reg)"
proof -
  from assms obtain out1 where "ScalarRegister_validate reg = Ok ()"
    and out1: "write_bytes Sync_LengthOverflow (out @ opaque_id_as_bytes (dk_atom_id key)) (dk_domain key) = Ok out1"
    and reg: "write_register Sync_LengthOverflow out1 reg = Ok out'"
    by (auto simp: write_domain_def split: result.splits)
  with write_register_Ok [OF reg] out1 show ?thesis
    by (auto simp: write_bytes_Ok enc_domain_def)
qed

section \<open>Reading back what was written\<close>

lemma reads_domain:
  assumes "register_fits reg" and "register_valid reg" and "length (dk_domain key) < 2 ^ 64"
    and "dk_domain key \<noteq> []" and "key \<notin> dom (bm_get m)"
  shows "reads (read_domain m) (enc_domain (key, reg)) (bm_insert key reg m)"
  unfolding read_domain_def enc_domain_def sync_read_atom_id_def sync_read_register_def fst_conv snd_conv
  by (rule reads_bind [OF reads_id], rule reads_bind [OF reads_vec [OF assms(3)]],
      rule reads_pure_bind [OF reads_lift [where a = key]],
      simp add: DomainKey_new_def assms(4),
      rule reads_bind_pure [OF reads_register [OF assms(1,2)]], rule reads_lift)
    (use assms(5) in auto)

section \<open>The whole projection\<close>

lemma encode_Ok:
  assumes "encode_scalar_projection p = Ok bs"
  shows "length (bm_entries (domains p)) < 2 ^ 64"
    and "(key, reg) \<in> set (bm_entries (domains p)) \<Longrightarrow> register_fits reg \<and> length (dk_domain key) < 2 ^ 64"
    and "bs = SYNC_MAGIC @ to_be_bytes SYNC_VERSION @ len_prefix (length (bm_entries (domains p))) @
      concat (map enc_domain (bm_entries (domains p)))"
proof -
  from assms obtain out where n: "length (bm_entries (domains p)) < 2 ^ 64"
    and out: "out = SYNC_MAGIC @ to_be_bytes SYNC_VERSION @ len_prefix (length (bm_entries (domains p)))"
    and loop: "try_fold write_domain out (bm_entries (domains p)) = Ok bs"
    by (auto simp: encode_scalar_projection_def write_len_def SyncProjection_len_def bm_len_def split: if_splits)
  let ?P = "\<lambda>e :: DomainKey \<times> bytes ScalarRegister. register_fits (snd e) \<and> length (dk_domain (fst e)) < 2 ^ 64"
  have "?P e \<and> o2 = o1 @ enc_domain e" if "write_domain o1 e = Ok o2" for e o1 o2
    using write_domain_Ok [of o1 "fst e" "snd e" o2] that by simp
  from try_fold_write [OF loop, of ?P enc_domain] this n out
  show "length (bm_entries (domains p)) < 2 ^ 64"
    "(key, reg) \<in> set (bm_entries (domains p)) \<Longrightarrow> register_fits reg \<and> length (dk_domain key) < 2 ^ 64"
    "bs = SYNC_MAGIC @ to_be_bytes SYNC_VERSION @ len_prefix (length (bm_entries (domains p))) @
      concat (map enc_domain (bm_entries (domains p)))"
    by fastforce+
qed

definition named_domains :: "ScalarSyncProjection \<Rightarrow> bool" where
  "named_domains p \<longleftrightarrow> (\<forall>k \<in> dom (bm_get (domains p)). dk_domain k \<noteq> [])"

lemma reads_projection:
  assumes "encode_scalar_projection p = Ok bs" and "projection_valid p" and "named_domains p"
  shows "reads read_scalar_projection bs p"
proof -
  let ?es = "bm_entries (domains p)"
  note enc = encode_Ok [OF assms(1)]
  have loop: "reads (read_loop (length ?es) read_domain bm_empty) (concat (map enc_domain ?es)) (domains p)"
  proof (rule reads_map_loop)
    fix acc :: "(DomainKey, bytes ScalarRegister) btree_map" and key reg
    assume mem: "(key, reg) \<in> set ?es" and fresh: "key \<notin> dom (bm_get acc)"
    then have "register_valid reg" "dk_domain key \<noteq> []"
      using assms(2,3) by (auto simp: projection_valid_def keyed_valid_def named_domains_def)
    with enc(2) [OF mem] fresh show "reads (read_domain acc) (enc_domain (key, reg)) (bm_insert key reg acc)"
      by (intro reads_domain) auto
  qed
  have "reads (p_return (SyncProjection_from_domains (domains p))) [] p"
    using reads_return [of p] by (cases p) (simp add: SyncProjection_from_domains_def)
  then have "reads (p_bind (read_loop (length ?es) read_domain bm_empty) (\<lambda>m. p_return (SyncProjection_from_domains m)))
      (concat (map enc_domain ?es)) p"
    by (rule reads_bind_pure [OF loop])
  then show ?thesis
    unfolding read_scalar_projection_def enc(3)
    by (intro reads_bind [OF reads_exact] reads_pure_bind [OF reads_guard] reads_bind [OF reads_u16]
        reads_bind [OF reads_len] enc(1)) (simp_all add: SYNC_MAGIC_def)
qed

lemma p_stable_projection: "p_stable read_scalar_projection"
  unfolding read_scalar_projection_def read_domain_def sync_read_atom_id_def sync_read_register_def
  by (intro p_stable_intros p_stable_register)

lemma read_domain_valid:
  assumes "read_domain m r = Ok (m', r')"
    and "keyed_valid register_valid m \<and> (\<forall>k \<in> dom (bm_get m). dk_domain k \<noteq> [])"
  shows "keyed_valid register_valid m' \<and> (\<forall>k \<in> dom (bm_get m'). dk_domain k \<noteq> [])"
proof -
  from assms(1) obtain atom domain reg revs where "m' = bm_insert (DomainKey atom domain) reg m"
    and "domain \<noteq> []" and "ScalarRegister_from_revisions revs = Ok reg"
    by (force simp: read_domain_def p_bind_Ok sync_read_register_def read_register_def DomainKey_new_def split: if_splits)
  with assms(2) from_revisions_valid [of revs reg] show ?thesis by (auto simp: keyed_valid_def)
qed

lemma decode_valid:
  assumes "decode_scalar_projection bs = Ok p"
  shows "projection_valid p \<and> named_domains p"
proof -
  from assms obtain n m r1 r2 where loop: "read_loop n read_domain bm_empty r1 = Ok (m, r2)" and p: "p = \<lparr>domains = m\<rparr>"
    by (auto simp: decode_scalar_projection_def decode_all_Ok read_scalar_projection_def p_bind_Ok
        SyncProjection_from_domains_def)
  have "keyed_valid register_valid m \<and> (\<forall>k \<in> dom (bm_get m). dk_domain k \<noteq> [])"
    using loop
  proof (rule read_loop_invariant)
    show "keyed_valid register_valid bm_empty \<and> (\<forall>k \<in> dom (bm_get bm_empty). dk_domain k \<noteq> [])"
      by (simp add: keyed_valid_def)
  qed (rule read_domain_valid)
  with p show ?thesis by (simp add: projection_valid_def named_domains_def)
qed

section \<open>Properties\<close>

text \<open>
  The codec of clear projections loses nothing: whatever a valid projection with named
  domains encodes to decodes to that very projection. The only bound is the one every byte
  buffer has, \<open>isize_max\<close>.
\<close>

lemma scalar_projection_roundtrip:
  assumes "encode_scalar_projection p = Ok bs" and "projection_valid p" and "named_domains p"
    and "length bs \<le> isize_max"
  shows "decode_scalar_projection bs = Ok p"
  using decode_all_reads [OF reads_projection [OF assms(1-3)], of "[]"] assms(4)
  by (simp add: decode_scalar_projection_def)

definition byte_register :: "bytes ScalarRegister" where
  "byte_register = \<lparr>revisions = bm_insert (OpaqueId 5) (ScalarRevision_new (OpaqueId 5) [1, 2, 3] bm_empty) bm_empty\<rparr>"

definition byte_projection :: ScalarSyncProjection where
  "byte_projection = sample_projection 1 byte_register"

lemma byte_register_valid: "register_valid byte_register"
proof (rule from_revisions_valid)
  show "ScalarRegister_from_revisions [ScalarRevision_new (OpaqueId 5) [1, 2, 3] bm_empty] = Ok byte_register"
    by code_simp
qed

lemma byte_projection_valid: "projection_valid byte_projection" "named_domains byte_projection"
  by (simp_all add: byte_projection_def sample_projection_valid byte_register_valid)
    (simp add: named_domains_def sample_projection_def)

lemma byte_projection_encodes:
  "\<exists>bs. encode_scalar_projection byte_projection = Ok bs \<and> length bs = 118"
  using byte_register_valid
  by (simp add: encode_scalar_projection_def byte_projection_def sample_projection_def SyncProjection_len_def
      bm_len_def bm_entries_single write_len_def write_domain_def write_bytes_def register_valid_iff
      write_register_def ScalarRegister_len_def ScalarRegister_revisions_def bm_values_def byte_register_def
      write_revision_def write_id_set_def ScalarRevision_new_def SYNC_MAGIC_def bm_entries_empty
      bs_iter_def bm_keys_def)

lemma byte_projection_decodes:
  "\<exists>bs. encode_scalar_projection byte_projection = Ok bs \<and> length bs = 118 \<and>
     decode_scalar_projection bs = Ok byte_projection"
proof -
  obtain bs where bs: "encode_scalar_projection byte_projection = Ok bs" "length bs = 118"
    using byte_projection_encodes by blast
  then show ?thesis
    using decode_all_reads [OF reads_projection [OF bs(1) byte_projection_valid], of "[]"]
    by (simp add: decode_scalar_projection_def isize_max_def)
qed

lemma scalar_projection_roundtrip_witness:
  "\<exists>bs. encode_scalar_projection byte_projection = Ok bs \<and> decode_scalar_projection bs = Ok byte_projection"
  using byte_projection_encodes scalar_projection_roundtrip [OF _ byte_projection_valid]
  by (auto simp: isize_max_def)

text \<open>
  The decoder fails closed on damaged framing: of the bytes of an encoded projection no
  proper prefix decodes at all, and nothing may be appended.
\<close>

lemma scalar_projection_framing:
  assumes "encode_scalar_projection p = Ok (bs @ cs)" and "projection_valid p" and "named_domains p"
    and "length (bs @ cs @ ds) \<le> isize_max" and "cs \<noteq> []" and "ds \<noteq> []"
  shows "\<not> is_ok (decode_scalar_projection bs) \<and>
    decode_scalar_projection (bs @ cs @ ds) = Err Sync_TrailingBytes"
proof -
  note r = reads_projection [OF assms(1-3)]
  have "decode_scalar_projection (bs @ cs) = Ok p"
    using decode_all_reads [OF r, of "[]"] assms(4) by (simp add: decode_scalar_projection_def)
  then have "\<not> is_ok (decode_scalar_projection bs)"
    using decode_all_truncated [OF p_stable_projection] assms(5) by (simp add: decode_scalar_projection_def)
  with decode_all_reads [OF r, of ds Sync_TrailingBytes] assms(4,6) show ?thesis
    by (simp add: decode_scalar_projection_def)
qed

text \<open>
  C38. Everything the decoder accepts is semantically valid, whatever bytes it was given: each
  register passes validation with its revisions under their own identities, and no domain
  identifier is empty.
\<close>

theorem decoded_projection_valid:
  assumes "decode_scalar_projection bs = Ok p"
  shows "projection_valid p \<and> named_domains p"
  using assms by (rule decode_valid)

theorem decoded_projection_valid_witness:
  "\<exists>bs p. decode_scalar_projection bs = Ok p \<and> projection_valid p \<and> named_domains p"
  using byte_projection_decodes decoded_projection_valid by blast

end
