(* ===== verification/Wire_Codec.thy ===== *)
theory Wire_Codec
  imports Byte_Codec
begin

text \<open>
  The transport-facing encoding of one protected part, \<^verbatim>\<open>apc-sync/src/wire.rs\<close>, with the
  part itself and its publication identity from \<^verbatim>\<open>apc-sync/src/protected.rs\<close>.
\<close>

section \<open>Protected parts\<close>

datatype publication_tag = PublicationTag

type_synonym PublicationId = "publication_tag opaque_id"

record ProtectedSyncPart =
  publication_id :: PublicationId
  part_index :: u32
  total_parts :: u32
  payload :: bytes

section \<open>Codec\<close>

datatype ProtectedPartCodecError =
    Part_InvalidMagic
  | Part_UnsupportedVersion u16
  | Part_UnexpectedEof
  | Part_LengthOverflow
  | Part_InvalidMultipartMetadata
  | Part_LengthMismatch

definition PART_MAGIC :: bytes where "PART_MAGIC = ascii ''APCSPRT1''"
definition PART_VERSION :: u16 where "PART_VERSION = 1"
definition PUBLICATION_ID_BYTES :: nat where "PUBLICATION_ID_BYTES = 32"
definition PART_HEADER_BYTES :: nat where
  "PART_HEADER_BYTES = length PART_MAGIC + 2 + PUBLICATION_ID_BYTES + 4 + 4 + 8"

definition validate_metadata :: "u32 \<Rightarrow> u32 \<Rightarrow> (unit, ProtectedPartCodecError) result" where
  "validate_metadata index tot =
     (if tot = 0 \<or> index \<ge> tot then Err Part_InvalidMultipartMetadata else Ok ())"

definition encode_protected_sync_part :: "ProtectedSyncPart \<Rightarrow> (bytes, ProtectedPartCodecError) result" where
  "encode_protected_sync_part part =
     (case validate_metadata (part_index part) (total_parts part) of
        Err e \<Rightarrow> Err e
      | Ok _ \<Rightarrow>
          if \<not> length (payload part) < 2 ^ 64 then Err Part_LengthOverflow
          else Ok (PART_MAGIC @ to_be_bytes PART_VERSION @ opaque_id_as_bytes (publication_id part) @
            to_be_bytes (part_index part) @ to_be_bytes (total_parts part) @
            to_be_bytes (word_of_nat (length (payload part)) :: u64) @ payload part))"

definition read_protected_sync_part :: "(ProtectedSyncPart, ProtectedPartCodecError) parser" where
  "read_protected_sync_part =
     p_bind (Reader_read_u16 Part_LengthOverflow Part_UnexpectedEof) (\<lambda>version.
     p_bind (p_guard (version = PART_VERSION) (Part_UnsupportedVersion version)) (\<lambda>_.
     p_bind (Reader_read_id Part_LengthOverflow Part_UnexpectedEof) (\<lambda>pub.
     p_bind (Reader_read_u32 Part_LengthOverflow Part_UnexpectedEof) (\<lambda>index.
     p_bind (Reader_read_u32 Part_LengthOverflow Part_UnexpectedEof) (\<lambda>tot.
     p_bind (p_lift (validate_metadata index tot)) (\<lambda>_.
     p_bind (Reader_read_u64 Part_LengthOverflow Part_UnexpectedEof) (\<lambda>len64.
     p_bind (p_lift (usize_try_from Part_LengthOverflow len64)) (\<lambda>payload_len.
     p_bind p_remaining (\<lambda>remaining.
     p_bind (p_guard (remaining = payload_len) Part_LengthMismatch) (\<lambda>_.
     p_bind (Reader_read_exact Part_LengthOverflow Part_UnexpectedEof payload_len) (\<lambda>bs.
       p_return \<lparr>publication_id = pub, part_index = index, total_parts = tot, payload = bs\<rparr>)))))))))))"

definition decode_protected_sync_part :: "bytes \<Rightarrow> (ProtectedSyncPart, ProtectedPartCodecError) result" where
  "decode_protected_sync_part encoded =
     (if length encoded < PART_HEADER_BYTES then Err Part_UnexpectedEof
      else if take (length PART_MAGIC) encoded \<noteq> PART_MAGIC then Err Part_InvalidMagic
      else
        (case read_protected_sync_part (Reader_new (drop (length PART_MAGIC) encoded)) of
           Err e \<Rightarrow> Err e
         | Ok (part, _) \<Rightarrow> Ok part))"

section \<open>The codec is a bijection\<close>

lemma part_sizes [simp]: "length PART_MAGIC = 8" "PART_HEADER_BYTES = 58"
  by (simp_all add: PART_MAGIC_def PART_HEADER_BYTES_def PUBLICATION_ID_BYTES_def)

lemma validate_metadata_Ok: "validate_metadata i t = Ok () \<longleftrightarrow> i < t"
  by (auto simp: validate_metadata_def not_le intro: le_less_trans)

lemma encode_part_Ok:
  "encode_protected_sync_part part = Ok bs \<longleftrightarrow>
     part_index part < total_parts part \<and> length (payload part) < 2 ^ 64 \<and>
     bs = PART_MAGIC @ to_be_bytes PART_VERSION @ opaque_id_as_bytes (publication_id part) @
       to_be_bytes (part_index part) @ to_be_bytes (total_parts part) @
       to_be_bytes (word_of_nat (length (payload part)) :: u64) @ payload part"
  unfolding encode_protected_sync_part_def result_simps
  by (auto simp: validate_metadata_Ok)

lemma decode_encode_part:
  assumes "encode_protected_sync_part part = Ok bs" and "length bs \<le> isize_max"
  shows "decode_protected_sync_part bs = Ok part"
proof -
  let ?len = "to_be_bytes (word_of_nat (length (payload part)) :: u64)"
  note enc = assms(1) [unfolded encode_part_Ok]
  have fits: "validate_metadata (part_index part) (total_parts part) = Ok ()"
    "usize_try_from Part_LengthOverflow (word_of_nat (length (payload part))) = Ok (length (payload part))"
    using enc by (simp_all add: validate_metadata_Ok usize_try_from_def usize_max_def unat_of_nat)
  have fin: "reads (p_return \<lparr>publication_id = publication_id part, part_index = part_index part,
      total_parts = total_parts part, payload = payload part\<rparr> :: (_, ProtectedPartCodecError) parser) [] part"
    by (cases part) (simp add: reads_return)
  have "reads_end read_protected_sync_part
      (to_be_bytes PART_VERSION @ opaque_id_as_bytes (publication_id part) @
       to_be_bytes (part_index part) @ to_be_bytes (total_parts part) @ ?len @ payload part) part"
    unfolding read_protected_sync_part_def
    by (intro reads_end_bind [OF reads_u16] reads_end_pure_bind [OF reads_guard] reads_end_bind [OF reads_id]
        reads_end_bind [OF reads_u32] reads_end_pure_bind [OF reads_lift [OF fits(1)]]
        reads_end_bind [OF reads_u64] reads_end_pure_bind [OF reads_lift [OF fits(2)]] reads_end_remaining
        reads_imp_reads_end [OF reads_bind_pure [OF reads_exact]] fin refl)
  moreover have "length (drop 8 bs) \<le> isize_max" using assms(2) by simp
  ultimately have "read_protected_sync_part (Reader_new (drop 8 bs)) =
      Ok (part, \<lparr>rd_bytes = drop 8 bs, rd_position = length (drop 8 bs)\<rparr>)"
    using enc by (intro reads_end_new) simp_all
  with enc show ?thesis by (simp add: decode_protected_sync_part_def)
qed

lemma encode_decode_part:
  assumes "decode_protected_sync_part bs = Ok part"
  shows "encode_protected_sync_part part = Ok bs"
proof -
  from assms obtain r where magic: "take 8 bs = PART_MAGIC"
    and run: "read_protected_sync_part (Reader_new (drop 8 bs)) = Ok (part, r)"
    by (auto simp: decode_protected_sync_part_def split: if_splits result.splits)
  from run obtain pub index tot len64 payload_len body r1 r2 r3 r4 r5 where
    steps: "Reader_read_u16 Part_LengthOverflow Part_UnexpectedEof (Reader_new (drop 8 bs)) = Ok (PART_VERSION, r1)"
      "Reader_read_id Part_LengthOverflow Part_UnexpectedEof r1 = Ok (pub, r2)"
      "Reader_read_u32 Part_LengthOverflow Part_UnexpectedEof r2 = Ok (index, r3)"
      "Reader_read_u32 Part_LengthOverflow Part_UnexpectedEof r3 = Ok (tot, r4)"
      "Reader_read_u64 Part_LengthOverflow Part_UnexpectedEof r4 = Ok (len64, r5)"
      "Reader_read_exact Part_LengthOverflow Part_UnexpectedEof payload_len r5 = Ok (body, r)"
    and meta: "validate_metadata index tot = Ok ()"
    and n: "usize_try_from Part_LengthOverflow len64 = Ok payload_len" "Reader_remaining r5 = payload_len"
    and part: "part = \<lparr>publication_id = pub, part_index = index, total_parts = tot, payload = body\<rparr>"
    unfolding read_protected_sync_part_def p_bind_Ok by auto
  have len: "unat len64 = payload_len" using n(1) by (simp add: usize_try_from_def split: if_splits)
  have "rest r5 = body @ rest r" "length body = payload_len" using read_exact_rest [OF steps(6)] by auto
  moreover from this n(2) have "rest r = []" by (simp add: Reader_remaining_rest)
  ultimately have "drop 8 bs = to_be_bytes PART_VERSION @ opaque_id_as_bytes pub @ to_be_bytes index @
      to_be_bytes tot @ to_be_bytes len64 @ body"
    using read_fields_rest(1) [OF steps(1)] read_id_rest [OF steps(2)] read_fields_rest(2) [OF steps(3)]
      read_fields_rest(2) [OF steps(4)] read_fields_rest(3) [OF steps(5)] by simp
  moreover have "len64 = word_of_nat (length body)" using len \<open>length body = payload_len\<close> by auto
  moreover have "length body < 2 ^ 64" using len \<open>length body = payload_len\<close> unsigned_less [of len64, where 'a = nat] by simp
  ultimately show ?thesis
    using magic meta append_take_drop_id [of 8 bs]
    by (simp add: encode_part_Ok part validate_metadata_Ok)
qed

text \<open>
  The wire form of a protected part is canonical: decoding and encoding are inverse to each
  other, so a byte string is accepted exactly when it is the encoding of the part it yields.
  Truncation, padding, other magic, version, length or multipart numbers are all refused.
\<close>

lemma wire_codec_bijective:
  assumes "length bs \<le> isize_max"
  shows "decode_protected_sync_part bs = Ok part \<longleftrightarrow> encode_protected_sync_part part = Ok bs"
  using decode_encode_part encode_decode_part assms by blast

lemma wire_codec_bijective_witness:
  "\<exists>bs. encode_protected_sync_part \<lparr>publication_id = OpaqueId 3, part_index = 0, total_parts = 2, payload = [5, 6]\<rparr> = Ok bs \<and>
     decode_protected_sync_part bs =
       Ok \<lparr>publication_id = OpaqueId 3, part_index = 0, total_parts = 2, payload = [5, 6]\<rparr>"
proof -
  let ?part = "\<lparr>publication_id = OpaqueId 3, part_index = 0, total_parts = 2, payload = [5, 6]\<rparr> :: ProtectedSyncPart"
  obtain bs where "encode_protected_sync_part ?part = Ok bs" "length bs \<le> isize_max"
    by (simp add: encode_part_Ok isize_max_def)
  with wire_codec_bijective [of bs ?part] show ?thesis by blast
qed

end
