(* ===== verification/Crypto_Envelope.thy ===== *)
theory Crypto_Envelope
  imports Byte_Codec
begin

text \<open>
  The authenticated envelope of \<^verbatim>\<open>apc-crypto/src/lib.rs\<close>. The cipher and the operating
  system's randomness are code outside the repository: \<open>aead\<close> carries the two functions of
  XChaCha20-Poly1305 that the source calls, and an argument carries what the generator returned.
  \<open>aead_correct\<close> is what their documentation promises of a deterministic authenticated cipher:
  decryption inverts encryption, accepts nothing encryption did not produce for the same key,
  nonce and associated data, and the ciphertext is the plaintext with a 16-byte tag.
\<close>

section \<open>Cipher interface\<close>

record aead =
  aead_encrypt :: "bytes \<Rightarrow> bytes \<Rightarrow> bytes \<Rightarrow> bytes \<Rightarrow> bytes option"
  aead_decrypt :: "bytes \<Rightarrow> bytes \<Rightarrow> bytes \<Rightarrow> bytes \<Rightarrow> bytes option"

definition aead_correct :: "aead \<Rightarrow> bool" where
  "aead_correct c \<longleftrightarrow> (\<forall>k n a m ct. length n = 24 \<longrightarrow>
     (aead_encrypt c k n a m = Some ct \<longleftrightarrow> aead_decrypt c k n a ct = Some m) \<and>
     (aead_encrypt c k n a m = Some ct \<longrightarrow> length ct = length m + 16))"

section \<open>Envelope\<close>

definition PROT_MAGIC :: bytes where "PROT_MAGIC = ascii ''APCPROT1''"
definition PROT_VERSION :: u16 where "PROT_VERSION = 1"
definition ALGORITHM_XCHACHA20_POLY1305 :: u8 where "ALGORITHM_XCHACHA20_POLY1305 = 1"
definition KEY_BYTES :: nat where "KEY_BYTES = 32"
definition NONCE_BYTES :: nat where "NONCE_BYTES = 24"
definition TAG_BYTES :: nat where "TAG_BYTES = 16"
definition PROT_HEADER_BYTES :: nat where
  "PROT_HEADER_BYTES = length PROT_MAGIC + 2 + 1 + NONCE_BYTES + 8"
definition AAD_DOMAIN :: bytes where
  "AAD_DOMAIN = ascii ''A.P.C. authenticated protection'' @ [0] @ ascii ''v1'' @ [0] @ ascii ''xchacha20poly1305'' @ [0]"

datatype ContentKey = ContentKey (expose_bytes: bytes)

datatype ProtectionError =
    EmptyContext
  | RandomnessUnavailable
  | InvalidEnvelope
  | Prot_UnsupportedVersion u16
  | Prot_UnsupportedAlgorithm u8
  | AuthenticationFailed
  | Prot_LengthOverflow

definition ContentKey_from_bytes :: "bytes \<Rightarrow> ContentKey" where
  "ContentKey_from_bytes bs = ContentKey bs"

definition ContentKey_generate :: "bytes option \<Rightarrow> (ContentKey, ProtectionError) result" where
  "ContentKey_generate generated =
     (case generated of None \<Rightarrow> Err RandomnessUnavailable | Some bs \<Rightarrow> Ok (ContentKey bs))"

definition build_aad :: "bytes \<Rightarrow> bytes" where
  "build_aad context = AAD_DOMAIN @ context"

definition protect_with_nonce ::
    "aead \<Rightarrow> ContentKey \<Rightarrow> bytes \<Rightarrow> bytes \<Rightarrow> bytes \<Rightarrow> (bytes, ProtectionError) result" where
  "protect_with_nonce cipher key context plaintext nonce_bytes =
     (case aead_encrypt cipher (expose_bytes key) nonce_bytes (build_aad context) plaintext of
        None \<Rightarrow> Err Prot_LengthOverflow
      | Some ciphertext \<Rightarrow>
          if \<not> length ciphertext < 2 ^ 64 then Err Prot_LengthOverflow
          else Ok (PROT_MAGIC @ to_be_bytes PROT_VERSION @ [ALGORITHM_XCHACHA20_POLY1305] @ nonce_bytes @
            to_be_bytes (word_of_nat (length ciphertext) :: u64) @ ciphertext))"

definition protect ::
    "aead \<Rightarrow> bytes option \<Rightarrow> ContentKey \<Rightarrow> bytes \<Rightarrow> bytes \<Rightarrow> (bytes, ProtectionError) result" where
  "protect cipher generated_nonce key context plaintext =
     (if context = [] then Err EmptyContext
      else
        (case generated_nonce of
           None \<Rightarrow> Err RandomnessUnavailable
         | Some nonce \<Rightarrow> protect_with_nonce cipher key context plaintext nonce))"

definition unprotect ::
    "aead \<Rightarrow> ContentKey \<Rightarrow> bytes \<Rightarrow> bytes \<Rightarrow> (bytes, ProtectionError) result" where
  "unprotect cipher key context envelope =
     (if context = [] then Err EmptyContext
      else if length envelope < PROT_HEADER_BYTES + TAG_BYTES then Err InvalidEnvelope
      else if take (length PROT_MAGIC) envelope \<noteq> PROT_MAGIC then Err InvalidEnvelope
      else
        (let version_offset = length PROT_MAGIC;
             version = from_be_bytes [envelope ! version_offset, envelope ! (version_offset + 1)] :: u16
         in if version \<noteq> PROT_VERSION then Err (Prot_UnsupportedVersion version)
            else
              (let algorithm_offset = version_offset + 2;
                   algorithm = envelope ! algorithm_offset
               in if algorithm \<noteq> ALGORITHM_XCHACHA20_POLY1305 then Err (Prot_UnsupportedAlgorithm algorithm)
                  else
                    (let nonce_offset = algorithm_offset + 1;
                         nonce_end = nonce_offset + NONCE_BYTES;
                         nonce = take NONCE_BYTES (drop nonce_offset envelope);
                         length_offset = nonce_end;
                         ciphertext_len_u64 = from_be_bytes (take 8 (drop length_offset envelope)) :: u64
                     in case usize_try_from Prot_LengthOverflow ciphertext_len_u64 of
                          Err e \<Rightarrow> Err e
                        | Ok ciphertext_len \<Rightarrow>
                            if ciphertext_len < TAG_BYTES then Err InvalidEnvelope
                            else
                              (case checked_add_usize PROT_HEADER_BYTES ciphertext_len of
                                 None \<Rightarrow> Err Prot_LengthOverflow
                               | Some expected_len \<Rightarrow>
                                   if length envelope \<noteq> expected_len then Err InvalidEnvelope
                                   else
                                     (case aead_decrypt cipher (expose_bytes key) nonce (build_aad context)
                                             (drop PROT_HEADER_BYTES envelope) of
                                        None \<Rightarrow> Err AuthenticationFailed
                                      | Some plaintext \<Rightarrow> Ok plaintext))))))"

section \<open>Layout\<close>

lemma prot_sizes [simp]:
  "length PROT_MAGIC = 8" "PROT_HEADER_BYTES = 43" "NONCE_BYTES = 24" "TAG_BYTES = 16"
  by (simp_all add: PROT_MAGIC_def PROT_HEADER_BYTES_def NONCE_BYTES_def TAG_BYTES_def)

definition envelope_of :: "bytes \<Rightarrow> bytes \<Rightarrow> bytes" where
  "envelope_of nonce ct = PROT_MAGIC @ to_be_bytes PROT_VERSION @ [ALGORITHM_XCHACHA20_POLY1305] @ nonce @
     to_be_bytes (word_of_nat (length ct) :: u64) @ ct"

lemma build_aad_inject [simp]: "build_aad a = build_aad b \<longleftrightarrow> a = b"
  by (simp add: build_aad_def)

text \<open>The offsets of the decoder address exactly the fields the encoder wrote.\<close>

lemma envelope_fields:
  assumes "length nonce = 24"
  shows "length (envelope_of nonce ct) = 43 + length ct"
    and "take 8 (envelope_of nonce ct) = PROT_MAGIC"
    and "[envelope_of nonce ct ! 8, envelope_of nonce ct ! 9] = to_be_bytes PROT_VERSION"
    and "envelope_of nonce ct ! 10 = ALGORITHM_XCHACHA20_POLY1305"
    and "take 24 (drop 11 (envelope_of nonce ct)) = nonce"
    and "take 8 (drop 35 (envelope_of nonce ct)) = to_be_bytes (word_of_nat (length ct) :: u64)"
    and "drop 43 (envelope_of nonce ct) = ct"
proof -
  have v: "[to_be_bytes PROT_VERSION ! 0, to_be_bytes PROT_VERSION ! 1] = to_be_bytes PROT_VERSION"
    by (rule pair_of_two) simp
  then show "[envelope_of nonce ct ! 8, envelope_of nonce ct ! 9] = to_be_bytes PROT_VERSION"
    by (simp add: envelope_of_def nth_append)
qed (use assms in \<open>simp_all add: envelope_of_def nth_append\<close>)

lemma slices_of_43:
  assumes "43 \<le> length env"
  shows "env = take 8 env @ [env ! 8, env ! 9] @ [env ! 10] @ take 24 (drop 11 env) @ take 8 (drop 35 env) @ drop 43 env"
proof -
  have "drop 8 env = [env ! 8, env ! 9] @ [env ! 10] @ drop 11 env"
    using assms Cons_nth_drop_Suc [of 8 env] Cons_nth_drop_Suc [of 9 env] Cons_nth_drop_Suc [of 10 env] by simp
  moreover have "drop 11 env = take 24 (drop 11 env) @ drop 35 env"
    using append_take_drop_id [of 24 "drop 11 env"] by simp
  moreover have "drop 35 env = take 8 (drop 35 env) @ drop 43 env"
    using append_take_drop_id [of 8 "drop 35 env"] by simp
  ultimately show ?thesis using append_take_drop_id [of 8 env] by metis
qed

text \<open>Conversely a byte string with these fields is that envelope.\<close>

lemma envelope_reassemble:
  assumes "length env = 43 + n" and "take 8 env = PROT_MAGIC"
    and "(from_be_bytes [env ! 8, env ! 9] :: u16) = PROT_VERSION"
    and "env ! 10 = ALGORITHM_XCHACHA20_POLY1305"
    and "unat (from_be_bytes (take 8 (drop 35 env)) :: u64) = n"
  shows "env = envelope_of (take 24 (drop 11 env)) (drop 43 env)"
proof -
  have two: "to_be_bytes PROT_VERSION = [env ! 8, env ! 9]"
    using to_from_be_bytes(1) [of "[env ! 8, env ! 9]"] assms(3) by simp
  have "(word_of_nat n :: u64) = from_be_bytes (take 8 (drop 35 env))" using assms(5) by auto
  then have len: "to_be_bytes (word_of_nat n :: u64) = take 8 (drop 35 env)"
    using to_from_be_bytes(3) [of "take 8 (drop 35 env)"] assms(1) by simp
  have "length (drop 43 env) = n" using assms(1) by simp
  with slices_of_43 [of env] two len assms(1,2,4) show ?thesis
    unfolding envelope_of_def by simp
qed

lemma protect_with_nonce_Ok:
  "protect_with_nonce c key context pt nonce = Ok env \<longleftrightarrow>
     (\<exists>ct. aead_encrypt c (expose_bytes key) nonce (build_aad context) pt = Some ct \<and>
        length ct < 2 ^ 64 \<and> env = envelope_of nonce ct)"
  by (auto simp: protect_with_nonce_def envelope_of_def split: option.splits)

lemma unprotect_fields:
  "unprotect c key context env = Ok pt \<longleftrightarrow>
     context \<noteq> [] \<and> \<not> length env < 43 + 16 \<and> take 8 env = PROT_MAGIC \<and>
     (from_be_bytes [env ! 8, env ! (8 + 1)] :: u16) = PROT_VERSION \<and>
     env ! (8 + 2) = ALGORITHM_XCHACHA20_POLY1305 \<and>
     (\<exists>n. usize_try_from Prot_LengthOverflow (from_be_bytes (take 8 (drop (8 + 2 + 1 + 24) env))) = Ok n \<and>
        \<not> n < 16 \<and> checked_add_usize 43 n = Some (length env)) \<and>
     aead_decrypt c (expose_bytes key) (take 24 (drop (8 + 2 + 1) env)) (build_aad context) (drop 43 env) = Some pt"
  unfolding unprotect_def prot_sizes Let_def result_simps
  by (simp only: not_not result.inject conj_assoc) blast

lemma unprotect_Ok:
  "unprotect c key context env = Ok pt \<longleftrightarrow>
     context \<noteq> [] \<and> (\<exists>nonce ct. length nonce = 24 \<and> 16 \<le> length ct \<and> 43 + length ct \<le> usize_max \<and>
        env = envelope_of nonce ct \<and> aead_decrypt c (expose_bytes key) nonce (build_aad context) ct = Some pt)"
    (is "?lhs \<longleftrightarrow> ?rhs")
proof
  assume ?lhs
  then obtain n where fields: "context \<noteq> []" "take 8 env = PROT_MAGIC"
      "(from_be_bytes [env ! 8, env ! (8 + 1)] :: u16) = PROT_VERSION"
      "env ! (8 + 2) = ALGORITHM_XCHACHA20_POLY1305"
      "aead_decrypt c (expose_bytes key) (take 24 (drop (8 + 2 + 1) env)) (build_aad context) (drop 43 env) = Some pt"
    and n: "usize_try_from Prot_LengthOverflow (from_be_bytes (take 8 (drop (8 + 2 + 1 + 24) env))) = Ok n"
      "\<not> n < 16" "checked_add_usize 43 n = Some (length env)"
    unfolding unprotect_fields by blast
  have len: "length env = 43 + n" "43 + n \<le> usize_max"
    using n(3) by (simp_all add: checked_add_usize_def split: if_splits)
  have num: "unat (from_be_bytes (take 8 (drop 35 env)) :: u64) = n"
    using n(1) by (simp add: usize_try_from_def split: if_splits)
  have env: "env = envelope_of (take 24 (drop 11 env)) (drop 43 env)"
    by (rule envelope_reassemble [OF len(1) fields(2) _ _ num]) (use fields(3,4) in simp_all)
  show ?rhs
  proof (intro conjI exI)
    show "env = envelope_of (take 24 (drop 11 env)) (drop 43 env)" by (rule env)
    show "aead_decrypt c (expose_bytes key) (take 24 (drop 11 env)) (build_aad context) (drop 43 env) = Some pt"
      using fields(5) by simp
  qed (use fields(1) n(2) len in simp_all)
next
  assume ?rhs
  then obtain nonce ct where r: "context \<noteq> []" "length nonce = 24" "16 \<le> length ct" "43 + length ct \<le> usize_max"
    and env: "env = envelope_of nonce ct"
    and d: "aead_decrypt c (expose_bytes key) nonce (build_aad context) ct = Some pt" by blast
  have small: "length ct < 2 ^ 64" using r(4) by (simp add: usize_max_def)
  then have "unat (word_of_nat (length ct) :: u64) = length ct" by (simp add: unat_of_nat)
  with r d env envelope_fields [OF r(2), of ct] show ?lhs
    unfolding unprotect_fields by (simp add: usize_try_from_def checked_add_usize_def)
qed

text \<open>A well-formed envelope opens exactly when the cipher opens its ciphertext.\<close>

lemma unprotect_envelope:
  assumes "context \<noteq> []" and "length nonce = 24" and "16 \<le> length ct" and "43 + length ct \<le> usize_max"
  shows "unprotect c key context (envelope_of nonce ct) =
    (case aead_decrypt c (expose_bytes key) nonce (build_aad context) ct of None \<Rightarrow> Err AuthenticationFailed | Some pt \<Rightarrow> Ok pt)"
proof -
  have small: "length ct < 2 ^ 64" using assms(4) by (simp add: usize_max_def)
  then have n: "unat (word_of_nat (length ct) :: u64) = length ct" by (simp add: unat_of_nat)
  note f = envelope_fields [OF assms(2), of ct]
  have "[envelope_of nonce ct ! 8, envelope_of nonce ct ! (8 + 1)] = to_be_bytes PROT_VERSION" using f(3) by simp
  with n f assms show ?thesis
    by (simp add: unprotect_def Let_def usize_try_from_def checked_add_usize_def)
qed

lemma unprotect_protect_iff:
  assumes "aead_correct c" and "context \<noteq> []" and "length env \<le> isize_max"
  shows "unprotect c key context env = Ok pt \<longleftrightarrow>
    (\<exists>nonce. length nonce = 24 \<and> protect c (Some nonce) key context pt = Ok env)"
proof -
  have enc: "aead_encrypt c k n a m = Some ct \<longleftrightarrow> aead_decrypt c k n a ct = Some m"
    and tag: "aead_encrypt c k n a m = Some ct \<Longrightarrow> 16 \<le> length ct"
    if "length n = 24" for k n a m ct
    using assms(1) that unfolding aead_correct_def by auto
  show ?thesis
  proof
    assume "unprotect c key context env = Ok pt"
    then obtain nonce ct where n: "length nonce = 24" "43 + length ct \<le> usize_max" "env = envelope_of nonce ct"
      "aead_decrypt c (expose_bytes key) nonce (build_aad context) ct = Some pt"
      unfolding unprotect_Ok by blast
    then have "protect_with_nonce c key context pt nonce = Ok env"
      unfolding protect_with_nonce_Ok using enc [OF n(1)] by (auto simp: usize_max_def)
    with n(1) assms(2) show "\<exists>nonce. length nonce = 24 \<and> protect c (Some nonce) key context pt = Ok env"
      by (auto simp: protect_def)
  next
    assume "\<exists>nonce. length nonce = 24 \<and> protect c (Some nonce) key context pt = Ok env"
    then obtain nonce ct where n: "length nonce = 24" "env = envelope_of nonce ct"
      "aead_encrypt c (expose_bytes key) nonce (build_aad context) pt = Some ct"
      using assms(2) by (auto simp: protect_def protect_with_nonce_Ok)
    moreover have "43 + length ct \<le> usize_max"
      using assms(3) envelope_fields(1) [OF n(1), of ct] n(2) by (simp add: isize_max_def usize_max_def)
    ultimately show "unprotect c key context env = Ok pt"
      unfolding unprotect_Ok using assms(2) enc [OF n(1)] tag [OF n(1,3)] by blast
  qed
qed

lemma protect_length:
  assumes "aead_correct c" and "length nonce = 24" and "protect c (Some nonce) key context pt = Ok env"
  shows "length env = length pt + 59"
proof -
  from assms(3) obtain ct where "aead_encrypt c (expose_bytes key) nonce (build_aad context) pt = Some ct"
    "env = envelope_of nonce ct"
    by (auto simp: protect_def protect_with_nonce_Ok split: if_splits)
  with assms(1,2) envelope_fields(1) [OF assms(2), of ct] show ?thesis by (simp add: aead_correct_def)
qed

section \<open>Properties\<close>

text \<open>An instance of the interface: the keyless cipher that appends a 16-byte tag of zeros.\<close>

definition plain_aead :: aead where
  "plain_aead = \<lparr>aead_encrypt = (\<lambda>k n a m. Some (m @ replicate 16 0)),
     aead_decrypt = (\<lambda>k n a ct. if 16 \<le> length ct \<and> drop (length ct - 16) ct = replicate 16 0
       then Some (take (length ct - 16) ct) else None)\<rparr>"

lemma plain_aead_correct: "aead_correct plain_aead"
proof -
  have "m @ replicate 16 0 = ct \<longleftrightarrow> 16 \<le> length ct \<and> drop (length ct - 16) ct = replicate 16 0 \<and>
      take (length ct - 16) ct = m" for m ct :: bytes
    by (metis (no_types, lifting) add_diff_cancel_right' append_eq_conv_conj append_take_drop_id le_add2
        length_append length_replicate)
  then show ?thesis by (auto simp: aead_correct_def plain_aead_def)
qed

text \<open>
  C39. Protection is exact and bound to its key and context. An envelope unprotects to \<open>pt\<close> under a key and a
  non-empty context exactly when it is what protecting \<open>pt\<close> under them with some 24-byte nonce yields, so
  unprotecting inverts protecting and every altered header or length field is refused. Under another key or
  context an envelope opens exactly when the cipher itself opens the same ciphertext with that key, the nonce
  of the envelope and the associated data that spell out that context behind the domain prefix: where the
  cipher refuses, the answer is \<^verbatim>\<open>AuthenticationFailed\<close>.
\<close>

theorem envelope_exact:
  assumes "aead_correct c" and "context \<noteq> []" and "context' \<noteq> []" and "length env \<le> isize_max" and "length nonce = 24"
  shows "(unprotect c key context env = Ok pt \<longleftrightarrow>
      (\<exists>nonce. length nonce = 24 \<and> protect c (Some nonce) key context pt = Ok env)) \<and>
    (protect c (Some nonce) key context pt = Ok env \<longrightarrow>
      (\<exists>ct. aead_encrypt c (expose_bytes key) nonce (AAD_DOMAIN @ context) pt = Some ct \<and>
        unprotect c key' context' env =
          (case aead_decrypt c (expose_bytes key') nonce (AAD_DOMAIN @ context') ct of
             None \<Rightarrow> Err AuthenticationFailed | Some pt' \<Rightarrow> Ok pt')))"
proof (intro conjI impI)
  show "unprotect c key context env = Ok pt \<longleftrightarrow>
      (\<exists>nonce. length nonce = 24 \<and> protect c (Some nonce) key context pt = Ok env)"
    by (rule unprotect_protect_iff [OF assms(1,2,4)])
  assume "protect c (Some nonce) key context pt = Ok env"
  then obtain ct where ct: "aead_encrypt c (expose_bytes key) nonce (build_aad context) pt = Some ct" "env = envelope_of nonce ct"
    using assms(2) by (auto simp: protect_def protect_with_nonce_Ok)
  have "16 \<le> length ct" using assms(1,5) ct(1) by (auto simp: aead_correct_def)
  moreover have "43 + length ct \<le> usize_max"
    using assms(4) envelope_fields(1) [OF assms(5), of ct] ct(2) by (simp add: isize_max_def usize_max_def)
  ultimately show "\<exists>ct. aead_encrypt c (expose_bytes key) nonce (AAD_DOMAIN @ context) pt = Some ct \<and>
        unprotect c key' context' env =
          (case aead_decrypt c (expose_bytes key') nonce (AAD_DOMAIN @ context') ct of
             None \<Rightarrow> Err AuthenticationFailed | Some pt' \<Rightarrow> Ok pt')"
    using ct unprotect_envelope [OF assms(3,5)] by (auto simp: build_aad_def)
qed

text \<open>A cipher whose tag depends on the associated data and on the key: the last 15 bytes of the data and the
  first byte of the key.\<close>

definition sample_tag :: "bytes \<Rightarrow> bytes \<Rightarrow> bytes" where
  "sample_tag k a = take 15 (rev a @ replicate 15 0) @ take 1 (k @ [0])"

definition tag_aead :: aead where
  "tag_aead = \<lparr>aead_encrypt = (\<lambda>k n a m. Some (m @ sample_tag k a)),
     aead_decrypt = (\<lambda>k n a ct. if 16 \<le> length ct \<and> drop (length ct - 16) ct = sample_tag k a
       then Some (take (length ct - 16) ct) else None)\<rparr>"

lemma length_sample_tag [simp]: "length (sample_tag k a) = 16"
  by (cases k) (simp_all add: sample_tag_def)

lemma tag_aead_correct: "aead_correct tag_aead"
proof -
  have "m @ sample_tag k a = ct \<longleftrightarrow> 16 \<le> length ct \<and> drop (length ct - 16) ct = sample_tag k a \<and>
      take (length ct - 16) ct = m" for k a m ct
    by (metis (no_types, lifting) add_diff_cancel_right' append_eq_conv_conj append_take_drop_id le_add2 length_append length_sample_tag)
  then show ?thesis by (auto simp: aead_correct_def tag_aead_def)
qed

lemma tag_aead_opens:
  "aead_encrypt tag_aead k n a m = Some (m @ sample_tag k a)"
  "aead_decrypt tag_aead k' n a' (m @ sample_tag k a) = (if sample_tag k a = sample_tag k' a' then Some m else None)"
  by (simp_all add: tag_aead_def)

lemma sample_tags_differ:
  "sample_tag (replicate 32 1) (AAD_DOMAIN @ [9]) \<noteq> sample_tag (replicate 32 1) (AAD_DOMAIN @ [8])"
  "sample_tag (replicate 32 1) (AAD_DOMAIN @ [9]) \<noteq> sample_tag (replicate 32 3) (AAD_DOMAIN @ [9])"
  by (simp_all add: sample_tag_def)

theorem envelope_exact_witness:
  "\<exists>env. protect tag_aead (Some (replicate 24 7)) (ContentKey (replicate 32 1)) [9] [1, 2] = Ok env \<and>
     unprotect tag_aead (ContentKey (replicate 32 1)) [9] env = Ok [1, 2] \<and>
     unprotect tag_aead (ContentKey (replicate 32 1)) [8] env = Err AuthenticationFailed \<and>
     unprotect tag_aead (ContentKey (replicate 32 3)) [9] env = Err AuthenticationFailed"
proof -
  let ?key = "ContentKey (replicate 32 1)"
  obtain env where env: "protect tag_aead (Some (replicate 24 7)) ?key [9] [1, 2] = Ok env" and len: "length env \<le> isize_max"
    by (simp add: protect_def protect_with_nonce_def tag_aead_def isize_max_def)
  have n: "length (replicate 24 (7 :: u8)) = 24" and ne: "[9 :: u8] \<noteq> []" "[8 :: u8] \<noteq> []" by simp_all
  note exact = envelope_exact [OF tag_aead_correct ne(1) _ len n]
  have "unprotect tag_aead ?key [9] env = Ok [1, 2]"
    using exact [OF ne(1), of ?key "[1, 2]", THEN conjunct1] env n by blast
  moreover have "unprotect tag_aead ?key [8] env = Err AuthenticationFailed"
    using exact [OF ne(2), of ?key "[1, 2]" ?key, THEN conjunct2, THEN mp, OF env] sample_tags_differ(1)
    unfolding tag_aead_opens(1) by (auto simp: tag_aead_opens(2) simp del: append_Cons)
  moreover have "unprotect tag_aead (ContentKey (replicate 32 3)) [9] env = Err AuthenticationFailed"
    using exact [OF ne(1), of ?key "[1, 2]" "ContentKey (replicate 32 3)", THEN conjunct2, THEN mp, OF env] sample_tags_differ(2)
    unfolding tag_aead_opens(1) by (auto simp: tag_aead_opens(2) simp del: append_Cons)
  ultimately show ?thesis using env by blast
qed

end
