(* ===== verification/Protected_Part.thy ===== *)
theory Protected_Part
  imports Scalar_Codec Wire_Codec Crypto_Envelope
begin

text \<open>
  Protected multipart synchronization, \<^verbatim>\<open>apc-sync/src/protected.rs\<close>: one encrypted part is
  an encoded projection sealed under a context that spells out its continuum, publication and
  position; the inbox collects authenticated parts and releases their merge when all are there.
  The two \<^verbatim>\<open>expect\<close> calls of \<^verbatim>\<open>ingest\<close> can only panic on an empty part list; that branch
  is the value \<open>Panicked\<close> here and is shown unreachable.
\<close>

section \<open>Parts\<close>

definition SYNC_PART_CONTEXT_DOMAIN :: bytes where
  "SYNC_PART_CONTEXT_DOMAIN = ascii ''A.P.C. sync part context'' @ [0] @ ascii ''v1'' @ [0]"

datatype SyncPartError =
    InvalidMultipartMetadata
  | MultipartTotalMismatch
  | MultipartPartCollision
  | EmptyProjection
  | Part_Codec SyncCodecError
  | Part_Protection ProtectionError
  | Part_Core CoreError
  | Panicked

definition validate_part_metadata :: "u32 \<Rightarrow> u32 \<Rightarrow> (unit, SyncPartError) result" where
  "validate_part_metadata index tot =
     (if tot = 0 \<or> index \<ge> tot then Err InvalidMultipartMetadata else Ok ())"

definition part_context :: "ContinuumId \<Rightarrow> PublicationId \<Rightarrow> u32 \<Rightarrow> u32 \<Rightarrow> bytes" where
  "part_context continuum pub index tot =
     SYNC_PART_CONTEXT_DOMAIN @ opaque_id_as_bytes continuum @ opaque_id_as_bytes pub @
     to_be_bytes index @ to_be_bytes tot"

definition protect_scalar_part ::
    "aead \<Rightarrow> bytes option \<Rightarrow> ContentKey \<Rightarrow> ContinuumId \<Rightarrow> PublicationId \<Rightarrow> u32 \<Rightarrow> u32 \<Rightarrow>
     ScalarSyncProjection \<Rightarrow> (ProtectedSyncPart, SyncPartError) result" where
  "protect_scalar_part cipher nonce key continuum pub index tot projection =
     (case validate_part_metadata index tot of
        Err e \<Rightarrow> Err e
      | Ok _ \<Rightarrow>
          if SyncProjection_is_empty projection then Err EmptyProjection
          else
            (case encode_scalar_projection projection of
               Err e \<Rightarrow> Err (Part_Codec e)
             | Ok clear \<Rightarrow>
                 (case protect cipher nonce key (part_context continuum pub index tot) clear of
                    Err e \<Rightarrow> Err (Part_Protection e)
                  | Ok bs \<Rightarrow> Ok \<lparr>publication_id = pub, part_index = index, total_parts = tot, payload = bs\<rparr>)))"

definition unprotect_scalar_part ::
    "aead \<Rightarrow> ContentKey \<Rightarrow> ContinuumId \<Rightarrow> ProtectedSyncPart \<Rightarrow> (ScalarSyncProjection, SyncPartError) result" where
  "unprotect_scalar_part cipher key continuum part =
     (case validate_part_metadata (part_index part) (total_parts part) of
        Err e \<Rightarrow> Err e
      | Ok _ \<Rightarrow>
          (case unprotect cipher key
                  (part_context continuum (publication_id part) (part_index part) (total_parts part)) (payload part) of
             Err e \<Rightarrow> Err (Part_Protection e)
           | Ok clear \<Rightarrow>
               (case decode_scalar_projection clear of
                  Err e \<Rightarrow> Err (Part_Codec e)
                | Ok projection \<Rightarrow>
                    if SyncProjection_is_empty projection then Err EmptyProjection else Ok projection)))"

section \<open>Inbox\<close>

record PendingPublication =
  pp_total_parts :: u32
  pp_parts :: "(u32, ScalarSyncProjection) btree_map"

record MultipartInbox =
  inbox_pending :: "(PublicationId, PendingPublication) btree_map"

definition MultipartInbox_new :: MultipartInbox where
  "MultipartInbox_new = \<lparr>inbox_pending = bm_empty\<rparr>"

definition MultipartInbox_pending_publications :: "MultipartInbox \<Rightarrow> nat" where
  "MultipartInbox_pending_publications inbox = bm_len (inbox_pending inbox)"

text \<open>The tail of \<^verbatim>\<open>ingest\<close>: release the publication once every part is present.\<close>

definition release_complete ::
    "MultipartInbox \<Rightarrow> PublicationId \<Rightarrow> PendingPublication \<Rightarrow>
     (ScalarSyncProjection option, SyncPartError) result \<times> MultipartInbox" where
  "release_complete inbox pub pending =
     (if bm_len (pp_parts pending) \<noteq> unat (pp_total_parts pending) then (Ok None, inbox)
      else
        (let inbox' = inbox\<lparr>inbox_pending := bm_remove pub (inbox_pending inbox)\<rparr>
         in case bm_values (pp_parts pending) of
              [] \<Rightarrow> (Err Panicked, inbox')
            | first # others \<Rightarrow>
                (case try_fold (SyncProjection_merge ScalarRegister_merge) first others of
                   Err e \<Rightarrow> (Err (Part_Core e), inbox')
                 | Ok projection \<Rightarrow> (Ok (Some projection), inbox'))))"

definition MultipartInbox_ingest ::
    "aead \<Rightarrow> MultipartInbox \<Rightarrow> ContentKey \<Rightarrow> ContinuumId \<Rightarrow> ProtectedSyncPart \<Rightarrow>
     (ScalarSyncProjection option, SyncPartError) result \<times> MultipartInbox" where
  "MultipartInbox_ingest cipher inbox key continuum part =
     (case unprotect_scalar_part cipher key continuum part of
        Err e \<Rightarrow> (Err e, inbox)
      | Ok clear \<Rightarrow>
          (let pub = publication_id part;
               pending = (case bm_get (inbox_pending inbox) pub of
                   Some p \<Rightarrow> p
                 | None \<Rightarrow> \<lparr>pp_total_parts = total_parts part, pp_parts = bm_empty\<rparr>);
               inbox1 = inbox\<lparr>inbox_pending := bm_insert pub pending (inbox_pending inbox)\<rparr>
           in if pp_total_parts pending \<noteq> total_parts part then (Err MultipartTotalMismatch, inbox1)
              else
                (case bm_get (pp_parts pending) (part_index part) of
                   Some previous \<Rightarrow>
                     if previous \<noteq> clear then (Err MultipartPartCollision, inbox1)
                     else release_complete inbox1 pub pending
                 | None \<Rightarrow>
                     (let pending1 = pending\<lparr>pp_parts := bm_insert (part_index part) clear (pp_parts pending)\<rparr>
                      in release_complete
                           (inbox1\<lparr>inbox_pending := bm_insert pub pending1 (inbox_pending inbox1)\<rparr>) pub pending1))))"

section \<open>Binding of metadata\<close>

lemma part_context_nonempty [simp]: "part_context c p i t \<noteq> []"
  by (simp add: part_context_def SYNC_PART_CONTEXT_DOMAIN_def)

lemma part_context_inject:
  "part_context c p i t = part_context c' p' i' t' \<longleftrightarrow> c = c' \<and> p = p' \<and> i = i' \<and> t = t'"
  by (auto simp: part_context_def append_eq_append_conv to_be_bytes_inject)

lemma validate_part_metadata_Ok: "validate_part_metadata i t = Ok () \<longleftrightarrow> i < t"
  by (auto simp: validate_part_metadata_def not_le intro: le_less_trans)

lemma unprotect_scalar_part_Ok:
  "unprotect_scalar_part cipher key continuum part = Ok p \<longleftrightarrow>
     part_index part < total_parts part \<and> \<not> SyncProjection_is_empty p \<and>
     (\<exists>clear. unprotect cipher key
         (part_context continuum (publication_id part) (part_index part) (total_parts part)) (payload part) = Ok clear \<and>
        decode_scalar_projection clear = Ok p)"
  unfolding unprotect_scalar_part_def result_simps by (auto simp: validate_part_metadata_Ok)

lemma protect_scalar_part_Ok:
  "protect_scalar_part cipher nonce key continuum pub index tot projection = Ok part \<longleftrightarrow>
     index < tot \<and> \<not> SyncProjection_is_empty projection \<and>
     (\<exists>clear bs. encode_scalar_projection projection = Ok clear \<and>
        protect cipher nonce key (part_context continuum pub index tot) clear = Ok bs \<and>
        part = \<lparr>publication_id = pub, part_index = index, total_parts = tot, payload = bs\<rparr>)"
  unfolding protect_scalar_part_def result_simps by (auto simp: validate_part_metadata_Ok)

section \<open>Properties of parts\<close>

lemma unprotect_protect_part:
  assumes "aead_correct cipher" and "length nonce = 24"
    and "protect_scalar_part cipher (Some nonce) key continuum pub index tot projection = Ok part"
    and "projection_valid projection" and "named_domains projection" and "length (payload part) \<le> isize_max"
  shows "unprotect_scalar_part cipher key continuum part = Ok projection"
proof -
  from assms(3) obtain clear bs where p: "index < tot" "\<not> SyncProjection_is_empty projection"
    "encode_scalar_projection projection = Ok clear"
    "protect cipher (Some nonce) key (part_context continuum pub index tot) clear = Ok bs"
    "part = \<lparr>publication_id = pub, part_index = index, total_parts = tot, payload = bs\<rparr>"
    unfolding protect_scalar_part_Ok by blast
  have len: "length bs \<le> isize_max" using assms(6) p(5) by simp
  then have "unprotect cipher key (part_context continuum pub index tot) bs = Ok clear"
    using unprotect_protect_iff [OF assms(1) part_context_nonempty] p(4) assms(2) by blast
  moreover have "length clear \<le> isize_max"
    using protect_length [OF assms(1,2) p(4)] len by simp
  then have "decode_scalar_projection clear = Ok projection"
    using decode_all_reads [OF reads_projection [OF p(3) assms(4,5)], of "[]"]
    by (simp add: decode_scalar_projection_def)
  ultimately show ?thesis using p by (simp add: unprotect_scalar_part_Ok)
qed

lemma byte_projection_nonempty: "\<not> SyncProjection_is_empty byte_projection"
  by (simp add: SyncProjection_is_empty_def byte_projection_def sample_projection_def)

lemma sample_part_exists:
  "\<exists>part. protect_scalar_part plain_aead (Some (replicate 24 7)) (ContentKey (replicate 32 1)) (OpaqueId 9) (OpaqueId 4)
     i 2 byte_projection = Ok part \<and> length (payload part) \<le> isize_max" if "i < 2"
proof -
  obtain clear where "encode_scalar_projection byte_projection = Ok clear" "length clear = 118"
    using byte_projection_encodes by blast
  then show ?thesis
    using that byte_projection_nonempty
    by (auto simp: protect_scalar_part_def validate_part_metadata_def protect_def protect_with_nonce_def
        plain_aead_def isize_max_def PROT_MAGIC_def)
qed

text \<open>
  Clear multipart numbers cannot be exchanged: an accepted part carries a payload that was
  sealed for exactly its continuum, publication, index and total, because the associated data of
  any other combination differs; and what it yields is a valid projection.
\<close>

lemma accepted_part_is_bound:
  assumes "aead_correct cipher" and "length (payload part) \<le> isize_max"
    and "unprotect_scalar_part cipher key continuum part = Ok projection"
  shows "(\<exists>nonce clear. length nonce = 24 \<and>
      protect cipher (Some nonce) key
        (part_context continuum (publication_id part) (part_index part) (total_parts part)) clear = Ok (payload part) \<and>
      decode_scalar_projection clear = Ok projection) \<and>
    part_index part < total_parts part \<and> projection_valid projection \<and>
    (\<forall>c p i t. build_aad (part_context c p i t) =
        build_aad (part_context continuum (publication_id part) (part_index part) (total_parts part)) \<longrightarrow>
      c = continuum \<and> p = publication_id part \<and> i = part_index part \<and> t = total_parts part)"
proof -
  from assms(3) obtain clear where c: "part_index part < total_parts part"
    "unprotect cipher key
       (part_context continuum (publication_id part) (part_index part) (total_parts part)) (payload part) = Ok clear"
    "decode_scalar_projection clear = Ok projection"
    unfolding unprotect_scalar_part_Ok by blast
  moreover have "\<exists>nonce. length nonce = 24 \<and> protect cipher (Some nonce) key
      (part_context continuum (publication_id part) (part_index part) (total_parts part)) clear = Ok (payload part)"
    using unprotect_protect_iff [OF assms(1) part_context_nonempty assms(2)] c(2) by blast
  ultimately show ?thesis using decode_valid [OF c(3)] by (auto simp: part_context_inject)
qed

lemma accepted_part_is_bound_witness:
  "\<exists>part. unprotect_scalar_part plain_aead (ContentKey (replicate 32 1)) (OpaqueId 9) part = Ok byte_projection \<and>
     part_index part < total_parts part"
proof -
  obtain part where part: "protect_scalar_part plain_aead (Some (replicate 24 7)) (ContentKey (replicate 32 1))
      (OpaqueId 9) (OpaqueId 4) 0 2 byte_projection = Ok part" "length (payload part) \<le> isize_max"
    using sample_part_exists [of 0] by auto
  have u: "unprotect_scalar_part plain_aead (ContentKey (replicate 32 1)) (OpaqueId 9) part = Ok byte_projection"
    using unprotect_protect_part [OF plain_aead_correct _ part(1) byte_projection_valid part(2)] by simp
  from accepted_part_is_bound [OF plain_aead_correct part(2) u] u show ?thesis by blast
qed

end
