(* ===== verification/Multipart_Inbox.thy ===== *)
theory Multipart_Inbox
  imports Protected_Part
begin

text \<open>
  Correctness of the multipart inbox of \<^verbatim>\<open>apc-sync/src/protected.rs\<close>. The invariant
  \<open>inbox_wf\<close> (a pending publication holds a proper subset of its parts, all of them valid)
  is kept by every call; the abstract view of a pending publication is the set of indices that
  have arrived, and \<open>ingest\<close> adds one index to it and releases at the full set, so that the
  order and repetition of deliveries do not matter.
\<close>

section \<open>Invariant\<close>

text \<open>What authentication and decoding guarantee of a projection, and merging keeps.\<close>

definition projection_wf :: "ScalarSyncProjection \<Rightarrow> bool" where
  "projection_wf p \<longleftrightarrow> projection_valid p \<and> named_domains p"

definition pending_wf :: "PendingPublication \<Rightarrow> bool" where
  "pending_wf p \<longleftrightarrow> dom (bm_get (pp_parts p)) \<subset> {i. i < pp_total_parts p} \<and>
     (\<forall>i q. bm_get (pp_parts p) i = Some q \<longrightarrow> projection_wf q)"

definition inbox_wf :: "MultipartInbox \<Rightarrow> bool" where
  "inbox_wf inbox \<longleftrightarrow> (\<forall>pub p. bm_get (inbox_pending inbox) pub = Some p \<longrightarrow> pending_wf p)"

lemma finite_words_below: "finite {i :: 'a::len word. i < t}"
  unfolding words_below by (rule List.finite_set)

lemma complete_iff:
  assumes "dom (bm_get m) \<subseteq> {i. i < t}"
  shows "bm_len m = unat t \<longleftrightarrow> dom (bm_get m) = {i. i < t}"
  using card_subset_eq [OF finite_words_below assms] unfolding bm_len_card card_words_below [symmetric]
  by auto

text \<open>The parts of a complete publication in the order the source folds them.\<close>

lemma complete_values:
  assumes "dom (bm_get m) = {i :: u32. i < t}" and "\<And>i. i < t \<Longrightarrow> bm_get m i = Some (f i)"
  shows "bm_values m = map (\<lambda>n. f (word_of_nat n)) [0..<unat t]"
proof -
  have keys: "bm_keys m = map word_of_nat [0..<unat t]"
  proof (rule sorted_distinct_set_unique)
    show "set (bm_keys m) = set (map word_of_nat [0..<unat t])"
      using assms(1) words_below [of t] by simp
    show "sorted (map word_of_nat [0..<unat t] :: u32 list)" "distinct (map word_of_nat [0..<unat t] :: u32 list)"
      using sorted_words_below [of t] strict_sorted_iff by blast+
  qed simp_all
  have "bm_values m = map (\<lambda>k. the (bm_get m k)) (bm_keys m)"
    unfolding bm_values_def by (subst bm_entries_conv_keys) simp
  also have "\<dots> = map f (bm_keys m)"
    using assms by (intro map_cong) auto
  finally show ?thesis by (simp add: keys comp_def)
qed

section \<open>One delivery\<close>

definition merge_parts :: "(u32 \<Rightarrow> ScalarSyncProjection) \<Rightarrow> u32 \<Rightarrow> (ScalarSyncProjection option, SyncPartError) result" where
  "merge_parts f t =
     (case try_fold (SyncProjection_merge ScalarRegister_merge) (f 0) (map (\<lambda>n. f (word_of_nat n)) [1..<unat t]) of
        Err e \<Rightarrow> Err (Part_Core e)
      | Ok projection \<Rightarrow> Ok (Some projection))"

text \<open>The inbox holds, for one publication, the parts with indices \<open>I\<close> of the assignment \<open>f\<close>.\<close>

definition holds_parts :: "MultipartInbox \<Rightarrow> PublicationId \<Rightarrow> u32 \<Rightarrow> (u32 \<Rightarrow> ScalarSyncProjection) \<Rightarrow> u32 set \<Rightarrow> bool" where
  "holds_parts inbox pub t f I \<longleftrightarrow>
     (case bm_get (inbox_pending inbox) pub of
        None \<Rightarrow> I = {}
      | Some p \<Rightarrow> pp_total_parts p = t \<and> dom (bm_get (pp_parts p)) = I \<and>
          (\<forall>i \<in> I. bm_get (pp_parts p) i = Some (f i)))"

lemma release_complete_cases:
  assumes "dom (bm_get (pp_parts p)) \<subseteq> {i. i < pp_total_parts p}" and "0 < pp_total_parts p"
    and "\<And>i. i \<in> dom (bm_get (pp_parts p)) \<Longrightarrow> bm_get (pp_parts p) i = Some (f i)"
  shows "release_complete inbox pub p =
    (if dom (bm_get (pp_parts p)) = {i. i < pp_total_parts p}
     then (merge_parts f (pp_total_parts p), inbox\<lparr>inbox_pending := bm_remove pub (inbox_pending inbox)\<rparr>)
     else (Ok None, inbox))"
proof (cases "dom (bm_get (pp_parts p)) = {i. i < pp_total_parts p}")
  case True
  have pos: "0 < unat (pp_total_parts p)" using assms(2) by (simp add: word_less_nat_alt)
  have "bm_values (pp_parts p) = map (\<lambda>n. f (word_of_nat n)) [0..<unat (pp_total_parts p)]"
    using True assms(3) by (intro complete_values) auto
  also have "\<dots> = f 0 # map (\<lambda>n. f (word_of_nat n)) [1..<unat (pp_total_parts p)]"
    using pos by (simp add: upt_conv_Cons)
  finally show ?thesis
    using True complete_iff [OF assms(1)]
    by (simp add: release_complete_def merge_parts_def Let_def split: result.splits)
next
  case False
  then show ?thesis using complete_iff [OF assms(1)] by (simp add: release_complete_def)
qed

lemma ingest_step:
  assumes "unprotect_scalar_part cipher key continuum part = Ok (f (part_index part))"
    and "holds_parts inbox (publication_id part) (total_parts part) f I" and "I \<subseteq> {i. i < total_parts part}"
  shows "if insert (part_index part) I = {i. i < total_parts part}
    then \<exists>m. MultipartInbox_ingest cipher inbox key continuum part =
      (merge_parts f (total_parts part), inbox\<lparr>inbox_pending := m\<rparr>) \<and> bm_get m = (bm_get (inbox_pending inbox))(publication_id part := None)
    else \<exists>inbox'. MultipartInbox_ingest cipher inbox key continuum part = (Ok None, inbox') \<and>
      holds_parts inbox' (publication_id part) (total_parts part) f (insert (part_index part) I)"
proof -
  let ?pub = "publication_id part" and ?i = "part_index part" and ?t = "total_parts part"
  have lt: "?i < ?t" using assms(1) by (simp add: unprotect_scalar_part_Ok)
  then have pos: "0 < ?t" by (metis word_gt_0 word_not_simps(1))
  define p0 where "p0 = (case bm_get (inbox_pending inbox) ?pub of Some p \<Rightarrow> p
      | None \<Rightarrow> \<lparr>pp_total_parts = ?t, pp_parts = bm_empty\<rparr>)"
  have p0: "pp_total_parts p0 = ?t" "dom (bm_get (pp_parts p0)) = I"
    "\<And>i. i \<in> I \<Longrightarrow> bm_get (pp_parts p0) i = Some (f i)"
    using assms(2) by (auto simp: p0_def holds_parts_def split: option.splits)
  define p1 where "p1 = p0\<lparr>pp_parts := bm_insert ?i (f ?i) (pp_parts p0)\<rparr>"
  have p1: "pp_total_parts p1 = ?t" "dom (bm_get (pp_parts p1)) = insert ?i I"
    "\<And>i. i \<in> insert ?i I \<Longrightarrow> bm_get (pp_parts p1) i = Some (f i)"
    using p0 by (auto simp: p1_def)
  have same: "p1 = p0" if "bm_get (pp_parts p0) ?i = Some (f ?i)"
    using that by (cases p0) (simp add: p1_def bm_insert_same)
  let ?ib = "inbox\<lparr>inbox_pending := bm_insert ?pub p1 (inbox_pending inbox)\<rparr>"
  have ins: "bm_insert ?pub x (bm_insert ?pub y m) = bm_insert ?pub x m" for x y and m :: "(_, PendingPublication) btree_map"
    by (rule bm_eqI) simp
  have "MultipartInbox_ingest cipher inbox key continuum part = release_complete ?ib ?pub p1"
  proof (cases "bm_get (pp_parts p0) ?i")
    case None
    then show ?thesis
      unfolding MultipartInbox_ingest_def assms(1) p0_def [symmetric] Let_def
      using p0(1) ins by (simp add: p1_def)
  next
    case (Some q)
    then have "q = f ?i" using p0(2,3) by (metis domI option.inject)
    with Some show ?thesis
      unfolding MultipartInbox_ingest_def assms(1) p0_def [symmetric] Let_def
      using p0(1) same by simp
  qed
  also have "\<dots> = (if insert ?i I = {i. i < ?t}
      then (merge_parts f ?t, ?ib\<lparr>inbox_pending := bm_remove ?pub (inbox_pending ?ib)\<rparr>) else (Ok None, ?ib))"
    using release_complete_cases [of p1 f ?ib ?pub] p1 assms(3) lt pos by (simp add: p1(2))
  finally show ?thesis
    using p1 by (auto simp: holds_parts_def fun_eq_iff)
qed

section \<open>A run of deliveries\<close>

fun ingest_all ::
    "aead \<Rightarrow> ContentKey \<Rightarrow> ContinuumId \<Rightarrow> MultipartInbox \<Rightarrow> ProtectedSyncPart list \<Rightarrow>
     (ScalarSyncProjection option, SyncPartError) result list \<times> MultipartInbox" where
  "ingest_all cipher key continuum inbox [] = ([], inbox)"
| "ingest_all cipher key continuum inbox (p # ps) =
     (let (r, inbox') = MultipartInbox_ingest cipher inbox key continuum p;
          (rs, inbox'') = ingest_all cipher key continuum inbox' ps
      in (r # rs, inbox''))"

lemma ingest_all_append:
  "ingest_all cipher key continuum inbox (ps @ qs) =
     (let (rs, inbox') = ingest_all cipher key continuum inbox ps;
          (rs', inbox'') = ingest_all cipher key continuum inbox' qs
      in (rs @ rs', inbox''))"
  by (induction ps arbitrary: inbox) (auto simp: Let_def split: prod.splits)

definition parts_of ::
    "aead \<Rightarrow> ContentKey \<Rightarrow> ContinuumId \<Rightarrow> PublicationId \<Rightarrow> u32 \<Rightarrow> (u32 \<Rightarrow> ScalarSyncProjection) \<Rightarrow>
     ProtectedSyncPart list \<Rightarrow> bool" where
  "parts_of cipher key continuum pub t f ps \<longleftrightarrow>
     (\<forall>part \<in> set ps. publication_id part = pub \<and> total_parts part = t \<and>
        unprotect_scalar_part cipher key continuum part = Ok (f (part_index part)))"

lemma ingest_all_incomplete:
  assumes "parts_of cipher key continuum pub t f ps" and "holds_parts inbox pub t f I"
    and "I \<subseteq> {i. i < t}" and "I \<union> part_index ` set ps \<noteq> {i. i < t}"
  shows "\<exists>inbox'. ingest_all cipher key continuum inbox ps = (replicate (length ps) (Ok None), inbox') \<and>
    holds_parts inbox' pub t f (I \<union> part_index ` set ps)"
  using assms
proof (induction ps arbitrary: inbox I)
  case (Cons p ps)
  have p: "publication_id p = pub" "total_parts p = t"
    "unprotect_scalar_part cipher key continuum p = Ok (f (part_index p))"
    using Cons.prems(1) by (auto simp: parts_of_def)
  have all: "part_index ` set (p # ps) \<subseteq> {i. i < t}"
    using Cons.prems(1) by (auto simp: parts_of_def unprotect_scalar_part_Ok)
  have "insert (part_index p) I \<noteq> {i. i < t}" using Cons.prems(3,4) all by auto
  then obtain inbox1 where i1: "MultipartInbox_ingest cipher inbox key continuum p = (Ok None, inbox1)"
    "holds_parts inbox1 pub t f (insert (part_index p) I)"
    using ingest_step [where f = f, OF p(3), of inbox I] Cons.prems(2,3) p by auto
  have "\<exists>inbox'. ingest_all cipher key continuum inbox1 ps = (replicate (length ps) (Ok None), inbox') \<and>
      holds_parts inbox' pub t f (insert (part_index p) I \<union> part_index ` set ps)"
    using Cons.prems(1,3,4) i1(2) all by (intro Cons.IH) (auto simp: parts_of_def)
  with i1(1) show ?case by auto
qed (simp add: holds_parts_def)

text \<open>
  C10. Multipart assembly depends on neither the order nor the repetition of deliveries: from an
  inbox that knows nothing of a publication, authenticated parts release nothing until the last
  missing index arrives, and then exactly the merge of the parts in index order; the publication
  is forgotten afterwards.
\<close>

theorem multipart_assembly:
  assumes "parts_of cipher key continuum pub t f (ps @ [p])" and "bm_get (inbox_pending inbox) pub = None"
    and "part_index ` set ps \<noteq> {i. i < t}" and "part_index ` set (ps @ [p]) = {i. i < t}"
  shows "\<exists>inbox'. ingest_all cipher key continuum inbox (ps @ [p]) =
      (replicate (length ps) (Ok None) @ [merge_parts f t], inbox') \<and>
    bm_get (inbox_pending inbox') pub = None"
proof -
  have "holds_parts inbox pub t f {}" using assms(2) by (simp add: holds_parts_def)
  then obtain inbox1 where run: "ingest_all cipher key continuum inbox ps = (replicate (length ps) (Ok None), inbox1)"
    and holds: "holds_parts inbox1 pub t f (part_index ` set ps)"
    using ingest_all_incomplete [of cipher key continuum pub t f ps inbox "{}"] assms(1,3)
    by (auto simp: parts_of_def)
  have p: "publication_id p = pub" "total_parts p = t"
    "unprotect_scalar_part cipher key continuum p = Ok (f (part_index p))"
    using assms(1) by (auto simp: parts_of_def)
  have "insert (part_index p) (part_index ` set ps) = {i. i < t}" "part_index ` set ps \<subseteq> {i. i < t}"
    using assms(4) by auto
  then obtain m where "MultipartInbox_ingest cipher inbox1 key continuum p = (merge_parts f t, inbox1\<lparr>inbox_pending := m\<rparr>)"
    "bm_get m = (bm_get (inbox_pending inbox1))(pub := None)"
    using ingest_step [where f = f, OF p(3), of inbox1 "part_index ` set ps"] holds p by auto
  with run show ?thesis by (simp add: ingest_all_append)
qed

theorem multipart_assembly_witness:
  "\<exists>a b inbox'. ingest_all plain_aead (ContentKey (replicate 32 1)) (OpaqueId 9) MultipartInbox_new [b, a] =
     ([Ok None, merge_parts (\<lambda>_. byte_projection) 2], inbox')"
proof -
  let ?k = "ContentKey (replicate 32 1)"
  obtain a where a: "protect_scalar_part plain_aead (Some (replicate 24 7)) ?k (OpaqueId 9) (OpaqueId 4) 0 2 byte_projection = Ok a"
    "length (payload a) \<le> isize_max" using sample_part_exists [of 0] by auto
  obtain b where b: "protect_scalar_part plain_aead (Some (replicate 24 7)) ?k (OpaqueId 9) (OpaqueId 4) 1 2 byte_projection = Ok b"
    "length (payload b) \<le> isize_max" using sample_part_exists [of 1] by auto
  have meta: "publication_id a = OpaqueId 4" "total_parts a = 2" "part_index a = 0"
    "publication_id b = OpaqueId 4" "total_parts b = 2" "part_index b = 1"
    using a(1) b(1) by (auto simp: protect_scalar_part_Ok)
  have u: "unprotect_scalar_part plain_aead ?k (OpaqueId 9) a = Ok byte_projection"
    "unprotect_scalar_part plain_aead ?k (OpaqueId 9) b = Ok byte_projection"
    using unprotect_protect_part [OF plain_aead_correct _ a(1) byte_projection_valid a(2)]
      unprotect_protect_part [OF plain_aead_correct _ b(1) byte_projection_valid b(2)] by simp_all
  have two: "{i :: u32. i < 2} = {0, 1}" unfolding words_below by (auto simp: upt_rec)
  have "\<exists>inbox'. ingest_all plain_aead ?k (OpaqueId 9) MultipartInbox_new ([b] @ [a]) =
      (replicate (length [b]) (Ok None) @ [merge_parts (\<lambda>_. byte_projection) 2], inbox') \<and>
      bm_get (inbox_pending inbox') (OpaqueId 4) = None"
    by (rule multipart_assembly) (auto simp: parts_of_def meta u two MultipartInbox_new_def)
  then show ?thesis by auto
qed

section \<open>Invariant of every call\<close>

lemma projection_merge_wf:
  assumes "projection_wf p" and "projection_wf q" and "SyncProjection_merge ScalarRegister_merge p q = Ok r"
  shows "projection_wf r"
proof -
  have "projection_valid r"
    using assms projections.valid_merge [of p q r] by (simp add: projection_wf_def)
  moreover have "dom (bm_get (domains r)) = dom (bm_get (domains p)) \<union> dom (bm_get (domains q))"
    using assms(3) unfolding SyncProjection_merge_Ok by (rule merge_entries_dom)
  ultimately show ?thesis using assms(1,2) by (auto simp: projection_wf_def named_domains_def)
qed

lemma projection_merge_all_wf:
  assumes "try_fold (SyncProjection_merge ScalarRegister_merge) p qs = Ok r"
    and "projection_wf p" and "\<forall>q \<in> set qs. projection_wf q"
  shows "projection_wf r"
  using assms(1,2) by (rule try_fold_invariant) (use assms(3) projection_merge_wf in blast)

lemma release_complete_wf:
  fixes pub :: PublicationId and p :: PendingPublication and inbox :: MultipartInbox
  assumes "inbox_wf inbox" and "dom (bm_get (pp_parts p)) \<subseteq> {i. i < pp_total_parts p}" and "0 < pp_total_parts p"
    and "\<forall>i q. bm_get (pp_parts p) i = Some q \<longrightarrow> projection_wf q"
  defines "ib \<equiv> inbox\<lparr>inbox_pending := bm_insert pub p (inbox_pending inbox)\<rparr>"
  shows "inbox_wf (snd (release_complete ib pub p)) \<and> fst (release_complete ib pub p) \<noteq> Err Panicked \<and>
    (\<forall>q. fst (release_complete ib pub p) = Ok (Some q) \<longrightarrow> projection_wf q)"
proof -
  let ?f = "\<lambda>i. the (bm_get (pp_parts p) i)"
  have rel: "release_complete ib pub p =
    (if dom (bm_get (pp_parts p)) = {i. i < pp_total_parts p}
     then (merge_parts ?f (pp_total_parts p), ib\<lparr>inbox_pending := bm_remove pub (inbox_pending ib)\<rparr>)
     else (Ok None, ib))"
    using assms(2,3) by (intro release_complete_cases) auto
  show ?thesis
  proof (cases "dom (bm_get (pp_parts p)) = {i. i < pp_total_parts p}")
    case True
    have "projection_wf (?f i)" if "i < pp_total_parts p" for i
      using that True assms(4) by (metis domD mem_Collect_eq option.sel)
    moreover have "word_of_nat n < pp_total_parts p" if "n < unat (pp_total_parts p)" for n
      using that words_below [of "pp_total_parts p"] by auto
    ultimately have "projection_wf (?f 0)"
      and all: "\<forall>q \<in> set (map (\<lambda>n. ?f (word_of_nat n)) [1..<unat (pp_total_parts p)]). projection_wf q"
      using assms(3) by auto
    then have "projection_wf q" if "merge_parts ?f (pp_total_parts p) = Ok (Some q)" for q
    proof -
      have "try_fold (SyncProjection_merge ScalarRegister_merge) (?f 0)
          (map (\<lambda>n. ?f (word_of_nat n)) [1..<unat (pp_total_parts p)]) = Ok q"
        using that by (simp add: merge_parts_def split: result.splits)
      then show ?thesis using \<open>projection_wf (?f 0)\<close> all by (rule projection_merge_all_wf)
    qed
    moreover have "merge_parts ?f (pp_total_parts p) \<noteq> Err Panicked"
      by (simp add: merge_parts_def split: result.splits)
    ultimately show ?thesis
      using True rel assms(1) by (simp add: ib_def inbox_wf_def)
  next
    case False
    with assms(2,4) have "pending_wf p" by (auto simp: pending_wf_def)
    with False rel assms(1) show ?thesis by (simp add: ib_def inbox_wf_def)
  qed
qed

text \<open>What \<^verbatim>\<open>ingest\<close> does with an authenticated part, over the pending publication it belongs to.\<close>

definition pending_for :: "MultipartInbox \<Rightarrow> ProtectedSyncPart \<Rightarrow> PendingPublication" where
  "pending_for inbox part =
     (case bm_get (inbox_pending inbox) (publication_id part) of
        Some p \<Rightarrow> p
      | None \<Rightarrow> \<lparr>pp_total_parts = total_parts part, pp_parts = bm_empty\<rparr>)"

abbreviation with_pending :: "MultipartInbox \<Rightarrow> PublicationId \<Rightarrow> PendingPublication \<Rightarrow> MultipartInbox" where
  "with_pending inbox pub p \<equiv> inbox\<lparr>inbox_pending := bm_insert pub p (inbox_pending inbox)\<rparr>"

lemma ingest_authenticated:
  assumes "unprotect_scalar_part cipher key continuum part = Ok clear"
  shows "MultipartInbox_ingest cipher inbox key continuum part =
    (let p = pending_for inbox part; pub = publication_id part;
         p1 = p\<lparr>pp_parts := bm_insert (part_index part) clear (pp_parts p)\<rparr>
     in if pp_total_parts p \<noteq> total_parts part then (Err MultipartTotalMismatch, with_pending inbox pub p)
        else case bm_get (pp_parts p) (part_index part) of
          Some previous \<Rightarrow>
            if previous \<noteq> clear then (Err MultipartPartCollision, with_pending inbox pub p)
            else release_complete (with_pending inbox pub p) pub p
        | None \<Rightarrow> release_complete (with_pending inbox pub p1) pub p1)"
proof -
  have "bm_insert k x (bm_insert k y m) = bm_insert k x m" for x y k and m :: "(PublicationId, PendingPublication) btree_map"
    by (rule bm_eqI) simp
  then show ?thesis
    by (simp add: MultipartInbox_ingest_def assms pending_for_def Let_def split: option.split)
qed

text \<open>The inbox keeps its invariant under any part, hostile ones included: a pending publication
  always lacks a part and holds only valid projections; the \<^verbatim>\<open>expect\<close> calls never panic; and
  every projection it releases is valid.\<close>

lemma unprotect_projection_wf: "unprotect_scalar_part cipher key continuum part = Ok q \<Longrightarrow> projection_wf q"
  using decode_valid by (auto simp: unprotect_scalar_part_Ok projection_wf_def)

lemma ingest_wf:
  assumes "inbox_wf inbox"
  shows "inbox_wf (snd (MultipartInbox_ingest cipher inbox key continuum part)) \<and>
    fst (MultipartInbox_ingest cipher inbox key continuum part) \<noteq> Err Panicked \<and>
    (\<forall>q. fst (MultipartInbox_ingest cipher inbox key continuum part) = Ok (Some q) \<longrightarrow> projection_wf q)"
proof (cases "unprotect_scalar_part cipher key continuum part")
  case (Err e)
  moreover from Err have "e \<noteq> Panicked"
    by (auto simp: unprotect_scalar_part_def validate_part_metadata_def split: if_splits result.splits)
  ultimately show ?thesis using assms by (simp add: MultipartInbox_ingest_def)
next
  case (Ok clear)
  let ?p = "pending_for inbox part" and ?pub = "publication_id part"
  let ?p1 = "?p\<lparr>pp_parts := bm_insert (part_index part) clear (pp_parts ?p)\<rparr>"
  have lt: "part_index part < total_parts part" using Ok by (auto simp: unprotect_scalar_part_Ok)
  note valid = unprotect_projection_wf [OF Ok]
  have pos: "0 < total_parts part" using lt by (metis word_gt_0 word_not_simps(1))
  have p: "pending_wf ?p"
    using assms pos by (auto simp: pending_for_def inbox_wf_def pending_wf_def split: option.splits)
  have kept: "inbox_wf (with_pending inbox ?pub ?p)" using assms p by (simp add: inbox_wf_def)
  show ?thesis
  proof (cases "pp_total_parts ?p = total_parts part \<and> bm_get (pp_parts ?p) (part_index part) \<in> {None, Some clear}")
    case False
    with kept show ?thesis
      unfolding ingest_authenticated [OF Ok] by (auto simp: Let_def split: option.splits)
  next
    case True
    define q where "q = (if bm_get (pp_parts ?p) (part_index part) = None then ?p1 else ?p)"
    have "MultipartInbox_ingest cipher inbox key continuum part = release_complete (with_pending inbox ?pub q) ?pub q"
      unfolding ingest_authenticated [OF Ok] using True by (auto simp: Let_def q_def)
    moreover have "dom (bm_get (pp_parts q)) \<subseteq> {i. i < pp_total_parts q}" "0 < pp_total_parts q"
      "\<forall>i c. bm_get (pp_parts q) i = Some c \<longrightarrow> projection_wf c"
      using p lt pos valid True by (auto simp: pending_wf_def q_def)
    ultimately show ?thesis using release_complete_wf [OF assms, of q ?pub] by metis
  qed
qed

lemma inbox_new_wf: "inbox_wf MultipartInbox_new"
  by (simp add: inbox_wf_def MultipartInbox_new_def)

text \<open>A delivery that releases nothing leaves its publication pending.\<close>

lemma ingest_keeps_pending:
  assumes "MultipartInbox_ingest cipher inbox key continuum part = (Ok None, inbox')"
  shows "publication_id part \<in> dom (bm_get (inbox_pending inbox'))"
proof -
  from assms obtain clear where "unprotect_scalar_part cipher key continuum part = Ok clear"
    by (auto simp: MultipartInbox_ingest_def split: result.splits)
  from assms [unfolded ingest_authenticated [OF this]] show ?thesis
    by (auto simp: Let_def release_complete_def split: if_splits option.splits list.splits result.splits)
qed

end
