(* ===== verification/Durable_Record.thy ===== *)
theory Durable_Record
  imports Wire_Codec
begin

text \<open>
  The local recovery unit of synchronization, \<^verbatim>\<open>apc-sync/src/recovery.rs\<close>: trusted state,
  applied transport cursor and the outbox of already protected publications, with its
  transitions and its strict codec. \<open>record_wf\<close> is the invariant of the private fields; it
  includes the allocation bound every \<^verbatim>\<open>Vec<Vec<u8>>\<close> obeys (24 bytes an element).

  \<^verbatim>\<open>Vec::with_capacity(object_count)\<close> in the decoder panics when the requested size exceeds
  \<open>isize_max\<close> bytes; that branch is the value \<open>Rec_CapacityPanic\<close>.
\<close>

section \<open>Data\<close>

datatype TransportCursor = TransportCursor (cursor_bytes: bytes)

datatype SyncRecoveryError =
    Rec_InvalidMagic
  | Rec_UnsupportedVersion u16
  | Rec_UnexpectedEof
  | Rec_LengthOverflow
  | Rec_TrailingBytes
  | Rec_InvalidBoolean
  | EmptyTransportCursor
  | EmptyOutbox
  | EmptyOutboxObject
  | DuplicatePublication
  | PublicationIdentityCollision
  | UnknownOutboxPublication
  | Rec_CapacityPanic

definition TransportCursor_new :: "bytes \<Rightarrow> (TransportCursor, SyncRecoveryError) result" where
  "TransportCursor_new bs = (if bs = [] then Err EmptyTransportCursor else Ok (TransportCursor bs))"

record DurableOutboxEntry =
  oe_publication_id :: PublicationId
  oe_expected_cursor :: "TransportCursor option"
  oe_objects :: "bytes list"

record DurableSyncRecord =
  trusted_state :: bytes
  applied_cursor :: "TransportCursor option"
  outbox :: "(PublicationId, DurableOutboxEntry) btree_map"

section \<open>Transitions\<close>

definition DurableSyncRecord_new :: "bytes \<Rightarrow> TransportCursor option \<Rightarrow> DurableSyncRecord" where
  "DurableSyncRecord_new st cursor = \<lparr>trusted_state = st, applied_cursor = cursor, outbox = bm_empty\<rparr>"

definition validate_objects :: "bytes list \<Rightarrow> (unit, SyncRecoveryError) result" where
  "validate_objects objects =
     (if objects = [] then Err EmptyOutbox
      else if list_ex (\<lambda>obj. obj = []) objects then Err EmptyOutboxObject
      else Ok ())"

definition DurableSyncRecord_prepare_outbox ::
    "DurableSyncRecord \<Rightarrow> bytes \<Rightarrow> PublicationId \<Rightarrow> TransportCursor option \<Rightarrow> bytes list \<Rightarrow>
     (unit, SyncRecoveryError) result \<times> DurableSyncRecord" where
  "DurableSyncRecord_prepare_outbox rec exposed pub expected objects =
     (case validate_objects objects of
        Err e \<Rightarrow> (Err e, rec)
      | Ok _ \<Rightarrow>
          (let entry = \<lparr>oe_publication_id = pub, oe_expected_cursor = expected, oe_objects = objects\<rparr>
           in case bm_get (outbox rec) pub of
                Some existing \<Rightarrow>
                  if existing = entry then (Ok (), rec\<lparr>trusted_state := exposed\<rparr>)
                  else (Err PublicationIdentityCollision, rec)
              | None \<Rightarrow>
                  (Ok (), rec\<lparr>trusted_state := exposed, outbox := bm_insert pub entry (outbox rec)\<rparr>)))"

definition DurableSyncRecord_apply_received :: "DurableSyncRecord \<Rightarrow> bytes \<Rightarrow> TransportCursor \<Rightarrow> DurableSyncRecord" where
  "DurableSyncRecord_apply_received rec merged cursor =
     rec\<lparr>trusted_state := merged, applied_cursor := Some cursor\<rparr>"

definition DurableSyncRecord_retire_outbox ::
    "DurableSyncRecord \<Rightarrow> PublicationId \<Rightarrow> bytes \<Rightarrow> TransportCursor \<Rightarrow>
     (unit, SyncRecoveryError) result \<times> DurableSyncRecord" where
  "DurableSyncRecord_retire_outbox rec pub reconciled cursor =
     (if \<not> bm_contains_key (outbox rec) pub
      then (Err UnknownOutboxPublication, rec\<lparr>outbox := bm_remove pub (outbox rec)\<rparr>)
      else (Ok (), rec\<lparr>outbox := bm_remove pub (outbox rec), trusted_state := reconciled,
        applied_cursor := Some cursor\<rparr>))"

section \<open>Codec\<close>

definition REC_MAGIC :: bytes where "REC_MAGIC = ascii ''APCSREC1''"
definition REC_VERSION :: u16 where "REC_VERSION = 1"

definition write_optional_cursor :: "bytes \<Rightarrow> TransportCursor option \<Rightarrow> (bytes, SyncRecoveryError) result" where
  "write_optional_cursor out cursor =
     (case cursor of
        Some c \<Rightarrow> write_bytes Rec_LengthOverflow (out @ [1]) (cursor_bytes c)
      | None \<Rightarrow> Ok (out @ [0]))"

definition write_outbox_entry :: "bytes \<Rightarrow> DurableOutboxEntry \<Rightarrow> (bytes, SyncRecoveryError) result" where
  "write_outbox_entry out entry =
     (case write_optional_cursor (out @ opaque_id_as_bytes (oe_publication_id entry)) (oe_expected_cursor entry) of
        Err e \<Rightarrow> Err e
      | Ok out1 \<Rightarrow>
          (case write_len Rec_LengthOverflow out1 (length (oe_objects entry)) of
             Err e \<Rightarrow> Err e
           | Ok out2 \<Rightarrow> try_fold (write_bytes Rec_LengthOverflow) out2 (oe_objects entry)))"

definition encode_durable_sync_record :: "DurableSyncRecord \<Rightarrow> (bytes, SyncRecoveryError) result" where
  "encode_durable_sync_record rec =
     (case write_bytes Rec_LengthOverflow (REC_MAGIC @ to_be_bytes REC_VERSION) (trusted_state rec) of
        Err e \<Rightarrow> Err e
      | Ok out1 \<Rightarrow>
          (case write_optional_cursor out1 (applied_cursor rec) of
             Err e \<Rightarrow> Err e
           | Ok out2 \<Rightarrow>
               (case write_len Rec_LengthOverflow out2 (bm_len (outbox rec)) of
                  Err e \<Rightarrow> Err e
                | Ok out3 \<Rightarrow> try_fold write_outbox_entry out3 (bm_values (outbox rec)))))"

abbreviation "rec_read_exact \<equiv> Reader_read_exact Rec_LengthOverflow Rec_UnexpectedEof"
abbreviation "rec_read_len \<equiv> Reader_read_len Rec_LengthOverflow Rec_UnexpectedEof"
abbreviation "rec_read_bytes \<equiv> Reader_read_vec Rec_LengthOverflow Rec_UnexpectedEof"

definition read_optional_cursor :: "(TransportCursor option, SyncRecoveryError) parser" where
  "read_optional_cursor =
     p_bind (rec_read_exact 1) (\<lambda>bs.
       if bs ! 0 = 0 then p_return None
       else if bs ! 0 = 1 then
         p_bind rec_read_bytes (\<lambda>c. p_bind (p_lift (TransportCursor_new c)) (\<lambda>cursor. p_return (Some cursor)))
       else p_lift (Err Rec_InvalidBoolean))"

definition read_object :: "bytes list \<Rightarrow> (bytes list, SyncRecoveryError) parser" where
  "read_object objects =
     p_bind rec_read_bytes (\<lambda>obj. p_bind (p_guard (obj \<noteq> []) EmptyOutboxObject) (\<lambda>_. p_return (objects @ [obj])))"

text \<open>Elements of a \<^verbatim>\<open>Vec<Vec<u8>>\<close> take 24 bytes on a 64-bit host.\<close>

definition vec_capacity_ok :: "nat \<Rightarrow> bool" where
  "vec_capacity_ok n = (24 * n \<le> isize_max)"

definition read_outbox_entry ::
    "(PublicationId, DurableOutboxEntry) btree_map \<Rightarrow>
     ((PublicationId, DurableOutboxEntry) btree_map, SyncRecoveryError) parser" where
  "read_outbox_entry m =
     p_bind (Reader_read_id Rec_LengthOverflow Rec_UnexpectedEof) (\<lambda>pub.
     p_bind read_optional_cursor (\<lambda>expected.
     p_bind rec_read_len (\<lambda>object_count.
     p_bind (p_guard (object_count \<noteq> 0) EmptyOutbox) (\<lambda>_.
     p_bind (p_guard (vec_capacity_ok object_count) Rec_CapacityPanic) (\<lambda>_.
     p_bind (read_loop object_count read_object []) (\<lambda>objects.
       let entry = \<lparr>oe_publication_id = pub, oe_expected_cursor = expected, oe_objects = objects\<rparr>
       in p_lift (if bm_contains_key m pub then Err DuplicatePublication else Ok (bm_insert pub entry m))))))))"

definition read_durable_sync_record :: "(DurableSyncRecord, SyncRecoveryError) parser" where
  "read_durable_sync_record =
     p_bind (Reader_read_u16 Rec_LengthOverflow Rec_UnexpectedEof) (\<lambda>version.
     p_bind (p_guard (version = REC_VERSION) (Rec_UnsupportedVersion version)) (\<lambda>_.
     p_bind rec_read_bytes (\<lambda>st.
     p_bind read_optional_cursor (\<lambda>cursor.
     p_bind rec_read_len (\<lambda>outbox_len.
     p_bind (read_loop outbox_len read_outbox_entry bm_empty) (\<lambda>entries.
     p_bind p_remaining (\<lambda>remaining.
     p_bind (p_guard (remaining = 0) Rec_TrailingBytes) (\<lambda>_.
       p_return \<lparr>trusted_state = st, applied_cursor = cursor, outbox = entries\<rparr>))))))))"

definition decode_durable_sync_record :: "bytes \<Rightarrow> (DurableSyncRecord, SyncRecoveryError) result" where
  "decode_durable_sync_record encoded =
     (if length encoded < length REC_MAGIC + 2 then Err Rec_UnexpectedEof
      else if take (length REC_MAGIC) encoded \<noteq> REC_MAGIC then Err Rec_InvalidMagic
      else
        (case read_durable_sync_record (Reader_new (drop (length REC_MAGIC) encoded)) of
           Err e \<Rightarrow> Err e
         | Ok (rec, _) \<Rightarrow> Ok rec))"

section \<open>Invariant\<close>

definition cursor_wf :: "TransportCursor option \<Rightarrow> bool" where
  "cursor_wf c \<longleftrightarrow> (\<forall>x. c = Some x \<longrightarrow> cursor_bytes x \<noteq> [])"

definition entry_wf :: "DurableOutboxEntry \<Rightarrow> bool" where
  "entry_wf e \<longleftrightarrow> cursor_wf (oe_expected_cursor e) \<and> oe_objects e \<noteq> [] \<and>
     [] \<notin> set (oe_objects e) \<and> vec_capacity_ok (length (oe_objects e))"

definition record_wf :: "DurableSyncRecord \<Rightarrow> bool" where
  "record_wf rec \<longleftrightarrow> cursor_wf (applied_cursor rec) \<and>
     (\<forall>pub e. bm_get (outbox rec) pub = Some e \<longrightarrow> oe_publication_id e = pub \<and> entry_wf e)"

lemma validate_objects_Ok: "validate_objects objects = Ok () \<longleftrightarrow> objects \<noteq> [] \<and> [] \<notin> set objects"
  by (auto simp: validate_objects_def list_ex_iff)

lemma record_new_wf: "cursor_wf c \<Longrightarrow> record_wf (DurableSyncRecord_new st c)"
  by (simp add: record_wf_def DurableSyncRecord_new_def)

lemma prepare_outbox_cases:
  obtains (refused) e where "DurableSyncRecord_prepare_outbox rec st pub expected objects = (Err e, rec)"
  | (staged) "objects \<noteq> []" "[] \<notin> set objects"
      "bm_get (outbox rec) pub \<in> {None, Some \<lparr>oe_publication_id = pub, oe_expected_cursor = expected, oe_objects = objects\<rparr>}"
      "DurableSyncRecord_prepare_outbox rec st pub expected objects =
        (Ok (), rec\<lparr>trusted_state := st, outbox := bm_insert pub
          \<lparr>oe_publication_id = pub, oe_expected_cursor = expected, oe_objects = objects\<rparr> (outbox rec)\<rparr>)"
proof (cases "validate_objects objects")
  case (Ok u)
  then have obj: "objects \<noteq> []" "[] \<notin> set objects" using validate_objects_Ok by auto
  show ?thesis
  proof (cases "bm_get (outbox rec) pub")
    case None
    then show ?thesis using staged obj Ok by (simp add: DurableSyncRecord_prepare_outbox_def)
  next
    case (Some e)
    show ?thesis
    proof (cases "e = \<lparr>oe_publication_id = pub, oe_expected_cursor = expected, oe_objects = objects\<rparr>")
      case True
      with Some have "rec\<lparr>trusted_state := st, outbox := bm_insert pub
          \<lparr>oe_publication_id = pub, oe_expected_cursor = expected, oe_objects = objects\<rparr> (outbox rec)\<rparr> =
          rec\<lparr>trusted_state := st\<rparr>" by (cases rec) (simp add: bm_insert_same)
      with True Some show ?thesis using staged obj Ok by (simp add: DurableSyncRecord_prepare_outbox_def)
    qed (use refused Some Ok in \<open>simp add: DurableSyncRecord_prepare_outbox_def\<close>)
  qed
qed (use refused in \<open>simp add: DurableSyncRecord_prepare_outbox_def\<close>)

lemma prepare_outbox_wf:
  assumes "record_wf rec" and "cursor_wf expected" and "vec_capacity_ok (length objects)"
  shows "record_wf (snd (DurableSyncRecord_prepare_outbox rec st pub expected objects))"
  using assms by (cases rule: prepare_outbox_cases [of rec st pub expected objects])
    (auto simp: record_wf_def entry_wf_def)

lemma apply_received_wf:
  "record_wf rec \<Longrightarrow> cursor_bytes c \<noteq> [] \<Longrightarrow> record_wf (DurableSyncRecord_apply_received rec st c)"
  by (simp add: record_wf_def DurableSyncRecord_apply_received_def cursor_wf_def)

lemma retire_outbox_wf:
  "record_wf rec \<Longrightarrow> cursor_bytes c \<noteq> [] \<Longrightarrow> record_wf (snd (DurableSyncRecord_retire_outbox rec pub st c))"
  by (auto simp: record_wf_def DurableSyncRecord_retire_outbox_def cursor_wf_def)

section \<open>Reading back what was written\<close>

definition enc_cursor :: "TransportCursor option \<Rightarrow> bytes" where
  "enc_cursor c = (case c of None \<Rightarrow> [0] | Some x \<Rightarrow> [1] @ len_prefix (length (cursor_bytes x)) @ cursor_bytes x)"

definition enc_object :: "bytes \<Rightarrow> bytes" where
  "enc_object obj = len_prefix (length obj) @ obj"

definition enc_entry :: "DurableOutboxEntry \<Rightarrow> bytes" where
  "enc_entry e = opaque_id_as_bytes (oe_publication_id e) @ enc_cursor (oe_expected_cursor e) @
     len_prefix (length (oe_objects e)) @ concat (map enc_object (oe_objects e))"

definition cursor_fits :: "TransportCursor option \<Rightarrow> bool" where
  "cursor_fits c \<longleftrightarrow> (\<forall>x. c = Some x \<longrightarrow> length (cursor_bytes x) < 2 ^ 64)"

definition entry_fits :: "DurableOutboxEntry \<Rightarrow> bool" where
  "entry_fits e \<longleftrightarrow> cursor_fits (oe_expected_cursor e) \<and> length (oe_objects e) < 2 ^ 64 \<and>
     (\<forall>obj \<in> set (oe_objects e). length obj < 2 ^ 64)"

lemma write_optional_cursor_Ok:
  "write_optional_cursor out c = Ok out' \<longleftrightarrow> cursor_fits c \<and> out' = out @ enc_cursor c"
  by (auto simp: write_optional_cursor_def write_bytes_Ok cursor_fits_def enc_cursor_def split: option.splits)

lemma write_outbox_entry_Ok:
  assumes "write_outbox_entry out e = Ok out'"
  shows "entry_fits e \<and> out' = out @ enc_entry e"
proof -
  from assms obtain out2 where c: "cursor_fits (oe_expected_cursor e)" "length (oe_objects e) < 2 ^ 64"
    and out2: "out2 = out @ opaque_id_as_bytes (oe_publication_id e) @ enc_cursor (oe_expected_cursor e) @
      len_prefix (length (oe_objects e))"
    and loop: "try_fold (write_bytes Rec_LengthOverflow) out2 (oe_objects e) = Ok out'"
    unfolding write_outbox_entry_def result_simps by (auto simp: write_optional_cursor_Ok write_len_Ok)
  from try_fold_write [OF loop, of "\<lambda>obj. length obj < 2 ^ 64" enc_object] c out2 show ?thesis
    by (simp add: write_bytes_Ok enc_object_def entry_fits_def enc_entry_def)
qed

lemma encode_record_Ok:
  assumes "encode_durable_sync_record rec = Ok bs"
  shows "length (trusted_state rec) < 2 ^ 64" and "cursor_fits (applied_cursor rec)"
    and "length (bm_values (outbox rec)) < 2 ^ 64" and "e \<in> set (bm_values (outbox rec)) \<Longrightarrow> entry_fits e"
    and "bs = REC_MAGIC @ to_be_bytes REC_VERSION @ (len_prefix (length (trusted_state rec)) @ trusted_state rec) @
      enc_cursor (applied_cursor rec) @ len_prefix (length (bm_values (outbox rec))) @
      concat (map enc_entry (bm_values (outbox rec)))"
proof -
  from assms obtain out where n: "length (trusted_state rec) < 2 ^ 64" "cursor_fits (applied_cursor rec)"
    "length (bm_values (outbox rec)) < 2 ^ 64"
    and out: "out = REC_MAGIC @ to_be_bytes REC_VERSION @ (len_prefix (length (trusted_state rec)) @ trusted_state rec) @
      enc_cursor (applied_cursor rec) @ len_prefix (length (bm_values (outbox rec)))"
    and loop: "try_fold write_outbox_entry out (bm_values (outbox rec)) = Ok bs"
    unfolding encode_durable_sync_record_def result_simps
    by (auto simp: write_optional_cursor_Ok write_len_Ok write_bytes_Ok bm_len_def bm_values_def)
  from try_fold_write [OF loop, of entry_fits enc_entry] write_outbox_entry_Ok n out
  show "length (trusted_state rec) < 2 ^ 64" "cursor_fits (applied_cursor rec)"
    "length (bm_values (outbox rec)) < 2 ^ 64" "e \<in> set (bm_values (outbox rec)) \<Longrightarrow> entry_fits e"
    "bs = REC_MAGIC @ to_be_bytes REC_VERSION @ (len_prefix (length (trusted_state rec)) @ trusted_state rec) @
      enc_cursor (applied_cursor rec) @ len_prefix (length (bm_values (outbox rec))) @
      concat (map enc_entry (bm_values (outbox rec)))"
    by fastforce+
qed

lemma reads_cursor:
  assumes "cursor_fits c" and "cursor_wf c"
  shows "reads read_optional_cursor (enc_cursor c) c"
proof (cases c)
  case None
  have "reads read_optional_cursor [0] None"
    unfolding read_optional_cursor_def by (rule reads_bind_pure [OF reads_exact]) (simp_all add: reads_return)
  with None show ?thesis by (simp add: enc_cursor_def)
next
  case (Some x)
  let ?bs = "cursor_bytes x"
  have vec: "reads rec_read_bytes (len_prefix (length ?bs) @ ?bs) ?bs"
    using assms(1) Some by (intro reads_vec) (simp add: cursor_fits_def)
  have new: "TransportCursor_new ?bs = Ok x" using assms(2) Some by (simp add: TransportCursor_new_def cursor_wf_def)
  have "reads read_optional_cursor ([1] @ len_prefix (length ?bs) @ ?bs) (Some x)"
    unfolding read_optional_cursor_def
    by (rule reads_bind [OF reads_exact], simp, simp,
        rule reads_bind_pure [OF vec], rule reads_pure_bind [OF reads_lift [OF new]], rule reads_return)
  with Some show ?thesis by (simp add: enc_cursor_def)
qed

lemma reads_object: "length obj < 2 ^ 64 \<Longrightarrow> obj \<noteq> [] \<Longrightarrow> reads (read_object acc) (enc_object obj) (acc @ [obj])"
  unfolding read_object_def enc_object_def
  by (intro reads_bind_pure [OF reads_vec] reads_pure_bind [OF reads_guard] reads_return)

lemma reads_entry:
  assumes "entry_fits e" and "entry_wf e" and "oe_publication_id e \<notin> dom (bm_get m)"
  shows "reads (read_outbox_entry m) (enc_entry e) (bm_insert (oe_publication_id e) e m)"
proof -
  have cur: "reads read_optional_cursor (enc_cursor (oe_expected_cursor e)) (oe_expected_cursor e)"
    using assms(1,2) by (intro reads_cursor) (simp_all add: entry_fits_def entry_wf_def)
  have "reads (read_loop (length (oe_objects e)) read_object []) (concat (map enc_object (oe_objects e)))
      (foldl (\<lambda>ys y. ys @ [y]) [] (oe_objects e))"
    using assms(1,2) by (intro reads_loop reads_object) (auto simp: entry_fits_def entry_wf_def)
  then have loop: "reads (read_loop (length (oe_objects e)) read_object []) (concat (map enc_object (oe_objects e))) (oe_objects e)"
    by (simp add: foldl_snoc)
  have "reads (let entry = \<lparr>oe_publication_id = oe_publication_id e, oe_expected_cursor = oe_expected_cursor e,
        oe_objects = oe_objects e\<rparr>
      in p_lift (if bm_contains_key m (oe_publication_id e) then Err DuplicatePublication
        else Ok (bm_insert (oe_publication_id e) entry m))) [] (bm_insert (oe_publication_id e) e m)"
    using assms(3) by (cases e) (auto simp: reads_lift)
  moreover have "length (oe_objects e) < 2 ^ 64" "length (oe_objects e) \<noteq> 0" "vec_capacity_ok (length (oe_objects e))"
    using assms(1,2) by (simp_all add: entry_fits_def entry_wf_def)
  ultimately show ?thesis
    unfolding read_outbox_entry_def enc_entry_def
    by (intro reads_bind [OF reads_id] reads_bind [OF cur] reads_bind [OF reads_len]
        reads_pure_bind [OF reads_guard] reads_bind_pure [OF loop])
qed

lemma reads_entries:
  assumes "\<And>e. e \<in> set (bm_values m) \<Longrightarrow> entry_fits e \<and> entry_wf e"
    and "\<And>pub e. bm_get m pub = Some e \<Longrightarrow> oe_publication_id e = pub"
  shows "reads (read_loop (length (bm_values m)) read_outbox_entry bm_empty) (concat (map enc_entry (bm_values m))) m"
proof -
  let ?ins = "\<lambda>m (e :: DurableOutboxEntry). bm_insert (oe_publication_id e) e m"
  have get: "bm_get (foldl ?ins m0 ys) = bm_get m0 ++ map_of (rev (map (\<lambda>e. (oe_publication_id e, e)) ys))" for m0 ys
    by (induction ys arbitrary: m0) (auto simp: map_add_def fun_eq_iff split: option.splits)
  have "oe_publication_id (snd x) = fst x" if "x \<in> set (bm_entries m)" for x
    using that assms(2) [of "fst x" "snd x"] bm_entries_iff [of "fst x" "snd x" m] by (simp del: bm_entries_iff)
  then have keyed: "map (\<lambda>e. (oe_publication_id e, e)) (bm_values m) = bm_entries m"
    by (simp add: bm_values_def comp_def map_idI)
  have dist: "distinct (map fst (bm_entries m))" using bm_keys_distinct [of m] by (simp add: bm_keys_def)
  have "reads (read_loop (length (bm_values m)) read_outbox_entry bm_empty) (concat (map enc_entry (bm_values m)))
      (foldl ?ins bm_empty (bm_values m))"
  proof (rule reads_loop)
    fix ys e zs assume split: "bm_values m = ys @ e # zs"
    then have "bm_entries m = map (\<lambda>e. (oe_publication_id e, e)) ys @ (oe_publication_id e, e) # map (\<lambda>e. (oe_publication_id e, e)) zs"
      using keyed by simp
    with dist have "oe_publication_id e \<notin> oe_publication_id ` set ys" by auto
    then have "map_of (rev (map (\<lambda>e. (oe_publication_id e, e)) ys)) (oe_publication_id e) = None"
      by (auto simp: map_of_eq_None_iff image_iff)
    then have "oe_publication_id e \<notin> dom (bm_get (foldl ?ins bm_empty ys))"
      by (simp add: get map_add_def domIff)
    moreover have "entry_fits e" "entry_wf e" using assms(1) [of e] split by auto
    ultimately show "reads (read_outbox_entry (foldl ?ins bm_empty ys)) (enc_entry e) (?ins (foldl ?ins bm_empty ys) e)"
      by (intro reads_entry)
  qed
  moreover have "foldl ?ins bm_empty (bm_values m) = m"
  proof (rule bm_eqI)
    fix k
    have "map_of (rev (bm_entries m)) = map_of (bm_entries m)" using dist by (rule map_of_rev_distinct)
    then show "bm_get (foldl ?ins bm_empty (bm_values m)) k = bm_get m k"
      by (simp add: get keyed map_add_def bm_get_conv_map_of [of m] split: option.splits)
  qed
  ultimately show ?thesis by simp
qed

lemma rec_magic_length [simp]: "length REC_MAGIC = 8"
  by (simp add: REC_MAGIC_def)

lemma decode_encode_record:
  assumes "encode_durable_sync_record rec = Ok bs" and "record_wf rec" and "length bs \<le> isize_max"
  shows "decode_durable_sync_record bs = Ok rec"
proof -
  note enc = encode_record_Ok [OF assms(1)]
  have cur: "reads read_optional_cursor (enc_cursor (applied_cursor rec)) (applied_cursor rec)"
    using enc(2) assms(2) by (intro reads_cursor) (simp_all add: record_wf_def)
  have loop: "reads (read_loop (length (bm_values (outbox rec))) read_outbox_entry bm_empty)
      (concat (map enc_entry (bm_values (outbox rec)))) (outbox rec)"
    using enc(4) assms(2) by (intro reads_entries) (auto simp: record_wf_def set_bm_values ran_def)
  have fin: "reads_end (p_return \<lparr>trusted_state = trusted_state rec, applied_cursor = applied_cursor rec,
      outbox = outbox rec\<rparr> :: (_, SyncRecoveryError) parser) [] rec"
    by (rule reads_imp_reads_end) (cases rec, simp add: reads_return)
  have tail: "reads_end (p_bind p_remaining (\<lambda>remaining. p_bind (p_guard (remaining = 0) Rec_TrailingBytes)
      (\<lambda>_. p_return \<lparr>trusted_state = trusted_state rec, applied_cursor = applied_cursor rec, outbox = outbox rec\<rparr>)))
      [] rec"
    by (rule reads_end_remaining, rule reads_end_pure_bind [OF reads_guard]) (simp, rule fin)
  have "reads_end read_durable_sync_record (to_be_bytes REC_VERSION @
      (len_prefix (length (trusted_state rec)) @ trusted_state rec) @ enc_cursor (applied_cursor rec) @
      len_prefix (length (bm_values (outbox rec))) @ concat (map enc_entry (bm_values (outbox rec))) @ []) rec"
    unfolding read_durable_sync_record_def
    by (intro reads_end_bind [OF reads_u16] reads_end_pure_bind [OF reads_guard] reads_end_bind [OF reads_vec]
        reads_end_bind [OF cur] reads_end_bind [OF reads_len] reads_end_bind [OF loop] enc(1,3) tail refl)
  then have "read_durable_sync_record (Reader_new (drop 8 bs)) =
      Ok (rec, \<lparr>rd_bytes = drop 8 bs, rd_position = length (drop 8 bs)\<rparr>)"
    using enc(5) assms(3) by (intro reads_end_new) simp_all
  then show ?thesis using enc(5) by (simp add: decode_durable_sync_record_def)
qed

lemma read_object_Ok:
  "read_object objs r = Ok (objs', r') \<longleftrightarrow>
     (\<exists>obj. rec_read_bytes r = Ok (obj, r') \<and> obj \<noteq> [] \<and> objs' = objs @ [obj])"
  by (auto simp: read_object_def p_bind_Ok)

lemma decode_record_wf:
  assumes "decode_durable_sync_record bs = Ok rec"
  shows "record_wf rec"
proof -
  have cursor: "cursor_wf c" if "read_optional_cursor r = Ok (c, r')" for c r r'
    using that by (auto simp: read_optional_cursor_def p_bind_Ok cursor_wf_def TransportCursor_new_def split: if_splits)
  have objects: "[] \<notin> set os' \<and> length os' = length os + n"
    if "read_loop n read_object os r = Ok (os', r')" and "[] \<notin> set os" for n os os' r r'
    using that
  proof (induction n arbitrary: os r)
    case (Suc n)
    then obtain obj r1 where "obj \<noteq> []" "read_loop n read_object (os @ [obj]) r1 = Ok (os', r')"
      by (auto simp: p_bind_Ok read_object_Ok)
    with Suc.IH [of "os @ [obj]" r1] Suc.prems(2) show ?case by auto
  qed simp
  let ?P = "\<lambda>m. \<forall>pub e. bm_get m pub = Some e \<longrightarrow> oe_publication_id e = pub \<and> entry_wf e"
  have step: "?P m'" if P: "?P m" and run: "read_outbox_entry m r = Ok (m', r')" for m m' r r'
  proof -
    from run obtain pub c n objs r1 r2 r3 r4 where parts: "read_optional_cursor r1 = Ok (c, r2)" "n \<noteq> 0" "vec_capacity_ok n"
      "read_loop n read_object [] r3 = Ok (objs, r4)"
      "m' = bm_insert pub \<lparr>oe_publication_id = pub, oe_expected_cursor = c, oe_objects = objs\<rparr> m"
      unfolding read_outbox_entry_def p_bind_Ok Let_def p_lift_Ok guard_Ok p_guard_Ok by blast
    with cursor [OF parts(1)] objects [OF parts(4)] P show ?thesis by (auto simp: entry_wf_def)
  qed
  from assms obtain c n m r1 r2 r3 r4 where run: "read_optional_cursor r1 = Ok (c, r2)"
    "read_loop n read_outbox_entry bm_empty r3 = Ok (m, r4)" "applied_cursor rec = c" "outbox rec = m"
    by (auto simp: decode_durable_sync_record_def read_durable_sync_record_def p_bind_Ok split: if_splits result.splits)
  have "?P m" using run(2) by (rule read_loop_invariant) (simp, rule step)
  with run cursor [OF run(1)] show ?thesis by (simp add: record_wf_def)
qed

section \<open>Properties\<close>

text \<open>
  C36. Recovery reads back what was committed: a well-formed record decodes from its encoding to
  itself, outbox bytes, cursors and trusted state included.
\<close>

theorem durable_record_roundtrip:
  assumes "encode_durable_sync_record rec = Ok bs" and "record_wf rec" and "length bs \<le> isize_max"
  shows "decode_durable_sync_record bs = Ok rec"
  using assms by (rule decode_encode_record)

definition sample_record :: DurableSyncRecord where
  "sample_record = snd (DurableSyncRecord_prepare_outbox (DurableSyncRecord_new [1] None) [2] (OpaqueId 4)
     (Some (TransportCursor [7])) [[8, 9], [10]])"

lemma sample_record_eq:
  "sample_record = \<lparr>trusted_state = [2], applied_cursor = None, outbox = bm_insert (OpaqueId 4)
     \<lparr>oe_publication_id = OpaqueId 4, oe_expected_cursor = Some (TransportCursor [7]), oe_objects = [[8, 9], [10]]\<rparr> bm_empty\<rparr>"
  by (simp add: sample_record_def DurableSyncRecord_prepare_outbox_def DurableSyncRecord_new_def validate_objects_def)

lemma sample_record_wf: "record_wf sample_record"
  unfolding sample_record_def
  by (rule prepare_outbox_wf) (simp_all add: record_new_wf cursor_wf_def vec_capacity_ok_def isize_max_def)

lemma sample_record_encodes:
  "\<exists>bs. encode_durable_sync_record sample_record = Ok bs \<and> length bs = 97"
  by (simp add: encode_durable_sync_record_def sample_record_eq write_bytes_def write_len_def
      write_optional_cursor_def bm_len_def bm_values_def bm_entries_single write_outbox_entry_def)

theorem durable_record_roundtrip_witness:
  "\<exists>bs. encode_durable_sync_record sample_record = Ok bs \<and> decode_durable_sync_record bs = Ok sample_record"
  using sample_record_encodes durable_record_roundtrip [OF _ sample_record_wf] by (auto simp: isize_max_def)

text \<open>
  C37. The record invariant: the transitions keep every publication under its own identity with
  non-empty objects, whatever their outcome, and the decoder only ever yields such records.
\<close>

theorem durable_record_invariant:
  assumes "record_wf rec" and "cursor_bytes c \<noteq> []" and "cursor_wf expected" and "vec_capacity_ok (length objects)"
  shows "record_wf (snd (DurableSyncRecord_prepare_outbox rec st pub expected objects)) \<and>
    record_wf (DurableSyncRecord_apply_received rec st c) \<and>
    record_wf (snd (DurableSyncRecord_retire_outbox rec pub st c)) \<and>
    (\<forall>bs rec'. decode_durable_sync_record bs = Ok rec' \<longrightarrow> record_wf rec')"
  using prepare_outbox_wf [OF assms(1,3,4)] apply_received_wf [OF assms(1,2)] retire_outbox_wf [OF assms(1,2)]
    decode_record_wf by blast

theorem durable_record_invariant_witness:
  "record_wf (snd (DurableSyncRecord_retire_outbox sample_record (OpaqueId 4) [3] (TransportCursor [7])))"
proof -
  have "cursor_bytes (TransportCursor [7]) \<noteq> []" "cursor_wf None" "vec_capacity_ok (length [[1 :: u8]])"
    by (simp_all add: cursor_wf_def vec_capacity_ok_def isize_max_def)
  from durable_record_invariant [OF sample_record_wf this] show ?thesis by blast
qed

end
