(* ===== verification/Sync_Session.thy ===== *)
theory Sync_Session
  imports Durable_Record
begin

text \<open>
  The durable synchronization session of \<^verbatim>\<open>apc-sync/src/session.rs\<close>, \<^verbatim>\<open>batch.rs\<close> and
  \<^verbatim>\<open>rebase.rs\<close> over the transport boundary of \<^verbatim>\<open>transport.rs\<close>. The traits are interfaces:
  a record store is its \<^verbatim>\<open>persist\<close> function over a store state, a cursor codec and a transport
  are records of functions over their states. The laws a client relies on are the locales
  \<open>sync_record_store\<close> and \<open>cursor_codec\<close>.
\<close>

section \<open>Interfaces\<close>

datatype 'r FetchOutcome =
    UpToDate "'r option"
  | Changed 'r "bytes list"
  | BaselineUnavailable "'r option"

datatype 'r PublishOutcome =
    Published 'r
  | Conflict "'r option"

record ('t, 'r, 'e) OpaqueTransport =
  tr_head :: "'t \<Rightarrow> ('r option, 'e) result \<times> 't"
  tr_fetch_since :: "'t \<Rightarrow> 'r option \<Rightarrow> ('r FetchOutcome, 'e) result \<times> 't"
  tr_publish :: "'t \<Rightarrow> 'r option \<Rightarrow> bytes list \<Rightarrow> ('r PublishOutcome, 'e) result \<times> 't"

record ('r, 'e) TransportCursorCodec =
  cc_encode :: "'r \<Rightarrow> (TransportCursor, 'e) result"
  cc_decode :: "TransportCursor \<Rightarrow> ('r, 'e) result"

type_synonym ('st, 'e) persist_fn = "'st \<Rightarrow> DurableSyncRecord \<Rightarrow> (unit, 'e) result \<times> 'st"

datatype 'e PersistTransitionError =
    PT_Recovery SyncRecoveryError
  | PT_Store 'e

datatype ('te, 'ce) SessionIoError =
    Io_Recovery SyncRecoveryError
  | Io_Transport 'te
  | Io_Cursor 'ce

datatype ('se, 'ce) SessionCommitError =
    Commit_Recovery SyncRecoveryError
  | Commit_Store 'se
  | Commit_Cursor 'ce

section \<open>Single-publication session\<close>

text \<open>\<^verbatim>\<open>cursor.map(|c| codec.decode(c)).transpose()\<close>\<close>

definition decode_cursor :: "('r, 'ce) TransportCursorCodec \<Rightarrow> TransportCursor option \<Rightarrow> ('r option, 'ce) result" where
  "decode_cursor codec c =
     (case c of
        None \<Rightarrow> Ok None
      | Some cursor \<Rightarrow> (case cc_decode codec cursor of Err e \<Rightarrow> Err e | Ok r \<Rightarrow> Ok (Some r)))"

text \<open>The closing lines \<^verbatim>\<open>store.persist(&next)?; *record = next\<close> of every commit.\<close>

definition persist_and_swap ::
    "('st, 'se) persist_fn \<Rightarrow> ('se \<Rightarrow> 'e) \<Rightarrow> DurableSyncRecord \<Rightarrow> 'st \<Rightarrow> DurableSyncRecord \<Rightarrow>
     (unit, 'e) result \<times> DurableSyncRecord \<times> 'st" where
  "persist_and_swap persist err rec store nxt =
     (case persist store nxt of
        (Err e, store') \<Rightarrow> (Err (err e), rec, store')
      | (Ok _, store') \<Rightarrow> (Ok (), nxt, store'))"

definition stage_outbound ::
    "('st, 'se) persist_fn \<Rightarrow> DurableSyncRecord \<Rightarrow> 'st \<Rightarrow> bytes \<Rightarrow> PublicationId \<Rightarrow> bytes list \<Rightarrow>
     (unit, 'se PersistTransitionError) result \<times> DurableSyncRecord \<times> 'st" where
  "stage_outbound persist rec store exposed pub objects =
     (case DurableSyncRecord_prepare_outbox rec exposed pub (applied_cursor rec) objects of
        (Err e, _) \<Rightarrow> (Err (PT_Recovery e), rec, store)
      | (Ok _, nxt) \<Rightarrow> persist_and_swap persist PT_Store rec store nxt)"

definition publish_staged ::
    "('t, 'r, 'te) OpaqueTransport \<Rightarrow> ('r, 'ce) TransportCursorCodec \<Rightarrow> DurableSyncRecord \<Rightarrow> PublicationId \<Rightarrow> 't \<Rightarrow>
     ('r PublishOutcome, ('te, 'ce) SessionIoError) result \<times> 't" where
  "publish_staged tr codec rec pub t =
     (case bm_get (outbox rec) pub of
        None \<Rightarrow> (Err (Io_Recovery UnknownOutboxPublication), t)
      | Some entry \<Rightarrow>
          (case decode_cursor codec (oe_expected_cursor entry) of
             Err e \<Rightarrow> (Err (Io_Cursor e), t)
           | Ok expected \<Rightarrow>
               (case tr_publish tr t expected (oe_objects entry) of
                  (res, t') \<Rightarrow> (map_err Io_Transport res, t'))))"

definition fetch_from_durable_cursor ::
    "('t, 'r, 'te) OpaqueTransport \<Rightarrow> ('r, 'ce) TransportCursorCodec \<Rightarrow> DurableSyncRecord \<Rightarrow> 't \<Rightarrow>
     ('r FetchOutcome, ('te, 'ce) SessionIoError) result \<times> 't" where
  "fetch_from_durable_cursor tr codec rec t =
     (case decode_cursor codec (applied_cursor rec) of
        Err e \<Rightarrow> (Err (Io_Cursor e), t)
      | Ok known \<Rightarrow>
          (case tr_fetch_since tr t known of (res, t') \<Rightarrow> (map_err Io_Transport res, t')))"

definition commit_received ::
    "('st, 'se) persist_fn \<Rightarrow> ('r, 'ce) TransportCursorCodec \<Rightarrow> DurableSyncRecord \<Rightarrow> 'st \<Rightarrow> bytes \<Rightarrow> 'r \<Rightarrow>
     (unit, ('se, 'ce) SessionCommitError) result \<times> DurableSyncRecord \<times> 'st" where
  "commit_received persist codec rec store merged new_head =
     (case cc_encode codec new_head of
        Err e \<Rightarrow> (Err (Commit_Cursor e), rec, store)
      | Ok cursor \<Rightarrow>
          persist_and_swap persist Commit_Store rec store (DurableSyncRecord_apply_received rec merged cursor))"

definition commit_reconciled_outbox ::
    "('st, 'se) persist_fn \<Rightarrow> ('r, 'ce) TransportCursorCodec \<Rightarrow> DurableSyncRecord \<Rightarrow> 'st \<Rightarrow> PublicationId \<Rightarrow> bytes \<Rightarrow> 'r \<Rightarrow>
     (unit, ('se, 'ce) SessionCommitError) result \<times> DurableSyncRecord \<times> 'st" where
  "commit_reconciled_outbox persist codec rec store pub reconciled new_head =
     (case cc_encode codec new_head of
        Err e \<Rightarrow> (Err (Commit_Cursor e), rec, store)
      | Ok cursor \<Rightarrow>
          (case DurableSyncRecord_retire_outbox rec pub reconciled cursor of
             (Err e, _) \<Rightarrow> (Err (Commit_Recovery e), rec, store)
           | (Ok _, nxt) \<Rightarrow> persist_and_swap persist Commit_Store rec store nxt))"

section \<open>Sets of publications\<close>

datatype ('te, 'ce) BatchPublishError =
    Batch_EmptyBatch
  | Batch_Recovery SyncRecoveryError
  | Batch_MixedExpectedCursor
  | Batch_Cursor 'ce
  | Batch_Transport 'te

datatype ('se, 'ce) BatchCommitError =
    BC_EmptyBatch
  | BC_Recovery SyncRecoveryError
  | BC_Cursor 'ce
  | BC_Store 'se

text \<open>One round of the selection loop: the common expected cursor and the objects so far.\<close>

definition select_publication ::
    "DurableSyncRecord \<Rightarrow> TransportCursor option option \<times> bytes list \<Rightarrow> PublicationId \<Rightarrow>
     (TransportCursor option option \<times> bytes list, ('te, 'ce) BatchPublishError) result" where
  "select_publication rec st pub =
     (case st of (common, objects) \<Rightarrow>
        (case bm_get (outbox rec) pub of
           None \<Rightarrow> Err (Batch_Recovery UnknownOutboxPublication)
         | Some entry \<Rightarrow>
             (case common of
                None \<Rightarrow> Ok (Some (oe_expected_cursor entry), objects @ oe_objects entry)
              | Some expected \<Rightarrow>
                  if expected \<noteq> oe_expected_cursor entry then Err Batch_MixedExpectedCursor
                  else Ok (common, objects @ oe_objects entry))))"

text \<open>The \<^verbatim>\<open>expect\<close> on the cursor class cannot fail on a non-empty set; its branch here is the
  empty-batch error, which the guard above it has already returned.\<close>

definition publish_staged_batch ::
    "('t, 'r, 'te) OpaqueTransport \<Rightarrow> ('r, 'ce) TransportCursorCodec \<Rightarrow> DurableSyncRecord \<Rightarrow> PublicationId list \<Rightarrow> 't \<Rightarrow>
     ('r PublishOutcome, ('te, 'ce) BatchPublishError) result \<times> 't" where
  "publish_staged_batch tr codec rec pubs t =
     (let publication_ids = bs_from_list pubs
      in if bm_is_empty publication_ids then (Err Batch_EmptyBatch, t)
         else
           (case try_fold (select_publication rec) (None, []) (bs_iter publication_ids) of
              Err e \<Rightarrow> (Err e, t)
            | Ok (None, _) \<Rightarrow> (Err Batch_EmptyBatch, t)
            | Ok (Some expected_cursor, objects) \<Rightarrow>
                (case decode_cursor codec expected_cursor of
                   Err e \<Rightarrow> (Err (Batch_Cursor e), t)
                 | Ok expected \<Rightarrow>
                     (case tr_publish tr t expected objects of
                        (res, t') \<Rightarrow> (map_err Batch_Transport res, t')))))"

definition commit_reconciled_outbox_batch ::
    "('st, 'se) persist_fn \<Rightarrow> ('r, 'ce) TransportCursorCodec \<Rightarrow> DurableSyncRecord \<Rightarrow> 'st \<Rightarrow> PublicationId list \<Rightarrow> bytes \<Rightarrow> 'r \<Rightarrow>
     (unit, ('se, 'ce) BatchCommitError) result \<times> DurableSyncRecord \<times> 'st" where
  "commit_reconciled_outbox_batch persist codec rec store pubs reconciled new_head =
     (let publication_ids = bs_from_list pubs
      in if bm_is_empty publication_ids then (Err BC_EmptyBatch, rec, store)
         else
           (case cc_encode codec new_head of
              Err e \<Rightarrow> (Err (BC_Cursor e), rec, store)
            | Ok cursor \<Rightarrow>
                (case try_each (\<lambda>nxt pub. DurableSyncRecord_retire_outbox nxt pub reconciled cursor) rec
                        (bs_iter publication_ids) of
                   (Err e, _) \<Rightarrow> (Err (BC_Recovery e), rec, store)
                 | (Ok _, nxt) \<Rightarrow> persist_and_swap persist BC_Store rec store nxt)))"

section \<open>Rebase\<close>

record OutboxRebase =
  stale_publication_id :: PublicationId
  rebased_trusted_state :: bytes
  new_publication_id :: PublicationId
  new_protected_objects :: "bytes list"

definition commit_rebased_outbox ::
    "('st, 'se) persist_fn \<Rightarrow> ('r, 'ce) TransportCursorCodec \<Rightarrow> DurableSyncRecord \<Rightarrow> 'st \<Rightarrow> OutboxRebase \<Rightarrow> 'r \<Rightarrow>
     (unit, ('se, 'ce) SessionCommitError) result \<times> DurableSyncRecord \<times> 'st" where
  "commit_rebased_outbox persist codec rec store rebase new_head =
     (if stale_publication_id rebase = new_publication_id rebase
      then (Err (Commit_Recovery PublicationIdentityCollision), rec, store)
      else
        (case cc_encode codec new_head of
           Err e \<Rightarrow> (Err (Commit_Cursor e), rec, store)
         | Ok cursor \<Rightarrow>
             (case DurableSyncRecord_retire_outbox rec (stale_publication_id rebase)
                     (rebased_trusted_state rebase) cursor of
                (Err e, _) \<Rightarrow> (Err (Commit_Recovery e), rec, store)
              | (Ok _, nxt) \<Rightarrow>
                  (case DurableSyncRecord_prepare_outbox nxt (rebased_trusted_state rebase)
                          (new_publication_id rebase) (Some cursor) (new_protected_objects rebase) of
                     (Err e, _) \<Rightarrow> (Err (Commit_Recovery e), rec, store)
                   | (Ok _, nxt') \<Rightarrow> persist_and_swap persist Commit_Store rec store nxt'))))"

section \<open>What each commit does to the record\<close>

lemma persist_and_swap_Ok:
  "persist_and_swap persist err rec store nxt = (Ok (), rec', store') \<longleftrightarrow>
     persist store nxt = (Ok (), store') \<and> rec' = nxt"
  by (auto simp: persist_and_swap_def split: prod.splits result.splits)

lemma persist_and_swap_Err:
  "persist_and_swap persist err rec store nxt = (Err e, rec', store') \<Longrightarrow>
     rec' = rec \<and> (\<exists>e'. persist store nxt = (Err e', store'))"
  by (auto simp: persist_and_swap_def split: prod.splits result.splits)

lemma retire_Ok:
  "DurableSyncRecord_retire_outbox rec pub st c = (Ok (), rec') \<longleftrightarrow>
     pub \<in> dom (bm_get (outbox rec)) \<and>
     rec' = \<lparr>trusted_state = st, applied_cursor = Some c, outbox = bm_remove pub (outbox rec)\<rparr>"
  by (cases rec) (auto simp: DurableSyncRecord_retire_outbox_def)

lemma prepare_Ok:
  assumes "DurableSyncRecord_prepare_outbox rec st pub expected objects = (Ok (), rec')"
  shows "trusted_state rec' = st" and "applied_cursor rec' = applied_cursor rec"
    and "bm_get (outbox rec') = (bm_get (outbox rec))(pub \<mapsto>
      \<lparr>oe_publication_id = pub, oe_expected_cursor = expected, oe_objects = objects\<rparr>)"
    and "objects \<noteq> [] \<and> [] \<notin> set objects"
    and "bm_get (outbox rec) pub \<in> {None, Some \<lparr>oe_publication_id = pub, oe_expected_cursor = expected, oe_objects = objects\<rparr>}"
proof -
  let ?e = "\<lparr>oe_publication_id = pub, oe_expected_cursor = expected, oe_objects = objects\<rparr>"
  obtain "objects \<noteq> []" "[] \<notin> set objects" and known: "bm_get (outbox rec) pub \<in> {None, Some ?e}"
    and r: "rec' = rec\<lparr>trusted_state := st, outbox := bm_insert pub ?e (outbox rec)\<rparr>"
    by (cases rule: prepare_outbox_cases [of rec st pub expected objects]) (use assms in simp_all)
  then show "objects \<noteq> [] \<and> [] \<notin> set objects" by blast
  show "bm_get (outbox rec) pub \<in> {None, Some ?e}" by (rule known)
  show "trusted_state rec' = st" "applied_cursor rec' = applied_cursor rec"
    "bm_get (outbox rec') = (bm_get (outbox rec))(pub \<mapsto> ?e)" unfolding r by simp_all
qed

text \<open>Retiring a set one by one retires exactly that set.\<close>

lemma retire_all_Ok:
  assumes "distinct pubs" and "pubs \<noteq> []"
  shows "try_each (\<lambda>nxt pub. DurableSyncRecord_retire_outbox nxt pub st c) rec pubs = (Ok (), rec') \<longleftrightarrow>
    set pubs \<subseteq> dom (bm_get (outbox rec)) \<and> trusted_state rec' = st \<and> applied_cursor rec' = Some c \<and>
    bm_get (outbox rec') = (\<lambda>k. if k \<in> set pubs then None else bm_get (outbox rec) k)"
  using assms
proof (induction pubs arbitrary: rec)
  case (Cons p ps)
  show ?case
  proof (cases "p \<in> dom (bm_get (outbox rec))")
    case False
    then show ?thesis by (auto simp: DurableSyncRecord_retire_outbox_def)
  next
    case True
    let ?r = "\<lparr>trusted_state = st, applied_cursor = Some c, outbox = bm_remove p (outbox rec)\<rparr>"
    have step: "DurableSyncRecord_retire_outbox rec p st c = (Ok (), ?r)" using True by (simp add: retire_Ok)
    show ?thesis
    proof (cases "ps = []")
      case nil: True
      then show ?thesis using step True
        by (cases rec') (auto simp: bm_eq_iff fun_eq_iff)
    next
      case False
      have "distinct ps" "p \<notin> set ps" using Cons.prems by simp_all
      then have eqs: "set ps \<subseteq> dom (bm_get (bm_remove p (outbox rec))) \<longleftrightarrow> set (p # ps) \<subseteq> dom (bm_get (outbox rec))"
        "(\<lambda>k. if k \<in> set ps then None else bm_get (bm_remove p (outbox rec)) k) =
          (\<lambda>k. if k \<in> set (p # ps) then None else bm_get (outbox rec) k)"
        using True by auto
      have unroll: "try_each (\<lambda>nxt pub. DurableSyncRecord_retire_outbox nxt pub st c) rec (p # ps) =
          try_each (\<lambda>nxt pub. DurableSyncRecord_retire_outbox nxt pub st c) ?r ps" using step by simp
      show ?thesis
        unfolding unroll Cons.IH [OF \<open>distinct ps\<close> False, of ?r] DurableSyncRecord.select_convs eqs by (rule refl)
    qed
  qed
qed simp

text \<open>How the two reconciling commits can end.\<close>

lemma commit_reconciled_batch_cases:
  assumes "commit_reconciled_outbox_batch persist codec rec st pubs merged head = (res, rec', st')"
  obtains (accepted) c where "res = Ok ()" and "pubs \<noteq> []" and "set pubs \<subseteq> dom (bm_get (outbox rec))"
      and "bm_get (outbox rec') = (\<lambda>k. if k \<in> set pubs then None else bm_get (outbox rec) k)"
      and "trusted_state rec' = merged" and "cc_encode codec head = Ok c" and "applied_cursor rec' = Some c"
      and "persist st rec' = (Ok (), st')"
  | (refused) e where "res = Err e" and "rec' = rec"
proof (cases res)
  case (Err e)
  with assms refused show ?thesis
    by (auto simp: commit_reconciled_outbox_batch_def Let_def dest: persist_and_swap_Err
        split: if_splits result.splits prod.splits)
next
  case (Ok u)
  with assms obtain c where ne: "bs_set (bs_from_list pubs) \<noteq> {}" and c: "cc_encode codec head = Ok c"
    and loop: "try_each (\<lambda>nxt pub. DurableSyncRecord_retire_outbox nxt pub merged c) rec (bs_iter (bs_from_list pubs)) = (Ok (), rec')"
    and stored: "persist st rec' = (Ok (), st')"
    by (auto simp: commit_reconciled_outbox_batch_def persist_and_swap_Ok bs_is_empty_iff Let_def
        simp del: bm_is_empty_iff split: prod.splits result.splits if_splits)
  have "bs_iter (bs_from_list pubs) \<noteq> []" using ne by simp
  from loop [unfolded retire_all_Ok [OF distinct_bs_iter this]] ne c stored Ok accepted [of c] show ?thesis by auto
qed

lemma commit_reconciled_cases:
  assumes "commit_reconciled_outbox persist codec rec st pub merged head = (res, rec', st')"
  obtains (accepted) c where "res = Ok ()" and "pub \<in> dom (bm_get (outbox rec))" and "outbox rec' = bm_remove pub (outbox rec)"
      and "trusted_state rec' = merged" and "cc_encode codec head = Ok c" and "applied_cursor rec' = Some c"
      and "persist st rec' = (Ok (), st')"
  | (refused) e where "res = Err e" and "rec' = rec"
proof (cases res)
  case (Err e)
  with assms refused show ?thesis
    by (auto simp: commit_reconciled_outbox_def dest: persist_and_swap_Err split: result.splits prod.splits)
next
  case (Ok u)
  with assms accepted show ?thesis
    by (auto simp: commit_reconciled_outbox_def persist_and_swap_Ok retire_Ok split: result.splits prod.splits)
qed

section \<open>Contracts\<close>

text \<open>What a session relies on of a store: \<open>recoverable\<close> is what a restart may find. A \<^verbatim>\<open>persist\<close>
  that returns success has made exactly this record recoverable; one that fails has left what was
  recoverable before or this record, never anything else.\<close>

locale sync_record_store =
  fixes persist :: "('st, 'se) persist_fn"
    and recoverable :: "'st \<Rightarrow> (DurableSyncRecord option, 'se) result set"
    and usable :: "'st \<Rightarrow> bool"
    and storable :: "DurableSyncRecord \<Rightarrow> bool"
  assumes persist_Ok: "usable st \<Longrightarrow> storable rec \<Longrightarrow> persist st rec = (Ok (), st') \<Longrightarrow>
      usable st' \<and> recoverable st' = {Ok (Some rec)}"
    and persist_Err: "usable st \<Longrightarrow> storable rec \<Longrightarrow> persist st rec = (Err e, st') \<Longrightarrow>
      usable st' \<and> recoverable st' \<subseteq> insert (Ok (Some rec)) (recoverable st)"
begin

text \<open>Whatever a commit that clones, persists and swaps returns, a restart finds the record in
  memory or, when the write itself failed, the one that was being written.\<close>

lemma swap_paired:
  assumes "usable st" and "storable nxt" and "recoverable st = {Ok (Some rec)}"
    and "persist_and_swap persist err rec st nxt = (res, rec', st')"
  shows "usable st'" and "res = Ok () \<Longrightarrow> rec' = nxt \<and> recoverable st' = {Ok (Some rec')}"
    and "res \<noteq> Ok () \<Longrightarrow> rec' = rec \<and> recoverable st' \<subseteq> {Ok (Some rec), Ok (Some nxt)}"
proof -
  obtain r s1 where p: "persist st nxt = (r, s1)" by fastforce
  have "usable st' \<and> (res = Ok () \<longrightarrow> rec' = nxt \<and> recoverable st' = {Ok (Some rec')}) \<and>
      (res \<noteq> Ok () \<longrightarrow> rec' = rec \<and> recoverable st' \<subseteq> {Ok (Some rec), Ok (Some nxt)})"
  proof (cases r)
    case (Ok u)
    with persist_Ok [OF assms(1,2), of s1] assms(4) p show ?thesis by (auto simp: persist_and_swap_def)
  next
    case (Err e)
    with persist_Err [OF assms(1,2), of e s1] assms(3,4) p show ?thesis by (auto simp: persist_and_swap_def)
  qed
  then show "usable st'" "res = Ok () \<Longrightarrow> rec' = nxt \<and> recoverable st' = {Ok (Some rec')}"
    "res \<noteq> Ok () \<Longrightarrow> rec' = rec \<and> recoverable st' \<subseteq> {Ok (Some rec), Ok (Some nxt)}" by blast+
qed

end

text \<open>What a session relies on of a cursor codec: decoding inverts encoding.\<close>

locale cursor_codec =
  fixes codec :: "('r, 'ce) TransportCursorCodec"
    and revision_wf :: "'r \<Rightarrow> bool"
  assumes decode_encode: "revision_wf r \<Longrightarrow> cc_encode codec r = Ok c \<Longrightarrow> cc_decode codec c = Ok r"
    and encode_wf: "revision_wf r \<Longrightarrow> cc_encode codec r = Ok c \<Longrightarrow> cursor_bytes c \<noteq> []"
begin

text \<open>After a received head was committed, the next fetch asks for what came after that head.\<close>

lemma fetch_after_commit:
  assumes "revision_wf head" and "commit_received persist codec rec st merged head = (Ok (), rec', st')"
  shows "fetch_from_durable_cursor tr codec rec' t =
    (case tr_fetch_since tr t (Some head) of (res, t') \<Rightarrow> (map_err Io_Transport res, t'))"
proof -
  from assms(2) obtain c where "cc_encode codec head = Ok c" "rec' = DurableSyncRecord_apply_received rec merged c"
    by (auto simp: commit_received_def persist_and_swap_Ok split: result.splits)
  with decode_encode [OF assms(1)] show ?thesis
    by (simp add: fetch_from_durable_cursor_def decode_cursor_def DurableSyncRecord_apply_received_def)
qed

text \<open>A publication staged on that record is offered against that head, with its durable bytes.\<close>

lemma publish_after_stage:
  assumes "revision_wf head" and "commit_received persist codec rec st merged head = (Ok (), rec1, st1)"
    and "stage_outbound persist rec1 st1 exposed pub objects = (Ok (), rec2, st2)"
  shows "publish_staged tr codec rec2 pub t =
    (case tr_publish tr t (Some head) objects of (res, t') \<Rightarrow> (map_err Io_Transport res, t'))"
proof -
  from assms(2) obtain c where c: "cc_encode codec head = Ok c" "applied_cursor rec1 = Some c"
    by (auto simp: commit_received_def persist_and_swap_Ok DurableSyncRecord_apply_received_def split: result.splits)
  from assms(3) have "DurableSyncRecord_prepare_outbox rec1 exposed pub (applied_cursor rec1) objects = (Ok (), rec2)"
    by (auto simp: stage_outbound_def persist_and_swap_Ok split: prod.splits result.splits)
  from prepare_Ok(3) [OF this] c decode_encode [OF assms(1) c(1)] show ?thesis
    by (simp add: publish_staged_def decode_cursor_def)
qed

end

section \<open>Properties\<close>

text \<open>A store that keeps the last persisted record, and a codec for natural-number heads.\<close>

definition sample_persist :: "(DurableSyncRecord option, unit) persist_fn" where
  "sample_persist st rec = (Ok (), Some rec)"

definition sample_codec :: "(u8, unit) TransportCursorCodec" where
  "sample_codec = \<lparr>cc_encode = (\<lambda>r. Ok (TransportCursor [r])), cc_decode = (\<lambda>c. Ok (hd (cursor_bytes c)))\<rparr>"

text \<open>What clone, persist, swap leaves behind, for whatever error type the caller wraps it in.\<close>

definition swapped :: "('st, 'se) persist_fn \<Rightarrow> DurableSyncRecord \<Rightarrow> 'st \<Rightarrow>
    (unit, 'e) result \<times> DurableSyncRecord \<times> 'st \<Rightarrow> bool" where
  "swapped persist rec st run =
     (case run of
        (Ok _, rec', st') \<Rightarrow> persist st rec' = (Ok (), st')
      | (Err _, rec', st') \<Rightarrow> rec' = rec \<and> (st' = st \<or> (\<exists>nxt e. persist st nxt = (Err e, st'))))"

lemma swapped_intros [simp]:
  "swapped persist rec st (Err e, rec, st)"
  "swapped persist rec st (persist_and_swap persist err rec st nxt)"
  by (auto simp: swapped_def persist_and_swap_def split: prod.splits result.splits)

text \<open>
  C16. Every durable transition is clone, persist, swap: whenever one of the five commits reports
  success, the record it leaves in memory is exactly the one the store accepted; whenever it
  reports any failure, the record in memory is the old one, and the store was either not called
  or itself refused the write, so memory never outruns recovery.
\<close>

theorem commits_never_outrun_store:
  "swapped persist rec st (stage_outbound persist rec st exposed pub objects) \<and>
   swapped persist rec st (commit_received persist codec rec st merged head) \<and>
   swapped persist rec st (commit_reconciled_outbox persist codec rec st pub merged head) \<and>
   swapped persist rec st (commit_rebased_outbox persist codec rec st rebase head) \<and>
   swapped persist rec st (commit_reconciled_outbox_batch persist codec rec st pubs merged head)"
proof (intro conjI)
  show "swapped persist rec st (stage_outbound persist rec st exposed pub objects)"
    unfolding stage_outbound_def by (simp add: swapped_intros split: prod.split result.split)
  show "swapped persist rec st (commit_received persist codec rec st merged head)"
    unfolding commit_received_def by (simp add: swapped_intros split: result.split)
  show "swapped persist rec st (commit_reconciled_outbox persist codec rec st pub merged head)"
    unfolding commit_reconciled_outbox_def by (simp add: swapped_intros split: prod.split result.split)
  show "swapped persist rec st (commit_rebased_outbox persist codec rec st rebase head)"
    unfolding commit_rebased_outbox_def by (simp add: swapped_intros split: prod.split result.split)
  show "swapped persist rec st (commit_reconciled_outbox_batch persist codec rec st pubs merged head)"
    unfolding commit_reconciled_outbox_batch_def Let_def by (simp add: swapped_intros split: prod.split result.split)
qed

text \<open>
  C17. What each of the five successful commits does to the outbox, the cursor and the trusted state: staging
  adds the publication with exactly the given bytes and the applied cursor as its target; receiving keeps
  every pending publication; reconciling removes exactly the named one or ones, all of which were pending;
  rebasing replaces the stale publication by the fresh one against the new head. Every other entry stays, the
  trusted state is the given one, and the cursor is kept by staging and is the encoded head otherwise.
\<close>

theorem outbox_effects:
  shows "(stage_outbound persist rec st exposed pub objects = (Ok (), rec', st') \<longrightarrow>
      bm_get (outbox rec') = (bm_get (outbox rec))(pub \<mapsto>
        \<lparr>oe_publication_id = pub, oe_expected_cursor = applied_cursor rec, oe_objects = objects\<rparr>) \<and>
      applied_cursor rec' = applied_cursor rec \<and> trusted_state rec' = exposed) \<and>
    (commit_received persist codec rec st merged head = (Ok (), rec', st') \<longrightarrow>
      outbox rec' = outbox rec \<and> trusted_state rec' = merged \<and>
      (\<exists>c. cc_encode codec head = Ok c \<and> applied_cursor rec' = Some c)) \<and>
    (commit_reconciled_outbox persist codec rec st pub merged head = (Ok (), rec', st') \<longrightarrow>
      pub \<in> dom (bm_get (outbox rec)) \<and> bm_get (outbox rec') = (bm_get (outbox rec))(pub := None) \<and>
      trusted_state rec' = merged \<and> (\<exists>c. cc_encode codec head = Ok c \<and> applied_cursor rec' = Some c)) \<and>
    (commit_reconciled_outbox_batch persist codec rec st pubs merged head = (Ok (), rec', st') \<longrightarrow>
      pubs \<noteq> [] \<and> set pubs \<subseteq> dom (bm_get (outbox rec)) \<and>
      bm_get (outbox rec') = (\<lambda>k. if k \<in> set pubs then None else bm_get (outbox rec) k) \<and>
      trusted_state rec' = merged \<and> (\<exists>c. cc_encode codec head = Ok c \<and> applied_cursor rec' = Some c)) \<and>
    (commit_rebased_outbox persist codec rec st rebase head = (Ok (), rec', st') \<longrightarrow>
      (\<exists>c. cc_encode codec head = Ok c \<and> applied_cursor rec' = Some c \<and>
        bm_get (outbox rec') = (bm_get (outbox rec))(stale_publication_id rebase := None,
          new_publication_id rebase \<mapsto> \<lparr>oe_publication_id = new_publication_id rebase,
            oe_expected_cursor = Some c, oe_objects = new_protected_objects rebase\<rparr>)) \<and>
      trusted_state rec' = rebased_trusted_state rebase \<and> stale_publication_id rebase \<in> dom (bm_get (outbox rec)) \<and>
      new_publication_id rebase \<noteq> stale_publication_id rebase)"
proof (intro conjI impI)
  assume "stage_outbound persist rec st exposed pub objects = (Ok (), rec', st')"
  then have "DurableSyncRecord_prepare_outbox rec exposed pub (applied_cursor rec) objects = (Ok (), rec')"
    by (auto simp: stage_outbound_def persist_and_swap_Ok split: prod.splits result.splits)
  from prepare_Ok [OF this] show
    "bm_get (outbox rec') = (bm_get (outbox rec))(pub \<mapsto>
        \<lparr>oe_publication_id = pub, oe_expected_cursor = applied_cursor rec, oe_objects = objects\<rparr>)"
    "applied_cursor rec' = applied_cursor rec" "trusted_state rec' = exposed" by simp_all
next
  assume "commit_received persist codec rec st merged head = (Ok (), rec', st')"
  then show "outbox rec' = outbox rec" "trusted_state rec' = merged"
    "\<exists>c. cc_encode codec head = Ok c \<and> applied_cursor rec' = Some c"
    by (auto simp: commit_received_def persist_and_swap_Ok DurableSyncRecord_apply_received_def split: result.splits)
next
  assume "commit_reconciled_outbox persist codec rec st pub merged head = (Ok (), rec', st')"
  then show "pub \<in> dom (bm_get (outbox rec))" "bm_get (outbox rec') = (bm_get (outbox rec))(pub := None)"
    "trusted_state rec' = merged" "\<exists>c. cc_encode codec head = Ok c \<and> applied_cursor rec' = Some c"
    by (auto elim!: commit_reconciled_cases simp: fun_upd_def)
next
  assume "commit_reconciled_outbox_batch persist codec rec st pubs merged head = (Ok (), rec', st')"
  then show "pubs \<noteq> []" "set pubs \<subseteq> dom (bm_get (outbox rec))"
    "bm_get (outbox rec') = (\<lambda>k. if k \<in> set pubs then None else bm_get (outbox rec) k)"
    "trusted_state rec' = merged" "\<exists>c. cc_encode codec head = Ok c \<and> applied_cursor rec' = Some c"
    by (auto elim: commit_reconciled_batch_cases)
next
  assume run: "commit_rebased_outbox persist codec rec st rebase head = (Ok (), rec', st')"
  then show "new_publication_id rebase \<noteq> stale_publication_id rebase"
    by (auto simp: commit_rebased_outbox_def)
  from run obtain c nxt where c: "cc_encode codec head = Ok c"
    and ret: "DurableSyncRecord_retire_outbox rec (stale_publication_id rebase) (rebased_trusted_state rebase) c = (Ok (), nxt)"
    and prep: "DurableSyncRecord_prepare_outbox nxt (rebased_trusted_state rebase) (new_publication_id rebase) (Some c)
      (new_protected_objects rebase) = (Ok (), rec')"
    by (auto simp: commit_rebased_outbox_def persist_and_swap_Ok split: prod.splits result.splits if_splits)
  show "trusted_state rec' = rebased_trusted_state rebase" using prepare_Ok [OF prep] by simp
  show "stale_publication_id rebase \<in> dom (bm_get (outbox rec))" using ret by (auto simp: retire_Ok)
  from prepare_Ok [OF prep] ret c show "\<exists>c. cc_encode codec head = Ok c \<and> applied_cursor rec' = Some c \<and>
      bm_get (outbox rec') = (bm_get (outbox rec))(stale_publication_id rebase := None,
        new_publication_id rebase \<mapsto> \<lparr>oe_publication_id = new_publication_id rebase,
          oe_expected_cursor = Some c, oe_objects = new_protected_objects rebase\<rparr>)"
    by (auto simp: retire_Ok)
qed

theorem outbox_effects_witness:
  "\<exists>rec' st'. stage_outbound sample_persist (DurableSyncRecord_new [1] None) None [2] (OpaqueId 4) [[8]] = (Ok (), rec', st') \<and>
     bm_get (outbox rec') (OpaqueId 4) = Some \<lparr>oe_publication_id = OpaqueId 4, oe_expected_cursor = None, oe_objects = [[8]]\<rparr>"
proof -
  obtain rec' st' where "stage_outbound sample_persist (DurableSyncRecord_new [1] None) None [2] (OpaqueId 4) [[8]] = (Ok (), rec', st')"
    by (simp add: stage_outbound_def DurableSyncRecord_prepare_outbox_def DurableSyncRecord_new_def validate_objects_def
        persist_and_swap_def sample_persist_def)
  with outbox_effects [of sample_persist "DurableSyncRecord_new [1] None" None "[2]" "OpaqueId 4" "[[8]]" rec' st'
      sample_codec "[]" 0 "[]" undefined] show ?thesis
    by (auto simp: DurableSyncRecord_new_def)
qed

lemma select_all_Ok:
  assumes "set pubs \<subseteq> dom (bm_get (outbox rec))"
    and "\<And>p. p \<in> set pubs \<Longrightarrow> oe_expected_cursor (the (bm_get (outbox rec) p)) = c"
    and "common = None \<and> pubs \<noteq> [] \<or> common = Some c"
  shows "try_fold (select_publication rec) (common, objs) pubs =
    (Ok (Some c, objs @ concat (map (\<lambda>p. oe_objects (the (bm_get (outbox rec) p))) pubs)) ::
      (_, ('te, 'ce) BatchPublishError) result)"
  using assms
proof (induction pubs arbitrary: common objs)
  case (Cons p ps)
  then obtain e where e: "bm_get (outbox rec) p = Some e" by auto
  with Cons.prems(2) [of p] have "oe_expected_cursor e = c" by simp
  with e Cons.prems(3) have "select_publication rec (common, objs) p =
      (Ok (Some c, objs @ oe_objects e) :: (_, ('te, 'ce) BatchPublishError) result)"
    by (auto simp: select_publication_def)
  with Cons.IH [of "Some c" "objs @ oe_objects e"] Cons.prems e show ?case by simp
qed simp

lemma select_publication_Ok:
  "select_publication rec (common, objs) p = Ok st \<longleftrightarrow>
     (\<exists>e. bm_get (outbox rec) p = Some e \<and> (common = None \<or> common = Some (oe_expected_cursor e)) \<and>
        st = (Some (oe_expected_cursor e), objs @ oe_objects e))"
  by (auto simp: select_publication_def split: option.splits)

lemma select_all_sound:
  assumes "try_fold (select_publication rec) (common, objs) pubs =
    (Ok (common', objs') :: (_, ('te, 'ce) BatchPublishError) result)"
  shows "set pubs \<subseteq> dom (bm_get (outbox rec)) \<and> (common \<noteq> None \<longrightarrow> common' = common) \<and>
    (\<forall>p \<in> set pubs. common' = Some (oe_expected_cursor (the (bm_get (outbox rec) p))))"
  using assms
proof (induction pubs arbitrary: common objs)
  case (Cons p ps)
  then obtain e where e: "bm_get (outbox rec) p = Some e" "common = None \<or> common = Some (oe_expected_cursor e)"
    and rest: "try_fold (select_publication rec) (Some (oe_expected_cursor e), objs @ oe_objects e) ps =
      (Ok (common', objs') :: (_, ('te, 'ce) BatchPublishError) result)"
    by (auto simp: select_publication_Ok split: result.splits)
  from Cons.IH [OF rest] e show ?case by auto
qed simp

text \<open>
  A batch is a set: publishing depends only on which publications are named, not on their
  order or repetition. When all are staged against one cursor that decodes, exactly their durable
  objects are offered to the transport, in identity order, against that cursor; an unknown
  publication or a second cursor ends the call before any transport operation.
\<close>

lemma batch_publish_is_set_based:
  fixes tr :: "('t, 'r, 'te) OpaqueTransport" and codec :: "('r, 'ce) TransportCursorCodec"
  shows "(set pubs = set pubs' \<longrightarrow> publish_staged_batch tr codec rec pubs t = publish_staged_batch tr codec rec pubs' t) \<and>
   (pubs \<noteq> [] \<and> set pubs \<subseteq> dom (bm_get (outbox rec)) \<and>
      (\<forall>p \<in> set pubs. oe_expected_cursor (the (bm_get (outbox rec) p)) = c) \<and> decode_cursor codec c = Ok expected \<longrightarrow>
    publish_staged_batch tr codec rec pubs t =
      (case tr_publish tr t expected (concat (map (\<lambda>p. oe_objects (the (bm_get (outbox rec) p)))
          (sorted_list_of_set (set pubs)))) of (res, t') \<Rightarrow> (map_err Batch_Transport res, t'))) \<and>
   (\<not> set pubs \<subseteq> dom (bm_get (outbox rec)) \<or>
      (\<exists>p \<in> set pubs. \<exists>q \<in> set pubs. oe_expected_cursor (the (bm_get (outbox rec) p)) \<noteq>
        oe_expected_cursor (the (bm_get (outbox rec) q))) \<longrightarrow>
    snd (publish_staged_batch tr codec rec pubs t) = t)"
proof (intro conjI impI)
  assume "set pubs = set pubs'"
  then have "bs_from_list pubs = bs_from_list pubs'" by (simp add: bs_eq_iff)
  then show "publish_staged_batch tr codec rec pubs t = publish_staged_batch tr codec rec pubs' t"
    by (simp add: publish_staged_batch_def)
next
  have iter: "bs_iter (bs_from_list pubs) = sorted_list_of_set (set pubs)"
    by (rule sorted_distinct_set_unique) simp_all
  {
    assume a: "pubs \<noteq> [] \<and> set pubs \<subseteq> dom (bm_get (outbox rec)) \<and>
      (\<forall>p \<in> set pubs. oe_expected_cursor (the (bm_get (outbox rec) p)) = c) \<and> decode_cursor codec c = Ok expected"
    then have "try_fold (select_publication rec) (None, []) (sorted_list_of_set (set pubs)) =
        (Ok (Some c, concat (map (\<lambda>p. oe_objects (the (bm_get (outbox rec) p))) (sorted_list_of_set (set pubs)))) ::
          (_, ('te, 'ce) BatchPublishError) result)"
      by (subst select_all_Ok [of _ rec c]) auto
    with a show "publish_staged_batch tr codec rec pubs t =
        (case tr_publish tr t expected (concat (map (\<lambda>p. oe_objects (the (bm_get (outbox rec) p)))
          (sorted_list_of_set (set pubs)))) of (res, t') \<Rightarrow> (map_err Batch_Transport res, t'))"
      by (simp add: publish_staged_batch_def iter bs_is_empty_iff del: bm_is_empty_iff)
  next
    assume bad: "\<not> set pubs \<subseteq> dom (bm_get (outbox rec)) \<or>
      (\<exists>p \<in> set pubs. \<exists>q \<in> set pubs. oe_expected_cursor (the (bm_get (outbox rec) p)) \<noteq>
        oe_expected_cursor (the (bm_get (outbox rec) q)))"
    have "\<nexists>r. try_fold (select_publication rec) (None, []) (sorted_list_of_set (set pubs)) =
        (Ok r :: (_, ('te, 'ce) BatchPublishError) result)"
    proof
      assume "\<exists>r. try_fold (select_publication rec) (None, []) (sorted_list_of_set (set pubs)) =
        (Ok r :: (_, ('te, 'ce) BatchPublishError) result)"
      then obtain cc objs where "try_fold (select_publication rec) (None, []) (sorted_list_of_set (set pubs)) =
        (Ok (cc, objs) :: (_, ('te, 'ce) BatchPublishError) result)" by auto
      from select_all_sound [OF this] have "set pubs \<subseteq> dom (bm_get (outbox rec))"
        "\<forall>p \<in> set pubs. cc = Some (oe_expected_cursor (the (bm_get (outbox rec) p)))" by simp_all
      with bad show False by (metis option.inject)
    qed
    then obtain e where "try_fold (select_publication rec) (None, []) (sorted_list_of_set (set pubs)) =
        (Err e :: (_, ('te, 'ce) BatchPublishError) result)"
      by (meson result.exhaust)
    then show "snd (publish_staged_batch tr codec rec pubs t) = t"
      by (simp add: publish_staged_batch_def iter Let_def)
  }
qed

definition count_transport :: "(nat, u8, unit) OpaqueTransport" where
  "count_transport = \<lparr>tr_head = (\<lambda>t. (Ok None, t)), tr_fetch_since = (\<lambda>t k. (Ok (UpToDate k), t)),
     tr_publish = (\<lambda>t e objs. (Ok (Conflict e), t + length objs))\<rparr>"

lemma batch_publish_is_set_based_witness:
  "publish_staged_batch count_transport sample_codec sample_record [OpaqueId 4, OpaqueId 4] 0 = (Ok (Conflict (Some 7)), 2) \<and>
   snd (publish_staged_batch count_transport sample_codec sample_record [OpaqueId 4, OpaqueId 5] 0) = 0"
  using batch_publish_is_set_based [of "[OpaqueId 4, OpaqueId 4]" "[]" count_transport sample_codec
      sample_record 0 "Some (TransportCursor [7])" "Some 7"]
    batch_publish_is_set_based [of "[OpaqueId 4, OpaqueId 5]" "[]" count_transport sample_codec
      sample_record 0 None None]
  by (simp add: sample_record_eq decode_cursor_def sample_codec_def count_transport_def numeral_2_eq_2)

end
