(* ===== verification/Utf8.thy ===== *)
theory Utf8
  imports APC_Prelude
begin

text \<open>
  What the sources use of Rust's \<^verbatim>\<open>str\<close>: the validity check every conversion from bytes makes,
  and stripping of fixed prefixes, suffixes and line ends.
\<close>

definition utf8_tail :: "u8 \<Rightarrow> bool" where
  "utf8_tail b \<longleftrightarrow> 0x80 \<le> b \<and> b \<le> 0xBF"

text \<open>The length of the well-formed sequence that starts here, by the table of the standard.\<close>

definition utf8_step :: "bytes \<Rightarrow> nat option" where
  "utf8_step bs =
     (case bs of
        [] \<Rightarrow> None
      | b # r \<Rightarrow>
          if b < 0x80 then Some 1
          else if 0xC2 \<le> b \<and> b \<le> 0xDF then
            (case r of c # _ \<Rightarrow> if utf8_tail c then Some 2 else None | _ \<Rightarrow> None)
          else if 0xE0 \<le> b \<and> b \<le> 0xEF then
            (case r of
               c # d # _ \<Rightarrow>
                 if utf8_tail c \<and> utf8_tail d \<and> (b = 0xE0 \<longrightarrow> 0xA0 \<le> c) \<and> (b = 0xED \<longrightarrow> c \<le> 0x9F)
                 then Some 3 else None
             | _ \<Rightarrow> None)
          else if 0xF0 \<le> b \<and> b \<le> 0xF4 then
            (case r of
               c # d # e # _ \<Rightarrow>
                 if utf8_tail c \<and> utf8_tail d \<and> utf8_tail e \<and> (b = 0xF0 \<longrightarrow> 0x90 \<le> c) \<and> (b = 0xF4 \<longrightarrow> c \<le> 0x8F)
                 then Some 4 else None
             | _ \<Rightarrow> None)
          else None)"

lemma utf8_step_pos: "utf8_step bs = Some n \<Longrightarrow> 0 < n \<and> bs \<noteq> []"
  by (auto simp: utf8_step_def split: list.splits if_splits)

function utf8_valid :: "bytes \<Rightarrow> bool" where
  "utf8_valid bs = (if bs = [] then True else (case utf8_step bs of None \<Rightarrow> False | Some n \<Rightarrow> utf8_valid (drop n bs)))"
  by pat_completeness auto

termination utf8_valid
  by (relation "measure length") (auto dest: utf8_step_pos)

declare utf8_valid.simps [simp del]

lemma utf8_valid_ascii: "\<forall>b \<in> set bs. b < 0x80 \<Longrightarrow> utf8_valid bs"
proof (induction bs)
  case (Cons b bs)
  then have "utf8_step (b # bs) = Some 1" by (simp add: utf8_step_def)
  with Cons show ?case by (simp add: utf8_valid.simps [of "b # bs"])
qed (simp add: utf8_valid.simps)

definition strip_prefix :: "bytes \<Rightarrow> bytes \<Rightarrow> bytes option" where
  "strip_prefix p s = (if take (length p) s = p then Some (drop (length p) s) else None)"

definition strip_suffix :: "bytes \<Rightarrow> bytes \<Rightarrow> bytes option" where
  "strip_suffix p s = map_option rev (strip_prefix (rev p) (rev s))"

definition trim_end_newlines :: "bytes \<Rightarrow> bytes" where
  "trim_end_newlines s = rev (dropWhile (\<lambda>b. b = 10) (rev s))"

lemma strip_prefix_Some: "strip_prefix p s = Some r \<longleftrightarrow> s = p @ r"
  by (auto simp: strip_prefix_def) (metis append_take_drop_id)

lemma strip_suffix_Some: "strip_suffix p s = Some r \<longleftrightarrow> s = r @ p"
  unfolding strip_suffix_def by (auto simp: strip_prefix_Some rev_swap)

lemma trim_one_newline: "nm = [] \<or> last nm \<noteq> 10 \<Longrightarrow> trim_end_newlines (nm @ [10]) = nm"
  by (cases nm rule: rev_cases) (auto simp: trim_end_newlines_def)

end
