(* ===== verification/GitHub_Transport.thy ===== *)
theory GitHub_Transport
  imports Sync_Session Utf8 "HOL-Library.List_Lexorder"
begin

text \<open>
  The GitHub transport of \<^verbatim>\<open>apc-transport-github/src/lib.rs\<close> and the cursor codec of
  \<^verbatim>\<open>apc-runtime/src/lib.rs\<close>. The HTTP client behind \<^verbatim>\<open>GitHubApi\<close> and the SHA-256 implementation
  are outside the repository and are parameters: a record of functions over a client state, and a
  function on bytes. Strings are their UTF-8 bytes.
\<close>

section \<open>API boundary\<close>

datatype GitHubCommitOid = GitHubCommitOid (oid_str: bytes)

datatype GitHubOidError = GitHubOidError

definition GitHubCommitOid_new :: "bytes \<Rightarrow> (GitHubCommitOid, GitHubOidError) result" where
  "GitHubCommitOid_new value =
     (if value = [] \<or> \<not> list_all (\<lambda>b. b < 0x80) value then Err GitHubOidError else Ok (GitHubCommitOid value))"

record GitHubFileAddition =
  fa_path :: bytes
  fa_bytes :: bytes

datatype GitHubFileChangeKind = Added | Modified | Removed | Renamed

record GitHubFileChange =
  fc_path :: bytes
  fc_kind :: GitHubFileChangeKind

record GitHubCommitInfo =
  ci_oid :: GitHubCommitOid
  ci_parents :: "GitHubCommitOid list"
  ci_changes :: "GitHubFileChange list"

datatype GitHubCreateCommitResult =
    Created GitHubCommitOid
  | HeadChanged "GitHubCommitOid option"

record ('a, 'e) GitHubApi =
  branch_head :: "'a \<Rightarrow> (GitHubCommitOid option, 'e) result \<times> 'a"
  create_commit_on_branch :: "'a \<Rightarrow> GitHubCommitOid \<Rightarrow> GitHubFileAddition list \<Rightarrow> bytes \<Rightarrow> (GitHubCreateCommitResult, 'e) result \<times> 'a"
  commit_info :: "'a \<Rightarrow> GitHubCommitOid \<Rightarrow> (GitHubCommitInfo, 'e) result \<times> 'a"
  read_file_at :: "'a \<Rightarrow> GitHubCommitOid \<Rightarrow> bytes \<Rightarrow> (bytes, 'e) result \<times> 'a"

datatype 'e GitHubTransportError =
    Api 'e
  | EmptyPublication
  | BranchUninitialized
  | InvalidCommitIdentity
  | InvalidCreatedHead
  | ImmutableObjectViolation bytes
  | ObjectPathMismatch bytes

definition OBJECT_PREFIX :: bytes where "OBJECT_PREFIX = ascii ''sync/objects/''"
definition OBJECT_SUFFIX :: bytes where "OBJECT_SUFFIX = ascii ''.apcs''"
definition COMMIT_MESSAGE :: bytes where "COMMIT_MESSAGE = ascii ''A.P.C. protected sync publication''"
definition DEFAULT_MAX_INCREMENTAL_COMMITS :: nat where "DEFAULT_MAX_INCREMENTAL_COMMITS = 128"

text \<open>\<^verbatim>\<open>{byte:02x}\<close>\<close>

definition hex_digit :: "nat \<Rightarrow> u8" where
  "hex_digit n = (if n < 10 then word_of_nat (48 + n) else word_of_nat (87 + n))"

definition hex_byte :: "u8 \<Rightarrow> bytes" where
  "hex_byte b = [hex_digit (unat b div 16), hex_digit (unat b mod 16)]"

definition object_path :: "(bytes \<Rightarrow> bytes) \<Rightarrow> bytes \<Rightarrow> bytes" where
  "object_path sha256 bs = OBJECT_PREFIX @ concat (map hex_byte (sha256 bs)) @ OBJECT_SUFFIX"

section \<open>Transport\<close>

record 'a GitHubTransport =
  gt_api :: 'a
  max_incremental_commits :: nat

definition GitHubTransport_new :: "'a \<Rightarrow> 'a GitHubTransport" where
  "GitHubTransport_new api = \<lparr>gt_api = api, max_incremental_commits = DEFAULT_MAX_INCREMENTAL_COMMITS\<rparr>"

definition with_max_incremental_commits :: "'a \<Rightarrow> nat \<Rightarrow> 'a GitHubTransport" where
  "with_max_incremental_commits api n = \<lparr>gt_api = api, max_incremental_commits = max n 1\<rparr>"

definition GitHubTransport_head ::
    "('a, 'e) GitHubApi \<Rightarrow> 'a GitHubTransport \<Rightarrow> (GitHubCommitOid option, 'e GitHubTransportError) result \<times> 'a GitHubTransport" where
  "GitHubTransport_head api t =
     (case branch_head api (gt_api t) of (r, a) \<Rightarrow> (map_err Api r, t\<lparr>gt_api := a\<rparr>))"

text \<open>The \<^verbatim>\<open>while &cursor != known_head\<close> loop; \<open>Ok None\<close> stands for the early return of
  \<^verbatim>\<open>BaselineUnavailable\<close>. The collected commits are newest last, as pushed.\<close>

function walk_back ::
    "('a, 'e) GitHubApi \<Rightarrow> nat \<Rightarrow> GitHubCommitOid \<Rightarrow> GitHubCommitOid \<Rightarrow> GitHubCommitInfo list \<Rightarrow> 'a \<Rightarrow>
     (GitHubCommitInfo list option, 'e GitHubTransportError) result \<times> 'a" where
  "walk_back api limit known cursor commits a =
     (if cursor = known then (Ok (Some commits), a)
      else if length commits \<ge> limit then (Ok None, a)
      else
        (case commit_info api a cursor of
           (Err e, a') \<Rightarrow> (Err (Api e), a')
         | (Ok info, a') \<Rightarrow>
             if ci_oid info \<noteq> cursor then (Err InvalidCommitIdentity, a')
             else
               (case ci_parents info of
                  [parent] \<Rightarrow> walk_back api limit known parent (commits @ [info]) a'
                | _ \<Rightarrow> (Ok None, a'))))"
  by pat_completeness auto

termination walk_back
  by (relation "measure (\<lambda>(api, limit, known, cursor, commits, a). limit - length commits)") auto

declare walk_back.simps [simp del]

text \<open>The loop over one commit's changes: paths seen so far and objects so far.\<close>

fun collect_changes ::
    "(bytes \<Rightarrow> bytes) \<Rightarrow> ('a, 'e) GitHubApi \<Rightarrow> GitHubCommitOid \<Rightarrow> GitHubFileChange list \<Rightarrow>
     bytes btree_set \<times> bytes list \<Rightarrow> 'a \<Rightarrow> (bytes btree_set \<times> bytes list, 'e GitHubTransportError) result \<times> 'a" where
  "collect_changes sha256 api commit_oid [] st a = (Ok st, a)"
| "collect_changes sha256 api commit_oid (change # changes) (seen, objects) a =
     (if strip_prefix OBJECT_PREFIX (fc_path change) = None
      then collect_changes sha256 api commit_oid changes (seen, objects) a
      else if fc_kind change \<noteq> Added then (Err (ImmutableObjectViolation (fc_path change)), a)
      else if bs_contains seen (fc_path change) then (Err (ImmutableObjectViolation (fc_path change)), a)
      else
        (case read_file_at api a commit_oid (fc_path change) of
           (Err e, a') \<Rightarrow> (Err (Api e), a')
         | (Ok bs, a') \<Rightarrow>
             if object_path sha256 bs \<noteq> fc_path change then (Err (ObjectPathMismatch (fc_path change)), a')
             else collect_changes sha256 api commit_oid changes (bs_insert (fc_path change) seen, objects @ [bs]) a'))"

fun collect_commits ::
    "(bytes \<Rightarrow> bytes) \<Rightarrow> ('a, 'e) GitHubApi \<Rightarrow> GitHubCommitInfo list \<Rightarrow>
     bytes btree_set \<times> bytes list \<Rightarrow> 'a \<Rightarrow> (bytes btree_set \<times> bytes list, 'e GitHubTransportError) result \<times> 'a" where
  "collect_commits sha256 api [] st a = (Ok st, a)"
| "collect_commits sha256 api (c # cs) st a =
     (case collect_changes sha256 api (ci_oid c) (ci_changes c) st a of
        (Err e, a') \<Rightarrow> (Err e, a')
      | (Ok st', a') \<Rightarrow> collect_commits sha256 api cs st' a')"

definition GitHubTransport_fetch_since ::
    "(bytes \<Rightarrow> bytes) \<Rightarrow> ('a, 'e) GitHubApi \<Rightarrow> 'a GitHubTransport \<Rightarrow> GitHubCommitOid option \<Rightarrow>
     (GitHubCommitOid FetchOutcome, 'e GitHubTransportError) result \<times> 'a GitHubTransport" where
  "GitHubTransport_fetch_since sha256 api t known_head =
     (case branch_head api (gt_api t) of
        (Err e, a) \<Rightarrow> (Err (Api e), t\<lparr>gt_api := a\<rparr>)
      | (Ok current_head, a) \<Rightarrow>
          if current_head = known_head then (Ok (UpToDate current_head), t\<lparr>gt_api := a\<rparr>)
          else
            (case (known_head, current_head) of
               (None, _) \<Rightarrow> (Ok (BaselineUnavailable current_head), t\<lparr>gt_api := a\<rparr>)
             | (Some _, None) \<Rightarrow> (Ok (BaselineUnavailable None), t\<lparr>gt_api := a\<rparr>)
             | (Some known, Some head) \<Rightarrow>
                 (case walk_back api (max_incremental_commits t) known head [] a of
                    (Err e, a') \<Rightarrow> (Err e, t\<lparr>gt_api := a'\<rparr>)
                  | (Ok None, a') \<Rightarrow> (Ok (BaselineUnavailable current_head), t\<lparr>gt_api := a'\<rparr>)
                  | (Ok (Some commits), a') \<Rightarrow>
                      (case collect_commits sha256 api (rev commits) (bm_empty, []) a' of
                         (Err e, a'') \<Rightarrow> (Err e, t\<lparr>gt_api := a''\<rparr>)
                       | (Ok (seen, objects), a'') \<Rightarrow> (Ok (Changed head objects), t\<lparr>gt_api := a''\<rparr>)))))"

definition add_by_path :: "(bytes \<Rightarrow> bytes) \<Rightarrow> (bytes, bytes) btree_map \<Rightarrow> bytes \<Rightarrow> (bytes, bytes) btree_map" where
  "add_by_path sha256 m bs =
     (if bm_contains_key m (object_path sha256 bs) then m else bm_insert (object_path sha256 bs) bs m)"

definition publication_additions :: "(bytes \<Rightarrow> bytes) \<Rightarrow> bytes list \<Rightarrow> GitHubFileAddition list" where
  "publication_additions sha256 objects =
     map (\<lambda>(path, bs). \<lparr>fa_path = path, fa_bytes = bs\<rparr>) (bm_entries (foldl (add_by_path sha256) bm_empty objects))"

definition GitHubTransport_publish ::
    "(bytes \<Rightarrow> bytes) \<Rightarrow> ('a, 'e) GitHubApi \<Rightarrow> 'a GitHubTransport \<Rightarrow> GitHubCommitOid option \<Rightarrow> bytes list \<Rightarrow>
     (GitHubCommitOid PublishOutcome, 'e GitHubTransportError) result \<times> 'a GitHubTransport" where
  "GitHubTransport_publish sha256 api t expected_head objects =
     (if objects = [] then (Err EmptyPublication, t)
      else
        (case expected_head of
           None \<Rightarrow>
             (case branch_head api (gt_api t) of
                (Err e, a) \<Rightarrow> (Err (Api e), t\<lparr>gt_api := a\<rparr>)
              | (Ok (Some current_head), a) \<Rightarrow> (Ok (Conflict (Some current_head)), t\<lparr>gt_api := a\<rparr>)
              | (Ok None, a) \<Rightarrow> (Err BranchUninitialized, t\<lparr>gt_api := a\<rparr>))
         | Some expected \<Rightarrow>
             (case create_commit_on_branch api (gt_api t) expected (publication_additions sha256 objects) COMMIT_MESSAGE of
                (Err e, a) \<Rightarrow> (Err (Api e), t\<lparr>gt_api := a\<rparr>)
              | (Ok (Created head), a) \<Rightarrow>
                  (if head = expected then Err InvalidCreatedHead else Ok (Published head), t\<lparr>gt_api := a\<rparr>)
              | (Ok (HeadChanged current_head), a) \<Rightarrow> (Ok (Conflict current_head), t\<lparr>gt_api := a\<rparr>))))"

definition github_transport ::
    "(bytes \<Rightarrow> bytes) \<Rightarrow> ('a, 'e) GitHubApi \<Rightarrow> ('a GitHubTransport, GitHubCommitOid, 'e GitHubTransportError) OpaqueTransport" where
  "github_transport sha256 api =
     \<lparr>tr_head = GitHubTransport_head api, tr_fetch_since = GitHubTransport_fetch_since sha256 api,
      tr_publish = GitHubTransport_publish sha256 api\<rparr>"

section \<open>Cursor codec\<close>

datatype GitHubCursorCodecError = InvalidUtf8 | Cursor_InvalidCommitIdentity | InvalidTransportCursor

definition GitHubCursorCodec_encode :: "GitHubCommitOid \<Rightarrow> (TransportCursor, GitHubCursorCodecError) result" where
  "GitHubCursorCodec_encode revision = map_err (\<lambda>_. InvalidTransportCursor) (TransportCursor_new (oid_str revision))"

definition GitHubCursorCodec_decode :: "TransportCursor \<Rightarrow> (GitHubCommitOid, GitHubCursorCodecError) result" where
  "GitHubCursorCodec_decode cursor =
     (if \<not> utf8_valid (cursor_bytes cursor) then Err InvalidUtf8
      else map_err (\<lambda>_. Cursor_InvalidCommitIdentity) (GitHubCommitOid_new (cursor_bytes cursor)))"

definition github_cursor_codec :: "(GitHubCommitOid, GitHubCursorCodecError) TransportCursorCodec" where
  "github_cursor_codec = \<lparr>cc_encode = GitHubCursorCodec_encode, cc_decode = GitHubCursorCodec_decode\<rparr>"

definition oid_wf :: "GitHubCommitOid \<Rightarrow> bool" where
  "oid_wf oid \<longleftrightarrow> GitHubCommitOid_new (oid_str oid) = Ok oid"

interpretation github_cursor: cursor_codec github_cursor_codec oid_wf
proof
  fix oid c assume wf: "oid_wf oid" and enc: "cc_encode github_cursor_codec oid = Ok c"
  then have c: "c = TransportCursor (oid_str oid)" "oid_str oid \<noteq> []"
    by (auto simp: github_cursor_codec_def GitHubCursorCodec_encode_def TransportCursor_new_def split: if_splits)
  from wf have "list_all (\<lambda>b. b < 0x80) (oid_str oid)"
    by (auto simp: oid_wf_def GitHubCommitOid_new_def split: if_splits)
  then have "utf8_valid (oid_str oid)" by (intro utf8_valid_ascii) (simp add: list_all_iff)
  with wf c show "cc_decode github_cursor_codec c = Ok oid" "cursor_bytes c \<noteq> []"
    by (simp_all add: github_cursor_codec_def GitHubCursorCodec_decode_def oid_wf_def)
qed

section \<open>What a fetch returns\<close>

text \<open>Single-parent ancestry from a cursor back to the known head.\<close>

fun ancestry :: "GitHubCommitOid \<Rightarrow> GitHubCommitInfo list \<Rightarrow> GitHubCommitOid \<Rightarrow> bool" where
  "ancestry c [] known \<longleftrightarrow> c = known"
| "ancestry c (i # is) known \<longleftrightarrow> c \<noteq> known \<and> ci_oid i = c \<and> (\<exists>p. ci_parents i = [p] \<and> ancestry p is known)"

definition is_object_change :: "GitHubFileChange \<Rightarrow> bool" where
  "is_object_change ch \<longleftrightarrow> strip_prefix OBJECT_PREFIX (fc_path ch) \<noteq> None"

lemma collect_changes_step:
  "collect_changes sha256 api oid (c # cs) (seen, objs) a =
     (if \<not> is_object_change c then collect_changes sha256 api oid cs (seen, objs) a
      else if fc_kind c \<noteq> Added then (Err (ImmutableObjectViolation (fc_path c)), a)
      else if fc_path c \<in> bs_set seen then (Err (ImmutableObjectViolation (fc_path c)), a)
      else
        (case read_file_at api a oid (fc_path c) of
           (Err e, a') \<Rightarrow> (Err (Api e), a')
         | (Ok bs, a') \<Rightarrow>
             if object_path sha256 bs \<noteq> fc_path c then (Err (ObjectPathMismatch (fc_path c)), a')
             else collect_changes sha256 api oid cs (bs_insert (fc_path c) seen, objs @ [bs]) a'))"
  by (simp add: is_object_change_def)

declare collect_changes.simps(2) [simp del]

definition object_changes :: "GitHubCommitInfo list \<Rightarrow> GitHubFileChange list" where
  "object_changes commits =
     filter is_object_change (concat (map ci_changes commits))"

text \<open>What the service said of a commit and of a file, in some state of the client.\<close>

definition commit_answered :: "('a, 'e) GitHubApi \<Rightarrow> GitHubCommitInfo \<Rightarrow> bool" where
  "commit_answered api i \<longleftrightarrow> (\<exists>a a'. commit_info api a (ci_oid i) = (Ok i, a'))"

definition file_answered :: "('a, 'e) GitHubApi \<Rightarrow> GitHubCommitOid \<Rightarrow> bytes \<Rightarrow> bytes \<Rightarrow> bool" where
  "file_answered api oid path bs \<longleftrightarrow> (\<exists>a a'. read_file_at api a oid path = (Ok bs, a'))"

text \<open>The object changes of a chain with the commit that carries each, and what an object has to be to one.\<close>

definition located_changes :: "GitHubCommitInfo list \<Rightarrow> (GitHubCommitOid \<times> GitHubFileChange) list" where
  "located_changes commits = concat (map (\<lambda>i. map (Pair (ci_oid i)) (filter is_object_change (ci_changes i))) commits)"

lemma located_changes_snd: "map snd (located_changes commits) = object_changes commits"
  by (simp add: located_changes_def object_changes_def map_concat o_def filter_concat)

definition carries :: "(bytes \<Rightarrow> bytes) \<Rightarrow> ('a, 'e) GitHubApi \<Rightarrow> GitHubCommitOid \<times> GitHubFileChange \<Rightarrow> bytes \<Rightarrow> bool" where
  "carries sha256 api located bs \<longleftrightarrow> fc_kind (snd located) = Added \<and> object_path sha256 bs = fc_path (snd located) \<and>
     file_answered api (fst located) (fc_path (snd located)) bs"

lemma walk_back_sound:
  "walk_back api limit known cursor commits a = (Ok (Some cs), a') \<Longrightarrow> length commits \<le> limit \<Longrightarrow>
     \<exists>new. cs = commits @ new \<and> length cs \<le> limit \<and> ancestry cursor new known \<and> (\<forall>i \<in> set new. commit_answered api i)"
proof (induction api limit known cursor commits a rule: walk_back.induct)
  case (1 api limit known cursor commits a)
  show ?case
  proof (cases "cursor = known")
    case True
    with 1(2,3) show ?thesis by (intro exI [of _ "[]"]) (simp add: walk_back.simps)
  next
    case ne: False
    with 1(2) obtain info a1 p where i: "\<not> limit \<le> length commits" "commit_info api a cursor = (Ok info, a1)"
      "ci_oid info = cursor" "ci_parents info = [p]" "walk_back api limit known p (commits @ [info]) a1 = (Ok (Some cs), a')"
      by (subst (asm) walk_back.simps) (auto split: if_splits prod.splits result.splits list.splits)
    from 1(1) [OF ne i(1) i(2) [symmetric] refl _ i(4) refl i(5)] i obtain new
      where "cs = (commits @ [info]) @ new" "length cs \<le> limit" "ancestry p new known" "\<forall>i \<in> set new. commit_answered api i" by auto
    moreover have "commit_answered api info" using i(2,3) by (auto simp: commit_answered_def)
    ultimately show ?thesis using ne i(3,4) by (intro exI [of _ "info # new"]) simp
  qed
qed

lemma walk_back_complete:
  assumes "ancestry cursor new known" and "length commits + length new \<le> limit"
    and "\<And>i. i \<in> set new \<Longrightarrow> commit_info api a (ci_oid i) = (Ok i, a)"
  shows "walk_back api limit known cursor commits a = (Ok (Some (commits @ new)), a)"
  using assms
proof (induction new arbitrary: cursor commits)
  case Nil
  then show ?case by (simp add: walk_back.simps)
next
  case (Cons i new)
  then obtain p where p: "cursor \<noteq> known" "ci_oid i = cursor" "ci_parents i = [p]" "ancestry p new known" by auto
  moreover have "commit_info api a cursor = (Ok i, a)" using Cons.prems(3) [of i] p(2) by simp
  moreover have "walk_back api limit known p (commits @ [i]) a = (Ok (Some ((commits @ [i]) @ new)), a)"
    by (rule Cons.IH [OF p(4)]) (use Cons.prems(2,3) in auto)
  ultimately show ?case using Cons.prems(2) by (subst walk_back.simps) simp
qed

lemma collect_changes_sound:
  "collect_changes sha256 api oid changes (seen, objs) a = (Ok (seen', objs'), a') \<Longrightarrow>
   \<exists>new. let ch = filter is_object_change changes in
     objs' = objs @ new \<and> list_all2 (carries sha256 api) (map (Pair oid) ch) new \<and>
     distinct (map fc_path ch) \<and> bs_set seen \<inter> fc_path ` set ch = {} \<and> bs_set seen' = bs_set seen \<union> fc_path ` set ch"
proof (induction changes arbitrary: seen objs a)
  case (Cons c cs)
  show ?case
  proof (cases "is_object_change c")
    case False
    with Cons show ?thesis by (simp add: collect_changes_step)
  next
    case True
    with Cons.prems obtain bs a1 where c: "fc_kind c = Added" "fc_path c \<notin> bs_set seen" "object_path sha256 bs = fc_path c"
      and read: "read_file_at api a oid (fc_path c) = (Ok bs, a1)"
      and rest: "collect_changes sha256 api oid cs (bs_insert (fc_path c) seen, objs @ [bs]) a1 = (Ok (seen', objs'), a')"
      by (auto simp: collect_changes_step split: if_splits prod.splits result.splits)
    have "carries sha256 api (oid, c) bs" using c read by (auto simp: carries_def file_answered_def)
    moreover from Cons.IH [OF rest] obtain new where
      "let ch = filter is_object_change cs in
       objs' = (objs @ [bs]) @ new \<and> list_all2 (carries sha256 api) (map (Pair oid) ch) new \<and>
       distinct (map fc_path ch) \<and> bs_set (bs_insert (fc_path c) seen) \<inter> fc_path ` set ch = {} \<and>
       bs_set seen' = bs_set (bs_insert (fc_path c) seen) \<union> fc_path ` set ch" by blast
    ultimately show ?thesis using c True by (intro exI [of _ "bs # new"]) (auto simp: Let_def)
  qed
qed simp

lemma collect_commits_sound:
  "collect_commits sha256 api cs (seen, objs) a = (Ok (seen', objs'), a') \<Longrightarrow>
   \<exists>new. objs' = objs @ new \<and> list_all2 (carries sha256 api) (located_changes cs) new \<and>
     distinct (map fc_path (object_changes cs)) \<and>
     bs_set seen \<inter> fc_path ` set (object_changes cs) = {} \<and>
     bs_set seen' = bs_set seen \<union> fc_path ` set (object_changes cs)"
proof (induction cs arbitrary: seen objs a)
  case (Cons c cs)
  then obtain seen1 objs1 a1 where
    step: "collect_changes sha256 api (ci_oid c) (ci_changes c) (seen, objs) a = (Ok (seen1, objs1), a1)"
    and rest: "collect_commits sha256 api cs (seen1, objs1) a1 = (Ok (seen', objs'), a')"
    by (auto split: prod.splits result.splits)
  define ch where "ch = filter is_object_change (ci_changes c)"
  from collect_changes_sound [OF step] obtain n1 where n1: "objs1 = objs @ n1"
    "list_all2 (carries sha256 api) (map (Pair (ci_oid c)) ch) n1" "distinct (map fc_path ch)"
    "bs_set seen \<inter> fc_path ` set ch = {}" "bs_set seen1 = bs_set seen \<union> fc_path ` set ch" unfolding Let_def ch_def by blast
  from Cons.IH [OF rest] obtain n2 where n2: "objs' = objs1 @ n2" "list_all2 (carries sha256 api) (located_changes cs) n2"
    "distinct (map fc_path (object_changes cs))" "bs_set seen1 \<inter> fc_path ` set (object_changes cs) = {}"
    "bs_set seen' = bs_set seen1 \<union> fc_path ` set (object_changes cs)" by blast
  have oc: "object_changes (c # cs) = ch @ object_changes cs" "located_changes (c # cs) = map (Pair (ci_oid c)) ch @ located_changes cs"
    by (simp_all add: object_changes_def located_changes_def ch_def)
  show ?case
    using n1 n2 by (intro exI [of _ "n1 @ n2"]) (auto simp: oc intro: list_all2_appendI)
qed (simp add: object_changes_def located_changes_def)

text \<open>What a client relies on of a repository that answers truthfully: the head, the commits back
  to the known one, and the files they added.\<close>

definition serves_history ::
    "(bytes \<Rightarrow> bytes) \<Rightarrow> ('a, 'e) GitHubApi \<Rightarrow> 'a \<Rightarrow> GitHubCommitOid \<Rightarrow> GitHubCommitInfo list \<Rightarrow> (bytes \<Rightarrow> bytes) \<Rightarrow> bool" where
  "serves_history sha256 api a head commits file \<longleftrightarrow>
     branch_head api a = (Ok (Some head), a) \<and>
     (\<forall>i \<in> set commits. commit_info api a (ci_oid i) = (Ok i, a) \<and>
        (\<forall>ch \<in> set (object_changes [i]). fc_kind ch = Added \<and>
           read_file_at api a (ci_oid i) (fc_path ch) = (Ok (file (fc_path ch)), a) \<and>
           object_path sha256 (file (fc_path ch)) = fc_path ch)) \<and>
     distinct (map fc_path (object_changes (rev commits)))"

lemma collect_changes_complete:
  assumes "\<And>ch. ch \<in> set changes \<Longrightarrow> is_object_change ch \<Longrightarrow> fc_kind ch = Added \<and>
      read_file_at api a oid (fc_path ch) = (Ok (file (fc_path ch)), a) \<and> object_path sha256 (file (fc_path ch)) = fc_path ch"
    and "distinct (map fc_path (filter is_object_change changes))"
    and "bs_set seen \<inter> fc_path ` set (filter is_object_change changes) = {}"
  shows "\<exists>seen'. collect_changes sha256 api oid changes (seen, objs) a =
      (Ok (seen', objs @ map (file o fc_path) (filter is_object_change changes)), a) \<and>
    bs_set seen' = bs_set seen \<union> fc_path ` set (filter is_object_change changes)"
  using assms
proof (induction changes arbitrary: seen objs)
  case (Cons c cs)
  show ?case
  proof (cases "is_object_change c")
    case False
    with Cons show ?thesis by (simp add: collect_changes_step)
  next
    case True
    have c: "fc_kind c = Added" "read_file_at api a oid (fc_path c) = (Ok (file (fc_path c)), a)"
      "object_path sha256 (file (fc_path c)) = fc_path c" using Cons.prems(1) [of c] True by simp_all
    moreover have "fc_path c \<notin> bs_set seen" using Cons.prems(3) True by auto
    moreover have "\<exists>seen'. collect_changes sha256 api oid cs (bs_insert (fc_path c) seen, objs @ [file (fc_path c)]) a =
        (Ok (seen', (objs @ [file (fc_path c)]) @ map (file o fc_path) (filter is_object_change cs)), a) \<and>
        bs_set seen' = bs_set (bs_insert (fc_path c) seen) \<union> fc_path ` set (filter is_object_change cs)"
      by (rule Cons.IH) (use Cons.prems True in auto)
    ultimately show ?thesis using True by (simp add: collect_changes_step o_def)
  qed
qed simp

lemma collect_commits_complete:
  assumes "\<And>i ch. i \<in> set cs \<Longrightarrow> ch \<in> set (object_changes [i]) \<Longrightarrow> fc_kind ch = Added \<and>
      read_file_at api a (ci_oid i) (fc_path ch) = (Ok (file (fc_path ch)), a) \<and> object_path sha256 (file (fc_path ch)) = fc_path ch"
    and "distinct (map fc_path (object_changes cs))" and "bs_set seen \<inter> fc_path ` set (object_changes cs) = {}"
  shows "\<exists>seen'. collect_commits sha256 api cs (seen, objs) a =
    (Ok (seen', objs @ map (file o fc_path) (object_changes cs)), a)"
  using assms
proof (induction cs arbitrary: seen objs)
  case (Cons c cs)
  let ?ch = "filter is_object_change (ci_changes c)"
  have oc: "object_changes (c # cs) = ?ch @ object_changes cs" "object_changes [c] = ?ch"
    by (simp_all add: object_changes_def)
  have "\<exists>seen'. collect_changes sha256 api (ci_oid c) (ci_changes c) (seen, objs) a =
      (Ok (seen', objs @ map (file o fc_path) ?ch), a) \<and> bs_set seen' = bs_set seen \<union> fc_path ` set ?ch"
    by (rule collect_changes_complete)
      (use Cons.prems(1) [of c, unfolded oc(2)] Cons.prems(2,3) in \<open>auto simp: oc(1)\<close>)
  then obtain seen1 where s1: "collect_changes sha256 api (ci_oid c) (ci_changes c) (seen, objs) a =
      (Ok (seen1, objs @ map (file o fc_path) ?ch), a)" "bs_set seen1 = bs_set seen \<union> fc_path ` set ?ch" by blast
  have "\<exists>seen'. collect_commits sha256 api cs (seen1, objs @ map (file o fc_path) ?ch) a =
      (Ok (seen', (objs @ map (file o fc_path) ?ch) @ map (file o fc_path) (object_changes cs)), a)"
    by (rule Cons.IH) (use Cons.prems s1(2) in \<open>auto simp: oc\<close>)
  with s1(1) show ?case by (simp add: oc o_def)
qed (simp add: object_changes_def)

lemma fetch_complete:
  assumes "serves_history sha256 api (gt_api t) head commits file" and "ancestry head commits known"
    and "head \<noteq> known" and "length commits \<le> max_incremental_commits t"
  shows "GitHubTransport_fetch_since sha256 api t (Some known) =
    (Ok (Changed head (map (file o fc_path) (object_changes (rev commits)))), t)"
proof -
  let ?a = "gt_api t"
  have head: "branch_head api ?a = (Ok (Some head), ?a)"
    and infos: "\<And>i. i \<in> set commits \<Longrightarrow> commit_info api ?a (ci_oid i) = (Ok i, ?a)"
    and dist: "distinct (map fc_path (object_changes (rev commits)))"
    using assms(1) by (simp_all add: serves_history_def)
  have walk: "walk_back api (max_incremental_commits t) known head [] ?a = (Ok (Some commits), ?a)"
    using walk_back_complete [OF assms(2), of "[]" "max_incremental_commits t" api ?a] assms(4) infos by simp
  have "\<exists>seen'. collect_commits sha256 api (rev commits) (bm_empty, []) ?a =
      (Ok (seen', [] @ map (file o fc_path) (object_changes (rev commits))), ?a)"
    by (rule collect_commits_complete) (use assms(1) dist in \<open>auto simp: serves_history_def\<close>)
  with head walk assms(3) show ?thesis by (auto simp: GitHubTransport_fetch_since_def)
qed

section \<open>What a publication writes\<close>

lemma foldl_add_by_path:
  "bm_get (foldl (add_by_path sha256) m objs) p =
     (case bm_get m p of Some b \<Rightarrow> Some b | None \<Rightarrow> find (\<lambda>b. object_path sha256 b = p) objs)"
  by (induction objs arbitrary: m) (auto simp: add_by_path_def split: option.split)

lemma publication_additions_paths:
  "distinct (map fa_path (publication_additions sha256 objs))"
  "fa \<in> set (publication_additions sha256 objs) \<Longrightarrow> fa_path fa = object_path sha256 (fa_bytes fa) \<and> fa_bytes fa \<in> set objs"
  "b \<in> set objs \<Longrightarrow> \<exists>fa \<in> set (publication_additions sha256 objs). fa_path fa = object_path sha256 b"
proof -
  let ?m = "foldl (add_by_path sha256) bm_empty objs"
  have get: "bm_get ?m p = find (\<lambda>b. object_path sha256 b = p) objs" for p by (simp add: foldl_add_by_path)
  have "map fa_path (publication_additions sha256 objs) = bm_keys ?m"
    by (simp add: publication_additions_def bm_keys_def case_prod_unfold o_def)
  then show "distinct (map fa_path (publication_additions sha256 objs))" by simp
  show "fa_path fa = object_path sha256 (fa_bytes fa) \<and> fa_bytes fa \<in> set objs" if "fa \<in> set (publication_additions sha256 objs)"
    using that by (auto simp: publication_additions_def get find_Some_iff)
  show "\<exists>fa \<in> set (publication_additions sha256 objs). fa_path fa = object_path sha256 b" if "b \<in> set objs"
  proof -
    have "find (\<lambda>b'. object_path sha256 b' = object_path sha256 b) objs \<noteq> None"
      using that by (auto simp: find_None_iff)
    then obtain b' where "bm_get ?m (object_path sha256 b) = Some b'" by (auto simp: get)
    then have "(object_path sha256 b, b') \<in> set (bm_entries ?m)" by simp
    then have "\<lparr>fa_path = object_path sha256 b, fa_bytes = b'\<rparr> \<in> set (publication_additions sha256 objs)"
      unfolding publication_additions_def set_map by (rule rev_image_eqI) simp
    then show ?thesis by force
  qed
qed

text \<open>The files a set of objects stands for: one per object name, with the first object of that name.\<close>

definition content_files :: "(bytes \<Rightarrow> bytes) \<Rightarrow> bytes list \<Rightarrow> GitHubFileAddition list" where
  "content_files sha256 objs =
     map (\<lambda>p. \<lparr>fa_path = p, fa_bytes = the (find (\<lambda>b. object_path sha256 b = p) objs)\<rparr>)
       (sorted_list_of_set (object_path sha256 ` set objs))"

lemma publication_additions_exact: "publication_additions sha256 objs = content_files sha256 objs"
proof -
  let ?m = "foldl (add_by_path sha256) bm_empty objs"
  have get: "bm_get ?m p = find (\<lambda>b. object_path sha256 b = p) objs" for p by (simp add: foldl_add_by_path)
  have "dom (bm_get ?m) = object_path sha256 ` set objs" by (auto simp: get dom_def find_Some_iff2 find_None_iff image_iff)
  then have "bm_keys ?m = sorted_list_of_set (object_path sha256 ` set objs)" by (intro sorted_distinct_set_unique) simp_all
  then show ?thesis by (simp add: publication_additions_def content_files_def bm_entries_conv_keys get)
qed

lemma content_files_found:
  assumes "fa \<in> set (content_files sha256 objs)"
  shows "fa_path fa = object_path sha256 (fa_bytes fa)" and "fa_bytes fa \<in> set objs"
  using publication_additions_paths(2) [of fa sha256 objs] assms by (simp_all add: publication_additions_exact)

lemma content_files_paths: "map fa_path (content_files sha256 objs) = sorted_list_of_set (object_path sha256 ` set objs)"
  by (simp add: content_files_def o_def)

text \<open>A name determines the digest, so with a digest without collisions the files are the objects themselves.\<close>

lemma unat_hex_digit: "n < 16 \<Longrightarrow> unat (hex_digit n) = (if n < 10 then 48 + n else 87 + n)"
proof -
  assume "n < 16"
  have "unat (word_of_nat m :: u8) = m" if "m < 256" for m
    using that by (simp only: unat_of_nat) (simp add: take_bit_nat_eq_self)
  from this [of "48 + n"] this [of "87 + n"] \<open>n < 16\<close> show ?thesis
    unfolding hex_digit_def by (auto simp del: of_nat_add)
qed

lemma hex_digit_inject: "m < 16 \<Longrightarrow> n < 16 \<Longrightarrow> hex_digit m = hex_digit n \<Longrightarrow> m = n"
proof -
  assume "m < 16" "n < 16" "hex_digit m = hex_digit n"
  then have "(if m < 10 then 48 + m else 87 + m) = (if n < 10 then 48 + n else 87 + n)"
    by (metis unat_hex_digit)
  then show "m = n" by (auto split: if_splits)
qed

lemma hex_byte_inject: "hex_byte a = hex_byte b \<longleftrightarrow> a = b"
proof
  assume h: "hex_byte a = hex_byte b"
  have "unat a < 16 * 16" "unat b < 16 * 16" using unsigned_less [of a, where ?'a = nat] unsigned_less [of b, where ?'a = nat] by simp_all
  then have "unat a div 16 < 16" "unat b div 16 < 16" by (simp_all only: less_mult_imp_div_less)
  moreover have "unat a mod 16 < 16" "unat b mod 16 < 16" by simp_all
  moreover have "hex_digit (unat a div 16) = hex_digit (unat b div 16)" "hex_digit (unat a mod 16) = hex_digit (unat b mod 16)"
    using h by (simp_all only: hex_byte_def list.inject)
  ultimately have "unat a div 16 = unat b div 16" "unat a mod 16 = unat b mod 16" using hex_digit_inject by blast+
  then have "unat a = unat b" by (metis mult_div_mod_eq)
  then show "a = b" by (rule unsigned_word_eqI)
qed simp

lemma object_path_inject: "object_path sha256 a = object_path sha256 b \<longleftrightarrow> sha256 a = sha256 b"
proof -
  have "concat (map hex_byte xs) = concat (map hex_byte ys) \<Longrightarrow> xs = ys" for xs ys
  proof (induction xs arbitrary: ys)
    case Nil
    then show ?case by (cases ys) (simp_all add: hex_byte_def)
  next
    case (Cons x xs)
    then obtain y ys' where ys: "ys = y # ys'" by (cases ys) (simp_all add: hex_byte_def)
    with Cons.prems have "hex_byte x @ concat (map hex_byte xs) = hex_byte y @ concat (map hex_byte ys')" by simp
    moreover have "length (hex_byte x) = length (hex_byte y)" by (simp add: hex_byte_def)
    ultimately have "hex_byte x = hex_byte y" "concat (map hex_byte xs) = concat (map hex_byte ys')" by simp_all
    with Cons.IH ys show ?case by (simp add: hex_byte_inject)
  qed
  then show ?thesis by (auto simp: object_path_def)
qed

lemma content_files_bytes:
  "set (map fa_bytes (content_files sha256 objs)) \<subseteq> set objs"
  "map (object_path sha256) (map fa_bytes (content_files sha256 objs)) = sorted_list_of_set (object_path sha256 ` set objs)"
  "inj_on sha256 (set objs) \<Longrightarrow> set (map fa_bytes (content_files sha256 objs)) = set objs"
  "distinct (map fa_bytes (content_files sha256 objs))"
proof -
  let ?f = "map fa_bytes (content_files sha256 objs)"
  show sub: "set ?f \<subseteq> set objs" using content_files_found(2) by auto
  show paths: "map (object_path sha256) ?f = sorted_list_of_set (object_path sha256 ` set objs)"
    unfolding content_files_paths [symmetric] using content_files_found(1) by simp
  show "distinct ?f"
    using paths by (metis distinct_map distinct_sorted_list_of_set)
  have im: "object_path sha256 ` set ?f = object_path sha256 ` set objs"
    using arg_cong [OF paths, of set] by (simp add: image_image)
  show "set ?f = set objs" if "inj_on sha256 (set objs)"
  proof -
    have "inj_on (object_path sha256) (set objs)" using that by (simp add: inj_on_def object_path_inject)
    from inj_on_image_eq_iff [OF this sub order_refl] im show ?thesis by (rule iffD1)
  qed
qed

section \<open>Requests of a fetch\<close>

text \<open>A client that counts the commits it was asked for.\<close>

definition counted :: "('a, 'e) GitHubApi \<Rightarrow> ('a \<times> nat, 'e) GitHubApi" where
  "counted api = \<lparr>branch_head = (\<lambda>(a, n). case branch_head api a of (r, a') \<Rightarrow> (r, a', n)),
     create_commit_on_branch = (\<lambda>(a, n) e adds msg. case create_commit_on_branch api a e adds msg of (r, a') \<Rightarrow> (r, a', n)),
     commit_info = (\<lambda>(a, n) oid. case commit_info api a oid of (r, a') \<Rightarrow> (r, a', n + 1)),
     read_file_at = (\<lambda>(a, n) oid path. case read_file_at api a oid path of (r, a') \<Rightarrow> (r, a', n))\<rparr>"

lemma counted_info: "commit_info (counted api) (a, n) oid = (case commit_info api a oid of (r, a') \<Rightarrow> (r, a', n + 1))"
  by (simp add: counted_def)

lemma walk_back_requests:
  "walk_back (counted api) limit known cursor commits (a, n) = (r, a', n') \<Longrightarrow> length commits \<le> limit \<Longrightarrow>
     n' + length commits \<le> n + limit"
proof (induction "counted api" limit known cursor commits "(a, n)" arbitrary: a n rule: walk_back.induct)
  case (1 limit known cursor commits a n)
  show ?case
  proof (cases "cursor = known \<or> limit \<le> length commits")
    case True
    with 1(2,3) show ?thesis by (subst (asm) walk_back.simps) (auto split: if_splits)
  next
    case False
    obtain ir a1 where i: "commit_info api a cursor = (ir, a1)" by fastforce
    show ?thesis
    proof (cases "\<exists>info p. ir = Ok info \<and> ci_oid info = cursor \<and> ci_parents info = [p]")
      case True
      then obtain info p where ir: "ir = Ok info" "ci_oid info = cursor" "ci_parents info = [p]" by blast
      have rest: "walk_back (counted api) limit known p (commits @ [info]) (a1, n + 1) = (r, a', n')"
        using 1(2) False i ir by (subst (asm) walk_back.simps) (simp add: counted_info)
      have "n' + length (commits @ [info]) \<le> (n + 1) + limit"
        using False rest i ir by (intro 1(1)) (auto simp: counted_info)
      then show ?thesis by simp
    next
      case no: False
      have "n' = n + 1"
        using 1(2) False i no by (subst (asm) walk_back.simps)
          (auto simp: counted_info split: result.splits if_splits list.splits)
      with False show ?thesis by simp
    qed
  qed
qed

lemma collect_changes_requests:
  "collect_changes sha256 (counted api) oid changes st (a, n) = (r, a', n') \<Longrightarrow> n' = n"
proof (induction changes arbitrary: st a)
  case (Cons c cs)
  obtain seen objs where st: "st = (seen, objs)" by fastforce
  obtain fr a1 where f: "read_file_at api a oid (fc_path c) = (fr, a1)" by fastforce
  then have f': "read_file_at (counted api) (a, n) oid (fc_path c) = (fr, a1, n)" by (simp add: counted_def)
  from Cons.prems show ?case unfolding st collect_changes_step f' by (auto dest: Cons.IH split: if_splits result.splits)
qed simp

lemma collect_commits_requests:
  "collect_commits sha256 (counted api) cs st (a, n) = (r, a', n') \<Longrightarrow> n' = n"
proof (induction cs arbitrary: st a)
  case (Cons c cs)
  obtain cr a1 n1 where c: "collect_changes sha256 (counted api) (ci_oid c) (ci_changes c) st (a, n) = (cr, a1, n1)"
    by (metis prod_cases3)
  from Cons.prems collect_changes_requests [OF c] show ?case by (auto simp: c dest: Cons.IH split: result.splits)
qed simp

text \<open>A history without end: every commit has one parent and the known head is not within reach.\<close>

lemma walk_back_gives_up:
  assumes "\<And>c. \<exists>i. commit_info api a c = (Ok i, a) \<and> ci_oid i = c \<and> ci_parents i = [par c]"
    and "\<And>j. j + length commits \<le> limit \<Longrightarrow> (par ^^ j) cursor \<noteq> known" and "length commits \<le> limit"
  shows "walk_back (counted api) limit known cursor commits (a, n) = (Ok None, a, n + (limit - length commits))"
  using assms(2,3)
proof (induction "limit - length commits" arbitrary: cursor commits n)
  case 0
  with 0(2) [of 0] show ?case by (subst walk_back.simps) simp
next
  case (Suc k)
  obtain i where i: "commit_info api a cursor = (Ok i, a)" "ci_oid i = cursor" "ci_parents i = [par cursor]" using assms(1) by blast
  have "walk_back (counted api) limit known (par cursor) (commits @ [i]) (a, n + 1) =
      (Ok None, a, (n + 1) + (limit - length (commits @ [i])))"
  proof (rule Suc(1))
    fix j assume "j + length (commits @ [i]) \<le> limit"
    then show "(par ^^ j) (par cursor) \<noteq> known" using Suc(3) [of "Suc j"] by (simp add: funpow_swap1)
  qed (use Suc(2) in simp_all)
  moreover have "cursor \<noteq> known" "\<not> limit \<le> length commits" using Suc(2) Suc(3) [of 0] Suc(4) by auto
  ultimately show ?case using Suc(2) by (subst walk_back.simps) (simp add: counted_info i)
qed

section \<open>Properties\<close>

text \<open>
  C26. A fetch returns exactly what was added, whatever the service answers: a \<^verbatim>\<open>Changed\<close> outcome
  names the head the service reported and rests on a single-parent chain, of at most the configured number of
  commits, that the service described back to the known head; its objects are, one for one and in ancestry
  order, the files the service delivered for the object changes of that chain, each change an addition, no
  path twice, each object carrying the bytes its name is the digest of. Conversely a service that answers for a
  history, within the limit, gets exactly the files that history added.
\<close>

theorem github_fetch_sound:
  shows "(GitHubTransport_fetch_since sha256 api t (Some known) = (Ok (Changed head objs), t') \<longrightarrow>
      fst (branch_head api (gt_api t)) = Ok (Some head) \<and>
      (\<exists>commits. ancestry head commits known \<and> length commits \<le> max_incremental_commits t \<and>
        (\<forall>i \<in> set commits. commit_answered api i) \<and>
        list_all2 (carries sha256 api) (located_changes (rev commits)) objs \<and> distinct (map (object_path sha256) objs))) \<and>
    (serves_history sha256 api (gt_api t) head commits file \<and> ancestry head commits known \<and> head \<noteq> known \<and>
        length commits \<le> max_incremental_commits t \<longrightarrow>
      GitHubTransport_fetch_since sha256 api t (Some known) =
        (Ok (Changed head (map (file o fc_path) (object_changes (rev commits)))), t))"
proof (intro conjI impI)
  assume run: "GitHubTransport_fetch_since sha256 api t (Some known) = (Ok (Changed head objs), t')"
  then obtain a a1 commits seen a2 where head: "branch_head api (gt_api t) = (Ok (Some head), a)"
    and walk: "walk_back api (max_incremental_commits t) known head [] a = (Ok (Some commits), a1)"
    and col: "collect_commits sha256 api (rev commits) (bm_empty, []) a1 = (Ok (seen, objs), a2)"
    by (auto simp: GitHubTransport_fetch_since_def split: prod.splits result.splits if_splits option.splits)
  show "fst (branch_head api (gt_api t)) = Ok (Some head)" using head by simp
  from collect_commits_sound [OF col] have objs: "list_all2 (carries sha256 api) (located_changes (rev commits)) objs"
    "distinct (map fc_path (object_changes (rev commits)))" by auto
  have "map (object_path sha256) objs = map (fc_path o snd) (located_changes (rev commits))"
    using objs(1) by (induction rule: list_all2_induct) (simp_all add: carries_def)
  then have "map (object_path sha256) objs = map fc_path (object_changes (rev commits))"
    by (simp add: located_changes_snd [symmetric])
  with walk_back_sound [OF walk] objs show "\<exists>commits. ancestry head commits known \<and> length commits \<le> max_incremental_commits t \<and>
        (\<forall>i \<in> set commits. commit_answered api i) \<and>
        list_all2 (carries sha256 api) (located_changes (rev commits)) objs \<and> distinct (map (object_path sha256) objs)"
    by (intro exI [of _ commits]) simp
qed (auto intro: fetch_complete)

text \<open>A repository with one commit on top of a root, its object named by an identity digest.\<close>

definition sample_oid :: "u8 \<Rightarrow> GitHubCommitOid" where
  "sample_oid n = GitHubCommitOid [n]"

definition sample_file :: GitHubFileAddition where
  "sample_file = \<lparr>fa_path = object_path (\<lambda>b. b) [5], fa_bytes = [5]\<rparr>"

definition sample_commit :: GitHubCommitInfo where
  "sample_commit = \<lparr>ci_oid = sample_oid 98, ci_parents = [sample_oid 97],
     ci_changes = [\<lparr>fc_path = fa_path sample_file, fc_kind = Added\<rparr>]\<rparr>"

definition sample_api :: "(bool, unit) GitHubApi" where
  "sample_api = \<lparr>branch_head = (\<lambda>a. (Ok (Some (sample_oid (if a then 98 else 97))), a)),
     create_commit_on_branch = (\<lambda>a expected adds msg.
       if expected = sample_oid (if a then 98 else 97) then (Ok (Created (sample_oid 98)), True)
       else (Ok (HeadChanged (Some (sample_oid 98))), a)),
     commit_info = (\<lambda>a oid. (Ok sample_commit, a)), read_file_at = (\<lambda>a oid path. (Ok [5], a))\<rparr>"

lemma sample_object: "is_object_change \<lparr>fc_path = fa_path sample_file, fc_kind = Added\<rparr>"
  by (simp add: is_object_change_def sample_file_def object_path_def strip_prefix_def)

lemma sample_serves: "serves_history (\<lambda>b. b) sample_api True (sample_oid 98) [sample_commit] (\<lambda>_. [5])"
  using sample_object
  by (simp add: serves_history_def sample_api_def sample_commit_def object_changes_def sample_file_def)

lemma sample_fetch:
  "GitHubTransport_fetch_since (\<lambda>b. b) sample_api (GitHubTransport_new True) (Some (sample_oid 97)) =
     (Ok (Changed (sample_oid 98) [[5]]), GitHubTransport_new True)"
proof -
  have "object_changes [sample_commit] = [\<lparr>fc_path = fa_path sample_file, fc_kind = Added\<rparr>]"
    using sample_object by (simp add: object_changes_def sample_commit_def)
  then show ?thesis
    using fetch_complete [of "\<lambda>b. b" sample_api "GitHubTransport_new True" "sample_oid 98" "[sample_commit]" "\<lambda>_. [5]" "sample_oid 97"]
      sample_serves
    by (simp add: GitHubTransport_new_def DEFAULT_MAX_INCREMENTAL_COMMITS_def sample_commit_def sample_oid_def)
qed

theorem github_fetch_sound_witness:
  "GitHubTransport_fetch_since (\<lambda>b. b) sample_api (GitHubTransport_new True) (Some (sample_oid 97)) =
      (Ok (Changed (sample_oid 98) [[5]]), GitHubTransport_new True) \<and>
    (\<exists>commits. ancestry (sample_oid 98) commits (sample_oid 97) \<and> (\<forall>i \<in> set commits. i = sample_commit) \<and>
      list_all2 (carries (\<lambda>b. b) sample_api) (located_changes (rev commits)) [[5]])"
proof -
  have "commit_answered sample_api i \<Longrightarrow> i = sample_commit" for i by (simp add: commit_answered_def sample_api_def)
  with github_fetch_sound [of "\<lambda>b. b" sample_api "GitHubTransport_new True" "sample_oid 97" "sample_oid 98" "[[5]]" "GitHubTransport_new True"]
    sample_fetch show ?thesis by blast
qed

text \<open>
  C27. Publish and fetch fit together: a publication offers the service, against exactly the expected head, one
  file per distinct object name with an object of that name, and once the service has created that commit, a
  fetch from the old head returns those objects under the new head: each name once, in the order of names,
  nothing that was not published, and with a digest that does not collide on them exactly the published
  objects. A publication without objects or without an expected head never creates a commit, and a service
  that claims success without moving the head is refused.
\<close>

theorem github_publish_then_fetch:
  assumes "create_commit_on_branch api (gt_api t) expected (content_files sha256 objs) COMMIT_MESSAGE = (Ok (Created head), a)"
    and "objs \<noteq> []"
  shows "(head = expected \<longrightarrow> fst (GitHubTransport_publish sha256 api t (Some expected) objs) = Err InvalidCreatedHead) \<and>
    (head \<noteq> expected \<longrightarrow> GitHubTransport_publish sha256 api t (Some expected) objs = (Ok (Published head), t\<lparr>gt_api := a\<rparr>) \<and>
      (serves_history sha256 api a head [\<lparr>ci_oid = head, ci_parents = [expected],
          ci_changes = map (\<lambda>fa. \<lparr>fc_path = fa_path fa, fc_kind = Added\<rparr>) (content_files sha256 objs)\<rparr>] file \<and>
        (\<forall>fa \<in> set (content_files sha256 objs). file (fa_path fa) = fa_bytes fa) \<and> 1 \<le> max_incremental_commits t \<longrightarrow>
       (\<exists>fetched. GitHubTransport_fetch_since sha256 api (t\<lparr>gt_api := a\<rparr>) (Some expected) =
           (Ok (Changed head fetched), t\<lparr>gt_api := a\<rparr>) \<and>
         map (object_path sha256) fetched = sorted_list_of_set (object_path sha256 ` set objs) \<and>
         distinct fetched \<and> set fetched \<subseteq> set objs \<and> (inj_on sha256 (set objs) \<longrightarrow> set fetched = set objs)))) \<and>
    GitHubTransport_publish sha256 api t (Some expected) [] = (Err EmptyPublication, t) \<and>
    snd (GitHubTransport_publish sha256 api t None objs) = t\<lparr>gt_api := snd (branch_head api (gt_api t))\<rparr>"
proof (intro conjI impI)
  let ?adds = "content_files sha256 objs"
  assume ne: "head \<noteq> expected"
  show "GitHubTransport_publish sha256 api t (Some expected) objs = (Ok (Published head), t\<lparr>gt_api := a\<rparr>)"
    using assms ne by (simp add: GitHubTransport_publish_def publication_additions_exact)
  let ?ch = "map (\<lambda>fa. \<lparr>fc_path = fa_path fa, fc_kind = Added\<rparr>) ?adds"
  let ?info = "\<lparr>ci_oid = head, ci_parents = [expected], ci_changes = ?ch\<rparr>"
  assume s: "serves_history sha256 api a head [?info] file \<and>
    (\<forall>fa \<in> set ?adds. file (fa_path fa) = fa_bytes fa) \<and> 1 \<le> max_incremental_commits t"
  have "is_object_change c" if "c \<in> set ?ch" for c
    using that content_files_found(1) [of _ sha256 objs]
    by (auto simp: is_object_change_def object_path_def strip_prefix_def)
  then have oc: "object_changes (rev [?info]) = ?ch" by (simp add: object_changes_def)
  have "map (file o fc_path) ?ch = map fa_bytes ?adds" using s by simp
  with fetch_complete [of sha256 api "t\<lparr>gt_api := a\<rparr>" head "[?info]" "file" expected] s ne
  have "GitHubTransport_fetch_since sha256 api (t\<lparr>gt_api := a\<rparr>) (Some expected) =
      (Ok (Changed head (map fa_bytes ?adds)), t\<lparr>gt_api := a\<rparr>)" unfolding oc by simp
  with content_files_bytes [of sha256 objs] show "\<exists>fetched. GitHubTransport_fetch_since sha256 api (t\<lparr>gt_api := a\<rparr>) (Some expected) =
           (Ok (Changed head fetched), t\<lparr>gt_api := a\<rparr>) \<and>
         map (object_path sha256) fetched = sorted_list_of_set (object_path sha256 ` set objs) \<and>
         distinct fetched \<and> set fetched \<subseteq> set objs \<and> (inj_on sha256 (set objs) \<longrightarrow> set fetched = set objs)" by blast
qed (use assms in \<open>simp_all add: GitHubTransport_publish_def publication_additions_exact split: prod.splits result.splits option.splits\<close>)

theorem github_publish_then_fetch_witness:
  "GitHubTransport_publish (\<lambda>b. b) sample_api (GitHubTransport_new False) (Some (sample_oid 97)) [[5], [5]] =
     (Ok (Published (sample_oid 98)), GitHubTransport_new True) \<and>
   GitHubTransport_fetch_since (\<lambda>b. b) sample_api (GitHubTransport_new True) (Some (sample_oid 97)) =
     (Ok (Changed (sample_oid 98) [[5]]), GitHubTransport_new True)"
proof -
  have adds: "content_files (\<lambda>b. b) [[5], [5]] = [sample_file]"
    by (simp add: content_files_def sample_file_def)
  have create: "create_commit_on_branch sample_api (gt_api (GitHubTransport_new False)) (sample_oid 97)
      (content_files (\<lambda>b. b) [[5], [5]]) COMMIT_MESSAGE = (Ok (Created (sample_oid 98)), True)"
    by (simp add: sample_api_def GitHubTransport_new_def)
  have t: "(GitHubTransport_new False)\<lparr>gt_api := True\<rparr> = GitHubTransport_new True" by (simp add: GitHubTransport_new_def)
  have ne: "sample_oid 98 \<noteq> sample_oid 97" "[[5], [5]] \<noteq> ([] :: bytes list)" by (simp_all add: sample_oid_def)
  note run = github_publish_then_fetch [OF create ne(2), of "\<lambda>_. [5]", unfolded adds t, THEN conjunct2, THEN conjunct1, THEN mp, OF ne(1)]
  have "serves_history (\<lambda>b. b) sample_api True (sample_oid 98) [\<lparr>ci_oid = sample_oid 98, ci_parents = [sample_oid 97],
      ci_changes = map (\<lambda>fa. \<lparr>fc_path = fa_path fa, fc_kind = Added\<rparr>) [sample_file]\<rparr>] (\<lambda>_. [5])"
    using sample_serves by (simp add: sample_commit_def)
  moreover have "\<forall>fa \<in> set [sample_file]. [5] = fa_bytes fa" "1 \<le> max_incremental_commits (GitHubTransport_new False)"
    by (simp_all add: sample_file_def GitHubTransport_new_def DEFAULT_MAX_INCREMENTAL_COMMITS_def)
  ultimately obtain fetched where f: "GitHubTransport_fetch_since (\<lambda>b. b) sample_api (GitHubTransport_new True) (Some (sample_oid 97)) =
      (Ok (Changed (sample_oid 98) fetched), GitHubTransport_new True)"
    "distinct fetched" "set fetched = {[5]}"
    using run [THEN conjunct2] by auto
  from f(2,3) have "fetched = [[5]]"
    by (cases fetched; cases "tl fetched") auto
  with f(1) run show ?thesis by simp
qed

text \<open>
  C28. A fetch always ends, whatever history the service presents: it asks for at most the configured
  number of commits, and on a history that never leads back to the known head, a cycle or an endless
  chain, it asks for exactly that number and reports that the baseline is unavailable.
\<close>

theorem github_walk_ends:
  assumes "GitHubTransport_fetch_since sha256 (counted api) \<lparr>gt_api = (a, 0), max_incremental_commits = m\<rparr> known = (r, t')"
  shows "snd (gt_api t') \<le> m \<and>
    ((\<forall>c. \<exists>i. commit_info api a c = (Ok i, a) \<and> ci_oid i = c \<and> ci_parents i = [par c]) \<and>
     branch_head api a = (Ok (Some head), a) \<and> known = Some k \<and> (\<forall>j \<le> m. (par ^^ j) head \<noteq> k) \<longrightarrow>
       r = Ok (BaselineUnavailable (Some head)) \<and> snd (gt_api t') = m)"
proof -
  obtain hr a1 where h: "branch_head api a = (hr, a1)" by fastforce
  then have h': "branch_head (counted api) (a, 0) = (hr, a1, 0)" by (simp add: counted_def)
  have "snd (gt_api t') \<le> m"
  proof (cases "\<exists>k c. known = Some k \<and> hr = Ok (Some c) \<and> c \<noteq> k")
    case True
    then obtain k c where kc: "known = Some k" "hr = Ok (Some c)" "c \<noteq> k" by blast
    obtain wr a2 n2 where w: "walk_back (counted api) m k c [] (a1, 0) = (wr, a2, n2)" by (metis prod_cases3)
    have n2: "n2 \<le> m" using walk_back_requests [OF w] by simp
    show ?thesis
    proof (cases "\<exists>commits. wr = Ok (Some commits)")
      case True
      then obtain commits where wr: "wr = Ok (Some commits)" by blast
      obtain cr a3 n3 where col: "collect_commits sha256 (counted api) (rev commits) (bm_empty, []) (a2, n2) = (cr, a3, n3)"
        by (metis prod_cases3)
      have "gt_api t' = (a3, n3)"
        using assms kc h' w wr col by (auto simp: GitHubTransport_fetch_since_def split: result.splits)
      with collect_commits_requests [OF col] n2 show ?thesis by simp
    next
      case False
      with assms kc h' w have "gt_api t' = (a2, n2)"
        by (auto simp: GitHubTransport_fetch_since_def split: result.splits option.splits)
      with n2 show ?thesis by simp
    qed
  next
    case False
    with assms h' have "gt_api t' = (a1, 0)"
      by (auto simp: GitHubTransport_fetch_since_def split: result.splits option.splits if_splits)
    then show ?thesis by simp
  qed
  moreover have "r = Ok (BaselineUnavailable (Some head)) \<and> snd (gt_api t') = m"
    if hist: "\<And>c. \<exists>i. commit_info api a c = (Ok i, a) \<and> ci_oid i = c \<and> ci_parents i = [par c]"
      and b: "branch_head api a = (Ok (Some head), a)" and k: "known = Some k" and out: "\<forall>j \<le> m. (par ^^ j) head \<noteq> k"
  proof -
    have b': "branch_head (counted api) (a, 0) = (Ok (Some head), a, 0)" using b by (simp add: counted_def)
    have "head \<noteq> k" using out by (metis funpow_0 le0)
    moreover have "walk_back (counted api) m k head [] (a, 0) = (Ok None, a, 0 + (m - length ([] :: GitHubCommitInfo list)))"
      using hist out by (intro walk_back_gives_up) auto
    ultimately show ?thesis using assms k b' by (auto simp: GitHubTransport_fetch_since_def)
  qed
  ultimately show ?thesis by blast
qed

text \<open>Two commits that are each other's parent.\<close>

definition cyclic_api :: "(unit, unit) GitHubApi" where
  "cyclic_api = \<lparr>branch_head = (\<lambda>a. (Ok (Some (sample_oid 97)), a)),
     create_commit_on_branch = (\<lambda>a expected adds msg. (Err (), a)),
     commit_info = (\<lambda>a oid. (Ok \<lparr>ci_oid = oid, ci_parents = [sample_oid (if oid = sample_oid 97 then 98 else 97)], ci_changes = []\<rparr>, a)),
     read_file_at = (\<lambda>a oid path. (Err (), a))\<rparr>"

theorem github_walk_ends_witness:
  "fst (GitHubTransport_fetch_since (\<lambda>b. b) (counted cyclic_api) \<lparr>gt_api = ((), 0), max_incremental_commits = 3\<rparr> (Some (sample_oid 99))) =
     Ok (BaselineUnavailable (Some (sample_oid 97)))"
proof -
  let ?par = "\<lambda>oid. sample_oid (if oid = sample_oid 97 then 98 else 97)"
  obtain r t' where run: "GitHubTransport_fetch_since (\<lambda>b. b) (counted cyclic_api) \<lparr>gt_api = ((), 0), max_incremental_commits = 3\<rparr>
      (Some (sample_oid 99)) = (r, t')" by fastforce
  have step: "?par oid \<noteq> sample_oid 99" for oid by (simp add: sample_oid_def)
  have "(?par ^^ j) (sample_oid 97) \<noteq> sample_oid 99" for j
    by (cases j) (use step in \<open>simp_all add: sample_oid_def\<close>)
  then show ?thesis
    using github_walk_ends [OF run, of ?par "sample_oid 97" "sample_oid 99"] run by (simp add: cyclic_api_def)
qed

end
