(* ===== verification/Trusted_State.thy ===== *)
theory Trusted_State
  imports Local_Domain Revision_Codec
begin

text \<open>
  The local recovery encoding of one byte-valued scalar domain,
  \<^verbatim>\<open>apc-runtime/src/trusted_state.rs\<close>: both directions run \<^verbatim>\<open>LocalScalarDomain::restore\<close>, so
  nothing malformed is made durable and nothing malformed comes back.
\<close>

section \<open>The codec interface\<close>

text \<open>The \<^verbatim>\<open>TrustedStateCodec\<close> trait of \<^verbatim>\<open>apc-runtime/src/publication.rs\<close>. Its documentation
  asks for mutual consistency of both directions, which is the law of the locale; \<open>state_wf\<close> is
  what the states of the client satisfy.\<close>

record ('s, 'e) TrustedStateCodec =
  tc_encode :: "'s \<Rightarrow> (bytes, 'e) result"
  tc_decode :: "bytes \<Rightarrow> ('s, 'e) result"

locale trusted_state_codec =
  fixes codec :: "('s, 'e) TrustedStateCodec" and state_wf :: "'s \<Rightarrow> bool"
  assumes decode_encode: "state_wf s \<Longrightarrow> tc_encode codec s = Ok bs \<Longrightarrow> length bs \<le> isize_max \<Longrightarrow>
      tc_decode codec bs = Ok s"
begin

text \<open>Distinct states have distinct encodings.\<close>

lemma encode_injective:
  assumes "state_wf s" and "state_wf s'" and "tc_encode codec s = Ok bs" and "tc_encode codec s' = Ok bs"
    and "length bs \<le> isize_max"
  shows "s = s'"
  using decode_encode [OF assms(1,3,5)] decode_encode [OF assms(2,4,5)] by simp

end

section \<open>Encoding\<close>

datatype TrustedStateCodecError =
    Trusted_InvalidMagic
  | Trusted_UnsupportedVersion u16
  | Trusted_UnexpectedEof
  | Trusted_LengthOverflow
  | Trusted_TrailingBytes
  | Trusted_InvalidBoolean
  | Trusted_DuplicateRevisionInSet
  | Trusted_DuplicateFinalizedStatement
  | Trusted_Core CoreError

definition LREC_MAGIC :: bytes where
  "LREC_MAGIC = ascii ''APCLREC1''"

definition LREC_VERSION :: u16 where
  "LREC_VERSION = 1"

definition trusted_write_id_set :: "bytes \<Rightarrow> RevisionId btree_set \<Rightarrow> (bytes, TrustedStateCodecError) result" where
  "trusted_write_id_set = write_id_set Trusted_LengthOverflow"

definition trusted_write_register :: "bytes \<Rightarrow> bytes ScalarRegister \<Rightarrow> (bytes, TrustedStateCodecError) result" where
  "trusted_write_register out register =
     (case ScalarRegister_validate register of
        Err e \<Rightarrow> Err (Trusted_Core e)
      | Ok _ \<Rightarrow> write_register Trusted_LengthOverflow out register)"

text \<open>The \<^verbatim>\<open>match &snapshot.working.pending\<close> of the encoder.\<close>

definition write_pending :: "bytes \<Rightarrow> bytes WorkingEpoch option \<Rightarrow> (bytes, TrustedStateCodecError) result" where
  "write_pending out pending =
     (case pending of
        None \<Rightarrow> Ok (out @ [0])
      | Some epoch \<Rightarrow>
          (case write_bytes Trusted_LengthOverflow (out @ [1] @ opaque_id_as_bytes (epoch_id epoch)) (epoch_value epoch) of
             Err e \<Rightarrow> Err e
           | Ok out1 \<Rightarrow> trusted_write_id_set out1 (observed_frontier epoch)))"

definition write_statement ::
    "bytes \<Rightarrow> RevisionId \<times> bytes FinalizedStatement \<Rightarrow> (bytes, TrustedStateCodecError) result" where
  "write_statement out e =
     (case e of (revision_id, statement) \<Rightarrow>
        (case write_bytes Trusted_LengthOverflow (out @ opaque_id_as_bytes revision_id) (fs_value statement) of
           Err er \<Rightarrow> Err er
         | Ok out1 \<Rightarrow> trusted_write_id_set out1 (fs_parents statement)))"

definition write_finalized ::
    "bytes \<Rightarrow> (RevisionId, bytes FinalizedStatement) btree_map \<Rightarrow> (bytes, TrustedStateCodecError) result" where
  "write_finalized out m =
     (case write_len Trusted_LengthOverflow out (bm_len m) of
        Err e \<Rightarrow> Err e
      | Ok out1 \<Rightarrow> try_fold write_statement out1 (bm_entries m))"

definition encode_local_scalar_snapshot ::
    "bytes LocalScalarSnapshot \<Rightarrow> (bytes, TrustedStateCodecError) result" where
  "encode_local_scalar_snapshot snapshot =
     (case LocalScalarDomain_restore snapshot of
        Err e \<Rightarrow> Err (Trusted_Core e)
      | Ok _ \<Rightarrow>
     (case trusted_write_register (LREC_MAGIC @ to_be_bytes LREC_VERSION) (snap_causal (snap_working snapshot)) of
        Err e \<Rightarrow> Err e
      | Ok o1 \<Rightarrow>
     (case write_pending o1 (snap_pending (snap_working snapshot)) of
        Err e \<Rightarrow> Err e
      | Ok o2 \<Rightarrow>
     (case trusted_write_id_set o2 (snap_local_revision_ids (snap_finalization snapshot)) of
        Err e \<Rightarrow> Err e
      | Ok o3 \<Rightarrow>
     (case write_finalized o3 (snap_finalized (snap_finalization snapshot)) of
        Err e \<Rightarrow> Err e
      | Ok o4 \<Rightarrow>
     (case trusted_write_id_set o4 (snap_exposed_local_ids (snap_finalization snapshot)) of
        Err e \<Rightarrow> Err e
      | Ok o5 \<Rightarrow> trusted_write_id_set o5 (snap_handed_off_local_ids (snap_finalization snapshot))))))))"

section \<open>Decoding\<close>

abbreviation "trusted_read_exact \<equiv> Reader_read_exact Trusted_LengthOverflow Trusted_UnexpectedEof"
abbreviation "trusted_read_len \<equiv> Reader_read_len Trusted_LengthOverflow Trusted_UnexpectedEof"
abbreviation "trusted_read_vec \<equiv> Reader_read_vec Trusted_LengthOverflow Trusted_UnexpectedEof"

definition trusted_read_u8 :: "(u8, TrustedStateCodecError) parser" where
  "trusted_read_u8 = p_bind (trusted_read_exact 1) (\<lambda>bs. p_return (bs ! 0))"

definition trusted_read_revision_id :: "(RevisionId, TrustedStateCodecError) parser" where
  "trusted_read_revision_id = Reader_read_id Trusted_LengthOverflow Trusted_UnexpectedEof"

definition trusted_read_working_epoch_id :: "(WorkingEpochId, TrustedStateCodecError) parser" where
  "trusted_read_working_epoch_id = Reader_read_id Trusted_LengthOverflow Trusted_UnexpectedEof"

definition trusted_read_id_set :: "(RevisionId btree_set, TrustedStateCodecError) parser" where
  "trusted_read_id_set = read_id_set Trusted_LengthOverflow Trusted_UnexpectedEof Trusted_DuplicateRevisionInSet"

definition trusted_read_register :: "(bytes ScalarRegister, TrustedStateCodecError) parser" where
  "trusted_read_register =
     read_register Trusted_LengthOverflow Trusted_UnexpectedEof Trusted_DuplicateRevisionInSet Trusted_Core"

definition read_pending :: "(bytes WorkingEpoch option, TrustedStateCodecError) parser" where
  "read_pending =
     p_bind trusted_read_u8 (\<lambda>flag.
       if flag = 0 then p_return None
       else if flag = 1 then
         p_bind trusted_read_working_epoch_id (\<lambda>i.
         p_bind trusted_read_vec (\<lambda>v.
         p_bind trusted_read_id_set (\<lambda>frontier.
           p_return (Some \<lparr>epoch_id = i, epoch_value = v, observed_frontier = frontier\<rparr>))))
       else p_lift (Err Trusted_InvalidBoolean))"

definition read_statement ::
    "(RevisionId, bytes FinalizedStatement) btree_map \<Rightarrow>
     ((RevisionId, bytes FinalizedStatement) btree_map, TrustedStateCodecError) parser" where
  "read_statement m =
     p_bind trusted_read_revision_id (\<lambda>i.
     p_bind trusted_read_vec (\<lambda>v.
     p_bind trusted_read_id_set (\<lambda>ps.
       p_lift (if bm_contains_key m i then Err Trusted_DuplicateFinalizedStatement
               else Ok (bm_insert i \<lparr>fs_revision_id = i, fs_value = v, fs_parents = ps\<rparr> m)))))"

definition read_local_scalar_snapshot :: "(bytes LocalScalarSnapshot, TrustedStateCodecError) parser" where
  "read_local_scalar_snapshot =
     p_bind (trusted_read_exact (length LREC_MAGIC)) (\<lambda>magic.
     p_bind (p_guard (magic = LREC_MAGIC) Trusted_InvalidMagic) (\<lambda>_.
     p_bind (Reader_read_u16 Trusted_LengthOverflow Trusted_UnexpectedEof) (\<lambda>version.
     p_bind (p_guard (version = LREC_VERSION) (Trusted_UnsupportedVersion version)) (\<lambda>_.
     p_bind trusted_read_register (\<lambda>causal.
     p_bind read_pending (\<lambda>pending.
     p_bind trusted_read_id_set (\<lambda>local_ids.
     p_bind trusted_read_len (\<lambda>finalized_count.
     p_bind (read_loop finalized_count read_statement bm_empty) (\<lambda>fin.
     p_bind trusted_read_id_set (\<lambda>exposed.
     p_bind trusted_read_id_set (\<lambda>handed_off.
       p_return
         \<lparr>snap_working = \<lparr>snap_causal = causal, snap_pending = pending\<rparr>,
          snap_finalization = \<lparr>snap_local_revision_ids = local_ids, snap_finalized = fin,
            snap_exposed_local_ids = exposed, snap_handed_off_local_ids = handed_off\<rparr>\<rparr>)))))))))))"

definition decode_local_scalar_snapshot :: "bytes \<Rightarrow> (bytes LocalScalarSnapshot, TrustedStateCodecError) result" where
  "decode_local_scalar_snapshot encoded =
     (case decode_all Trusted_TrailingBytes read_local_scalar_snapshot encoded of
        Err e \<Rightarrow> Err e
      | Ok snapshot \<Rightarrow>
          (case LocalScalarDomain_restore snapshot of
             Err e \<Rightarrow> Err (Trusted_Core e)
           | Ok _ \<Rightarrow> Ok snapshot))"

section \<open>What the writers write\<close>

definition enc_pending :: "bytes WorkingEpoch option \<Rightarrow> bytes" where
  "enc_pending pending =
     (case pending of
        None \<Rightarrow> [0]
      | Some e \<Rightarrow> [1] @ opaque_id_as_bytes (epoch_id e) @
          (len_prefix (length (epoch_value e)) @ epoch_value e) @ enc_ids (observed_frontier e))"

definition pending_fits :: "bytes WorkingEpoch option \<Rightarrow> bool" where
  "pending_fits pending \<longleftrightarrow>
     (\<forall>e. pending = Some e \<longrightarrow> length (epoch_value e) < 2 ^ 64 \<and> length (bs_iter (observed_frontier e)) < 2 ^ 64)"

definition enc_statement :: "RevisionId \<times> bytes FinalizedStatement \<Rightarrow> bytes" where
  "enc_statement e = opaque_id_as_bytes (fst e) @
     (len_prefix (length (fs_value (snd e))) @ fs_value (snd e)) @ enc_ids (fs_parents (snd e))"

definition statement_fits :: "RevisionId \<times> bytes FinalizedStatement \<Rightarrow> bool" where
  "statement_fits e \<longleftrightarrow> length (fs_value (snd e)) < 2 ^ 64 \<and> length (bs_iter (fs_parents (snd e))) < 2 ^ 64"

definition enc_finalized :: "(RevisionId, bytes FinalizedStatement) btree_map \<Rightarrow> bytes" where
  "enc_finalized m = len_prefix (length (bm_entries m)) @ concat (map enc_statement (bm_entries m))"

definition enc_snapshot :: "bytes LocalScalarSnapshot \<Rightarrow> bytes" where
  "enc_snapshot s = LREC_MAGIC @ to_be_bytes LREC_VERSION @
     enc_register (snap_causal (snap_working s)) @ enc_pending (snap_pending (snap_working s)) @
     enc_ids (snap_local_revision_ids (snap_finalization s)) @ enc_finalized (snap_finalized (snap_finalization s)) @
     enc_ids (snap_exposed_local_ids (snap_finalization s)) @ enc_ids (snap_handed_off_local_ids (snap_finalization s))"

definition snapshot_fits :: "bytes LocalScalarSnapshot \<Rightarrow> bool" where
  "snapshot_fits s \<longleftrightarrow>
     register_fits (snap_causal (snap_working s)) \<and> pending_fits (snap_pending (snap_working s)) \<and>
     length (bs_iter (snap_local_revision_ids (snap_finalization s))) < 2 ^ 64 \<and>
     length (bm_entries (snap_finalized (snap_finalization s))) < 2 ^ 64 \<and>
     (\<forall>e \<in> set (bm_entries (snap_finalized (snap_finalization s))). statement_fits e) \<and>
     length (bs_iter (snap_exposed_local_ids (snap_finalization s))) < 2 ^ 64 \<and>
     length (bs_iter (snap_handed_off_local_ids (snap_finalization s))) < 2 ^ 64"

lemma write_pending_Ok:
  "write_pending out p = Ok out' \<longleftrightarrow> pending_fits p \<and> out' = out @ enc_pending p"
  by (auto simp: write_pending_def enc_pending_def pending_fits_def trusted_write_id_set_def write_id_set_Ok
      write_bytes_def write_len_def split: option.splits)

lemma write_statement_Ok:
  "write_statement out e = Ok out' \<longleftrightarrow> statement_fits e \<and> out' = out @ enc_statement e"
  by (auto simp: write_statement_def enc_statement_def statement_fits_def trusted_write_id_set_def write_id_set_Ok
      write_bytes_def write_len_def split: prod.splits)

lemma write_finalized_Ok:
  assumes "write_finalized out m = Ok out'"
  shows "length (bm_entries m) < 2 ^ 64 \<and> (\<forall>e \<in> set (bm_entries m). statement_fits e) \<and> out' = out @ enc_finalized m"
proof -
  from assms have n: "length (bm_entries m) < 2 ^ 64"
    and loop: "try_fold write_statement (out @ len_prefix (length (bm_entries m))) (bm_entries m) = Ok out'"
    by (auto simp: write_finalized_def write_len_def bm_len_def split: if_splits)
  from try_fold_write [OF loop, of statement_fits enc_statement] n show ?thesis
    by (simp add: write_statement_Ok enc_finalized_def)
qed

lemma encode_snapshot_Ok:
  assumes "encode_local_scalar_snapshot s = Ok bs"
  shows "(\<exists>d. LocalScalarDomain_restore s = Ok d) \<and> snapshot_fits s \<and> bs = enc_snapshot s"
proof -
  from assms obtain d o1 o2 o3 o4 o5 where d: "LocalScalarDomain_restore s = Ok d"
    and o1: "write_register Trusted_LengthOverflow (LREC_MAGIC @ to_be_bytes LREC_VERSION) (snap_causal (snap_working s)) = Ok o1"
    and o2: "write_pending o1 (snap_pending (snap_working s)) = Ok o2"
    and o3: "trusted_write_id_set o2 (snap_local_revision_ids (snap_finalization s)) = Ok o3"
    and o4: "write_finalized o3 (snap_finalized (snap_finalization s)) = Ok o4"
    and o5: "trusted_write_id_set o4 (snap_exposed_local_ids (snap_finalization s)) = Ok o5"
    and o6: "trusted_write_id_set o5 (snap_handed_off_local_ids (snap_finalization s)) = Ok bs"
    by (auto simp: encode_local_scalar_snapshot_def trusted_write_register_def split: result.splits)
  show ?thesis
    using d write_register_Ok [OF o1] o2 o3 write_finalized_Ok [OF o4] o5 o6
    by (simp add: write_pending_Ok trusted_write_id_set_def write_id_set_Ok snapshot_fits_def enc_snapshot_def)
qed

section \<open>Reading back what was written\<close>

lemma reads_u8: "reads trusted_read_u8 [b] b"
  unfolding trusted_read_u8_def by (rule reads_bind_pure [OF reads_exact]) (simp_all add: reads_return)

lemma reads_ids: "length (bs_iter ids) < 2 ^ 64 \<Longrightarrow> reads trusted_read_id_set (enc_ids ids) ids"
  unfolding trusted_read_id_set_def by (rule reads_id_set)

lemma reads_pending:
  assumes "pending_fits p"
  shows "reads read_pending (enc_pending p) p"
proof (cases p)
  case None
  then show ?thesis
    unfolding read_pending_def enc_pending_def None option.case
    by (intro reads_bind_pure [OF reads_u8]) (simp add: reads_return)
next
  case (Some e)
  have "reads (p_return (Some \<lparr>epoch_id = epoch_id e, epoch_value = epoch_value e,
      observed_frontier = observed_frontier e\<rparr>)) [] (Some e)"
    using reads_return [of "Some e"] by (cases e) simp
  then have "reads (p_bind trusted_read_working_epoch_id (\<lambda>i. p_bind trusted_read_vec (\<lambda>v.
      p_bind trusted_read_id_set (\<lambda>frontier.
        p_return (Some \<lparr>epoch_id = i, epoch_value = v, observed_frontier = frontier\<rparr>)))))
      (opaque_id_as_bytes (epoch_id e) @ (len_prefix (length (epoch_value e)) @ epoch_value e) @
       enc_ids (observed_frontier e)) (Some e)"
    using assms Some unfolding trusted_read_working_epoch_id_def
    by (intro reads_bind [OF reads_id] reads_bind [OF reads_vec] reads_bind_pure [OF reads_ids])
      (simp_all add: pending_fits_def)
  then show ?thesis
    unfolding read_pending_def Some enc_pending_def option.case by (intro reads_bind [OF reads_u8]) simp
qed

lemma reads_statement:
  assumes "statement_fits (i, st)" and "fs_revision_id st = i" and "i \<notin> dom (bm_get m)"
  shows "reads (read_statement m) (enc_statement (i, st)) (bm_insert i st m)"
proof -
  have "reads (p_lift (if bm_contains_key m i then Err Trusted_DuplicateFinalizedStatement
      else Ok (bm_insert i \<lparr>fs_revision_id = i, fs_value = fs_value st, fs_parents = fs_parents st\<rparr> m))) []
      (bm_insert i st m)"
    using assms(2,3) by (intro reads_lift) (cases st, auto)
  with assms(1) show ?thesis
    unfolding read_statement_def enc_statement_def trusted_read_revision_id_def fst_conv snd_conv statement_fits_def
    by (intro reads_bind [OF reads_id] reads_bind [OF reads_vec] reads_bind_pure [OF reads_ids]) simp_all
qed

lemma statements_keyed:
  assumes "domain_wf d" and "(i, st) \<in> set (bm_entries (finalized (finalization d)))"
  shows "fs_revision_id st = i"
proof -
  from assms have "statements_match (finalization d) (ws_causal (working d))"
    and keyed: "keyed_by_id (revisions (ws_causal (working d)))"
    by (auto simp: domain_wf_def ledger_wf_def working_valid_def register_valid_def)
  moreover have "bm_get (finalized (finalization d)) i = Some st" using assms(2) by simp
  ultimately obtain r where "bm_get (revisions (ws_causal (working d))) i = Some r" "st = FinalizedStatement_from r"
    unfolding statements_match_def by blast
  with keyed show ?thesis by (auto simp: keyed_by_id_def FinalizedStatement_from_def)
qed

lemma reads_snapshot:
  assumes "snapshot_fits (LocalScalarDomain_snapshot d)" and "domain_wf d"
  shows "reads read_local_scalar_snapshot (enc_snapshot (LocalScalarDomain_snapshot d)) (LocalScalarDomain_snapshot d)"
proof -
  let ?s = "LocalScalarDomain_snapshot d"
  let ?fin = "snap_finalization ?s"
  have fits: "register_fits (snap_causal (snap_working ?s))" "pending_fits (snap_pending (snap_working ?s))"
    "length (bs_iter (snap_local_revision_ids ?fin)) < 2 ^ 64" "length (bm_entries (snap_finalized ?fin)) < 2 ^ 64"
    "length (bs_iter (snap_exposed_local_ids ?fin)) < 2 ^ 64" "length (bs_iter (snap_handed_off_local_ids ?fin)) < 2 ^ 64"
    and st: "\<And>e. e \<in> set (bm_entries (snap_finalized ?fin)) \<Longrightarrow> statement_fits e"
    using assms(1) by (simp_all add: snapshot_fits_def)
  have valid: "register_valid (snap_causal (snap_working ?s))"
    using assms(2) by (simp add: domain_wf_def working_valid_def LocalScalarDomain_snapshot_def WorkingScalar_snapshot_def)
  have "reads (read_loop (length (bm_entries (snap_finalized ?fin))) read_statement bm_empty)
      (concat (map enc_statement (bm_entries (snap_finalized ?fin)))) (snap_finalized ?fin)"
    using statements_keyed [OF assms(2)] st
    by (intro reads_map_loop reads_statement)
      (simp_all add: LocalScalarDomain_snapshot_def FinalizationLedger_snapshot_def)
  note loop = reads_bind [OF this]
  show ?thesis
    unfolding read_local_scalar_snapshot_def enc_snapshot_def enc_finalized_def append_assoc trusted_read_register_def
    by (intro reads_bind [OF reads_exact] reads_pure_bind [OF reads_guard] reads_bind [OF reads_u16]
        reads_bind [OF reads_register] reads_bind [OF reads_pending] reads_bind [OF reads_ids]
        reads_bind [OF reads_len] loop reads_bind_pure [OF reads_ids] fits valid)
      (simp_all add: LREC_MAGIC_def reads_return LocalScalarDomain_snapshot_def WorkingScalar_snapshot_def
        FinalizationLedger_snapshot_def)
qed

lemma decode_encoded_snapshot:
  assumes "domain_wf d" and "encode_local_scalar_snapshot (LocalScalarDomain_snapshot d) = Ok bs"
    and "length bs \<le> isize_max"
  shows "decode_local_scalar_snapshot bs = Ok (LocalScalarDomain_snapshot d)"
proof -
  have enc: "snapshot_fits (LocalScalarDomain_snapshot d)" "bs = enc_snapshot (LocalScalarDomain_snapshot d)"
    using encode_snapshot_Ok [OF assms(2)] by simp_all
  then have "decode_all Trusted_TrailingBytes read_local_scalar_snapshot bs = Ok (LocalScalarDomain_snapshot d)"
    using decode_all_reads [OF reads_snapshot [OF enc(1) assms(1)], of "[]" Trusted_TrailingBytes] assms(3) by simp
  then show ?thesis
    by (simp add: decode_local_scalar_snapshot_def restore_wf_snapshot [OF assms(1)])
qed

text \<open>The codec of one domain keeps the contract on every snapshot that passes \<^verbatim>\<open>restore\<close>.\<close>

definition scalar_trusted_state_codec :: "(bytes LocalScalarSnapshot, TrustedStateCodecError) TrustedStateCodec" where
  "scalar_trusted_state_codec = \<lparr>tc_encode = encode_local_scalar_snapshot, tc_decode = decode_local_scalar_snapshot\<rparr>"

definition snapshot_wf :: "'v LocalScalarSnapshot \<Rightarrow> bool" where
  "snapshot_wf s \<longleftrightarrow> (\<exists>d. domain_wf d \<and> s = LocalScalarDomain_snapshot d)"

lemma snapshot_wf_iff:
  "snapshot_wf s \<longleftrightarrow>
     keyed_by_id (revisions (snap_causal (snap_working s))) \<and> (\<exists>d. LocalScalarDomain_restore s = Ok d)"
proof
  assume "snapshot_wf s"
  then obtain d where "domain_wf d" "s = LocalScalarDomain_snapshot d" by (auto simp: snapshot_wf_def)
  then show "keyed_by_id (revisions (snap_causal (snap_working s))) \<and> (\<exists>d. LocalScalarDomain_restore s = Ok d)"
    using restore_wf_snapshot [of d]
    by (simp add: domain_wf_def working_valid_def register_valid_def LocalScalarDomain_snapshot_def WorkingScalar_snapshot_def)
next
  assume "keyed_by_id (revisions (snap_causal (snap_working s))) \<and> (\<exists>d. LocalScalarDomain_restore s = Ok d)"
  then show "snapshot_wf s" using restored_domain_wf unfolding snapshot_wf_def by metis
qed

interpretation scalar_codec: trusted_state_codec scalar_trusted_state_codec snapshot_wf
  by unfold_locales (auto simp: scalar_trusted_state_codec_def snapshot_wf_def decode_encoded_snapshot)

text \<open>What the decoder accepts is well formed, whatever the bytes.\<close>

lemma decoded_snapshot_wf:
  assumes "decode_local_scalar_snapshot bs = Ok s"
  shows "snapshot_wf s"
proof -
  from assms obtain r d where run: "read_local_scalar_snapshot (Reader_new bs) = Ok (s, r)"
    and d: "LocalScalarDomain_restore s = Ok d"
    by (auto simp: decode_local_scalar_snapshot_def decode_all_def split: result.splits if_splits)
  from run obtain revs where "ScalarRegister_from_revisions revs = Ok (snap_causal (snap_working s))"
    by (force simp: read_local_scalar_snapshot_def trusted_read_register_def read_register_def p_bind_Ok)
  from from_revisions_valid [OF this] d show ?thesis by (auto simp: snapshot_wf_iff register_valid_def)
qed

text \<open>The only reason a well-formed domain is not encoded is a length that does not fit its prefix.\<close>

lemma write_overflow:
  "write_len ov out n = Err e \<Longrightarrow> e = ov"
  "write_bytes ov out bs = Err e \<Longrightarrow> e = ov"
  "write_id_set ov out ids = Err e \<Longrightarrow> e = ov"
  by (auto simp: write_len_def write_bytes_def write_id_set_def split: if_splits result.splits)

lemma try_fold_overflow:
  assumes "try_fold f out xs = Err e" and "\<And>o1 x e. f o1 x = Err e \<Longrightarrow> e = ov"
  shows "e = ov"
  using assms(1) by (induction xs arbitrary: out) (auto split: result.splits dest: assms(2))

lemma write_parts_overflow:
  "write_revision ov out r = Err e \<Longrightarrow> e = ov"
  "write_pending out p = Err e1 \<Longrightarrow> e1 = Trusted_LengthOverflow"
  "write_statement out st = Err e2 \<Longrightarrow> e2 = Trusted_LengthOverflow"
  by (auto simp: write_revision_def write_pending_def write_statement_def trusted_write_id_set_def
      split: result.splits option.splits prod.splits dest: write_overflow)

lemma encode_wf_domain:
  assumes "domain_wf d" and "encode_local_scalar_snapshot (LocalScalarDomain_snapshot d) = Err e"
  shows "e = Trusted_LengthOverflow"
proof -
  have "ScalarRegister_validate (ws_causal (working d)) = Ok ()"
    using assms(1) by (simp add: domain_wf_def working_valid_def register_valid_iff)
  moreover have "write_register ov out reg = Err e' \<Longrightarrow> e' = ov" for ov e' out reg
    by (auto simp: write_register_def split: result.splits
        dest: write_overflow try_fold_overflow [OF _ write_parts_overflow(1)])
  moreover have "write_finalized out m = Err e' \<Longrightarrow> e' = Trusted_LengthOverflow" for e' out m
    by (auto simp: write_finalized_def split: result.splits
        dest: write_overflow try_fold_overflow [OF _ write_parts_overflow(3)])
  ultimately show ?thesis
    using assms(2) restore_wf_snapshot [OF assms(1)]
    by (auto simp: encode_local_scalar_snapshot_def trusted_write_register_def trusted_write_id_set_def
        LocalScalarDomain_snapshot_def WorkingScalar_snapshot_def
        split: result.splits dest: write_overflow write_parts_overflow)
qed

section \<open>Property\<close>

text \<open>
  C32. Crash recovery through bytes is exact. Every reachable domain encodes unless one of its
  lengths exceeds a 64-bit prefix, and what it encodes to decodes, through the validating
  decoder, to a snapshot that restores to that very domain: pending epoch, frozen statements,
  ownership and exposure included.
\<close>

theorem trusted_state_roundtrip:
  assumes "domain_reachable d"
  shows "case encode_local_scalar_snapshot (LocalScalarDomain_snapshot d) of
      Err e \<Rightarrow> e = Trusted_LengthOverflow
    | Ok bs \<Rightarrow> length bs \<le> isize_max \<longrightarrow>
        (\<exists>s. decode_local_scalar_snapshot bs = Ok s \<and> LocalScalarDomain_restore s = Ok d)"
proof -
  have wf: "domain_wf d" using assms by (simp add: domain_valid_wf domain_reachable_valid)
  then show ?thesis
    using decode_encoded_snapshot [OF wf] encode_wf_domain [OF wf] restore_wf_snapshot [OF wf]
    by (auto split: result.splits)
qed

definition trusted_clean :: "bytes LocalScalarDomain" where
  "trusted_clean = \<lparr>working = \<lparr>ws_causal = ScalarRegister_new, ws_pending = None\<rparr>, finalization = FinalizationLedger_new\<rparr>"

definition trusted_dirty :: "bytes LocalScalarDomain" where
  "trusted_dirty = snd (LocalScalarDomain_begin_epoch trusted_clean (OpaqueId 7) [1, 2])"

lemma trusted_dirty_reachable: "domain_reachable trusted_dirty"
proof -
  have "domain_reachable trusted_clean"
  proof (rule domain_reachable.start)
    show "keyed_by_id (revisions (ScalarRegister_new :: bytes ScalarRegister))"
      by (simp add: keyed_by_id_def ScalarRegister_new_def)
    show "LocalScalarDomain_from_causal ScalarRegister_new = Ok trusted_clean" by code_simp
  qed
  then show ?thesis
    unfolding trusted_dirty_def by (rule domain_reachable.step) (rule domain_step.begin_epoch)
qed

lemma trusted_dirty_encodes:
  "\<exists>bs. encode_local_scalar_snapshot (LocalScalarDomain_snapshot trusted_dirty) = Ok bs \<and> length bs = 101"
proof -
  have snap: "LocalScalarDomain_snapshot trusted_dirty =
      \<lparr>snap_working = \<lparr>snap_causal = ScalarRegister_new,
         snap_pending = Some \<lparr>epoch_id = OpaqueId 7, epoch_value = [1, 2], observed_frontier = bm_empty\<rparr>\<rparr>,
       snap_finalization = \<lparr>snap_local_revision_ids = bm_empty, snap_finalized = bm_empty,
         snap_exposed_local_ids = bm_empty, snap_handed_off_local_ids = bm_empty\<rparr>\<rparr>"
    by code_simp
  have "LocalScalarDomain_restore (LocalScalarDomain_snapshot trusted_dirty) = Ok trusted_dirty"
    using trusted_dirty_reachable by (simp add: domain_reachable_valid domain_valid_wf restore_wf_snapshot)
  moreover have "ScalarRegister_validate (ScalarRegister_new :: bytes ScalarRegister) = Ok ()" by code_simp
  ultimately show ?thesis
    by (simp add: encode_local_scalar_snapshot_def trusted_write_register_def snap write_register_def write_len_def
        ScalarRegister_len_def ScalarRegister_revisions_def ScalarRegister_new_def bm_len_def bm_values_def bm_entries_empty
        write_pending_def write_bytes_def trusted_write_id_set_def write_id_set_def write_finalized_def
        bs_iter_def bm_keys_def LREC_MAGIC_def)
qed

theorem trusted_state_roundtrip_witness:
  "\<exists>bs s. encode_local_scalar_snapshot (LocalScalarDomain_snapshot trusted_dirty) = Ok bs \<and>
     decode_local_scalar_snapshot bs = Ok s \<and> LocalScalarDomain_restore s = Ok trusted_dirty"
  using trusted_dirty_encodes trusted_state_roundtrip [OF trusted_dirty_reachable] by (auto simp: isize_max_def)

end
