(* ===== verification/Trusted_State_Set.thy ===== *)
theory Trusted_State_Set
  imports Trusted_State Sync_Projection
begin

text \<open>
  The recovery container for several independently mergeable domains and its framing,
  \<^verbatim>\<open>apc-runtime/src/trusted_state_set.rs\<close>. The container nests the encoding of
  \<^verbatim>\<open>Trusted_State\<close>, so its contract is derived from the contract of the scalar codec.
\<close>

section \<open>The container\<close>

record LocalScalarRecoveryState =
  rs_domains :: "(DomainKey, bytes LocalScalarSnapshot) btree_map"

datatype LocalScalarRecoveryStateError =
    RS_DuplicateDomain
  | RS_Core CoreError

definition RecoveryState_new :: LocalScalarRecoveryState where
  "RecoveryState_new = \<lparr>rs_domains = bm_empty\<rparr>"

definition check_snapshot :: "bytes LocalScalarSnapshot \<Rightarrow> (unit, LocalScalarRecoveryStateError) result" where
  "check_snapshot snapshot =
     (case LocalScalarDomain_restore snapshot of Err e \<Rightarrow> Err (RS_Core e) | Ok _ \<Rightarrow> Ok ())"

definition RecoveryState_from_domains ::
    "(DomainKey, bytes LocalScalarSnapshot) btree_map \<Rightarrow> (LocalScalarRecoveryState, LocalScalarRecoveryStateError) result" where
  "RecoveryState_from_domains m =
     (case try_fold (\<lambda>_. check_snapshot) () (bm_values m) of
        Err e \<Rightarrow> Err e
      | Ok _ \<Rightarrow> Ok \<lparr>rs_domains = m\<rparr>)"

definition RecoveryState_len :: "LocalScalarRecoveryState \<Rightarrow> nat" where
  "RecoveryState_len st = bm_len (rs_domains st)"

definition RecoveryState_is_empty :: "LocalScalarRecoveryState \<Rightarrow> bool" where
  "RecoveryState_is_empty st = bm_is_empty (rs_domains st)"

definition RecoveryState_get :: "LocalScalarRecoveryState \<Rightarrow> DomainKey \<Rightarrow> bytes LocalScalarSnapshot option" where
  "RecoveryState_get st key = bm_get (rs_domains st) key"

definition RecoveryState_insert_new ::
    "LocalScalarRecoveryState \<Rightarrow> DomainKey \<Rightarrow> bytes LocalScalarSnapshot \<Rightarrow>
     (unit, LocalScalarRecoveryStateError) result \<times> LocalScalarRecoveryState" where
  "RecoveryState_insert_new st key snapshot =
     (if bm_contains_key (rs_domains st) key then (Err RS_DuplicateDomain, st)
      else
        (case check_snapshot snapshot of
           Err e \<Rightarrow> (Err e, st)
         | Ok _ \<Rightarrow> (Ok (), st\<lparr>rs_domains := bm_insert key snapshot (rs_domains st)\<rparr>)))"

definition RecoveryState_replace_domain ::
    "LocalScalarRecoveryState \<Rightarrow> DomainKey \<Rightarrow> bytes LocalScalarSnapshot \<Rightarrow>
     (bytes LocalScalarSnapshot option, LocalScalarRecoveryStateError) result \<times> LocalScalarRecoveryState" where
  "RecoveryState_replace_domain st key snapshot =
     (case check_snapshot snapshot of
        Err e \<Rightarrow> (Err e, st)
      | Ok _ \<Rightarrow> (Ok (bm_get (rs_domains st) key), st\<lparr>rs_domains := bm_insert key snapshot (rs_domains st)\<rparr>))"

definition RecoveryState_restore_domain ::
    "LocalScalarRecoveryState \<Rightarrow> DomainKey \<Rightarrow> (bytes LocalScalarDomain option, CoreError) result" where
  "RecoveryState_restore_domain st key =
     (case bm_get (rs_domains st) key of
        None \<Rightarrow> Ok None
      | Some snapshot \<Rightarrow>
          (case LocalScalarDomain_restore snapshot of Err e \<Rightarrow> Err e | Ok d \<Rightarrow> Ok (Some d)))"

section \<open>Framing\<close>

datatype MultiScalarTrustedStateCodecError =
    Multi_InvalidMagic
  | Multi_UnsupportedVersion u16
  | Multi_UnexpectedEof
  | Multi_LengthOverflow
  | Multi_TrailingBytes
  | Multi_DuplicateDomain
  | Multi_Domain ProjectionError
  | Multi_Scalar TrustedStateCodecError

definition LSET_MAGIC :: bytes where
  "LSET_MAGIC = ascii ''APCLSET1''"

definition LSET_VERSION :: u16 where
  "LSET_VERSION = 1"

definition write_recovery_domain ::
    "bytes \<Rightarrow> DomainKey \<times> bytes LocalScalarSnapshot \<Rightarrow> (bytes, MultiScalarTrustedStateCodecError) result" where
  "write_recovery_domain out e =
     (case e of (key, snapshot) \<Rightarrow>
        (case write_bytes Multi_LengthOverflow (out @ opaque_id_as_bytes (dk_atom_id key)) (dk_domain key) of
           Err er \<Rightarrow> Err er
         | Ok out1 \<Rightarrow>
             (case encode_local_scalar_snapshot snapshot of
                Err er \<Rightarrow> Err (Multi_Scalar er)
              | Ok scalar \<Rightarrow> write_bytes Multi_LengthOverflow out1 scalar)))"

definition encode_multi_scalar_recovery_state ::
    "LocalScalarRecoveryState \<Rightarrow> (bytes, MultiScalarTrustedStateCodecError) result" where
  "encode_multi_scalar_recovery_state st =
     (case write_len Multi_LengthOverflow (LSET_MAGIC @ to_be_bytes LSET_VERSION) (bm_len (rs_domains st)) of
        Err e \<Rightarrow> Err e
      | Ok out \<Rightarrow> try_fold write_recovery_domain out (bm_entries (rs_domains st)))"

abbreviation "multi_read_exact \<equiv> Reader_read_exact Multi_LengthOverflow Multi_UnexpectedEof"
abbreviation "multi_read_vec \<equiv> Reader_read_vec Multi_LengthOverflow Multi_UnexpectedEof"

definition multi_read_atom_id :: "(AtomId, MultiScalarTrustedStateCodecError) parser" where
  "multi_read_atom_id = Reader_read_id Multi_LengthOverflow Multi_UnexpectedEof"

definition read_recovery_domain ::
    "(DomainKey, bytes LocalScalarSnapshot) btree_map \<Rightarrow>
     ((DomainKey, bytes LocalScalarSnapshot) btree_map, MultiScalarTrustedStateCodecError) parser" where
  "read_recovery_domain m =
     p_bind multi_read_atom_id (\<lambda>atom_id.
     p_bind multi_read_vec (\<lambda>domain.
     p_bind (p_lift (map_err Multi_Domain (DomainKey_new atom_id domain))) (\<lambda>key.
     p_bind multi_read_vec (\<lambda>scalar_bytes.
     p_bind (p_lift (map_err Multi_Scalar (decode_local_scalar_snapshot scalar_bytes))) (\<lambda>snapshot.
       p_lift (if bm_contains_key m key then Err Multi_DuplicateDomain else Ok (bm_insert key snapshot m)))))))"

definition read_multi_scalar_recovery_state ::
    "(LocalScalarRecoveryState, MultiScalarTrustedStateCodecError) parser" where
  "read_multi_scalar_recovery_state =
     p_bind (multi_read_exact (length LSET_MAGIC)) (\<lambda>magic.
     p_bind (p_guard (magic = LSET_MAGIC) Multi_InvalidMagic) (\<lambda>_.
     p_bind (Reader_read_u16 Multi_LengthOverflow Multi_UnexpectedEof) (\<lambda>version.
     p_bind (p_guard (version = LSET_VERSION) (Multi_UnsupportedVersion version)) (\<lambda>_.
     p_bind (Reader_read_len Multi_LengthOverflow Multi_UnexpectedEof) (\<lambda>count.
     p_bind (read_loop count read_recovery_domain bm_empty) (\<lambda>m.
       p_return \<lparr>rs_domains = m\<rparr>))))))"

definition decode_multi_scalar_recovery_state ::
    "bytes \<Rightarrow> (LocalScalarRecoveryState, MultiScalarTrustedStateCodecError) result" where
  "decode_multi_scalar_recovery_state = decode_all Multi_TrailingBytes read_multi_scalar_recovery_state"

definition multi_trusted_state_codec ::
    "(LocalScalarRecoveryState, MultiScalarTrustedStateCodecError) TrustedStateCodec" where
  "multi_trusted_state_codec =
     \<lparr>tc_encode = encode_multi_scalar_recovery_state, tc_decode = decode_multi_scalar_recovery_state\<rparr>"

section \<open>The invariant of the container\<close>

definition recovery_wf :: "LocalScalarRecoveryState \<Rightarrow> bool" where
  "recovery_wf st \<longleftrightarrow>
     (\<forall>key s. bm_get (rs_domains st) key = Some s \<longrightarrow> snapshot_wf s \<and> dk_domain key \<noteq> [])"

lemma check_snapshot_Ok: "check_snapshot s = Ok () \<longleftrightarrow> (\<exists>d. LocalScalarDomain_restore s = Ok d)"
  by (auto simp: check_snapshot_def split: result.splits)

lemma check_wf_snapshot: "snapshot_wf s \<Longrightarrow> check_snapshot s = Ok ()"
  by (auto simp: snapshot_wf_iff check_snapshot_Ok)

lemma restore_domain_wf:
  assumes "recovery_wf st"
  shows "RecoveryState_restore_domain st key = Ok x \<longleftrightarrow>
    (case x of
       None \<Rightarrow> bm_get (rs_domains st) key = None
     | Some d \<Rightarrow> domain_wf d \<and> bm_get (rs_domains st) key = Some (LocalScalarDomain_snapshot d))"
proof (cases "bm_get (rs_domains st) key")
  case None
  then show ?thesis by (auto simp: RecoveryState_restore_domain_def split: option.splits)
next
  case (Some s)
  with assms obtain d where d: "domain_wf d" "s = LocalScalarDomain_snapshot d"
    by (auto simp: recovery_wf_def snapshot_wf_def)
  with Some restore_wf_snapshot [OF d(1)] show ?thesis
    by (auto simp: RecoveryState_restore_domain_def snapshot_inject split: option.splits)
qed

lemma replace_domain_wf:
  assumes "recovery_wf st" and "domain_wf d" and "dk_domain key \<noteq> []"
  shows "\<exists>old. RecoveryState_replace_domain st key (LocalScalarDomain_snapshot d) =
      (Ok old, \<lparr>rs_domains = bm_insert key (LocalScalarDomain_snapshot d) (rs_domains st)\<rparr>)"
    and "recovery_wf \<lparr>rs_domains = bm_insert key (LocalScalarDomain_snapshot d) (rs_domains st)\<rparr>"
proof -
  have "snapshot_wf (LocalScalarDomain_snapshot d)" using assms(2) by (auto simp: snapshot_wf_def)
  then show "\<exists>old. RecoveryState_replace_domain st key (LocalScalarDomain_snapshot d) =
      (Ok old, \<lparr>rs_domains = bm_insert key (LocalScalarDomain_snapshot d) (rs_domains st)\<rparr>)"
    and "recovery_wf \<lparr>rs_domains = bm_insert key (LocalScalarDomain_snapshot d) (rs_domains st)\<rparr>"
    using assms(1,3) by (cases st, auto simp: RecoveryState_replace_domain_def check_wf_snapshot recovery_wf_def)
qed

lemma recovery_operations_wf:
  assumes "recovery_wf st" and "snapshot_wf s \<or> check_snapshot s \<noteq> Ok ()" and "dk_domain key \<noteq> []"
  shows "recovery_wf (snd (RecoveryState_insert_new st key s))"
    and "recovery_wf (snd (RecoveryState_replace_domain st key s))"
  using assms
  by (auto simp: RecoveryState_insert_new_def RecoveryState_replace_domain_def recovery_wf_def split: result.splits)

section \<open>The codec keeps its contract\<close>

definition enc_recovery_domain :: "DomainKey \<times> bytes LocalScalarSnapshot \<Rightarrow> bytes" where
  "enc_recovery_domain e = opaque_id_as_bytes (dk_atom_id (fst e)) @
     (len_prefix (length (dk_domain (fst e))) @ dk_domain (fst e)) @
     (len_prefix (length (enc_snapshot (snd e))) @ enc_snapshot (snd e))"

definition recovery_domain_fits :: "DomainKey \<times> bytes LocalScalarSnapshot \<Rightarrow> bool" where
  "recovery_domain_fits e \<longleftrightarrow> length (dk_domain (fst e)) < 2 ^ 64 \<and> length (enc_snapshot (snd e)) < 2 ^ 64 \<and>
     encode_local_scalar_snapshot (snd e) = Ok (enc_snapshot (snd e))"

lemma write_recovery_domain_Ok:
  assumes "write_recovery_domain out e = Ok out'"
  shows "recovery_domain_fits e \<and> out' = out @ enc_recovery_domain e"
proof -
  from assms obtain out1 scalar
    where "write_bytes Multi_LengthOverflow (out @ opaque_id_as_bytes (dk_atom_id (fst e))) (dk_domain (fst e)) = Ok out1"
      and enc: "encode_local_scalar_snapshot (snd e) = Ok scalar"
      and "write_bytes Multi_LengthOverflow out1 scalar = Ok out'"
    by (auto simp: write_recovery_domain_def split: prod.splits result.splits)
  moreover have "scalar = enc_snapshot (snd e)" using encode_snapshot_Ok [OF enc] by simp
  ultimately show ?thesis by (auto simp: write_bytes_Ok recovery_domain_fits_def enc_recovery_domain_def)
qed

lemma encode_recovery_Ok:
  assumes "encode_multi_scalar_recovery_state st = Ok bs"
  shows "length (bm_entries (rs_domains st)) < 2 ^ 64"
    and "e \<in> set (bm_entries (rs_domains st)) \<Longrightarrow> recovery_domain_fits e"
    and "bs = LSET_MAGIC @ to_be_bytes LSET_VERSION @ len_prefix (length (bm_entries (rs_domains st))) @
      concat (map enc_recovery_domain (bm_entries (rs_domains st)))"
proof -
  from assms have n: "length (bm_entries (rs_domains st)) < 2 ^ 64"
    and loop: "try_fold write_recovery_domain
      (LSET_MAGIC @ to_be_bytes LSET_VERSION @ len_prefix (length (bm_entries (rs_domains st))))
      (bm_entries (rs_domains st)) = Ok bs"
    by (auto simp: encode_multi_scalar_recovery_state_def write_len_def bm_len_def split: if_splits)
  show "length (bm_entries (rs_domains st)) < 2 ^ 64" by (rule n)
  from try_fold_write [OF loop, of recovery_domain_fits enc_recovery_domain] write_recovery_domain_Ok
  show "e \<in> set (bm_entries (rs_domains st)) \<Longrightarrow> recovery_domain_fits e"
    and "bs = LSET_MAGIC @ to_be_bytes LSET_VERSION @ len_prefix (length (bm_entries (rs_domains st))) @
      concat (map enc_recovery_domain (bm_entries (rs_domains st)))" by auto
qed

lemma reads_recovery_domain:
  assumes "recovery_domain_fits (key, s)" and "snapshot_wf s" and "dk_domain key \<noteq> []"
    and "key \<notin> dom (bm_get m)" and "length (enc_snapshot s) \<le> isize_max"
  shows "reads (read_recovery_domain m) (enc_recovery_domain (key, s)) (bm_insert key s m)"
proof -
  have fits: "length (dk_domain key) < 2 ^ 64" "length (enc_snapshot s) < 2 ^ 64"
    "encode_local_scalar_snapshot s = Ok (enc_snapshot s)"
    using assms(1) by (simp_all add: recovery_domain_fits_def)
  have dec: "decode_local_scalar_snapshot (enc_snapshot s) = Ok s"
    using assms(2,5) fits(3) by (auto simp: snapshot_wf_def intro: decode_encoded_snapshot)
  have key: "DomainKey_new (dk_atom_id key) (dk_domain key) = Ok key" using assms(3) by (simp add: DomainKey_new_def)
  show ?thesis
    unfolding read_recovery_domain_def enc_recovery_domain_def multi_read_atom_id_def fst_conv snd_conv
    by (rule reads_bind [OF reads_id], rule reads_bind [OF reads_vec [OF fits(1)]],
        rule reads_pure_bind [OF reads_lift [where a = key]], simp add: key,
        rule reads_bind_pure [OF reads_vec [OF fits(2)]],
        rule reads_pure_bind [OF reads_lift [where a = s]], simp add: dec, rule reads_lift)
      (use assms(4) in auto)
qed

lemma recovery_domain_length:
  "e \<in> set es \<Longrightarrow> length (enc_snapshot (snd e)) \<le> length (concat (map enc_recovery_domain es))"
  by (induction es) (auto simp: enc_recovery_domain_def)

lemma decode_encoded_recovery:
  assumes "recovery_wf st" and "encode_multi_scalar_recovery_state st = Ok bs" and "length bs \<le> isize_max"
  shows "decode_multi_scalar_recovery_state bs = Ok st"
proof -
  let ?es = "bm_entries (rs_domains st)"
  note enc = encode_recovery_Ok [OF assms(2)]
  have loop: "reads (read_loop (length ?es) read_recovery_domain bm_empty)
      (concat (map enc_recovery_domain ?es)) (rs_domains st)"
  proof (rule reads_map_loop)
    fix acc :: "(DomainKey, bytes LocalScalarSnapshot) btree_map" and key s
    assume mem: "(key, s) \<in> set ?es" and fresh: "key \<notin> dom (bm_get acc)"
    have "length (enc_snapshot s) \<le> isize_max"
      using recovery_domain_length [OF mem] assms(3) enc(3) by simp
    with enc(2) [OF mem] fresh mem assms(1)
    show "reads (read_recovery_domain acc) (enc_recovery_domain (key, s)) (bm_insert key s acc)"
      by (intro reads_recovery_domain) (auto simp: recovery_wf_def)
  qed
  have "reads (p_bind (read_loop (length ?es) read_recovery_domain bm_empty) (\<lambda>m. p_return \<lparr>rs_domains = m\<rparr>))
      (concat (map enc_recovery_domain ?es)) st"
    by (rule reads_bind_pure [OF loop]) (cases st, simp add: reads_return)
  then have "reads read_multi_scalar_recovery_state bs st"
    unfolding read_multi_scalar_recovery_state_def enc(3)
    by (intro reads_bind [OF reads_exact] reads_pure_bind [OF reads_guard] reads_bind [OF reads_u16]
        reads_bind [OF reads_len] enc(1)) (simp_all add: LSET_MAGIC_def)
  from decode_all_reads [OF this, of "[]" Multi_TrailingBytes] assms(3) show ?thesis
    by (simp add: decode_multi_scalar_recovery_state_def)
qed

interpretation multi_codec: trusted_state_codec multi_trusted_state_codec recovery_wf
  by unfold_locales (simp add: multi_trusted_state_codec_def decode_encoded_recovery)

lemma decoded_recovery_wf:
  assumes "decode_multi_scalar_recovery_state bs = Ok st"
  shows "recovery_wf st"
proof -
  let ?P = "\<lambda>m. recovery_wf \<lparr>rs_domains = m\<rparr>"
  from assms obtain n m r1 r2 where loop: "read_loop n read_recovery_domain bm_empty r1 = Ok (m, r2)"
    and st: "st = \<lparr>rs_domains = m\<rparr>"
    by (auto simp: decode_multi_scalar_recovery_state_def decode_all_Ok read_multi_scalar_recovery_state_def p_bind_Ok)
  have "?P m' \<Longrightarrow> read_recovery_domain m' r = Ok (m'', r') \<Longrightarrow> ?P m''" for m' m'' r r'
    by (auto simp: read_recovery_domain_def p_bind_Ok DomainKey_new_def recovery_wf_def
        dest: decoded_snapshot_wf split: if_splits)
  moreover have "?P bm_empty" by (simp add: recovery_wf_def)
  ultimately show ?thesis unfolding st using read_loop_invariant [OF loop, of ?P] by blast
qed

section \<open>Property\<close>

text \<open>
  C33. The recovery container survives a restart exactly and is checked on the way in: a container
  whose every domain passes \<^verbatim>\<open>restore\<close> decodes from its encoding to itself, and whatever the
  decoder accepts, from any bytes, is a container whose every domain restores.
\<close>

theorem recovery_container_codec:
  assumes "length bs \<le> isize_max"
  shows "(recovery_wf st \<and> encode_multi_scalar_recovery_state st = Ok bs \<longrightarrow>
      decode_multi_scalar_recovery_state bs = Ok st) \<and>
    (decode_multi_scalar_recovery_state bs = Ok st \<longrightarrow> recovery_wf st \<and>
      (\<forall>key. key \<in> dom (bm_get (rs_domains st)) \<longrightarrow>
        (\<exists>d. RecoveryState_restore_domain st key = Ok (Some d) \<and>
          RecoveryState_get st key = Some (LocalScalarDomain_snapshot d))))"
proof (intro conjI impI allI)
  assume "recovery_wf st \<and> encode_multi_scalar_recovery_state st = Ok bs"
  then show "decode_multi_scalar_recovery_state bs = Ok st" using assms by (simp add: decode_encoded_recovery)
next
  assume dec: "decode_multi_scalar_recovery_state bs = Ok st"
  show wf: "recovery_wf st" using dec by (rule decoded_recovery_wf)
  fix key assume "key \<in> dom (bm_get (rs_domains st))"
  then obtain s where s: "bm_get (rs_domains st) key = Some s" by blast
  with wf obtain d where "domain_wf d" "s = LocalScalarDomain_snapshot d"
    by (auto simp: recovery_wf_def snapshot_wf_def)
  with s restore_domain_wf [OF wf, of key "Some d"]
  show "\<exists>d. RecoveryState_restore_domain st key = Ok (Some d) \<and>
      RecoveryState_get st key = Some (LocalScalarDomain_snapshot d)"
    by (auto simp: RecoveryState_get_def)
qed

definition sample_recovery :: LocalScalarRecoveryState where
  "sample_recovery = \<lparr>rs_domains = bm_insert (DomainKey (OpaqueId 1) [9]) (LocalScalarDomain_snapshot trusted_dirty) bm_empty\<rparr>"

lemma sample_recovery_wf: "recovery_wf sample_recovery"
  using trusted_dirty_reachable
  by (auto simp: recovery_wf_def sample_recovery_def snapshot_wf_def snapshot_inject domain_reachable_valid domain_valid_wf)

lemma sample_recovery_encodes:
  "\<exists>bs. encode_multi_scalar_recovery_state sample_recovery = Ok bs \<and> length bs = 168"
  using trusted_dirty_encodes
  by (auto simp: encode_multi_scalar_recovery_state_def sample_recovery_def write_len_def bm_len_def bm_entries_single
      write_recovery_domain_def write_bytes_def LSET_MAGIC_def)

theorem recovery_container_codec_witness:
  "\<exists>bs. encode_multi_scalar_recovery_state sample_recovery = Ok bs \<and>
     decode_multi_scalar_recovery_state bs = Ok sample_recovery"
proof -
  obtain bs where bs: "encode_multi_scalar_recovery_state sample_recovery = Ok bs" "length bs = 168"
    using sample_recovery_encodes by blast
  then have "length bs \<le> isize_max" by (simp add: isize_max_def)
  from recovery_container_codec [OF this, of sample_recovery] bs(1) sample_recovery_wf show ?thesis by blast
qed

end
