(* ===== verification/Publication.thy ===== *)
theory Publication
  imports Trusted_State_Set Protected_Part Sync_Session
begin

text \<open>
  Outbound publication: \<^verbatim>\<open>apc-runtime/src/publication.rs\<close> for one domain and
  \<^verbatim>\<open>publication_set.rs\<close> for a recovery container. Preparation protects exactly the causal
  closure of the selected revisions; staging makes the exposure bookkeeping and the prepared bytes
  durable in one record before the live state changes. The entropy of the protection nonce is an
  argument, \<open>None\<close> when the source is unavailable.
\<close>

section \<open>The projected closure\<close>

definition dependency_closure :: "'v ScalarRegister \<Rightarrow> RevisionId btree_set \<Rightarrow> (RevisionId btree_set, CoreError) result" where
  "dependency_closure causal revision_ids = handoff_closure causal (rev (bs_iter revision_ids)) bm_empty"

definition push_revision ::
    "'v ScalarRegister \<Rightarrow> 'v ScalarRevision list \<Rightarrow> RevisionId \<Rightarrow> ('v ScalarRevision list, CoreError) result" where
  "push_revision causal revs i =
     (case ScalarRegister_revision causal i of
        None \<Rightarrow> Err (UnknownRevision i)
      | Some r \<Rightarrow> Ok (revs @ [r]))"

text \<open>The closure, its revisions and the register built from them: the middle part both
  preparation functions share.\<close>

definition closure_register :: "'v ScalarRegister \<Rightarrow> RevisionId btree_set \<Rightarrow> ('v ScalarRegister, CoreError) result" where
  "closure_register causal revision_ids =
     (case dependency_closure causal revision_ids of
        Err e \<Rightarrow> Err e
      | Ok closure \<Rightarrow>
          (case try_fold (push_revision causal) [] (bs_iter closure) of
             Err e \<Rightarrow> Err e
           | Ok revs \<Rightarrow> ScalarRegister_from_revisions revs))"

section \<open>One domain\<close>

record ProtectedPublication =
  pp_publication_id :: PublicationId
  pp_objects :: "bytes list"

record PreparedScalarHandoff =
  prepared_revision_ids :: "RevisionId btree_set"
  prepared_publication :: ProtectedPublication

datatype ScalarPublicationPrepareError =
    Prepare_EmptyRevisionSet
  | Prepare_Core CoreError
  | Prepare_Protection SyncPartError
  | Prepare_Wire ProtectedPartCodecError

datatype ('ce, 'se) ScalarHandoffStageError =
    HandoffStage_Core CoreError
  | HandoffStage_Codec 'ce
  | HandoffStage_Sync "'se PersistTransitionError"

datatype 'ce ScalarRecoveryError =
    Recover_Codec 'ce
  | Recover_Core CoreError

definition prepare_scalar_handoff ::
    "aead \<Rightarrow> bytes option \<Rightarrow> bytes LocalScalarDomain \<Rightarrow> DomainKey \<Rightarrow> ContinuumId \<Rightarrow> PublicationId \<Rightarrow> ContentKey \<Rightarrow>
     RevisionId list \<Rightarrow> (PreparedScalarHandoff, ScalarPublicationPrepareError) result" where
  "prepare_scalar_handoff cipher nonce domain domain_key continuum pub key ids =
     (let revision_ids = bs_from_list ids
      in if bm_is_empty revision_ids then Err Prepare_EmptyRevisionSet
         else
           (case fst (LocalScalarDomain_handoff domain (bs_iter revision_ids)) of
              Err e \<Rightarrow> Err (Prepare_Core e)
            | Ok _ \<Rightarrow>
           (case closure_register (LocalScalarDomain_causal domain) revision_ids of
              Err e \<Rightarrow> Err (Prepare_Core e)
            | Ok register \<Rightarrow>
           (let projection = SyncProjection_from_domains (bm_insert domain_key register bm_empty)
            in case protect_scalar_part cipher nonce key continuum pub 0 1 projection of
                 Err e \<Rightarrow> Err (Prepare_Protection e)
               | Ok part \<Rightarrow>
                   (case encode_protected_sync_part part of
                      Err e \<Rightarrow> Err (Prepare_Wire e)
                    | Ok wire \<Rightarrow>
                        Ok \<lparr>prepared_revision_ids = revision_ids,
                            prepared_publication = \<lparr>pp_publication_id = pub, pp_objects = [wire]\<rparr>\<rparr>)))))"

definition stage_scalar_handoff ::
    "('st, 'se) persist_fn \<Rightarrow> ('v LocalScalarSnapshot, 'ce) TrustedStateCodec \<Rightarrow>
     'v LocalScalarDomain \<Rightarrow> DurableSyncRecord \<Rightarrow> 'st \<Rightarrow> RevisionId btree_set \<Rightarrow> ProtectedPublication \<Rightarrow>
     (unit, ('ce, 'se) ScalarHandoffStageError) result \<times> 'v LocalScalarDomain \<times> DurableSyncRecord \<times> 'st" where
  "stage_scalar_handoff persist codec domain rec store revision_ids publication =
     (case LocalScalarDomain_handoff domain (bs_iter revision_ids) of
        (Err e, _) \<Rightarrow> (Err (HandoffStage_Core e), domain, rec, store)
      | (Ok _, candidate) \<Rightarrow>
          (case tc_encode codec (LocalScalarDomain_snapshot candidate) of
             Err e \<Rightarrow> (Err (HandoffStage_Codec e), domain, rec, store)
           | Ok exposed_trusted_state \<Rightarrow>
               (case stage_outbound persist rec store exposed_trusted_state
                       (pp_publication_id publication) (pp_objects publication) of
                  (Err e, rec', store') \<Rightarrow> (Err (HandoffStage_Sync e), domain, rec', store')
                | (Ok _, rec', store') \<Rightarrow> (Ok (), candidate, rec', store'))))"

definition stage_prepared_scalar_handoff ::
    "('st, 'se) persist_fn \<Rightarrow> ('v LocalScalarSnapshot, 'ce) TrustedStateCodec \<Rightarrow>
     'v LocalScalarDomain \<Rightarrow> DurableSyncRecord \<Rightarrow> 'st \<Rightarrow> PreparedScalarHandoff \<Rightarrow>
     (unit, ('ce, 'se) ScalarHandoffStageError) result \<times> 'v LocalScalarDomain \<times> DurableSyncRecord \<times> 'st" where
  "stage_prepared_scalar_handoff persist codec domain rec store prepared =
     stage_scalar_handoff persist codec domain rec store (prepared_revision_ids prepared) (prepared_publication prepared)"

definition recover_scalar_domain ::
    "('v LocalScalarSnapshot, 'ce) TrustedStateCodec \<Rightarrow> DurableSyncRecord \<Rightarrow>
     ('v LocalScalarDomain, 'ce ScalarRecoveryError) result" where
  "recover_scalar_domain codec rec =
     (case tc_decode codec (trusted_state rec) of
        Err e \<Rightarrow> Err (Recover_Codec e)
      | Ok snapshot \<Rightarrow> map_err Recover_Core (LocalScalarDomain_restore snapshot))"

section \<open>A recovery container\<close>

record PreparedRecoveryHandoff =
  prh_revision_ids :: "(DomainKey, RevisionId btree_set) btree_map"
  prh_publication_id :: PublicationId
  prh_objects :: "bytes list"

datatype RecoveryPublicationPrepareError =
    RPrepare_EmptySelection
  | RPrepare_EmptyRevisionSet DomainKey
  | RPrepare_MissingDomain DomainKey
  | RPrepare_Core CoreError
  | RPrepare_Protection SyncPartError
  | RPrepare_Wire ProtectedPartCodecError

datatype ('ce, 'se) RecoveryHandoffStageError =
    RStage_MissingDomain DomainKey
  | RStage_Core CoreError
  | RStage_RecoveryState LocalScalarRecoveryStateError
  | RStage_Codec 'ce
  | RStage_Sync "'se PersistTransitionError"

definition project_domain ::
    "LocalScalarRecoveryState \<Rightarrow> (DomainKey, bytes ScalarRegister) btree_map \<Rightarrow> DomainKey \<times> RevisionId btree_set \<Rightarrow>
     ((DomainKey, bytes ScalarRegister) btree_map, RecoveryPublicationPrepareError) result" where
  "project_domain recovery projected e =
     (case e of (domain_key, selected) \<Rightarrow>
        if bm_is_empty selected then Err (RPrepare_EmptyRevisionSet domain_key)
        else
          (case RecoveryState_restore_domain recovery domain_key of
             Err er \<Rightarrow> Err (RPrepare_Core er)
           | Ok None \<Rightarrow> Err (RPrepare_MissingDomain domain_key)
           | Ok (Some domain) \<Rightarrow>
               (case fst (LocalScalarDomain_handoff domain (bs_iter selected)) of
                  Err er \<Rightarrow> Err (RPrepare_Core er)
                | Ok _ \<Rightarrow>
                    (case closure_register (LocalScalarDomain_causal domain) selected of
                       Err er \<Rightarrow> Err (RPrepare_Core er)
                     | Ok register \<Rightarrow> Ok (bm_insert domain_key register projected)))))"

definition prepare_recovery_handoff ::
    "aead \<Rightarrow> bytes option \<Rightarrow> LocalScalarRecoveryState \<Rightarrow> ContinuumId \<Rightarrow> PublicationId \<Rightarrow> ContentKey \<Rightarrow>
     (DomainKey, RevisionId btree_set) btree_map \<Rightarrow> (PreparedRecoveryHandoff, RecoveryPublicationPrepareError) result" where
  "prepare_recovery_handoff cipher nonce recovery continuum pub key revision_ids =
     (if bm_is_empty revision_ids then Err RPrepare_EmptySelection
      else
        (case try_fold (project_domain recovery) bm_empty (bm_entries revision_ids) of
           Err e \<Rightarrow> Err e
         | Ok projected_domains \<Rightarrow>
             (case protect_scalar_part cipher nonce key continuum pub 0 1
                     (SyncProjection_from_domains projected_domains) of
                Err e \<Rightarrow> Err (RPrepare_Protection e)
              | Ok part \<Rightarrow>
                  (case encode_protected_sync_part part of
                     Err e \<Rightarrow> Err (RPrepare_Wire e)
                   | Ok wire \<Rightarrow>
                       Ok \<lparr>prh_revision_ids = revision_ids, prh_publication_id = pub, prh_objects = [wire]\<rparr>))))"

definition expose_domain ::
    "LocalScalarRecoveryState \<Rightarrow> DomainKey \<times> RevisionId btree_set \<Rightarrow>
     (LocalScalarRecoveryState, ('ce, 'se) RecoveryHandoffStageError) result" where
  "expose_domain candidate e =
     (case e of (domain_key, selected) \<Rightarrow>
        (case RecoveryState_restore_domain candidate domain_key of
           Err er \<Rightarrow> Err (RStage_Core er)
         | Ok None \<Rightarrow> Err (RStage_MissingDomain domain_key)
         | Ok (Some domain) \<Rightarrow>
             (case LocalScalarDomain_handoff domain (bs_iter selected) of
                (Err er, _) \<Rightarrow> Err (RStage_Core er)
              | (Ok _, domain') \<Rightarrow>
                  (case RecoveryState_replace_domain candidate domain_key (LocalScalarDomain_snapshot domain') of
                     (Err er, _) \<Rightarrow> Err (RStage_RecoveryState er)
                   | (Ok _, candidate') \<Rightarrow> Ok candidate'))))"

definition stage_prepared_recovery_handoff ::
    "('st, 'se) persist_fn \<Rightarrow> (LocalScalarRecoveryState, 'ce) TrustedStateCodec \<Rightarrow>
     LocalScalarRecoveryState \<Rightarrow> DurableSyncRecord \<Rightarrow> 'st \<Rightarrow> PreparedRecoveryHandoff \<Rightarrow>
     (unit, ('ce, 'se) RecoveryHandoffStageError) result \<times> LocalScalarRecoveryState \<times> DurableSyncRecord \<times> 'st" where
  "stage_prepared_recovery_handoff persist codec recovery rec store prepared =
     (case try_fold expose_domain recovery (bm_entries (prh_revision_ids prepared)) of
        Err e \<Rightarrow> (Err e, recovery, rec, store)
      | Ok candidate \<Rightarrow>
          (case tc_encode codec candidate of
             Err e \<Rightarrow> (Err (RStage_Codec e), recovery, rec, store)
           | Ok exposed_trusted_state \<Rightarrow>
               (case stage_outbound persist rec store exposed_trusted_state
                       (prh_publication_id prepared) (prh_objects prepared) of
                  (Err e, rec', store') \<Rightarrow> (Err (RStage_Sync e), recovery, rec', store')
                | (Ok _, rec', store') \<Rightarrow> (Ok (), candidate, rec', store'))))"

section \<open>What a publication carries\<close>

lemma push_all:
  "set is \<subseteq> known causal \<Longrightarrow>
     try_fold (push_revision causal) revs is = Ok (revs @ map (\<lambda>i. the (bm_get (revisions causal) i)) is)"
  by (induction "is" arbitrary: revs) (auto simp: push_revision_def ScalarRegister_revision_def)

text \<open>The part of a register below some identities, as a register.\<close>

definition restrict_register :: "'v ScalarRegister \<Rightarrow> RevisionId btree_set \<Rightarrow> 'v ScalarRegister" where
  "restrict_register causal c = \<lparr>revisions = bm_from_list (map (\<lambda>i. (i, the (bm_get (revisions causal) i))) (bs_iter c))\<rparr>"

lemma restrict_register_get:
  assumes "bs_set c \<subseteq> known causal"
  shows "bm_get (revisions (restrict_register causal c)) = bm_get (revisions causal) |` bs_set c"
proof -
  have "distinct (map fst (map (\<lambda>i. (i, the (bm_get (revisions causal) i))) (bs_iter c)))" by (simp add: comp_def)
  then have "bm_get (revisions (restrict_register causal c)) =
      map_of (map (\<lambda>i. (i, the (bm_get (revisions causal) i))) (bs_iter c))"
    by (simp add: restrict_register_def bm_get_from_list)
  also have "\<dots> = bm_get (revisions causal) |` bs_set c"
    using assms by (auto simp: map_of_map_restrict fun_eq_iff restrict_map_def)
  finally show ?thesis .
qed

lemma restrict_register_revisions:
  assumes "bs_set c \<subseteq> known causal"
  shows "ScalarRegister_revisions (restrict_register causal c) = map (\<lambda>i. the (bm_get (revisions causal) i)) (bs_iter c)"
proof -
  let ?m = "revisions (restrict_register causal c)"
  have "set (bm_keys ?m) = set (bs_iter c)" using assms by (auto simp: restrict_register_get)
  then have "bm_keys ?m = bs_iter c" by (simp add: sorted_distinct_set_unique)
  then show ?thesis
    using assms by (simp add: ScalarRegister_revisions_def bm_values_def bm_entries_conv_keys restrict_register_get)
qed

lemma restrict_register_valid:
  assumes "register_valid causal" and "bs_set c \<subseteq> known causal"
    and "causal_edge (revisions causal) `` bs_set c \<subseteq> bs_set c"
  shows "register_valid (restrict_register causal c)"
proof -
  let ?r = "restrict_register causal c"
  have sub: "bm_get (revisions ?r) \<subseteq>\<^sub>m bm_get (revisions causal)"
    by (simp add: restrict_register_get [OF assms(2)] map_le_def)
  have dom: "dom (bm_get (revisions ?r)) = bs_set c" using assms(2) by (auto simp: restrict_register_get)
  have "causal_edge (revisions ?r) \<subseteq> causal_edge (revisions causal)" using causal_edge_mono [OF sub] .
  then have "acyclic (causal_edge (revisions ?r))"
    using assms(1) by (auto simp: register_valid_def intro: acyclic_subset)
  moreover have "Range (causal_edge (revisions ?r)) \<subseteq> bs_set c"
  proof
    fix p assume "p \<in> Range (causal_edge (revisions ?r))"
    then obtain i where i: "(i, p) \<in> causal_edge (revisions ?r)" by blast
    then have "i \<in> bs_set c" using causal_edge_Domain dom by blast
    with i \<open>causal_edge (revisions ?r) \<subseteq> causal_edge (revisions causal)\<close> assms(3) show "p \<in> bs_set c" by blast
  qed
  moreover have "keyed_by_id (revisions ?r)"
    using assms(1) sub by (fastforce simp: register_valid_def keyed_by_id_def map_le_def dom_def)
  ultimately show ?thesis by (simp add: register_valid_def parents_closed_iff dom)
qed

lemma closure_register_Ok:
  assumes "register_valid causal" and "bs_set ids \<subseteq> known causal"
  shows "\<exists>reg. closure_register causal ids = Ok reg \<and> register_valid reg \<and>
    bm_get (revisions reg) = bm_get (revisions causal) |` causal_closure causal (bs_iter ids)"
proof -
  let ?E = "causal_edge (revisions causal)"
  have closed: "parents_closed (revisions causal)" using assms(1) by (simp add: register_valid_def)
  obtain c where c: "dependency_closure causal ids = Ok c" and setc: "bs_set c = causal_closure causal (bs_iter ids)"
    using handoff_closure_Ok [OF closed, of "rev (bs_iter ids)" bm_empty] assms(2)
    by (auto simp: dependency_closure_def causal_closure_def)
  have down: "?E `` bs_set c \<subseteq> bs_set c" unfolding setc causal_closure_def by (auto intro: rtrancl_into_rtrancl)
  have "?E `` known causal \<subseteq> known causal" using closed unfolding parents_closed_iff by blast
  then have "?E\<^sup>* `` known causal = known causal" by (rule Image_closed_rtrancl)
  then have "?E\<^sup>* `` bs_set ids \<subseteq> known causal" using assms(2) by blast
  then have known: "bs_set c \<subseteq> known causal" by (simp add: setc causal_closure_def)
  let ?r = "restrict_register causal c"
  have valid: "register_valid ?r" by (rule restrict_register_valid [OF assms(1) known down])
  have "try_fold (push_revision causal) [] (bs_iter c) = Ok (ScalarRegister_revisions ?r)"
    using push_all [of "bs_iter c" causal "[]"] known by (simp add: restrict_register_revisions)
  then have "closure_register causal ids = Ok ?r"
    by (simp add: closure_register_def c from_revisions_revisions [OF valid])
  with valid restrict_register_get [OF known] setc show ?thesis by auto
qed

lemma prepare_Ok_elim:
  assumes "domain_wf d" and "prepare_scalar_handoff cipher nonce d domain_key continuum pub key ids = Ok prep"
  obtains reg part wire where "register_valid reg"
    and "bm_get (revisions reg) = bm_get (revisions (LocalScalarDomain_causal d)) |`
      causal_closure (LocalScalarDomain_causal d) ids"
    and "set ids \<subseteq> known (LocalScalarDomain_causal d)"
    and "causal_closure (LocalScalarDomain_causal d) ids \<inter> bs_set (local_revision_ids (finalization d))
      \<subseteq> dom (bm_get (finalized (finalization d)))"
    and "protect_scalar_part cipher nonce key continuum pub 0 1
      (SyncProjection_from_domains (bm_insert domain_key reg bm_empty)) = Ok part"
    and "encode_protected_sync_part part = Ok wire"
    and "prep = \<lparr>prepared_revision_ids = bs_from_list ids,
      prepared_publication = \<lparr>pp_publication_id = pub, pp_objects = [wire]\<rparr>\<rparr>"
proof -
  from assms(2) obtain u d' reg part wire where
    h: "LocalScalarDomain_handoff d (bs_iter (bs_from_list ids)) = (Ok u, d')"
    and reg: "closure_register (LocalScalarDomain_causal d) (bs_from_list ids) = Ok reg"
    and rest: "protect_scalar_part cipher nonce key continuum pub 0 1
        (SyncProjection_from_domains (bm_insert domain_key reg bm_empty)) = Ok part"
      "encode_protected_sync_part part = Ok wire"
      "prep = \<lparr>prepared_revision_ids = bs_from_list ids,
        prepared_publication = \<lparr>pp_publication_id = pub, pp_objects = [wire]\<rparr>\<rparr>"
    by (auto simp: prepare_scalar_handoff_def Let_def split: if_splits result.splits)
      (metis prod.collapse)
  have same: "causal_closure causal (bs_iter (bs_from_list ids)) = causal_closure causal ids" for causal :: "bytes ScalarRegister"
    by (simp add: causal_closure_def)
  note hand = handoff_domain_wf [OF assms(1) h, unfolded same]
  from closure_register_Ok [OF domain_wfD(2) [OF assms(1)], of "bs_from_list ids", unfolded same] hand reg
  have "register_valid reg" "bm_get (revisions reg) = bm_get (revisions (LocalScalarDomain_causal d)) |`
      causal_closure (LocalScalarDomain_causal d) ids" by auto
  from that [OF this _ _ rest] hand show ?thesis by simp
qed

section \<open>Staging keeps live state and durable record paired\<close>

text \<open>
  The shape every durable runtime transition has: a candidate is computed on a clone; when its next
  record \<open>nxt\<close> exists it is persisted, and live state and record change together exactly when
  that succeeds.
\<close>

definition durable_swap ::
    "('st, 'se) persist_fn \<Rightarrow> DurableSyncRecord option \<Rightarrow> 'x \<Rightarrow> 'x \<Rightarrow> DurableSyncRecord \<Rightarrow> 'st \<Rightarrow>
     bool \<times> 'x \<times> DurableSyncRecord \<times> 'st" where
  "durable_swap persist nxt x cand rec st =
     (case nxt of
        None \<Rightarrow> (False, x, rec, st)
      | Some n \<Rightarrow>
          (case persist st n of
             (Ok _, st') \<Rightarrow> (True, cand, n, st')
           | (Err _, st') \<Rightarrow> (False, x, rec, st')))"

lemma durable_swap_outcome:
  assumes "(ok, x', rec', st') = durable_swap persist nxt x cand rec st"
  shows "if ok then nxt = Some rec' \<and> x' = cand \<and> persist st rec' = (Ok (), st') else x' = x \<and> rec' = rec"
  using assms by (auto simp: durable_swap_def split: option.splits prod.splits result.splits)

definition next_staged :: "DurableSyncRecord \<Rightarrow> PublicationId \<Rightarrow> bytes list \<Rightarrow> bytes \<Rightarrow> DurableSyncRecord option" where
  "next_staged rec pub objects bs =
     (case DurableSyncRecord_prepare_outbox rec bs pub (applied_cursor rec) objects of
        (Err _, _) \<Rightarrow> None
      | (Ok _, nxt) \<Rightarrow> Some nxt)"

definition when_encoded :: "(bytes, 'ce) result \<Rightarrow> (bytes \<Rightarrow> DurableSyncRecord option) \<Rightarrow> DurableSyncRecord option" where
  "when_encoded enc nxt = (case enc of Err _ \<Rightarrow> None | Ok bs \<Rightarrow> nxt bs)"

lemma next_staged_fields:
  assumes "next_staged rec pub objects bs = Some nxt"
  shows "trusted_state nxt = bs" and "applied_cursor nxt = applied_cursor rec"
    and "bm_get (outbox nxt) = (bm_get (outbox rec))(pub \<mapsto>
      \<lparr>oe_publication_id = pub, oe_expected_cursor = applied_cursor rec, oe_objects = objects\<rparr>)"
  using assms prepare_Ok [of rec bs pub "applied_cursor rec" objects nxt]
  by (auto simp: next_staged_def split: prod.splits result.splits)

lemma stage_outbound_swap:
  assumes "stage_outbound persist rec store bs pub objects = (res, rec', store')"
  shows "(is_ok res, if is_ok res then cand else x, rec', store') =
    durable_swap persist (next_staged rec pub objects bs) x cand rec store"
  using assms
  by (auto simp: stage_outbound_def persist_and_swap_def durable_swap_def next_staged_def
      split: prod.splits result.splits)

lemma stage_scalar_swap:
  assumes "stage_scalar_handoff persist codec d rec store ids publication = (res, d', rec', store')"
    and "LocalScalarDomain_handoff d (bs_iter ids) = (hr, cand)"
  shows "(is_ok res, d', rec', store') =
    durable_swap persist (if is_ok hr then when_encoded (tc_encode codec (LocalScalarDomain_snapshot cand))
      (next_staged rec (pp_publication_id publication) (pp_objects publication)) else None) d cand rec store"
proof (cases "is_ok hr \<and> is_ok (tc_encode codec (LocalScalarDomain_snapshot cand))")
  case True
  then obtain u bs where "hr = Ok u" and enc: "tc_encode codec (LocalScalarDomain_snapshot cand) = Ok bs"
    by (auto simp: is_ok_iff)
  obtain r rec1 st1 where s: "stage_outbound persist rec store bs (pp_publication_id publication)
      (pp_objects publication) = (r, rec1, st1)" by (metis prod_cases3)
  show ?thesis
    using assms True \<open>hr = Ok u\<close> enc s stage_outbound_swap [OF s, of cand d]
    by (cases r) (auto simp: stage_scalar_handoff_def when_encoded_def)
next
  case False
  with assms show ?thesis
    by (cases hr; cases "tc_encode codec (LocalScalarDomain_snapshot cand)")
      (auto simp: stage_scalar_handoff_def durable_swap_def when_encoded_def)
qed

lemma stage_recovery_swap:
  assumes "stage_prepared_recovery_handoff persist codec recovery rec store prepared = (res, recovery', rec', store')"
    and "try_fold expose_domain recovery (bm_entries (prh_revision_ids prepared)) =
      (Ok cand :: (_, ('ce, 'se) RecoveryHandoffStageError) result)"
  shows "(is_ok (res :: (_, ('ce, 'se) RecoveryHandoffStageError) result), recovery', rec', store') =
    durable_swap persist (when_encoded (tc_encode codec cand)
      (next_staged rec (prh_publication_id prepared) (prh_objects prepared))) recovery cand rec store"
proof (cases "tc_encode codec cand")
  case (Ok bs)
  obtain r rec1 st1 where s: "stage_outbound persist rec store bs (prh_publication_id prepared)
      (prh_objects prepared) = (r, rec1, st1)" by (metis prod_cases3)
  with assms Ok stage_outbound_swap [OF s, of cand recovery] show ?thesis
    by (cases r) (auto simp: stage_prepared_recovery_handoff_def when_encoded_def)
next
  case (Err e)
  with assms show ?thesis by (auto simp: stage_prepared_recovery_handoff_def when_encoded_def durable_swap_def)
qed

lemma expose_domain_Ok:
  assumes "recovery_wf r" and "expose_domain r (key, ids) = Ok r'"
  obtains d d' where "domain_wf d" and "bm_get (rs_domains r) key = Some (LocalScalarDomain_snapshot d)"
    and "LocalScalarDomain_handoff d (bs_iter ids) = (Ok (), d')"
    and "r' = \<lparr>rs_domains = bm_insert key (LocalScalarDomain_snapshot d') (rs_domains r)\<rparr>" and "recovery_wf r'"
proof -
  from assms(2) obtain d u d' where res: "RecoveryState_restore_domain r key = Ok (Some d)"
    and h: "LocalScalarDomain_handoff d (bs_iter ids) = (Ok u, d')"
    and rep: "snd (RecoveryState_replace_domain r key (LocalScalarDomain_snapshot d')) = r'"
    by (auto simp: expose_domain_def split: result.splits option.splits prod.splits)
  have d: "domain_wf d" "bm_get (rs_domains r) key = Some (LocalScalarDomain_snapshot d)"
    using restore_domain_wf [OF assms(1)] res by auto
  have "domain_wf d'" using handoff_domain_wf [OF d(1) h] by simp
  moreover have "dk_domain key \<noteq> []" using assms(1) d(2) by (auto simp: recovery_wf_def)
  ultimately show ?thesis
    using that [OF d _ _, of d'] h rep replace_domain_wf [OF assms(1), of d' key] by auto
qed

lemma expose_all:
  assumes "recovery_wf r" and "try_fold expose_domain r es = (Ok r' :: (_, ('ce, 'se) RecoveryHandoffStageError) result)"
    and "distinct (map fst es)"
  shows "recovery_wf r' \<and> dom (bm_get (rs_domains r')) = dom (bm_get (rs_domains r)) \<and>
    (\<forall>key. (case map_of es key of
       None \<Rightarrow> bm_get (rs_domains r') key = bm_get (rs_domains r) key
     | Some ids \<Rightarrow> \<exists>d d'. bm_get (rs_domains r) key = Some (LocalScalarDomain_snapshot d) \<and>
         LocalScalarDomain_handoff d (bs_iter ids) = (Ok (), d') \<and>
         bm_get (rs_domains r') key = Some (LocalScalarDomain_snapshot d')))"
  using assms
proof (induction es arbitrary: r)
  case (Cons e es)
  obtain key ids where e: "e = (key, ids)" by fastforce
  from Cons.prems(2) obtain r1 where
    r1: "expose_domain r (key, ids) = (Ok r1 :: (_, ('ce, 'se) RecoveryHandoffStageError) result)"
      "try_fold expose_domain r1 es = (Ok r' :: (_, ('ce, 'se) RecoveryHandoffStageError) result)"
    by (auto simp: e split: result.splits)
  from expose_domain_Ok [OF Cons.prems(1) r1(1)] obtain d d' where
    d: "bm_get (rs_domains r) key = Some (LocalScalarDomain_snapshot d)"
    "LocalScalarDomain_handoff d (bs_iter ids) = (Ok (), d')"
    "r1 = \<lparr>rs_domains = bm_insert key (LocalScalarDomain_snapshot d') (rs_domains r)\<rparr>" "recovery_wf r1" by metis
  have fresh: "map_of es key = None" and dist: "distinct (map fst es)"
    using Cons.prems(3) e by (auto simp: map_of_eq_None_iff)
  note IH = Cons.IH [OF d(4) r1(2) dist]
  note each = IH [THEN conjunct2, THEN conjunct2, rule_format]
  have "key \<in> dom (bm_get (rs_domains r))" using d(1) by blast
  then have same: "dom (bm_get (rs_domains r1)) = dom (bm_get (rs_domains r))"
    unfolding d(3) by (simp add: insert_absorb)
  show ?case
  proof (intro conjI allI)
    show "recovery_wf r'" using IH by (rule conjunct1)
    show "dom (bm_get (rs_domains r')) = dom (bm_get (rs_domains r))"
      unfolding same [symmetric] using IH by (rule conjunct2 [THEN conjunct1])
    fix k
    show "case map_of (e # es) k of
       None \<Rightarrow> bm_get (rs_domains r') k = bm_get (rs_domains r) k
     | Some ids \<Rightarrow> \<exists>d d'. bm_get (rs_domains r) k = Some (LocalScalarDomain_snapshot d) \<and>
         LocalScalarDomain_handoff d (bs_iter ids) = (Ok (), d') \<and>
         bm_get (rs_domains r') k = Some (LocalScalarDomain_snapshot d')"
    proof (cases "k = key")
      case True
      have "bm_get (rs_domains r') key = bm_get (rs_domains r1) key" using each [of key] fresh by simp
      with True d e show ?thesis by auto
    next
      case False
      then have "bm_get (rs_domains r1) k = bm_get (rs_domains r) k" unfolding d(3) by simp
      from each [of k, unfolded this] False e show ?thesis by simp
    qed
  qed
qed simp

text \<open>What the scalar runtime relies on of its trusted-state codec.\<close>

locale scalar_state_codec = trusted_state_codec codec snapshot_wf
  for codec :: "('v LocalScalarSnapshot, 'ce) TrustedStateCodec"
begin

lemma recover_encoded:
  assumes "domain_wf d" and "tc_encode codec (LocalScalarDomain_snapshot d) = Ok (trusted_state rec)"
    and "length (trusted_state rec) \<le> isize_max"
  shows "recover_scalar_domain codec rec = Ok d"
proof -
  have "snapshot_wf (LocalScalarDomain_snapshot d)" using assms(1) by (auto simp: snapshot_wf_def)
  from decode_encode [OF this assms(2,3)] show ?thesis
    by (simp add: recover_scalar_domain_def restore_wf_snapshot [OF assms(1)])
qed

lemma recover_next:
  assumes "when_encoded (tc_encode codec (LocalScalarDomain_snapshot cand)) f = Some nxt"
    and "\<And>bs. f bs = Some nxt \<Longrightarrow> trusted_state nxt = bs"
    and "domain_wf cand" and "length (trusted_state nxt) \<le> isize_max"
  shows "recover_scalar_domain codec nxt = Ok cand"
  using assms by (intro recover_encoded) (auto simp: when_encoded_def split: result.splits)

end

interpretation scalar_state: scalar_state_codec scalar_trusted_state_codec
  by unfold_locales

section \<open>Sample states\<close>

definition byte_domain :: "bytes LocalScalarDomain" where
  "byte_domain = \<lparr>working = \<lparr>ws_causal = byte_register, ws_pending = None\<rparr>, finalization = FinalizationLedger_new\<rparr>"

abbreviation "byte_key \<equiv> DomainKey (OpaqueId 1) [1]"
abbreviation "sample_key \<equiv> ContentKey (replicate 32 1)"
abbreviation "sample_nonce \<equiv> replicate 24 (7 :: u8)"

lemma byte_domain_wf: "domain_wf byte_domain"
  using byte_register_valid by (simp add: domain_wf_def byte_domain_def working_valid_def)

lemma byte_domain_prepared:
  "\<exists>wire. prepare_scalar_handoff plain_aead (Some sample_nonce) byte_domain byte_key (OpaqueId 9) (OpaqueId 4) sample_key
     [OpaqueId 5] = Ok \<lparr>prepared_revision_ids = bs_from_list [OpaqueId 5],
       prepared_publication = \<lparr>pp_publication_id = OpaqueId 4, pp_objects = [wire]\<rparr>\<rparr> \<and> length wire \<le> isize_max"
proof -
  obtain clear where clear: "encode_scalar_projection byte_projection = Ok clear" "length clear = 118"
    using byte_projection_encodes by blast
  have "is_ok (fst (LocalScalarDomain_handoff byte_domain [OpaqueId 5]))" by code_simp
  then obtain u where hand: "fst (LocalScalarDomain_handoff byte_domain [OpaqueId 5]) = Ok u" by (auto simp: is_ok_iff)
  have "closure_register byte_register (bs_from_list [OpaqueId 5]) = Ok byte_register" by code_simp
  moreover have "bs_iter (bs_from_list [OpaqueId 5 :: RevisionId]) = [OpaqueId 5]" by code_simp
  moreover have "SyncProjection_from_domains (bm_insert byte_key byte_register bm_empty) = byte_projection"
    by (simp add: SyncProjection_from_domains_def byte_projection_def sample_projection_def)
  ultimately show ?thesis
    using hand clear byte_projection_nonempty
    by (simp add: prepare_scalar_handoff_def Let_def LocalScalarDomain_causal_def byte_domain_def bs_is_empty_iff
        protect_scalar_part_def validate_part_metadata_def protect_def protect_with_nonce_def plain_aead_def
        encode_protected_sync_part_def validate_metadata_def isize_max_def PROT_MAGIC_def PART_MAGIC_def
        del: bm_is_empty_iff)
qed

lemma byte_domain_encodes:
  "\<exists>bs. encode_local_scalar_snapshot (LocalScalarDomain_snapshot byte_domain) = Ok bs \<and> length bs = 102"
proof -
  have "ScalarRegister_validate byte_register = Ok ()" using byte_register_valid by (simp add: register_valid_iff)
  then show ?thesis
    using restore_wf_snapshot [OF byte_domain_wf]
    by (simp add: encode_local_scalar_snapshot_def trusted_write_register_def write_register_def write_len_def
        LocalScalarDomain_snapshot_def WorkingScalar_snapshot_def FinalizationLedger_snapshot_def FinalizationLedger_new_def
        byte_domain_def byte_register_def ScalarRegister_len_def ScalarRegister_revisions_def bm_len_def bm_values_def
        bm_entries_single bm_entries_empty write_revision_def write_bytes_def ScalarRevision_new_def
        write_pending_def trusted_write_id_set_def write_id_set_def write_finalized_def bs_iter_def bm_keys_def LREC_MAGIC_def)
qed

definition pair_recovery :: "bytes LocalScalarDomain \<Rightarrow> LocalScalarRecoveryState" where
  "pair_recovery d = \<lparr>rs_domains = bm_insert byte_key (LocalScalarDomain_snapshot d)
     (bm_insert (DomainKey (OpaqueId 1) [9]) (LocalScalarDomain_snapshot trusted_dirty) bm_empty)\<rparr>"

lemma trusted_samples_wf: "domain_wf trusted_clean" "domain_wf trusted_dirty"
  using trusted_dirty_reachable
  by (simp_all add: domain_reachable_valid domain_valid_wf)
    (simp add: trusted_clean_def domain_wf_def working_valid_def)

lemma pair_recovery_wf: "domain_wf d \<Longrightarrow> recovery_wf (pair_recovery d)"
  using trusted_samples_wf(2)
  by (auto simp: recovery_wf_def pair_recovery_def snapshot_wf_def snapshot_inject split: if_splits)

lemma pair_recovery_encodes:
  "\<exists>bs. encode_multi_scalar_recovery_state (pair_recovery byte_domain) = Ok bs \<and> length bs = 319"
proof -
  have "byte_key < DomainKey (OpaqueId 1) [9]" by code_simp
  then show ?thesis
    using trusted_dirty_encodes byte_domain_encodes
    by (auto simp: encode_multi_scalar_recovery_state_def pair_recovery_def write_len_def bm_len_def bm_entries_pair
        write_recovery_domain_def write_bytes_def LSET_MAGIC_def)
qed

section \<open>Property\<close>

text \<open>
  C19. Staging a multi-domain publication exposes domain by domain and durably. On success every
  selected domain is the result of its own handoff of exactly the selected revisions, every other
  domain is unchanged, the outbox holds the prepared bytes against the cursor in force, the cursor
  did not move, and the durable record decodes to the live container; on any failure neither the live
  container nor the record changed.
\<close>

theorem recovery_handoff_staged:
  fixes persist :: "('st, 'se) persist_fn"
  assumes "recovery_wf recovery"
    and "stage_prepared_recovery_handoff persist multi_trusted_state_codec recovery rec store prepared =
      (res, recovery', rec', store')"
    and "length (trusted_state rec') \<le> isize_max"
  shows "if is_ok res then
      persist store rec' = (Ok (), store') \<and> decode_multi_scalar_recovery_state (trusted_state rec') = Ok recovery' \<and>
      (\<forall>key. case bm_get (prh_revision_ids prepared) key of
         None \<Rightarrow> RecoveryState_get recovery' key = RecoveryState_get recovery key
       | Some ids \<Rightarrow> \<exists>d d'. RecoveryState_get recovery key = Some (LocalScalarDomain_snapshot d) \<and>
           LocalScalarDomain_handoff d (bs_iter ids) = (Ok (), d') \<and>
           RecoveryState_get recovery' key = Some (LocalScalarDomain_snapshot d')) \<and>
      bm_get (outbox rec') = (bm_get (outbox rec))(prh_publication_id prepared \<mapsto>
        \<lparr>oe_publication_id = prh_publication_id prepared, oe_expected_cursor = applied_cursor rec,
         oe_objects = prh_objects prepared\<rparr>) \<and> applied_cursor rec' = applied_cursor rec
    else recovery' = recovery \<and> rec' = rec"
proof (cases "try_fold expose_domain recovery (bm_entries (prh_revision_ids prepared)) ::
    (_, (MultiScalarTrustedStateCodecError, 'se) RecoveryHandoffStageError) result")
  case (Err e)
  with assms(2) show ?thesis by (auto simp: stage_prepared_recovery_handoff_def)
next
  case (Ok cand)
  note swap = durable_swap_outcome [OF stage_recovery_swap [OF assms(2) Ok]]
  have "distinct (map fst (bm_entries (prh_revision_ids prepared)))"
    using bm_keys_distinct [of "prh_revision_ids prepared"] by (simp add: bm_keys_def)
  note exp = expose_all [OF assms(1) Ok this, folded bm_get_conv_map_of]
  show ?thesis
  proof (cases "is_ok res")
    case True
    with swap have s: "persist store rec' = (Ok (), store')" "recovery' = cand"
      and "when_encoded (tc_encode multi_trusted_state_codec cand)
        (next_staged rec (prh_publication_id prepared) (prh_objects prepared)) = Some rec'" by simp_all
    then obtain bs where enc: "tc_encode multi_trusted_state_codec cand = Ok bs"
      and nxt: "next_staged rec (prh_publication_id prepared) (prh_objects prepared) bs = Some rec'"
      by (auto simp: when_encoded_def split: result.splits)
    note f = next_staged_fields [OF nxt]
    have "decode_multi_scalar_recovery_state (trusted_state rec') = Ok recovery'"
      using multi_codec.decode_encode [OF conjunct1 [OF exp] enc] s(2) f(1) assms(3)
      by (simp add: multi_trusted_state_codec_def)
    moreover note exp [THEN conjunct2, THEN conjunct2, folded s(2) RecoveryState_get_def]
    ultimately show ?thesis using True s(1) f(2,3) by simp
  next
    case False
    with swap show ?thesis by simp
  qed
qed

theorem recovery_handoff_staged_witness:
  "\<exists>rec' st'. stage_prepared_recovery_handoff sample_persist multi_trusted_state_codec (pair_recovery byte_domain)
       sample_record None \<lparr>prh_revision_ids = bm_insert byte_key (bs_from_list [OpaqueId 5]) bm_empty,
         prh_publication_id = OpaqueId 6, prh_objects = [[1]]\<rparr> = (Ok (), pair_recovery byte_domain, rec', st') \<and>
     decode_multi_scalar_recovery_state (trusted_state rec') = Ok (pair_recovery byte_domain)"
proof -
  let ?p = "\<lparr>prh_revision_ids = bm_insert byte_key (bs_from_list [OpaqueId 5]) bm_empty,
     prh_publication_id = OpaqueId 6, prh_objects = [[1]]\<rparr>"
  obtain bs where bs: "encode_multi_scalar_recovery_state (pair_recovery byte_domain) = Ok bs" "length bs = 319"
    using pair_recovery_encodes by blast
  have "LocalScalarDomain_handoff byte_domain (bs_iter (bs_from_list [OpaqueId 5])) = (Ok (), byte_domain)" by code_simp
  moreover have "RecoveryState_restore_domain (pair_recovery byte_domain) byte_key = Ok (Some byte_domain)"
    using restore_wf_snapshot [OF byte_domain_wf] by (simp add: RecoveryState_restore_domain_def pair_recovery_def)
  moreover have "\<exists>old. RecoveryState_replace_domain (pair_recovery byte_domain) byte_key (LocalScalarDomain_snapshot byte_domain) =
      (Ok old, pair_recovery byte_domain)"
    using replace_domain_wf(1) [OF pair_recovery_wf byte_domain_wf, OF byte_domain_wf, of byte_key]
    by (simp add: pair_recovery_def bm_insert_same)
  ultimately have "expose_domain (pair_recovery byte_domain) (byte_key, bs_from_list [OpaqueId 5]) =
      (Ok (pair_recovery byte_domain) :: (_, (MultiScalarTrustedStateCodecError, unit) RecoveryHandoffStageError) result)"
    by (auto simp: expose_domain_def)
  then have exp: "try_fold expose_domain (pair_recovery byte_domain) (bm_entries (prh_revision_ids ?p)) =
      (Ok (pair_recovery byte_domain) :: (_, (MultiScalarTrustedStateCodecError, unit) RecoveryHandoffStageError) result)"
    by (simp add: bm_entries_single)
  have "bm_get (outbox sample_record) (OpaqueId 6) = None" by code_simp
  with bs(1) exp obtain rec' st' where run: "stage_prepared_recovery_handoff sample_persist multi_trusted_state_codec
      (pair_recovery byte_domain) sample_record None ?p = (Ok (), pair_recovery byte_domain, rec', st')"
    and "trusted_state rec' = bs"
    by (auto simp: stage_prepared_recovery_handoff_def multi_trusted_state_codec_def stage_outbound_def
        DurableSyncRecord_prepare_outbox_def validate_objects_def persist_and_swap_def sample_persist_def
        split: result.splits)
  then have "length (trusted_state rec') \<le> isize_max" using bs(2) by (simp add: isize_max_def)
  with recovery_handoff_staged [OF pair_recovery_wf [OF byte_domain_wf] run] run show ?thesis by simp
qed

end
