(* ===== verification/Receive.thy ===== *)
theory Receive
  imports Publication Multipart_Inbox
begin

text \<open>
  Inbound synchronization: \<^verbatim>\<open>apc-runtime/src/receive.rs\<close> for one domain and
  \<^verbatim>\<open>receive_set.rs\<close> for a recovery container. Fetched objects are decoded, authenticated and
  assembled completely before any state is observed; observation, trusted state and transport
  cursor then become durable in one record before the live state changes.
\<close>

section \<open>Decoding fetched objects\<close>

datatype ScalarObjectDecodeError =
    Object_Wire ProtectedPartCodecError
  | Object_Protection SyncPartError
  | MultipartUnsupported
  | IncompleteMultipartPublications nat
  | UnexpectedDomainCount nat
  | MissingExpectedDomain

definition scalar_register_from_projection ::
    "ScalarSyncProjection \<Rightarrow> DomainKey \<Rightarrow> (bytes ScalarRegister, ScalarObjectDecodeError) result" where
  "scalar_register_from_projection projection expected_domain =
     (if SyncProjection_len projection \<noteq> 1 then Err (UnexpectedDomainCount (SyncProjection_len projection))
      else
        (case SyncProjection_get projection expected_domain of
           None \<Rightarrow> Err MissingExpectedDomain
         | Some register \<Rightarrow> Ok register))"

definition decode_single_scalar_domain_object ::
    "aead \<Rightarrow> ContentKey \<Rightarrow> ContinuumId \<Rightarrow> DomainKey \<Rightarrow> bytes \<Rightarrow>
     (bytes ScalarRegister, ScalarObjectDecodeError) result" where
  "decode_single_scalar_domain_object cipher key continuum expected_domain encoded =
     (case decode_protected_sync_part encoded of
        Err e \<Rightarrow> Err (Object_Wire e)
      | Ok part \<Rightarrow>
          if part_index part \<noteq> 0 \<or> total_parts part \<noteq> 1 then Err MultipartUnsupported
          else
            (case unprotect_scalar_part cipher key continuum part of
               Err e \<Rightarrow> Err (Object_Protection e)
             | Ok projection \<Rightarrow> scalar_register_from_projection projection expected_domain))"

text \<open>The assembly loop: the inbox, the completed registers and the wire objects seen so far.\<close>

record object_assembly =
  oa_inbox :: MultipartInbox
  oa_completed :: "bytes ScalarRegister list"
  oa_seen :: "bytes btree_set"

definition assemble_object ::
    "aead \<Rightarrow> ContentKey \<Rightarrow> ContinuumId \<Rightarrow> DomainKey \<Rightarrow> object_assembly \<Rightarrow> bytes \<Rightarrow>
     (object_assembly, ScalarObjectDecodeError) result" where
  "assemble_object cipher key continuum expected_domain st encoded =
     (if bs_contains (oa_seen st) encoded then Ok st
      else
        (let st1 = st\<lparr>oa_seen := bs_insert encoded (oa_seen st)\<rparr>
         in case decode_protected_sync_part encoded of
              Err e \<Rightarrow> Err (Object_Wire e)
            | Ok part \<Rightarrow>
                (case MultipartInbox_ingest cipher (oa_inbox st1) key continuum part of
                   (Err e, _) \<Rightarrow> Err (Object_Protection e)
                 | (Ok None, inbox) \<Rightarrow> Ok (st1\<lparr>oa_inbox := inbox\<rparr>)
                 | (Ok (Some projection), inbox) \<Rightarrow>
                     (case scalar_register_from_projection projection expected_domain of
                        Err e \<Rightarrow> Err e
                      | Ok register \<Rightarrow>
                          Ok (st1\<lparr>oa_inbox := inbox, oa_completed := oa_completed st1 @ [register]\<rparr>)))))"

definition decode_complete_scalar_domain_objects ::
    "aead \<Rightarrow> ContentKey \<Rightarrow> ContinuumId \<Rightarrow> DomainKey \<Rightarrow> bytes list \<Rightarrow>
     (bytes ScalarRegister list, ScalarObjectDecodeError) result" where
  "decode_complete_scalar_domain_objects cipher key continuum expected_domain encoded_objects =
     (case try_fold (assemble_object cipher key continuum expected_domain)
             \<lparr>oa_inbox = MultipartInbox_new, oa_completed = [], oa_seen = bm_empty\<rparr> encoded_objects of
        Err e \<Rightarrow> Err e
      | Ok st \<Rightarrow>
          (let incomplete = MultipartInbox_pending_publications (oa_inbox st)
           in if incomplete \<noteq> 0 then Err (IncompleteMultipartPublications incomplete)
              else Ok (oa_completed st)))"

section \<open>Observing remote state\<close>

datatype ('te, 'se, 'ce) ScalarReceiveCommitError =
    Receive_Core CoreError
  | Receive_TrustedState 'te
  | Receive_Sync "('se, 'ce) SessionCommitError"

record ('v, 'r) ReceivedScalarState =
  received_remote :: "'v ScalarRegister"
  pre_observation_revision_id :: "RevisionId option"
  received_new_head :: 'r

definition commit_received_scalar_domain ::
    "('st, 'se) persist_fn \<Rightarrow> ('v LocalScalarSnapshot, 'te) TrustedStateCodec \<Rightarrow> ('r, 'ce) TransportCursorCodec \<Rightarrow>
     'v LocalScalarDomain \<Rightarrow> DurableSyncRecord \<Rightarrow> 'st \<Rightarrow> ('v, 'r) ReceivedScalarState \<Rightarrow>
     ('v ScalarRevision option, ('te, 'se, 'ce) ScalarReceiveCommitError) result \<times>
       'v LocalScalarDomain \<times> DurableSyncRecord \<times> 'st" where
  "commit_received_scalar_domain persist codec cursors domain rec store received =
     (case LocalScalarDomain_observe_remote domain (received_remote received) (pre_observation_revision_id received) of
        (Err e, _) \<Rightarrow> (Err (Receive_Core e), domain, rec, store)
      | (Ok sealed, candidate) \<Rightarrow>
          (case tc_encode codec (LocalScalarDomain_snapshot candidate) of
             Err e \<Rightarrow> (Err (Receive_TrustedState e), domain, rec, store)
           | Ok merged_trusted_state \<Rightarrow>
               (case commit_received persist cursors rec store merged_trusted_state (received_new_head received) of
                  (Err e, rec', store') \<Rightarrow> (Err (Receive_Sync e), domain, rec', store')
                | (Ok _, rec', store') \<Rightarrow> (Ok sealed, candidate, rec', store'))))"

datatype ('te, 'se, 'ce) RecoveryScalarReceiveCommitError =
    RReceive_MissingDomain
  | RReceive_Core CoreError
  | RReceive_RecoveryState LocalScalarRecoveryStateError
  | RReceive_TrustedState 'te
  | RReceive_Sync "('se, 'ce) SessionCommitError"

record 'r ReceivedRecoveryScalarState =
  rrs_domain_key :: DomainKey
  rrs_remote :: "bytes ScalarRegister"
  rrs_pre_observation_revision_id :: "RevisionId option"
  rrs_new_head :: 'r

definition commit_received_recovery_scalar_domain ::
    "('st, 'se) persist_fn \<Rightarrow> (LocalScalarRecoveryState, 'te) TrustedStateCodec \<Rightarrow> ('r, 'ce) TransportCursorCodec \<Rightarrow>
     LocalScalarRecoveryState \<Rightarrow> DurableSyncRecord \<Rightarrow> 'st \<Rightarrow> 'r ReceivedRecoveryScalarState \<Rightarrow>
     (bytes ScalarRevision option, ('te, 'se, 'ce) RecoveryScalarReceiveCommitError) result \<times>
       LocalScalarRecoveryState \<times> DurableSyncRecord \<times> 'st" where
  "commit_received_recovery_scalar_domain persist codec cursors recovery rec store received =
     (case RecoveryState_restore_domain recovery (rrs_domain_key received) of
        Err e \<Rightarrow> (Err (RReceive_Core e), recovery, rec, store)
      | Ok None \<Rightarrow> (Err RReceive_MissingDomain, recovery, rec, store)
      | Ok (Some selected) \<Rightarrow>
          (case LocalScalarDomain_observe_remote selected (rrs_remote received) (rrs_pre_observation_revision_id received) of
             (Err e, _) \<Rightarrow> (Err (RReceive_Core e), recovery, rec, store)
           | (Ok sealed, selected') \<Rightarrow>
               (case RecoveryState_replace_domain recovery (rrs_domain_key received) (LocalScalarDomain_snapshot selected') of
                  (Err e, _) \<Rightarrow> (Err (RReceive_RecoveryState e), recovery, rec, store)
                | (Ok _, candidate) \<Rightarrow>
                    (case tc_encode codec candidate of
                       Err e \<Rightarrow> (Err (RReceive_TrustedState e), recovery, rec, store)
                     | Ok merged_state \<Rightarrow>
                         (case commit_received persist cursors rec store merged_state (rrs_new_head received) of
                            (Err e, rec', store') \<Rightarrow> (Err (RReceive_Sync e), recovery, rec', store')
                          | (Ok _, rec', store') \<Rightarrow> (Ok sealed, candidate, rec', store'))))))"

section \<open>Assembly of a fetched range\<close>

lemma assemble_result:
  assumes "assemble_object cipher key continuum dk st obj = Ok st'"
  shows "oa_seen st' = bs_insert obj (oa_seen st)"
    and "inbox_wf (oa_inbox st) \<Longrightarrow> inbox_wf (oa_inbox st')"
    and "inbox_wf (oa_inbox st) \<Longrightarrow> list_all register_valid (oa_completed st) \<Longrightarrow> list_all register_valid (oa_completed st')"
proof -
  show "oa_seen st' = bs_insert obj (oa_seen st)"
    using assms by (auto simp: assemble_object_def Let_def bs_eq_iff insert_absorb
        split: if_splits result.splits prod.splits option.splits)
  have "inbox_wf (oa_inbox st') \<and> (list_all register_valid (oa_completed st) \<longrightarrow> list_all register_valid (oa_completed st'))"
    if wf: "inbox_wf (oa_inbox st)"
  proof (cases "obj \<in> bs_set (oa_seen st)")
    case True
    with assms wf show ?thesis by (simp add: assemble_object_def)
  next
    case False
    from assms False obtain part where part: "decode_protected_sync_part obj = Ok part"
      by (auto simp: assemble_object_def Let_def split: result.splits)
    obtain res inbox where ing: "MultipartInbox_ingest cipher (oa_inbox st) key continuum part = (res, inbox)" by fastforce
    have inv: "inbox_wf inbox" "\<And>q. res = Ok (Some q) \<Longrightarrow> projection_wf q"
      using ingest_wf [OF wf, of cipher key continuum part] ing by simp_all
    show ?thesis
    proof (cases res)
      case (Err e)
      with assms False part ing show ?thesis by (simp add: assemble_object_def Let_def)
    next
      case (Ok r)
      show ?thesis
      proof (cases r)
        case None
        with assms False part ing Ok inv(1) show ?thesis by (auto simp: assemble_object_def Let_def)
      next
        case (Some q)
        with assms False part ing Ok obtain reg where reg: "scalar_register_from_projection q dk = Ok reg"
          and st': "oa_inbox st' = inbox" "oa_completed st' = oa_completed st @ [reg]"
          by (auto simp: assemble_object_def Let_def split: result.splits)
        from reg have "bm_get (domains q) dk = Some reg"
          by (auto simp: scalar_register_from_projection_def SyncProjection_get_def split: if_splits option.splits)
        then have "register_valid reg"
          using inv(2) Ok Some by (auto simp: projection_wf_def projection_valid_def keyed_valid_def)
        with st' inv(1) show ?thesis by simp
      qed
    qed
  qed
  then show "inbox_wf (oa_inbox st) \<Longrightarrow> inbox_wf (oa_inbox st')"
    and "inbox_wf (oa_inbox st) \<Longrightarrow> list_all register_valid (oa_completed st) \<Longrightarrow> list_all register_valid (oa_completed st')"
    by blast+
qed

text \<open>Only the first occurrence of a wire object counts.\<close>

fun first_occurrences :: "bytes set \<Rightarrow> bytes list \<Rightarrow> bytes list" where
  "first_occurrences seen [] = []"
| "first_occurrences seen (x # xs) =
     (if x \<in> seen then first_occurrences seen xs else x # first_occurrences (insert x seen) xs)"

lemma assemble_skips:
  "try_fold (assemble_object cipher key continuum dk) st objs =
     try_fold (assemble_object cipher key continuum dk) st (first_occurrences (bs_set (oa_seen st)) objs)"
proof (induction objs arbitrary: st)
  case (Cons obj objs)
  show ?case
  proof (cases "obj \<in> bs_set (oa_seen st)")
    case True
    then have "assemble_object cipher key continuum dk st obj = Ok st" by (simp add: assemble_object_def)
    with True Cons.IH [of st] show ?thesis by simp
  next
    case False
    then show ?thesis
      using Cons.IH assemble_result(1) [of cipher key continuum dk st obj] by (auto split: result.splits)
  qed
qed simp

lemma first_occurrences_set: "set (first_occurrences seen xs) = set xs - seen"
  by (induction xs arbitrary: seen) auto

lemma first_occurrences_distinct: "distinct (first_occurrences seen xs)"
  by (induction xs arbitrary: seen) (auto simp: first_occurrences_set)

lemma complete_decode_valid:
  assumes "decode_complete_scalar_domain_objects cipher key continuum dk objs = Ok regs"
  shows "list_all register_valid regs"
proof -
  let ?st0 = "\<lparr>oa_inbox = MultipartInbox_new, oa_completed = [], oa_seen = bm_empty\<rparr>"
  from assms obtain st where run: "try_fold (assemble_object cipher key continuum dk) ?st0 objs = Ok st"
    and regs: "regs = oa_completed st"
    by (auto simp: decode_complete_scalar_domain_objects_def Let_def split: result.splits if_splits)
  have "inbox_wf (oa_inbox st) \<and> list_all register_valid (oa_completed st)"
    using run by (rule try_fold_invariant) (auto simp: inbox_new_wf intro: assemble_result)
  with regs show ?thesis by simp
qed

lemma single_decode_valid:
  assumes "decode_single_scalar_domain_object cipher key continuum dk wire = Ok reg"
  shows "register_valid reg"
proof -
  from assms obtain part q where "unprotect_scalar_part cipher key continuum part = Ok q" "scalar_register_from_projection q dk = Ok reg"
    by (auto simp: decode_single_scalar_domain_object_def split: result.splits if_splits)
  moreover from this(2) have "bm_get (domains q) dk = Some reg"
    by (auto simp: scalar_register_from_projection_def SyncProjection_get_def split: if_splits option.splits)
  ultimately show ?thesis using unprotect_projection_wf [of cipher key continuum part q]
    by (auto simp: projection_wf_def projection_valid_def keyed_valid_def)
qed

text \<open>A part that is a whole publication passes through the empty inbox at once.\<close>

lemma ingest_single_part:
  assumes "unprotect_scalar_part cipher key continuum part = Ok projection"
    and "part_index part = 0" and "total_parts part = 1"
  shows "MultipartInbox_ingest cipher MultipartInbox_new key continuum part = (Ok (Some projection), MultipartInbox_new)"
proof -
  have none: "pending_for MultipartInbox_new part = \<lparr>pp_total_parts = 1, pp_parts = bm_empty\<rparr>"
    using assms(3) by (simp add: pending_for_def MultipartInbox_new_def)
  have rem: "bm_remove k (bm_insert k x bm_empty) = bm_empty" for k :: PublicationId and x :: PendingPublication
    by (rule bm_eqI) simp
  show ?thesis
    unfolding ingest_authenticated [OF assms(1)] none
    using assms(2,3)
    by (simp add: Let_def release_complete_def bm_len_def bm_values_def bm_entries_single rem MultipartInbox_new_def)
qed

lemma assemble_single:
  assumes "decode_single_scalar_domain_object cipher key continuum dk obj = Ok reg"
    and "oa_inbox st = MultipartInbox_new" and "obj \<notin> bs_set (oa_seen st)"
  shows "assemble_object cipher key continuum dk st obj =
    Ok (st\<lparr>oa_completed := oa_completed st @ [reg], oa_seen := bs_insert obj (oa_seen st)\<rparr>)"
proof -
  from assms(1) obtain part projection where "decode_protected_sync_part obj = Ok part"
    "part_index part = 0" "total_parts part = 1" "unprotect_scalar_part cipher key continuum part = Ok projection"
    "scalar_register_from_projection projection dk = Ok reg"
    by (auto simp: decode_single_scalar_domain_object_def split: result.splits if_splits)
  with assms(2,3) show ?thesis by (cases st) (simp add: assemble_object_def ingest_single_part)
qed

lemma assemble_singles:
  assumes "\<And>obj. obj \<in> set objs \<Longrightarrow> decode_single_scalar_domain_object cipher key continuum dk obj = Ok (f obj)"
    and "distinct objs" and "set objs \<inter> bs_set (oa_seen st) = {}" and "oa_inbox st = MultipartInbox_new"
  shows "\<exists>st'. try_fold (assemble_object cipher key continuum dk) st objs = Ok st' \<and>
    oa_inbox st' = MultipartInbox_new \<and> oa_completed st' = oa_completed st @ map f objs"
  using assms
proof (induction objs arbitrary: st)
  case (Cons obj objs)
  let ?st = "st\<lparr>oa_completed := oa_completed st @ [f obj], oa_seen := bs_insert obj (oa_seen st)\<rparr>"
  have "assemble_object cipher key continuum dk st obj = Ok ?st"
    using Cons.prems by (intro assemble_single) auto
  moreover have "\<exists>st'. try_fold (assemble_object cipher key continuum dk) ?st objs = Ok st' \<and>
      oa_inbox st' = MultipartInbox_new \<and> oa_completed st' = oa_completed ?st @ map f objs"
    using Cons.prems by (intro Cons.IH) auto
  ultimately show ?case by auto
qed simp

section \<open>Observation is a durable swap\<close>

definition next_received :: "('r, 'ce) TransportCursorCodec \<Rightarrow> DurableSyncRecord \<Rightarrow> 'r \<Rightarrow> bytes \<Rightarrow> DurableSyncRecord option" where
  "next_received cursors rec new_head bs =
     (case cc_encode cursors new_head of
        Err _ \<Rightarrow> None
      | Ok cursor \<Rightarrow> Some (DurableSyncRecord_apply_received rec bs cursor))"

lemma next_received_fields:
  assumes "next_received cursors rec new_head bs = Some nxt"
  shows "trusted_state nxt = bs" and "outbox nxt = outbox rec"
    and "\<exists>c. cc_encode cursors new_head = Ok c \<and> applied_cursor nxt = Some c"
  using assms by (auto simp: next_received_def DurableSyncRecord_apply_received_def split: result.splits)

lemma commit_received_swap:
  assumes "commit_received persist cursors rec store bs new_head = (res, rec', store')"
  shows "(is_ok res, if is_ok res then cand else x, rec', store') =
    durable_swap persist (next_received cursors rec new_head bs) x cand rec store"
  using assms
  by (auto simp: commit_received_def persist_and_swap_def durable_swap_def next_received_def
      split: prod.splits result.splits)

lemma receive_scalar_swap:
  assumes "commit_received_scalar_domain persist codec cursors d rec store received = (res, d', rec', store')"
    and "LocalScalarDomain_observe_remote d (received_remote received) (pre_observation_revision_id received) = (hr, cand)"
  shows "(is_ok res, d', rec', store') =
    durable_swap persist (if is_ok hr then when_encoded (tc_encode codec (LocalScalarDomain_snapshot cand))
      (next_received cursors rec (received_new_head received)) else None) d cand rec store"
proof (cases "is_ok hr \<and> is_ok (tc_encode codec (LocalScalarDomain_snapshot cand))")
  case True
  then obtain u bs where "hr = Ok u" and enc: "tc_encode codec (LocalScalarDomain_snapshot cand) = Ok bs"
    by (auto simp: is_ok_iff)
  obtain r rec1 st1 where s: "commit_received persist cursors rec store bs (received_new_head received) = (r, rec1, st1)"
    by (metis prod_cases3)
  show ?thesis
    using assms True \<open>hr = Ok u\<close> enc s commit_received_swap [OF s, of cand d]
    by (cases r) (auto simp: commit_received_scalar_domain_def when_encoded_def)
next
  case False
  with assms show ?thesis
    by (cases hr; cases "tc_encode codec (LocalScalarDomain_snapshot cand)")
      (auto simp: commit_received_scalar_domain_def durable_swap_def when_encoded_def)
qed

lemma receive_recovery_swap:
  assumes "commit_received_recovery_scalar_domain persist codec cursors recovery rec store received =
      (res, recovery', rec', store')"
    and "RecoveryState_restore_domain recovery (rrs_domain_key received) = Ok (Some d)"
    and "LocalScalarDomain_observe_remote d (rrs_remote received) (rrs_pre_observation_revision_id received) = (Ok sealed, d')"
    and "RecoveryState_replace_domain recovery (rrs_domain_key received) (LocalScalarDomain_snapshot d') = (Ok old, cand)"
  shows "(is_ok res, recovery', rec', store') =
    durable_swap persist (when_encoded (tc_encode codec cand)
      (next_received cursors rec (rrs_new_head received))) recovery cand rec store"
proof (cases "tc_encode codec cand")
  case (Ok bs)
  obtain r rec1 st1 where s: "commit_received persist cursors rec store bs (rrs_new_head received) = (r, rec1, st1)"
    by (metis prod_cases3)
  with assms Ok commit_received_swap [OF s, of cand recovery] show ?thesis
    by (cases r) (auto simp: commit_received_recovery_scalar_domain_def when_encoded_def)
next
  case (Err e)
  with assms show ?thesis by (auto simp: commit_received_recovery_scalar_domain_def when_encoded_def durable_swap_def)
qed

section \<open>The single-object decoder inverts preparation\<close>

lemma protected_wire_decodes:
  assumes "aead_correct cipher" and "length nonce = 24" and "projection_wf p"
    and "protect_scalar_part cipher (Some nonce) key continuum pub 0 1 p = Ok part"
    and "encode_protected_sync_part part = Ok wire" and "length wire \<le> isize_max"
  shows "decode_protected_sync_part wire = Ok part" and "publication_id part = pub" and "part_index part = 0" and "total_parts part = 1"
    and "unprotect_scalar_part cipher key continuum part = Ok p"
proof -
  show "decode_protected_sync_part wire = Ok part" using decode_encode_part [OF assms(5,6)] .
  show "publication_id part = pub" "part_index part = 0" "total_parts part = 1"
    using assms(4) by (auto simp: protect_scalar_part_Ok)
  have "length (payload part) \<le> length wire" using assms(5) by (auto simp: encode_part_Ok)
  then show "unprotect_scalar_part cipher key continuum part = Ok p"
    using unprotect_protect_part [OF assms(1,2,4)] assms(3,6) by (simp add: projection_wf_def)
qed

lemma prepared_object_decodes:
  assumes "aead_correct cipher" and "length nonce = 24" and "domain_wf d" and "dk_domain dk \<noteq> []"
    and "prepare_scalar_handoff cipher (Some nonce) d dk continuum pub key ids = Ok prep"
    and "\<forall>wire \<in> set (pp_objects (prepared_publication prep)). length wire \<le> isize_max"
  shows "\<exists>wire reg. prepared_publication prep = \<lparr>pp_publication_id = pub, pp_objects = [wire]\<rparr> \<and>
    decode_single_scalar_domain_object cipher key continuum dk wire = Ok reg \<and> register_valid reg \<and>
    bm_get (revisions reg) = bm_get (revisions (LocalScalarDomain_causal d)) |`
      causal_closure (LocalScalarDomain_causal d) ids \<and>
    causal_closure (LocalScalarDomain_causal d) ids \<inter> bs_set (local_revision_ids (finalization d))
      \<subseteq> dom (bm_get (finalized (finalization d)))"
proof -
  obtain reg part wire where reg: "register_valid reg"
      "bm_get (revisions reg) = bm_get (revisions (LocalScalarDomain_causal d)) |`
        causal_closure (LocalScalarDomain_causal d) ids"
    and fin: "causal_closure (LocalScalarDomain_causal d) ids \<inter> bs_set (local_revision_ids (finalization d))
      \<subseteq> dom (bm_get (finalized (finalization d)))"
    and part: "protect_scalar_part cipher (Some nonce) key continuum pub 0 1
      (SyncProjection_from_domains (bm_insert dk reg bm_empty)) = Ok part"
    and wire: "encode_protected_sync_part part = Ok wire"
    and prep: "prep = \<lparr>prepared_revision_ids = bs_from_list ids,
      prepared_publication = \<lparr>pp_publication_id = pub, pp_objects = [wire]\<rparr>\<rparr>"
    using prepare_Ok_elim [OF assms(3,5)] by metis
  let ?p = "SyncProjection_from_domains (bm_insert dk reg bm_empty)"
  have p: "projection_wf ?p"
    using reg(1) assms(4)
    by (simp add: projection_wf_def projection_valid_def keyed_valid_def named_domains_def SyncProjection_from_domains_def)
  have len: "length wire \<le> isize_max" using assms(6) prep by simp
  note dec = protected_wire_decodes [OF assms(1,2) p part wire len]
  have "scalar_register_from_projection ?p dk = Ok reg"
    by (simp add: scalar_register_from_projection_def SyncProjection_len_def SyncProjection_get_def
        SyncProjection_from_domains_def bm_len_card)
  then have "decode_single_scalar_domain_object cipher key continuum dk wire = Ok reg"
    using dec by (simp add: decode_single_scalar_domain_object_def)
  with reg fin prep show ?thesis by auto
qed

text \<open>The wire object of the sample publication and what it decodes to.\<close>

definition byte_wire :: "bytes \<Rightarrow> bool" where
  "byte_wire wire \<longleftrightarrow> prepare_scalar_handoff plain_aead (Some sample_nonce) byte_domain byte_key (OpaqueId 9) (OpaqueId 4)
     sample_key [OpaqueId 5] = Ok \<lparr>prepared_revision_ids = bs_from_list [OpaqueId 5],
       prepared_publication = \<lparr>pp_publication_id = OpaqueId 4, pp_objects = [wire]\<rparr>\<rparr> \<and> length wire \<le> isize_max"

lemma byte_wire_exists: "\<exists>wire. byte_wire wire"
  using byte_domain_prepared by (auto simp: byte_wire_def)

lemma byte_wire_decodes:
  assumes "byte_wire wire"
  shows "decode_single_scalar_domain_object plain_aead sample_key (OpaqueId 9) byte_key wire = Ok byte_register"
proof -
  have "length sample_nonce = 24" "dk_domain byte_key \<noteq> []" by simp_all
  from prepared_object_decodes [OF plain_aead_correct this(1) byte_domain_wf this(2) conjunct1 [OF assms [unfolded byte_wire_def]]]
    assms
  obtain reg where "decode_single_scalar_domain_object plain_aead sample_key (OpaqueId 9) byte_key wire = Ok reg"
    and reg: "bm_get (revisions reg) = bm_get (revisions byte_register) |` causal_closure byte_register [OpaqueId 5]"
    by (auto simp: byte_wire_def LocalScalarDomain_causal_def byte_domain_def)
  moreover have "OpaqueId 5 \<in> causal_closure byte_register [OpaqueId 5]" by (auto simp: causal_closure_def)
  then have "bm_get (revisions reg) = bm_get (revisions byte_register)"
    unfolding reg by (auto simp: restrict_map_def byte_register_def fun_eq_iff)
  ultimately show ?thesis by (simp add: register_eq_iff)
qed

lemma byte_wire_part:
  assumes "byte_wire wire"
  obtains part where "decode_protected_sync_part wire = Ok part" and "publication_id part = OpaqueId 4" and "part_index part = 0"
    and "total_parts part = 1" and "unprotect_scalar_part plain_aead sample_key (OpaqueId 9) part = Ok byte_projection"
proof -
  from assms obtain part where part: "protect_scalar_part plain_aead (Some sample_nonce) sample_key (OpaqueId 9) (OpaqueId 4) 0 1
      (SyncProjection_from_domains (bm_insert byte_key byte_register bm_empty)) = Ok part"
    "encode_protected_sync_part part = Ok wire" "length wire \<le> isize_max"
  proof -
    have "closure_register byte_register (bs_from_list [OpaqueId 5]) = Ok byte_register" by code_simp
    with assms that show ?thesis
      by (auto simp: byte_wire_def prepare_scalar_handoff_def Let_def LocalScalarDomain_causal_def byte_domain_def
          split: if_splits result.splits)
  qed
  have p: "SyncProjection_from_domains (bm_insert byte_key byte_register bm_empty) = byte_projection"
    by (simp add: SyncProjection_from_domains_def byte_projection_def sample_projection_def)
  have "projection_wf byte_projection" "length sample_nonce = 24" using byte_projection_valid by (simp_all add: projection_wf_def)
  from protected_wire_decodes [OF plain_aead_correct this(2,1) part [unfolded p]] that show ?thesis by blast
qed

lemma byte_wire_complete:
  assumes "byte_wire wire"
  shows "decode_complete_scalar_domain_objects plain_aead sample_key (OpaqueId 9) byte_key [wire] = Ok [byte_register]"
  using assemble_single [OF byte_wire_decodes [OF assms], of "\<lparr>oa_inbox = MultipartInbox_new, oa_completed = [], oa_seen = bm_empty\<rparr>"]
  by (simp add: decode_complete_scalar_domain_objects_def MultipartInbox_pending_publications_def
      MultipartInbox_new_def bm_len_card)

section \<open>Properties\<close>

text \<open>
  C11. What one replica prepares for publication another receives, no more and no less: the single
  wire object of a prepared handoff decodes, under the same key, continuum and domain, to a valid
  register that holds exactly the revisions in the causal closure of the selected ones, each with its
  value and parents; and everything local in that closure was finalized before any byte was made.
\<close>

theorem published_closure_is_received:
  assumes "aead_correct cipher" and "length nonce = 24" and "domain_wf d" and "dk_domain dk \<noteq> []"
    and "prepare_scalar_handoff cipher (Some nonce) d dk continuum pub key ids = Ok prep"
    and "\<forall>wire \<in> set (pp_objects (prepared_publication prep)). length wire \<le> isize_max"
  shows "\<exists>wire reg. prepared_publication prep = \<lparr>pp_publication_id = pub, pp_objects = [wire]\<rparr> \<and>
    decode_single_scalar_domain_object cipher key continuum dk wire = Ok reg \<and> register_valid reg \<and>
    bm_get (revisions reg) = bm_get (revisions (LocalScalarDomain_causal d)) |`
      causal_closure (LocalScalarDomain_causal d) ids \<and>
    causal_closure (LocalScalarDomain_causal d) ids \<inter> bs_set (local_revision_ids (finalization d))
      \<subseteq> dom (bm_get (finalized (finalization d)))"
  using assms by (rule prepared_object_decodes)

theorem published_closure_is_received_witness:
  "\<exists>wire reg. prepare_scalar_handoff plain_aead (Some sample_nonce) byte_domain byte_key (OpaqueId 9) (OpaqueId 4) sample_key
     [OpaqueId 5] = Ok \<lparr>prepared_revision_ids = bs_from_list [OpaqueId 5],
       prepared_publication = \<lparr>pp_publication_id = OpaqueId 4, pp_objects = [wire]\<rparr>\<rparr> \<and>
     decode_single_scalar_domain_object plain_aead sample_key (OpaqueId 9) byte_key wire = Ok reg"
proof -
  obtain wire where wire: "prepare_scalar_handoff plain_aead (Some sample_nonce) byte_domain byte_key (OpaqueId 9)
      (OpaqueId 4) sample_key [OpaqueId 5] = Ok \<lparr>prepared_revision_ids = bs_from_list [OpaqueId 5],
        prepared_publication = \<lparr>pp_publication_id = OpaqueId 4, pp_objects = [wire]\<rparr>\<rparr>" "length wire \<le> isize_max"
    using byte_domain_prepared by blast
  have "length sample_nonce = 24" "dk_domain byte_key \<noteq> []" by simp_all
  from published_closure_is_received [OF plain_aead_correct this(1) byte_domain_wf this(2) wire(1)] wire show ?thesis by auto
qed

text \<open>
  C20. A fetched range is assembled from its first occurrences only, so a transport that replays or
  repeats objects changes nothing, and on objects that are whole publications the multipart path
  agrees with the single-object decoder, in order of first arrival. Everything it returns is valid.
\<close>

theorem complete_decode_exact:
  assumes "\<And>obj. obj \<in> set singles \<Longrightarrow> decode_single_scalar_domain_object cipher key continuum dk obj = Ok (f obj)"
  shows "decode_complete_scalar_domain_objects cipher key continuum dk objs =
      decode_complete_scalar_domain_objects cipher key continuum dk (first_occurrences {} objs) \<and>
    decode_complete_scalar_domain_objects cipher key continuum dk singles = Ok (map f (first_occurrences {} singles)) \<and>
    (\<forall>regs. decode_complete_scalar_domain_objects cipher key continuum dk objs = Ok regs \<longrightarrow> list_all register_valid regs)"
proof (intro conjI)
  let ?st = "\<lparr>oa_inbox = MultipartInbox_new, oa_completed = [], oa_seen = bm_empty\<rparr>"
  have "try_fold (assemble_object cipher key continuum dk) ?st objs =
      try_fold (assemble_object cipher key continuum dk) ?st (first_occurrences {} objs)" for objs
    using assemble_skips [of cipher key continuum dk ?st objs] by simp
  note dedup = this
  show "decode_complete_scalar_domain_objects cipher key continuum dk objs =
      decode_complete_scalar_domain_objects cipher key continuum dk (first_occurrences {} objs)"
    unfolding decode_complete_scalar_domain_objects_def by (simp only: dedup [symmetric])
  have "\<exists>st'. try_fold (assemble_object cipher key continuum dk) ?st (first_occurrences {} singles) = Ok st' \<and>
      oa_inbox st' = MultipartInbox_new \<and> oa_completed st' = oa_completed ?st @ map f (first_occurrences {} singles)"
    using assms by (intro assemble_singles) (auto simp: first_occurrences_set first_occurrences_distinct)
  then show "decode_complete_scalar_domain_objects cipher key continuum dk singles = Ok (map f (first_occurrences {} singles))"
    using dedup [of singles]
    by (auto simp: decode_complete_scalar_domain_objects_def MultipartInbox_pending_publications_def
        MultipartInbox_new_def bm_len_card)
qed (blast dest: complete_decode_valid)

text \<open>The same wire object fetched twice yields its register once.\<close>

theorem complete_decode_exact_witness:
  "\<exists>wire. byte_wire wire \<and>
     decode_complete_scalar_domain_objects plain_aead sample_key (OpaqueId 9) byte_key [wire, wire] = Ok [byte_register]"
proof -
  obtain wire where wire: "byte_wire wire" using byte_wire_exists by blast
  with complete_decode_exact [of "[wire, wire]" plain_aead sample_key "OpaqueId 9" byte_key "\<lambda>_. byte_register"]
    byte_wire_decodes [OF wire]
  show ?thesis by auto
qed

text \<open>
  C18. Remote state reaches exactly one domain of the container. On success the selected domain
  holds everything it knew and everything remote, every other domain is byte for byte what it was
  (a dirty epoch there is neither sealed nor made to observe anything), the cursor is the new head,
  the outbox is untouched, and the durable record decodes to the live container; on any failure the
  live container and the record are unchanged.
\<close>

theorem receive_isolates_domains:
  assumes "recovery_wf recovery" and "register_valid (rrs_remote received)"
    and "commit_received_recovery_scalar_domain persist multi_trusted_state_codec cursors recovery rec store received =
      (res, recovery', rec', store')"
    and "length (trusted_state rec') \<le> isize_max"
  shows "if is_ok res then
      persist store rec' = (Ok (), store') \<and> decode_multi_scalar_recovery_state (trusted_state rec') = Ok recovery' \<and>
      (\<forall>key. key \<noteq> rrs_domain_key received \<longrightarrow> RecoveryState_get recovery' key = RecoveryState_get recovery key) \<and>
      (\<exists>d d'. RecoveryState_get recovery (rrs_domain_key received) = Some (LocalScalarDomain_snapshot d) \<and>
        RecoveryState_get recovery' (rrs_domain_key received) = Some (LocalScalarDomain_snapshot d') \<and>
        register_le (LocalScalarDomain_causal d) (LocalScalarDomain_causal d') \<and>
        register_le (rrs_remote received) (LocalScalarDomain_causal d')) \<and>
      outbox rec' = outbox rec \<and> (\<exists>c. cc_encode cursors (rrs_new_head received) = Ok c \<and> applied_cursor rec' = Some c)
    else recovery' = recovery \<and> rec' = rec"
proof (cases "\<exists>d sealed d'. RecoveryState_restore_domain recovery (rrs_domain_key received) = Ok (Some d) \<and>
    LocalScalarDomain_observe_remote d (rrs_remote received) (rrs_pre_observation_revision_id received) = (Ok sealed, d')")
  case True
  then obtain d sealed d' where d: "RecoveryState_restore_domain recovery (rrs_domain_key received) = Ok (Some d)"
    and obs: "LocalScalarDomain_observe_remote d (rrs_remote received) (rrs_pre_observation_revision_id received) = (Ok sealed, d')"
    by blast
  have wf: "domain_wf d" and get: "bm_get (rs_domains recovery) (rrs_domain_key received) = Some (LocalScalarDomain_snapshot d)"
    using restore_domain_wf [OF assms(1)] d by auto
  note o = observe_domain_wf [OF wf assms(2) obs]
  have "dk_domain (rrs_domain_key received) \<noteq> []" using assms(1) get by (auto simp: recovery_wf_def)
  note rep = replace_domain_wf [OF assms(1) conjunct1 [OF o] this]
  from rep(1) obtain old where old: "RecoveryState_replace_domain recovery (rrs_domain_key received) (LocalScalarDomain_snapshot d') =
      (Ok old, \<lparr>rs_domains = bm_insert (rrs_domain_key received) (LocalScalarDomain_snapshot d') (rs_domains recovery)\<rparr>)" by blast
  note swap = durable_swap_outcome [OF receive_recovery_swap [OF assms(3) d obs old]]
  show ?thesis
  proof (cases "is_ok res")
    case True
    with swap have s: "persist store rec' = (Ok (), store')"
      "recovery' = \<lparr>rs_domains = bm_insert (rrs_domain_key received) (LocalScalarDomain_snapshot d') (rs_domains recovery)\<rparr>"
      and "when_encoded (tc_encode multi_trusted_state_codec recovery') (next_received cursors rec (rrs_new_head received)) = Some rec'"
      by simp_all
    then obtain bs where enc: "tc_encode multi_trusted_state_codec recovery' = Ok bs"
      and nxt: "next_received cursors rec (rrs_new_head received) bs = Some rec'"
      by (auto simp: when_encoded_def split: result.splits)
    note f = next_received_fields [OF nxt]
    have "decode_multi_scalar_recovery_state (trusted_state rec') = Ok recovery'"
      using multi_codec.decode_encode [of recovery' bs] rep(2) s(2) enc f(1) assms(4)
      by (simp add: multi_trusted_state_codec_def)
    with True s f o get show ?thesis by (auto simp: RecoveryState_get_def)
  next
    case False
    with swap show ?thesis by simp
  qed
next
  case False
  with assms(3) show ?thesis
    by (auto simp: commit_received_recovery_scalar_domain_def split: result.splits option.splits prod.splits)
qed

lemma pair_recovery_restore:
  "domain_wf d \<Longrightarrow> RecoveryState_restore_domain (pair_recovery d) byte_key = Ok (Some d)"
  using restore_wf_snapshot [of d] by (simp add: RecoveryState_restore_domain_def pair_recovery_def)

lemma pair_recovery_replace:
  "\<exists>old. RecoveryState_replace_domain (pair_recovery d) byte_key (LocalScalarDomain_snapshot byte_domain) =
     (Ok old, pair_recovery byte_domain)"
proof -
  have "snapshot_wf (LocalScalarDomain_snapshot byte_domain)" using byte_domain_wf by (auto simp: snapshot_wf_def)
  moreover have "bm_insert k x (bm_insert k y m) = bm_insert k x m" for x y and k :: DomainKey and m :: "(_, bytes LocalScalarSnapshot) btree_map"
    by (rule bm_eqI) simp
  ultimately show ?thesis by (simp add: RecoveryState_replace_domain_def check_wf_snapshot pair_recovery_def)
qed

theorem receive_isolates_domains_witness:
  "\<exists>rec' st'. commit_received_recovery_scalar_domain sample_persist multi_trusted_state_codec sample_codec
       (pair_recovery trusted_clean) sample_record None
       \<lparr>rrs_domain_key = byte_key, rrs_remote = byte_register, rrs_pre_observation_revision_id = None, rrs_new_head = 5\<rparr> =
       (Ok None, pair_recovery byte_domain, rec', st') \<and>
     decode_multi_scalar_recovery_state (trusted_state rec') = Ok (pair_recovery byte_domain) \<and>
     RecoveryState_get (pair_recovery byte_domain) (DomainKey (OpaqueId 1) [9]) =
       RecoveryState_get (pair_recovery trusted_clean) (DomainKey (OpaqueId 1) [9])"
proof -
  obtain bs where bs: "encode_multi_scalar_recovery_state (pair_recovery byte_domain) = Ok bs" "length bs = 319"
    using pair_recovery_encodes by blast
  have obs: "LocalScalarDomain_observe_remote trusted_clean byte_register None = (Ok None, byte_domain)" by code_simp
  note pair_recovery_restore [OF trusted_samples_wf(1)] pair_recovery_replace [of trusted_clean]
  with obs bs obtain rec' st' where run: "commit_received_recovery_scalar_domain sample_persist multi_trusted_state_codec sample_codec
       (pair_recovery trusted_clean) sample_record None
       \<lparr>rrs_domain_key = byte_key, rrs_remote = byte_register, rrs_pre_observation_revision_id = None, rrs_new_head = 5\<rparr> =
       (Ok None, pair_recovery byte_domain, rec', st')" and "trusted_state rec' = bs"
    by (auto simp: commit_received_recovery_scalar_domain_def multi_trusted_state_codec_def commit_received_def
        sample_codec_def persist_and_swap_def sample_persist_def DurableSyncRecord_apply_received_def)
  with bs have "length (trusted_state rec') \<le> isize_max" by (simp add: isize_max_def)
  with receive_isolates_domains [OF pair_recovery_wf [OF trusted_samples_wf(1)] _ run] byte_register_valid run
  show ?thesis by (auto dest: spec [of _ "DomainKey (OpaqueId 1) [9]"])
qed

end
