(* ===== verification/Catchup.thy ===== *)
theory Catchup
  imports Receive
begin

text \<open>
  One catch-up pass from the durable cursor: \<^verbatim>\<open>apc-runtime/src/catchup.rs\<close> for one domain and
  \<^verbatim>\<open>catchup_set.rs\<close> for a recovery container. A fetched range is decoded and merged as a whole;
  only then is it observed, once per domain, and the observation, the trusted state and the new
  cursor become durable together. The transport is a parameter of every pass; the two passes share
  the shape of their outcome and the contract \<open>catch_up_pass\<close> that a resume relies on.
\<close>

section \<open>Outcomes and errors\<close>

text \<open>The two outcome enums of the source differ in the type of the evidence: one set of revision
  identities and one sealed revision, or one of each per domain.\<close>

datatype ('r, 'o, 's) catch_up_outcome =
    CatchUp_UpToDate "'r option"
  | CatchUp_Applied 'r nat 'o 's
  | CatchUp_CursorAdvanced 'r
  | CatchUp_BaselineUnavailable "'r option"

type_synonym 'r ScalarCatchUpOutcome =
  "('r, RevisionId btree_set, bytes ScalarRevision option) catch_up_outcome"

type_synonym 'r ScalarRecoveryCatchUpOutcome =
  "('r, (DomainKey, RevisionId btree_set) btree_map, (DomainKey, bytes ScalarRevision) btree_map) catch_up_outcome"

text \<open>\<open>CU_Panicked\<close> stands for the \<^verbatim>\<open>expect\<close> on the combined remote state; it is never returned.\<close>

datatype ('te, 'tse, 'se, 'ce) ScalarCatchUpError =
    CU_Io "('te, 'ce) SessionIoError"
  | CU_Decode ScalarObjectDecodeError
  | CU_Core CoreError
  | CU_TrustedState 'tse
  | CU_Commit "('se, 'ce) SessionCommitError"
  | CU_Receive "('tse, 'se, 'ce) ScalarReceiveCommitError"
  | CU_Panicked

datatype ('te, 'tse, 'se, 'ce) ScalarRecoveryCatchUpError =
    RCU_Io "('te, 'ce) SessionIoError"
  | RCU_Wire ProtectedPartCodecError
  | RCU_Protection SyncPartError
  | RCU_IncompleteMultipartPublications nat
  | RCU_Core CoreError
  | RCU_RecoveryState LocalScalarRecoveryStateError
  | RCU_TrustedState 'tse
  | RCU_Commit "('se, 'ce) SessionCommitError"

section \<open>One domain\<close>

record ScalarCatchUpSpec =
  cu_key :: ContentKey
  cu_continuum_id :: ContinuumId
  cu_domain_key :: DomainKey
  cu_pre_observation_revision_id :: "RevisionId option"

definition merge_remote ::
    "'v ScalarRegister option \<Rightarrow> 'v ScalarRegister \<Rightarrow> ('v ScalarRegister option, CoreError) result" where
  "merge_remote combined register =
     (case combined of
        None \<Rightarrow> Ok (Some register)
      | Some current \<Rightarrow>
          (case ScalarRegister_merge current register of Err e \<Rightarrow> Err e | Ok m \<Rightarrow> Ok (Some m)))"

definition revision_ids_of :: "'v ScalarRegister \<Rightarrow> RevisionId btree_set" where
  "revision_ids_of register = bs_from_list (map rev_id (ScalarRegister_revisions register))"

text \<open>The \<^verbatim>\<open>Changed\<close> arm: what is done with a fetched range.\<close>

definition apply_scalar_range ::
    "aead \<Rightarrow> ('st, 'se) persist_fn \<Rightarrow> (bytes LocalScalarSnapshot, 'tse) TrustedStateCodec \<Rightarrow>
     ('r, 'ce) TransportCursorCodec \<Rightarrow> bytes LocalScalarDomain \<Rightarrow> DurableSyncRecord \<Rightarrow> 'st \<Rightarrow>
     ScalarCatchUpSpec \<Rightarrow> 'r \<Rightarrow> bytes list \<Rightarrow>
     ('r ScalarCatchUpOutcome, ('te, 'tse, 'se, 'ce) ScalarCatchUpError) result \<times>
       bytes LocalScalarDomain \<times> DurableSyncRecord \<times> 'st" where
  "apply_scalar_range cipher persist codec cursors domain rec store spec head objects =
     (if objects = [] then
        (case tc_encode codec (LocalScalarDomain_snapshot domain) of
           Err e \<Rightarrow> (Err (CU_TrustedState e), domain, rec, store)
         | Ok trusted \<Rightarrow>
             (case commit_received persist cursors rec store trusted head of
                (Err e, rec', store') \<Rightarrow> (Err (CU_Commit e), domain, rec', store')
              | (Ok _, rec', store') \<Rightarrow> (Ok (CatchUp_CursorAdvanced head), domain, rec', store')))
      else
        (case decode_complete_scalar_domain_objects cipher (cu_key spec) (cu_continuum_id spec) (cu_domain_key spec) objects of
           Err e \<Rightarrow> (Err (CU_Decode e), domain, rec, store)
         | Ok decoded \<Rightarrow>
             (case try_fold merge_remote None decoded of
                Err e \<Rightarrow> (Err (CU_Core e), domain, rec, store)
              | Ok None \<Rightarrow> (Err CU_Panicked, domain, rec, store)
              | Ok (Some remote) \<Rightarrow>
                  (case commit_received_scalar_domain persist codec cursors domain rec store
                          \<lparr>received_remote = remote,
                           pre_observation_revision_id = cu_pre_observation_revision_id spec,
                           received_new_head = head\<rparr> of
                     (Err e, domain', rec', store') \<Rightarrow> (Err (CU_Receive e), domain', rec', store')
                   | (Ok sealed, domain', rec', store') \<Rightarrow>
                       (Ok (CatchUp_Applied head (length objects) (revision_ids_of remote) sealed), domain', rec', store')))))"

definition catch_up_single_scalar_domain ::
    "aead \<Rightarrow> ('st, 'se) persist_fn \<Rightarrow> (bytes LocalScalarSnapshot, 'tse) TrustedStateCodec \<Rightarrow>
     ('r, 'ce) TransportCursorCodec \<Rightarrow> ('t, 'r, 'te) OpaqueTransport \<Rightarrow>
     ScalarCatchUpSpec \<Rightarrow> bytes LocalScalarDomain \<Rightarrow> DurableSyncRecord \<Rightarrow> 'st \<Rightarrow> 't \<Rightarrow>
     ('r ScalarCatchUpOutcome, ('te, 'tse, 'se, 'ce) ScalarCatchUpError) result \<times>
       bytes LocalScalarDomain \<times> DurableSyncRecord \<times> 'st \<times> 't" where
  "catch_up_single_scalar_domain cipher persist codec cursors tr spec domain rec store t =
     (case fetch_from_durable_cursor tr cursors rec t of
        (Err e, t') \<Rightarrow> (Err (CU_Io e), domain, rec, store, t')
      | (Ok (UpToDate head), t') \<Rightarrow> (Ok (CatchUp_UpToDate head), domain, rec, store, t')
      | (Ok (BaselineUnavailable head), t') \<Rightarrow> (Ok (CatchUp_BaselineUnavailable head), domain, rec, store, t')
      | (Ok (Changed head objects), t') \<Rightarrow>
          (case apply_scalar_range cipher persist codec cursors domain rec store spec head objects of
             (res, domain', rec', store') \<Rightarrow> (res, domain', rec', store', t')))"

section \<open>A recovery container\<close>

record ScalarRecoveryCatchUpSpec =
  rcu_key :: ContentKey
  rcu_continuum_id :: ContinuumId
  rcu_pre_observation_revision_ids :: "(DomainKey, RevisionId) btree_map"

record projection_assembly =
  pa_inbox :: MultipartInbox
  pa_completed :: "ScalarSyncProjection list"
  pa_seen :: "bytes btree_set"

definition assemble_projection ::
    "aead \<Rightarrow> ContentKey \<Rightarrow> ContinuumId \<Rightarrow> projection_assembly \<Rightarrow> bytes \<Rightarrow>
     (projection_assembly, ('te, 'tse, 'se, 'ce) ScalarRecoveryCatchUpError) result" where
  "assemble_projection cipher key continuum st encoded =
     (if bs_contains (pa_seen st) encoded then Ok st
      else
        (let st1 = st\<lparr>pa_seen := bs_insert encoded (pa_seen st)\<rparr>
         in case decode_protected_sync_part encoded of
              Err e \<Rightarrow> Err (RCU_Wire e)
            | Ok part \<Rightarrow>
                (case MultipartInbox_ingest cipher (pa_inbox st1) key continuum part of
                   (Err e, _) \<Rightarrow> Err (RCU_Protection e)
                 | (Ok None, inbox) \<Rightarrow> Ok (st1\<lparr>pa_inbox := inbox\<rparr>)
                 | (Ok (Some projection), inbox) \<Rightarrow>
                     Ok (st1\<lparr>pa_inbox := inbox, pa_completed := pa_completed st1 @ [projection]\<rparr>))))"

definition decode_complete_scalar_projections ::
    "aead \<Rightarrow> ContentKey \<Rightarrow> ContinuumId \<Rightarrow> bytes list \<Rightarrow>
     (ScalarSyncProjection list, ('te, 'tse, 'se, 'ce) ScalarRecoveryCatchUpError) result" where
  "decode_complete_scalar_projections cipher key continuum encoded_objects =
     (case try_fold (assemble_projection cipher key continuum)
             \<lparr>pa_inbox = MultipartInbox_new, pa_completed = [], pa_seen = bm_empty\<rparr> encoded_objects of
        Err e \<Rightarrow> Err e
      | Ok st \<Rightarrow>
          (let incomplete = MultipartInbox_pending_publications (pa_inbox st)
           in if incomplete \<noteq> 0 then Err (RCU_IncompleteMultipartPublications incomplete)
              else Ok (pa_completed st)))"

text \<open>The per-domain loop: candidate container, observed identities, sealed local revisions.\<close>

record range_observation =
  ro_candidate :: LocalScalarRecoveryState
  ro_observed :: "(DomainKey, RevisionId btree_set) btree_map"
  ro_sealed :: "(DomainKey, bytes ScalarRevision) btree_map"

definition observe_domain ::
    "(DomainKey, RevisionId) btree_map \<Rightarrow> range_observation \<Rightarrow> DomainKey \<times> bytes ScalarRegister \<Rightarrow>
     (range_observation, ('te, 'tse, 'se, 'ce) ScalarRecoveryCatchUpError) result" where
  "observe_domain pre_ids st e =
     (case e of (domain_key, remote) \<Rightarrow>
        (let observed = bm_insert domain_key (revision_ids_of remote) (ro_observed st)
         in case RecoveryState_restore_domain (ro_candidate st) domain_key of
              Err er \<Rightarrow> Err (RCU_Core er)
            | Ok (Some local) \<Rightarrow>
                (case LocalScalarDomain_observe_remote local remote (bm_get pre_ids domain_key) of
                   (Err er, _) \<Rightarrow> Err (RCU_Core er)
                 | (Ok sealed, local') \<Rightarrow>
                     (let sealed_local = (case sealed of
                            Some rv \<Rightarrow> bm_insert domain_key rv (ro_sealed st)
                          | None \<Rightarrow> ro_sealed st)
                      in case RecoveryState_replace_domain (ro_candidate st) domain_key (LocalScalarDomain_snapshot local') of
                           (Err er, _) \<Rightarrow> Err (RCU_RecoveryState er)
                         | (Ok _, candidate) \<Rightarrow>
                             Ok \<lparr>ro_candidate = candidate, ro_observed = observed, ro_sealed = sealed_local\<rparr>))
            | Ok None \<Rightarrow>
                (case LocalScalarDomain_from_causal remote of
                   Err er \<Rightarrow> Err (RCU_Core er)
                 | Ok local \<Rightarrow>
                     (case RecoveryState_insert_new (ro_candidate st) domain_key (LocalScalarDomain_snapshot local) of
                        (Err er, _) \<Rightarrow> Err (RCU_RecoveryState er)
                      | (Ok _, candidate) \<Rightarrow>
                          Ok \<lparr>ro_candidate = candidate, ro_observed = observed, ro_sealed = ro_sealed st\<rparr>))))"

definition apply_recovery_range ::
    "aead \<Rightarrow> ('st, 'se) persist_fn \<Rightarrow> (LocalScalarRecoveryState, 'tse) TrustedStateCodec \<Rightarrow>
     ('r, 'ce) TransportCursorCodec \<Rightarrow> LocalScalarRecoveryState \<Rightarrow> DurableSyncRecord \<Rightarrow> 'st \<Rightarrow>
     ScalarRecoveryCatchUpSpec \<Rightarrow> 'r \<Rightarrow> bytes list \<Rightarrow>
     ('r ScalarRecoveryCatchUpOutcome, ('te, 'tse, 'se, 'ce) ScalarRecoveryCatchUpError) result \<times>
       LocalScalarRecoveryState \<times> DurableSyncRecord \<times> 'st" where
  "apply_recovery_range cipher persist codec cursors recovery rec store spec head objects =
     (if objects = [] then
        (case tc_encode codec recovery of
           Err e \<Rightarrow> (Err (RCU_TrustedState e), recovery, rec, store)
         | Ok trusted \<Rightarrow>
             (case commit_received persist cursors rec store trusted head of
                (Err e, rec', store') \<Rightarrow> (Err (RCU_Commit e), recovery, rec', store')
              | (Ok _, rec', store') \<Rightarrow> (Ok (CatchUp_CursorAdvanced head), recovery, rec', store')))
      else
        (case decode_complete_scalar_projections cipher (rcu_key spec) (rcu_continuum_id spec) objects of
           Err e \<Rightarrow> (Err e, recovery, rec, store)
         | Ok projections \<Rightarrow>
             (case try_fold (SyncProjection_merge ScalarRegister_merge) SyncProjection_new projections of
                Err e \<Rightarrow> (Err (RCU_Core e), recovery, rec, store)
              | Ok combined \<Rightarrow>
                  (case try_fold (observe_domain (rcu_pre_observation_revision_ids spec))
                          \<lparr>ro_candidate = recovery, ro_observed = bm_empty, ro_sealed = bm_empty\<rparr>
                          (bm_entries (domains combined)) of
                     Err e \<Rightarrow> (Err e, recovery, rec, store)
                   | Ok st \<Rightarrow>
                       (case tc_encode codec (ro_candidate st) of
                          Err e \<Rightarrow> (Err (RCU_TrustedState e), recovery, rec, store)
                        | Ok trusted \<Rightarrow>
                            (case commit_received persist cursors rec store trusted head of
                               (Err e, rec', store') \<Rightarrow> (Err (RCU_Commit e), recovery, rec', store')
                             | (Ok _, rec', store') \<Rightarrow>
                                 (Ok (CatchUp_Applied head (length objects) (ro_observed st) (ro_sealed st)),
                                  ro_candidate st, rec', store')))))))"

definition catch_up_scalar_recovery_state ::
    "aead \<Rightarrow> ('st, 'se) persist_fn \<Rightarrow> (LocalScalarRecoveryState, 'tse) TrustedStateCodec \<Rightarrow>
     ('r, 'ce) TransportCursorCodec \<Rightarrow> ('t, 'r, 'te) OpaqueTransport \<Rightarrow>
     ScalarRecoveryCatchUpSpec \<Rightarrow> LocalScalarRecoveryState \<Rightarrow> DurableSyncRecord \<Rightarrow> 'st \<Rightarrow> 't \<Rightarrow>
     ('r ScalarRecoveryCatchUpOutcome, ('te, 'tse, 'se, 'ce) ScalarRecoveryCatchUpError) result \<times>
       LocalScalarRecoveryState \<times> DurableSyncRecord \<times> 'st \<times> 't" where
  "catch_up_scalar_recovery_state cipher persist codec cursors tr spec recovery rec store t =
     (case fetch_from_durable_cursor tr cursors rec t of
        (Err e, t') \<Rightarrow> (Err (RCU_Io e), recovery, rec, store, t')
      | (Ok (UpToDate head), t') \<Rightarrow> (Ok (CatchUp_UpToDate head), recovery, rec, store, t')
      | (Ok (BaselineUnavailable head), t') \<Rightarrow> (Ok (CatchUp_BaselineUnavailable head), recovery, rec, store, t')
      | (Ok (Changed head objects), t') \<Rightarrow>
          (case apply_recovery_range cipher persist codec cursors recovery rec store spec head objects of
             (res, recovery', rec', store') \<Rightarrow> (res, recovery', rec', store', t')))"

section \<open>The combined remote state\<close>

text \<open>A complete range that is not empty carries at least one register, so the \<^verbatim>\<open>expect\<close> on the
  combined state holds.\<close>

definition oa_progress :: "object_assembly \<Rightarrow> bool" where
  "oa_progress st \<longleftrightarrow> oa_completed st \<noteq> [] \<or> dom (bm_get (inbox_pending (oa_inbox st))) \<noteq> {}"

lemma assemble_progress:
  assumes "assemble_object cipher key continuum dk st obj = Ok st'" and "oa_progress st \<or> obj \<notin> bs_set (oa_seen st)"
  shows "oa_progress st'"
proof (cases "obj \<in> bs_set (oa_seen st)")
  case True
  with assms show ?thesis by (auto simp: assemble_object_def)
next
  case False
  with assms(1) obtain part where part: "decode_protected_sync_part obj = Ok part"
    by (auto simp: assemble_object_def Let_def split: result.splits)
  obtain res inbox where ing: "MultipartInbox_ingest cipher (oa_inbox st) key continuum part = (res, inbox)" by fastforce
  with assms(1) False part show ?thesis
    using ingest_keeps_pending [of cipher "oa_inbox st" key continuum part inbox]
    by (auto simp: assemble_object_def Let_def oa_progress_def split: result.splits option.splits)
qed

lemma complete_decode_nonempty:
  assumes "decode_complete_scalar_domain_objects cipher key continuum dk objs = Ok regs" and "objs \<noteq> []"
  shows "regs \<noteq> []"
proof -
  let ?st0 = "\<lparr>oa_inbox = MultipartInbox_new, oa_completed = [], oa_seen = bm_empty\<rparr>"
  obtain obj rest where objs: "objs = obj # rest" using assms(2) by (cases objs) auto
  from assms(1) obtain st where run: "try_fold (assemble_object cipher key continuum dk) ?st0 objs = Ok st"
    and none: "MultipartInbox_pending_publications (oa_inbox st) = 0" and regs: "regs = oa_completed st"
    by (auto simp: decode_complete_scalar_domain_objects_def Let_def split: result.splits if_splits)
  from run obtain st1 where st1: "assemble_object cipher key continuum dk ?st0 obj = Ok st1"
    and tail: "try_fold (assemble_object cipher key continuum dk) st1 rest = Ok st"
    by (auto simp: objs split: result.splits)
  have "oa_progress st1" using assemble_progress [OF st1] by simp
  with tail have "oa_progress st" by (rule try_fold_invariant) (auto intro: assemble_progress)
  with none regs show ?thesis
    by (simp add: oa_progress_def MultipartInbox_pending_publications_def bm_len_card)
qed

lemma merge_remote_fold:
  "try_fold merge_remote (Some reg) regs =
     (case try_fold ScalarRegister_merge reg regs of Err e \<Rightarrow> Err e | Ok m \<Rightarrow> Ok (Some m))"
  by (induction regs arbitrary: reg) (auto simp: merge_remote_def split: result.splits)

lemma merge_all_known:
  assumes "try_fold ScalarRegister_merge reg regs = Ok remote"
  shows "known remote = known reg \<union> (\<Union>r \<in> set regs. known r)"
  using assms
proof (induction regs arbitrary: reg)
  case (Cons r rs)
  then obtain m where m: "ScalarRegister_merge reg r = Ok m" "try_fold ScalarRegister_merge m rs = Ok remote"
    by (auto split: result.splits)
  with Cons.IH [OF m(2)] merge_Ok_imp_lub(3) [OF m(1)] show ?case by auto
qed simp

lemma combined_remote:
  assumes "try_fold merge_remote None regs = Ok combined" and "list_all register_valid regs" and "regs \<noteq> []"
  obtains remote where "combined = Some remote" and "register_valid remote"
    and "\<And>r. r \<in> set regs \<Longrightarrow> register_le r remote" and "known remote = (\<Union>r \<in> set regs. known r)"
proof -
  obtain r rs where regs: "regs = r # rs" using assms(3) by (cases regs) auto
  with assms(1) obtain remote where fold: "try_fold ScalarRegister_merge r rs = Ok remote" and c: "combined = Some remote"
    by (auto simp: merge_remote_def merge_remote_fold split: result.splits)
  have "register_valid remote \<and> (\<forall>x \<in> insert r (set rs). ScalarRegister_merge x remote = Ok remote)"
    using assms(2) fold by (intro scalar.merge_all_upper) (auto simp: regs list_all_iff)
  moreover from this have "register_le x remote" if "x \<in> set regs" for x
    using that merge_Ok_imp_lub(1) [of x remote remote] by (auto simp: regs)
  moreover have "known remote = (\<Union>x \<in> set regs. known x)" using merge_all_known [OF fold] by (simp add: regs)
  ultimately show ?thesis using that [OF c] by blast
qed

lemma revision_ids_of_valid: "register_valid reg \<Longrightarrow> bs_set (revision_ids_of reg) = known reg"
proof -
  assume "register_valid reg"
  then have "rev_id r = i" if "bm_get (revisions reg) i = Some r" for i r
    using that by (auto simp: register_valid_def keyed_by_id_def)
  then show ?thesis
    by (force simp: revision_ids_of_def ScalarRegister_revisions_def set_bm_values ran_def)
qed

section \<open>A pass is a durable swap\<close>

text \<open>The record a pass writes when it got as far as a candidate state.\<close>

definition next_caught_up ::
    "('s \<Rightarrow> (bytes, 'tse) result) \<Rightarrow> ('r, 'ce) TransportCursorCodec \<Rightarrow> DurableSyncRecord \<Rightarrow> 'r \<Rightarrow> 's option \<Rightarrow>
     DurableSyncRecord option" where
  "next_caught_up encode cursors rec head cand =
     (case cand of None \<Rightarrow> None | Some x \<Rightarrow> when_encoded (encode x) (next_received cursors rec head))"

lemma next_caught_up_fields:
  assumes "next_caught_up encode cursors rec head cand = Some nxt"
  obtains x bs c where "cand = Some x" and "encode x = Ok bs" and "trusted_state nxt = bs" and "outbox nxt = outbox rec"
    and "cc_encode cursors head = Ok c" and "applied_cursor nxt = Some c"
proof -
  from assms obtain x bs where "cand = Some x" "encode x = Ok bs" "next_received cursors rec head bs = Some nxt"
    by (auto simp: next_caught_up_def when_encoded_def split: option.splits result.splits)
  with next_received_fields [OF this(3)] that show ?thesis by blast
qed

lemma commit_received_cases:
  assumes "commit_received persist cursors rec st bs head = (res, rec', st')"
  obtains (accepted) "res = Ok ()" and "next_received cursors rec head bs = Some rec'" and "persist st rec' = (Ok (), st')"
  | (refused) e where "res = Err e" and "rec' = rec"
  using assms
  by (auto simp: commit_received_def persist_and_swap_def next_received_def split: result.splits prod.splits)

text \<open>The three ways a fetched range can end, the shape both passes share.\<close>

lemma apply_scalar_range_cases:
  assumes "apply_scalar_range cipher persist codec cursors d rec st spec head objs = (res, d', rec', st')"
  obtains (failed) e where "res = Err e" and "d' = d" and "rec' = rec"
      and "e = CU_Panicked \<Longrightarrow> \<exists>decoded. objs \<noteq> [] \<and> decode_complete_scalar_domain_objects cipher (cu_key spec)
        (cu_continuum_id spec) (cu_domain_key spec) objs = Ok decoded \<and> try_fold merge_remote None decoded = Ok None"
  | (advanced) "objs = []" and "res = Ok (CatchUp_CursorAdvanced head)" and "d' = d" and "persist st rec' = (Ok (), st')"
      and "next_caught_up (\<lambda>x. tc_encode codec (LocalScalarDomain_snapshot x)) cursors rec head (Some d) = Some rec'"
  | (applied) decoded remote sealed where "objs \<noteq> []"
      and "decode_complete_scalar_domain_objects cipher (cu_key spec) (cu_continuum_id spec) (cu_domain_key spec) objs = Ok decoded"
      and "try_fold merge_remote None decoded = Ok (Some remote)"
      and "LocalScalarDomain_observe_remote d remote (cu_pre_observation_revision_id spec) = (Ok sealed, d')"
      and "res = Ok (CatchUp_Applied head (length objs) (revision_ids_of remote) sealed)" and "persist st rec' = (Ok (), st')"
      and "next_caught_up (\<lambda>x. tc_encode codec (LocalScalarDomain_snapshot x)) cursors rec head (Some d') = Some rec'"
proof (cases "objs = []")
  case True
  show ?thesis
  proof (cases "tc_encode codec (LocalScalarDomain_snapshot d)")
    case (Ok bs)
    obtain r rec1 st1 where c: "commit_received persist cursors rec st bs head = (r, rec1, st1)" by (metis prod_cases3)
    then show ?thesis
      by (cases rule: commit_received_cases)
        (use assms c True Ok failed advanced in \<open>auto simp: apply_scalar_range_def next_caught_up_def when_encoded_def\<close>)
  qed (use assms True failed in \<open>auto simp: apply_scalar_range_def\<close>)
next
  case False
  show ?thesis
  proof (cases "\<exists>decoded remote. decode_complete_scalar_domain_objects cipher (cu_key spec) (cu_continuum_id spec)
      (cu_domain_key spec) objs = Ok decoded \<and> try_fold merge_remote None decoded = Ok (Some remote)")
    case True
    then obtain decoded remote where dec: "decode_complete_scalar_domain_objects cipher (cu_key spec) (cu_continuum_id spec)
        (cu_domain_key spec) objs = Ok decoded" "try_fold merge_remote None decoded = Ok (Some remote)" by blast
    let ?recv = "\<lparr>received_remote = remote, pre_observation_revision_id = cu_pre_observation_revision_id spec,
      received_new_head = head\<rparr>"
    obtain hr cand where obs: "LocalScalarDomain_observe_remote d (received_remote ?recv)
        (pre_observation_revision_id ?recv) = (hr, cand)" by fastforce
    obtain r d1 rec1 st1 where c: "commit_received_scalar_domain persist codec cursors d rec st ?recv = (r, d1, rec1, st1)"
      by (metis prod_cases4)
    have out: "(res, d', rec', st') = (case r of Err e \<Rightarrow> (Err (CU_Receive e), d1, rec1, st1)
        | Ok sealed \<Rightarrow> (Ok (CatchUp_Applied head (length objs) (revision_ids_of remote) sealed), d1, rec1, st1))"
      unfolding assms [symmetric] apply_scalar_range_def dec result.case option.case c
      using False by (cases r) simp_all
    note swap = durable_swap_outcome [OF receive_scalar_swap [OF c obs]]
    show ?thesis
    proof (cases r)
      case (Err e)
      with swap out failed [of "CU_Receive e"] show ?thesis by simp
    next
      case (Ok sealed)
      with c obs have "hr = Ok sealed"
        by (cases hr) (auto simp: commit_received_scalar_domain_def split: result.splits prod.splits)
      with Ok swap out applied [OF False dec, of sealed] obs show ?thesis
        by (simp add: next_caught_up_def)
    qed
  next
    case no: False
    have "\<exists>e. res = Err e \<and> d' = d \<and> rec' = rec \<and> (e = CU_Panicked \<longrightarrow> (\<exists>decoded. decode_complete_scalar_domain_objects cipher
        (cu_key spec) (cu_continuum_id spec) (cu_domain_key spec) objs = Ok decoded \<and> try_fold merge_remote None decoded = Ok None))"
    proof (cases "decode_complete_scalar_domain_objects cipher (cu_key spec) (cu_continuum_id spec) (cu_domain_key spec) objs")
      case (Ok decoded)
      with no have "\<nexists>remote. try_fold merge_remote None decoded = Ok (Some remote)" by simp
      with Ok False assms show ?thesis
        by (cases "try_fold merge_remote None decoded") (auto simp: apply_scalar_range_def split: option.splits)
    qed (use False assms in \<open>auto simp: apply_scalar_range_def\<close>)
    with False show ?thesis using failed by blast
  qed
qed

section \<open>Observing a merged range per domain\<close>

lemma complete_projections_wf:
  assumes "decode_complete_scalar_projections cipher key continuum objs =
    (Ok projections :: (_, ('te, 'tse, 'se, 'ce) ScalarRecoveryCatchUpError) result)"
  shows "\<forall>p \<in> set projections. projection_wf p"
proof -
  let ?st0 = "\<lparr>pa_inbox = MultipartInbox_new, pa_completed = [], pa_seen = bm_empty\<rparr>"
  from assms obtain st where run: "try_fold (assemble_projection cipher key continuum) ?st0 objs =
      (Ok st :: (_, ('te, 'tse, 'se, 'ce) ScalarRecoveryCatchUpError) result)"
    and regs: "projections = pa_completed st"
    by (auto simp: decode_complete_scalar_projections_def Let_def split: result.splits if_splits)
  have "inbox_wf (pa_inbox st) \<and> (\<forall>p \<in> set (pa_completed st). projection_wf p)"
    using run
  proof (rule try_fold_invariant)
    fix a b and obj :: bytes
    assume inv: "inbox_wf (pa_inbox a) \<and> (\<forall>p \<in> set (pa_completed a). projection_wf p)"
      and step: "assemble_projection cipher key continuum a obj = Ok b"
    show "inbox_wf (pa_inbox b) \<and> (\<forall>p \<in> set (pa_completed b). projection_wf p)"
    proof (cases "obj \<in> bs_set (pa_seen a)")
      case True
      with step inv show ?thesis by (simp add: assemble_projection_def)
    next
      case False
      with step obtain part where part: "decode_protected_sync_part obj = Ok part"
        by (auto simp: assemble_projection_def Let_def split: result.splits)
      obtain res inbox where ing: "MultipartInbox_ingest cipher (pa_inbox a) key continuum part = (res, inbox)" by fastforce
      with ingest_wf [OF conjunct1 [OF inv], of cipher key continuum part] step False part inv show ?thesis
        by (auto simp: assemble_projection_def Let_def split: result.splits option.splits)
    qed
  qed (simp add: inbox_new_wf)
  with regs show ?thesis by simp
qed

lemma combined_projection_wf:
  assumes "decode_complete_scalar_projections cipher key continuum objs = Ok projections"
    and "try_fold (SyncProjection_merge ScalarRegister_merge) SyncProjection_new projections = Ok combined"
  shows "projection_wf combined"
  using assms(2) _ complete_projections_wf [OF assms(1)]
  by (rule projection_merge_all_wf)
    (simp add: projection_wf_def projection_valid_def keyed_valid_def named_domains_def SyncProjection_new_def)

text \<open>What observing \<open>remote\<close> does to one domain of the container.\<close>

definition absorbed ::
    "LocalScalarRecoveryState \<Rightarrow> LocalScalarRecoveryState \<Rightarrow> DomainKey \<Rightarrow> bytes ScalarRegister \<Rightarrow> bool" where
  "absorbed before after key remote \<longleftrightarrow>
     (\<exists>d'. RecoveryState_get after key = Some (LocalScalarDomain_snapshot d') \<and>
        register_le remote (LocalScalarDomain_causal d') \<and> LocalScalarDomain_pending d' = None \<and>
        (\<forall>d. RecoveryState_get before key = Some (LocalScalarDomain_snapshot d) \<longrightarrow>
           register_le (LocalScalarDomain_causal d) (LocalScalarDomain_causal d')))"

lemma from_causal_domain_wf:
  assumes "register_valid reg" and "LocalScalarDomain_from_causal reg = Ok d"
  shows "domain_wf d \<and> LocalScalarDomain_causal d = reg \<and> LocalScalarDomain_pending d = None"
  using assms from_causal_valid [of reg "working d"]
  by (auto simp: LocalScalarDomain_from_causal_def WorkingScalar_from_causal_def domain_wf_def register_valid_def
      LocalScalarDomain_causal_def LocalScalarDomain_pending_def split: result.splits)

lemma observe_domain_Ok:
  assumes "recovery_wf (ro_candidate st)" and "register_valid remote" and "dk_domain key \<noteq> []"
    and "observe_domain pre st (key, remote) = Ok st'"
  shows "recovery_wf (ro_candidate st')" and "absorbed (ro_candidate st) (ro_candidate st') key remote"
    and "k \<noteq> key \<Longrightarrow> RecoveryState_get (ro_candidate st') k = RecoveryState_get (ro_candidate st) k"
    and "k \<noteq> key \<Longrightarrow> bm_get (ro_sealed st') k = bm_get (ro_sealed st) k"
    and "ro_observed st' = bm_insert key (revision_ids_of remote) (ro_observed st)"
proof -
  let ?put = "\<lambda>d. \<lparr>rs_domains = bm_insert key (LocalScalarDomain_snapshot d) (rs_domains (ro_candidate st))\<rparr>"
  have "recovery_wf (ro_candidate st') \<and> absorbed (ro_candidate st) (ro_candidate st') key remote \<and>
    (k \<noteq> key \<longrightarrow> RecoveryState_get (ro_candidate st') k = RecoveryState_get (ro_candidate st) k \<and>
      bm_get (ro_sealed st') k = bm_get (ro_sealed st) k) \<and>
    ro_observed st' = bm_insert key (revision_ids_of remote) (ro_observed st)" for k
  proof (cases "RecoveryState_restore_domain (ro_candidate st) key")
    case (Ok x)
    show ?thesis
    proof (cases x)
      case None
      with Ok have none: "bm_get (rs_domains (ro_candidate st)) key = None"
        using restore_domain_wf [OF assms(1)] by auto
      from assms(4) Ok None obtain local where from_causal: "LocalScalarDomain_from_causal remote = Ok local"
        by (auto simp: observe_domain_def Let_def split: result.splits)
      note wf = from_causal_domain_wf [OF assms(2) from_causal]
      have "check_snapshot (LocalScalarDomain_snapshot local) = Ok ()"
        using wf by (intro check_wf_snapshot) (auto simp: snapshot_wf_def)
      with assms(4) Ok None none from_causal have st': "st' = \<lparr>ro_candidate = ?put local,
          ro_observed = bm_insert key (revision_ids_of remote) (ro_observed st), ro_sealed = ro_sealed st\<rparr>"
        by (cases "ro_candidate st") (auto simp: observe_domain_def Let_def RecoveryState_insert_new_def domIff)
      have "recovery_wf (?put local)" using replace_domain_wf(2) [OF assms(1) conjunct1 [OF wf] assms(3)] .
      with wf none st' show ?thesis by (auto simp: absorbed_def RecoveryState_get_def snapshot_inject)
    next
      case (Some d)
      with Ok have d: "domain_wf d" "bm_get (rs_domains (ro_candidate st)) key = Some (LocalScalarDomain_snapshot d)"
        using restore_domain_wf [OF assms(1)] by auto
      from assms(4) Ok Some obtain sealed d' where obs: "LocalScalarDomain_observe_remote d remote (bm_get pre key) = (Ok sealed, d')"
        by (auto simp: observe_domain_def Let_def split: result.splits prod.splits)
      note o = observe_domain_wf [OF d(1) assms(2) obs]
      note rep = replace_domain_wf [OF assms(1) conjunct1 [OF o] assms(3)]
      from rep(1) assms(4) Ok Some obs have st': "st' = \<lparr>ro_candidate = ?put d',
          ro_observed = bm_insert key (revision_ids_of remote) (ro_observed st),
          ro_sealed = (case sealed of Some rv \<Rightarrow> bm_insert key rv (ro_sealed st) | None \<Rightarrow> ro_sealed st)\<rparr>"
        by (auto simp: observe_domain_def Let_def)
      with rep(2) o d(2) show ?thesis
        by (auto simp: absorbed_def RecoveryState_get_def snapshot_inject split: option.split)
    qed
  qed (use assms(4) in \<open>simp add: observe_domain_def Let_def\<close>)
  then show "recovery_wf (ro_candidate st')" "absorbed (ro_candidate st) (ro_candidate st') key remote"
    "k \<noteq> key \<Longrightarrow> RecoveryState_get (ro_candidate st') k = RecoveryState_get (ro_candidate st) k"
    "k \<noteq> key \<Longrightarrow> bm_get (ro_sealed st') k = bm_get (ro_sealed st) k"
    "ro_observed st' = bm_insert key (revision_ids_of remote) (ro_observed st)" by blast+
qed

lemma absorbed_cong:
  "absorbed a b key remote \<longleftrightarrow> absorbed a' b' key remote"
  if "RecoveryState_get a key = RecoveryState_get a' key" "RecoveryState_get b key = RecoveryState_get b' key"
  using that by (simp add: absorbed_def)

lemma observe_all_Ok:
  assumes "try_fold (observe_domain pre) st es = (Ok st' :: (_, ('te, 'tse, 'se, 'ce) ScalarRecoveryCatchUpError) result)"
    and "recovery_wf (ro_candidate st)" and "distinct (map fst es)"
    and "\<And>key remote. (key, remote) \<in> set es \<Longrightarrow> register_valid remote \<and> dk_domain key \<noteq> []"
  shows "recovery_wf (ro_candidate st') \<and>
    (\<forall>key. case map_of es key of
       None \<Rightarrow> RecoveryState_get (ro_candidate st') key = RecoveryState_get (ro_candidate st) key \<and>
         bm_get (ro_observed st') key = bm_get (ro_observed st) key \<and> bm_get (ro_sealed st') key = bm_get (ro_sealed st) key
     | Some remote \<Rightarrow> absorbed (ro_candidate st) (ro_candidate st') key remote \<and>
         bm_get (ro_observed st') key = Some (revision_ids_of remote))"
  using assms
proof (induction es arbitrary: st)
  case (Cons e es)
  obtain k r where e: "e = (k, r)" by fastforce
  from Cons.prems(1) obtain st1 where step: "observe_domain pre st (k, r) =
      (Ok st1 :: (_, ('te, 'tse, 'se, 'ce) ScalarRecoveryCatchUpError) result)"
    and rest: "try_fold (observe_domain pre) st1 es = (Ok st' :: (_, ('te, 'tse, 'se, 'ce) ScalarRecoveryCatchUpError) result)"
    by (auto simp: e split: result.splits)
  have kr: "register_valid r" "dk_domain k \<noteq> []" using Cons.prems(4) [of k r] by (simp_all add: e)
  note one = observe_domain_Ok [OF Cons.prems(2) kr step]
  have IH: "recovery_wf (ro_candidate st') \<and>
    (\<forall>key. case map_of es key of
       None \<Rightarrow> RecoveryState_get (ro_candidate st') key = RecoveryState_get (ro_candidate st1) key \<and>
         bm_get (ro_observed st') key = bm_get (ro_observed st1) key \<and> bm_get (ro_sealed st') key = bm_get (ro_sealed st1) key
     | Some remote \<Rightarrow> absorbed (ro_candidate st1) (ro_candidate st') key remote \<and>
         bm_get (ro_observed st') key = Some (revision_ids_of remote))"
    using Cons.prems(3,4) by (intro Cons.IH [OF rest one(1)]) (auto simp: e)
  have none: "map_of es k = None" using Cons.prems(3) by (simp add: e map_of_eq_None_iff)
  have "case map_of (e # es) key of
       None \<Rightarrow> RecoveryState_get (ro_candidate st') key = RecoveryState_get (ro_candidate st) key \<and>
         bm_get (ro_observed st') key = bm_get (ro_observed st) key \<and> bm_get (ro_sealed st') key = bm_get (ro_sealed st) key
     | Some remote \<Rightarrow> absorbed (ro_candidate st) (ro_candidate st') key remote \<and>
         bm_get (ro_observed st') key = Some (revision_ids_of remote)" for key
  proof (cases "key = k")
    case True
    with IH [THEN conjunct2, rule_format, of k] none one(2,5) show ?thesis
      by (auto simp: e intro: absorbed_cong [THEN iffD1, rotated 2])
  next
    case False
    with IH [THEN conjunct2, rule_format, of key] one(3,4) [of key] one(5) show ?thesis
      by (auto simp: e absorbed_def split: option.splits)
  qed
  with IH show ?case by blast
qed (simp add: assms)

lemma apply_recovery_range_cases:
  fixes res :: "('r ScalarRecoveryCatchUpOutcome, ('te, 'tse, 'se, 'ce) ScalarRecoveryCatchUpError) result"
  assumes "apply_recovery_range cipher persist codec cursors x rec st spec head objs = (res, x', rec', st')"
  obtains (failed) e where "res = Err e" and "x' = x" and "rec' = rec"
  | (advanced) "objs = []" and "res = Ok (CatchUp_CursorAdvanced head)" and "x' = x" and "persist st rec' = (Ok (), st')"
      and "next_caught_up (tc_encode codec) cursors rec head (Some x) = Some rec'"
  | (applied) projections combined ob where "objs \<noteq> []"
      and "decode_complete_scalar_projections cipher (rcu_key spec) (rcu_continuum_id spec) objs =
        (Ok projections :: (_, ('te, 'tse, 'se, 'ce) ScalarRecoveryCatchUpError) result)"
      and "try_fold (SyncProjection_merge ScalarRegister_merge) SyncProjection_new projections = Ok combined"
      and "try_fold (observe_domain (rcu_pre_observation_revision_ids spec))
        \<lparr>ro_candidate = x, ro_observed = bm_empty, ro_sealed = bm_empty\<rparr> (bm_entries (domains combined)) =
        (Ok ob :: (_, ('te, 'tse, 'se, 'ce) ScalarRecoveryCatchUpError) result)"
      and "x' = ro_candidate ob" and "res = Ok (CatchUp_Applied head (length objs) (ro_observed ob) (ro_sealed ob))"
      and "persist st rec' = (Ok (), st')" and "next_caught_up (tc_encode codec) cursors rec head (Some x') = Some rec'"
proof (cases "objs = []")
  case True
  show ?thesis
  proof (cases "tc_encode codec x")
    case (Ok bs)
    obtain r rec1 st1 where c: "commit_received persist cursors rec st bs head = (r, rec1, st1)" by (metis prod_cases3)
    then show ?thesis
      by (cases rule: commit_received_cases)
        (use assms c True Ok failed advanced in \<open>auto simp: apply_recovery_range_def next_caught_up_def when_encoded_def\<close>)
  qed (use assms True failed in \<open>auto simp: apply_recovery_range_def\<close>)
next
  case False
  show ?thesis
  proof (cases "\<exists>projections combined ob bs. decode_complete_scalar_projections cipher (rcu_key spec) (rcu_continuum_id spec) objs =
        (Ok projections :: (_, ('te, 'tse, 'se, 'ce) ScalarRecoveryCatchUpError) result) \<and>
      try_fold (SyncProjection_merge ScalarRegister_merge) SyncProjection_new projections = Ok combined \<and>
      try_fold (observe_domain (rcu_pre_observation_revision_ids spec))
        \<lparr>ro_candidate = x, ro_observed = bm_empty, ro_sealed = bm_empty\<rparr> (bm_entries (domains combined)) =
        (Ok ob :: (_, ('te, 'tse, 'se, 'ce) ScalarRecoveryCatchUpError) result) \<and> tc_encode codec (ro_candidate ob) = Ok bs")
    case True
    then obtain projections combined ob bs where ok: "decode_complete_scalar_projections cipher (rcu_key spec) (rcu_continuum_id spec) objs =
        (Ok projections :: (_, ('te, 'tse, 'se, 'ce) ScalarRecoveryCatchUpError) result)"
      "try_fold (SyncProjection_merge ScalarRegister_merge) SyncProjection_new projections = Ok combined"
      "try_fold (observe_domain (rcu_pre_observation_revision_ids spec))
        \<lparr>ro_candidate = x, ro_observed = bm_empty, ro_sealed = bm_empty\<rparr> (bm_entries (domains combined)) =
        (Ok ob :: (_, ('te, 'tse, 'se, 'ce) ScalarRecoveryCatchUpError) result)" "tc_encode codec (ro_candidate ob) = Ok bs"
      by blast
    obtain r rec1 st1 where c: "commit_received persist cursors rec st bs head = (r, rec1, st1)" by (metis prod_cases3)
    have out: "(res, x', rec', st') = (case r of Err e \<Rightarrow> (Err (RCU_Commit e), x, rec1, st1)
        | Ok _ \<Rightarrow> (Ok (CatchUp_Applied head (length objs) (ro_observed ob) (ro_sealed ob)), ro_candidate ob, rec1, st1))"
      unfolding assms [symmetric] apply_recovery_range_def ok result.case c
      using False by (cases r) simp_all
    from c show ?thesis
      by (cases rule: commit_received_cases)
        (use out failed applied [OF False ok(1-3)] ok(4) in \<open>auto simp: next_caught_up_def when_encoded_def\<close>)
  next
    case no: False
    have "\<exists>e. res = Err e \<and> x' = x \<and> rec' = rec"
      using no assms False unfolding apply_recovery_range_def
      by (auto split: result.splits)
    with failed show ?thesis by blast
  qed
qed

section \<open>The contract of a pass\<close>

text \<open>The head a pass made durable, if it moved the cursor at all.\<close>

fun moved_head :: "('r, 'o, 's) catch_up_outcome \<Rightarrow> 'r option" where
  "moved_head (CatchUp_Applied head _ _ _) = Some head"
| "moved_head (CatchUp_CursorAdvanced head) = Some head"
| "moved_head _ = None"

definition cursor_advanced :: "('r, 'ce) TransportCursorCodec \<Rightarrow> DurableSyncRecord \<Rightarrow> DurableSyncRecord \<Rightarrow> 'r \<Rightarrow> bool" where
  "cursor_advanced cursors rec rec' head \<longleftrightarrow>
     outbox rec' = outbox rec \<and> (\<exists>c. cc_encode cursors head = Ok c \<and> applied_cursor rec' = Some c)"

text \<open>What a resume relies on: one fetch and no other transport call; a failed pass changes neither
  live state nor record; a quiet one changes nothing at all; one that moves the cursor has persisted
  the new record, kept the outbox, and paired the record with the live state.\<close>

locale catch_up_pass =
  fixes catch_up :: "'x \<Rightarrow> DurableSyncRecord \<Rightarrow> 'st \<Rightarrow> 't \<Rightarrow>
      (('r, 'o, 's) catch_up_outcome, 'cu) result \<times> 'x \<times> DurableSyncRecord \<times> 'st \<times> 't"
    and tr :: "('t, 'r, 'te) OpaqueTransport"
    and cursors :: "('r, 'ce) TransportCursorCodec"
    and persist :: "('st, 'se) persist_fn"
    and live :: "'x \<Rightarrow> bool"
    and paired :: "'x \<Rightarrow> bytes \<Rightarrow> bool"
  assumes pass_fetches: "catch_up x rec st t = (res, x', rec', st', t') \<Longrightarrow>
      t' = snd (fetch_from_durable_cursor tr cursors rec t)"
    and pass_fetched: "catch_up x rec st t = (Ok out, x', rec', st', t') \<Longrightarrow>
      \<exists>f. fetch_from_durable_cursor tr cursors rec t = (Ok f, t')"
    and pass_failed: "catch_up x rec st t = (Err e, x', rec', st', t') \<Longrightarrow> x' = x \<and> rec' = rec"
    and pass_quiet: "catch_up x rec st t = (Ok out, x', rec', st', t') \<Longrightarrow> moved_head out = None \<Longrightarrow>
      x' = x \<and> rec' = rec \<and> st' = st"
    and pass_moved: "catch_up x rec st t = (Ok out, x', rec', st', t') \<Longrightarrow> moved_head out = Some head \<Longrightarrow>
      cursor_advanced cursors rec rec' head \<and> persist st rec' = (Ok (), st')"
    and pass_paired: "catch_up x rec st t = (Ok out, x', rec', st', t') \<Longrightarrow> moved_head out = Some head \<Longrightarrow>
      live x \<Longrightarrow> length (trusted_state rec') \<le> isize_max \<Longrightarrow> live x' \<and> paired x' (trusted_state rec')"
begin

lemma pass_keeps_outbox:
  assumes "catch_up x rec st t = (res, x', rec', st', t')"
  shows "outbox rec' = outbox rec"
proof (cases res)
  case (Err e)
  with assms pass_failed show ?thesis by blast
next
  case (Ok out)
  note run = assms [unfolded Ok]
  show ?thesis
    by (cases "moved_head out") (use pass_quiet [OF run] pass_moved [OF run] in \<open>auto simp: cursor_advanced_def\<close>)
qed

lemma pass_keeps_paired:
  assumes "catch_up x rec st t = (res, x', rec', st', t')" and "live x" and "paired x (trusted_state rec)"
    and "length (trusted_state rec') \<le> isize_max"
  shows "live x' \<and> paired x' (trusted_state rec')"
proof (cases res)
  case (Err e)
  with assms pass_failed show ?thesis by blast
next
  case (Ok out)
  note run = assms(1) [unfolded Ok]
  show ?thesis
    by (cases "moved_head out") (use pass_quiet [OF run] pass_paired [OF run _ assms(2,4)] assms(2,3) in auto)
qed

end

definition scalar_paired :: "bytes LocalScalarDomain \<Rightarrow> bytes \<Rightarrow> bool" where
  "scalar_paired d bs \<longleftrightarrow> decode_local_scalar_snapshot bs = Ok (LocalScalarDomain_snapshot d)"

definition recovery_paired :: "LocalScalarRecoveryState \<Rightarrow> bytes \<Rightarrow> bool" where
  "recovery_paired r bs \<longleftrightarrow> decode_multi_scalar_recovery_state bs = Ok r"

lemma next_caught_up_paired:
  assumes "next_caught_up encode cursors rec head (Some x) = Some nxt"
  shows "cursor_advanced cursors rec nxt head" and "encode x = Ok (trusted_state nxt)"
  using assms by (auto simp: cursor_advanced_def elim: next_caught_up_fields)

lemma scalar_pairs:
  assumes "next_caught_up (\<lambda>x. tc_encode scalar_trusted_state_codec (LocalScalarDomain_snapshot x)) cursors rec head (Some d) = Some nxt"
    and "domain_wf d" and "length (trusted_state nxt) \<le> isize_max"
  shows "scalar_paired d (trusted_state nxt)"
  using scalar_codec.decode_encode [OF _ next_caught_up_paired(2) [OF assms(1)] assms(3)] assms(2)
  by (auto simp: scalar_paired_def scalar_trusted_state_codec_def snapshot_wf_def)

lemma recovery_pairs:
  assumes "next_caught_up (tc_encode multi_trusted_state_codec) cursors rec head (Some r) = Some nxt"
    and "recovery_wf r" and "length (trusted_state nxt) \<le> isize_max"
  shows "recovery_paired r (trusted_state nxt)"
  using multi_codec.decode_encode [OF assms(2) next_caught_up_paired(2) [OF assms(1)] assms(3)]
  by (simp add: recovery_paired_def multi_trusted_state_codec_def)

text \<open>The two passes, over the outcome of their fetch.\<close>

lemma catch_up_single_cases:
  assumes "catch_up_single_scalar_domain cipher persist codec cursors tr spec d rec st t = (res, d', rec', st', t')"
  obtains (unfetched) e where "res = Err (CU_Io e)" and "d' = d" and "rec' = rec" and "st' = st"
      and "fetch_from_durable_cursor tr cursors rec t = (Err e, t')"
  | (up_to_date) h where "fetch_from_durable_cursor tr cursors rec t = (Ok (UpToDate h), t')"
      and "res = Ok (CatchUp_UpToDate h)" and "d' = d" and "rec' = rec" and "st' = st"
  | (no_baseline) h where "fetch_from_durable_cursor tr cursors rec t = (Ok (BaselineUnavailable h), t')"
      and "res = Ok (CatchUp_BaselineUnavailable h)" and "d' = d" and "rec' = rec" and "st' = st"
  | (changed) head objs where "fetch_from_durable_cursor tr cursors rec t = (Ok (Changed head objs), t')"
      and "apply_scalar_range cipher persist codec cursors d rec st spec head objs = (res, d', rec', st')"
  using assms
  by (auto simp: catch_up_single_scalar_domain_def split: prod.splits result.splits FetchOutcome.splits)

lemma catch_up_recovery_cases:
  assumes "catch_up_scalar_recovery_state cipher persist codec cursors tr spec x rec st t = (res, x', rec', st', t')"
  obtains (unfetched) e where "res = Err (RCU_Io e)" and "x' = x" and "rec' = rec" and "st' = st"
      and "fetch_from_durable_cursor tr cursors rec t = (Err e, t')"
  | (up_to_date) h where "fetch_from_durable_cursor tr cursors rec t = (Ok (UpToDate h), t')"
      and "res = Ok (CatchUp_UpToDate h)" and "x' = x" and "rec' = rec" and "st' = st"
  | (no_baseline) h where "fetch_from_durable_cursor tr cursors rec t = (Ok (BaselineUnavailable h), t')"
      and "res = Ok (CatchUp_BaselineUnavailable h)" and "x' = x" and "rec' = rec" and "st' = st"
  | (changed) head objs where "fetch_from_durable_cursor tr cursors rec t = (Ok (Changed head objs), t')"
      and "apply_recovery_range cipher persist codec cursors x rec st spec head objs = (res, x', rec', st')"
  using assms
  by (auto simp: catch_up_scalar_recovery_state_def split: prod.splits result.splits FetchOutcome.splits)

section \<open>Both passes keep the contract\<close>

lemma apply_scalar_range_wf:
  assumes "domain_wf d" and "apply_scalar_range cipher persist codec cursors d rec st spec head objs = (res, d', rec', st')"
  shows "domain_wf d'"
  using assms(2)
proof (cases rule: apply_scalar_range_cases)
  case (applied decoded remote sealed)
  have "decoded \<noteq> []" "list_all register_valid decoded"
    using complete_decode_nonempty [OF applied(2,1)] complete_decode_valid [OF applied(2)] by simp_all
  then obtain r where "Some remote = Some r" "register_valid r"
    using combined_remote [OF applied(3)] by metis
  with observe_domain_wf [OF assms(1) _ applied(4)] show ?thesis by simp
qed (use assms(1) in simp_all)

lemma observe_range_wf:
  assumes "recovery_wf x"
    and "decode_complete_scalar_projections cipher key continuum objs =
      (Ok projections :: (_, ('te, 'tse, 'se, 'ce) ScalarRecoveryCatchUpError) result)"
    and "try_fold (SyncProjection_merge ScalarRegister_merge) SyncProjection_new projections = Ok combined"
    and "try_fold (observe_domain pre) \<lparr>ro_candidate = x, ro_observed = bm_empty, ro_sealed = bm_empty\<rparr>
      (bm_entries (domains combined)) = (Ok ob :: (_, ('te, 'tse, 'se, 'ce) ScalarRecoveryCatchUpError) result)"
  shows "recovery_wf (ro_candidate ob) \<and>
    (\<forall>key. case bm_get (domains combined) key of
       None \<Rightarrow> RecoveryState_get (ro_candidate ob) key = RecoveryState_get x key \<and>
         bm_get (ro_observed ob) key = None \<and> bm_get (ro_sealed ob) key = None
     | Some remote \<Rightarrow> absorbed x (ro_candidate ob) key remote \<and>
         bm_get (ro_observed ob) key = Some (revision_ids_of remote) \<and> register_valid remote)"
proof -
  have wf: "projection_wf combined" using combined_projection_wf [OF assms(2,3)] .
  then have each: "register_valid remote \<and> dk_domain key \<noteq> []" if "bm_get (domains combined) key = Some remote" for key remote
    using that by (auto simp: projection_wf_def projection_valid_def keyed_valid_def named_domains_def)
  have "distinct (map fst (bm_entries (domains combined)))" using bm_keys_distinct [of "domains combined"]
    by (simp add: bm_keys_def)
  note all = observe_all_Ok [OF assms(4) _ this, simplified bm_get_conv_map_of [of "domains combined", symmetric],
      unfolded range_observation.select_convs]
  have ok: "recovery_wf (ro_candidate ob)" "\<And>key. case bm_get (domains combined) key of
       None \<Rightarrow> RecoveryState_get (ro_candidate ob) key = RecoveryState_get x key \<and>
         bm_get (ro_observed ob) key = bm_get bm_empty key \<and> bm_get (ro_sealed ob) key = bm_get bm_empty key
     | Some remote \<Rightarrow> absorbed x (ro_candidate ob) key remote \<and>
         bm_get (ro_observed ob) key = Some (revision_ids_of remote)"
    using all assms(1) each by auto
  have "case bm_get (domains combined) key of
       None \<Rightarrow> RecoveryState_get (ro_candidate ob) key = RecoveryState_get x key \<and>
         bm_get (ro_observed ob) key = None \<and> bm_get (ro_sealed ob) key = None
     | Some remote \<Rightarrow> absorbed x (ro_candidate ob) key remote \<and>
         bm_get (ro_observed ob) key = Some (revision_ids_of remote) \<and> register_valid remote" for key
    using ok(2) [of key] each [of key] by (cases "bm_get (domains combined) key") simp_all
  with ok(1) show ?thesis by blast
qed

lemma apply_recovery_range_wf:
  assumes "recovery_wf x" and "apply_recovery_range cipher persist codec cursors x rec st spec head objs = (res, x', rec', st')"
  shows "recovery_wf x'"
  using assms(2)
proof (cases rule: apply_recovery_range_cases)
  case (applied projections combined ob)
  with observe_range_wf [OF assms(1) applied(2-4)] show ?thesis by simp
qed (use assms(1) in simp_all)

text \<open>The evidence a pass reports is exactly what its fetched range contained.\<close>

lemma catch_up_single_observed:
  assumes "catch_up_single_scalar_domain cipher persist codec cursors tr spec d rec st t =
      (Ok (CatchUp_Applied head n observed sealed), d', rec', st', t')"
  obtains objs regs where "fetch_from_durable_cursor tr cursors rec t = (Ok (Changed head objs), t')"
    and "decode_complete_scalar_domain_objects cipher (cu_key spec) (cu_continuum_id spec) (cu_domain_key spec) objs = Ok regs"
    and "bs_set observed = (\<Union>reg \<in> set regs. known reg)"
  using assms
proof (cases rule: catch_up_single_cases)
  case (changed h objs)
  from changed(2) show ?thesis
  proof (cases rule: apply_scalar_range_cases)
    case (applied decoded remote s)
    obtain r where "Some remote = Some r" "register_valid r" "\<And>x. x \<in> set decoded \<Longrightarrow> register_le x r"
      "known r = (\<Union>x \<in> set decoded. known x)"
      using combined_remote [OF applied(3) complete_decode_valid [OF applied(2)] complete_decode_nonempty [OF applied(2,1)]] by blast
    then have "bs_set (revision_ids_of remote) = (\<Union>x \<in> set decoded. known x)" by (simp add: revision_ids_of_valid)
    with that [of objs decoded] changed(1) applied(2,5) show ?thesis by simp
  qed simp_all
qed simp_all

lemma catch_up_recovery_observed:
  fixes tr :: "('t, 'r, 'te) OpaqueTransport" and persist :: "('st, 'se) persist_fn" and cursors :: "('r, 'ce) TransportCursorCodec"
    and codec :: "(LocalScalarRecoveryState, 'tse) TrustedStateCodec"
  assumes "recovery_wf x"
    and "catch_up_scalar_recovery_state cipher persist codec cursors tr spec x rec st t =
      ((Ok (CatchUp_Applied head n observed sealed) :: (_, ('te, 'tse, 'se, 'ce) ScalarRecoveryCatchUpError) result), x', rec', st', t')"
  obtains objs projections combined where "fetch_from_durable_cursor tr cursors rec t = (Ok (Changed head objs), t')"
    and "decode_complete_scalar_projections cipher (rcu_key spec) (rcu_continuum_id spec) objs =
      (Ok projections :: (_, ('te, 'tse, 'se, 'ce) ScalarRecoveryCatchUpError) result)"
    and "try_fold (SyncProjection_merge ScalarRegister_merge) SyncProjection_new projections = Ok combined"
    and "\<And>key ids. bm_get observed key = Some ids \<Longrightarrow>
      \<exists>remote. SyncProjection_get combined key = Some remote \<and> bs_set ids = known remote"
  using assms(2)
proof (cases rule: catch_up_recovery_cases)
  case (changed h objs)
  from changed(2) show ?thesis
  proof (cases rule: apply_recovery_range_cases)
    case (applied projections combined ob)
    have "\<exists>remote. SyncProjection_get combined key = Some remote \<and> bs_set ids = known remote"
      if "bm_get observed key = Some ids" for key ids
      using observe_range_wf [OF assms(1) applied(2-4), THEN conjunct2, THEN spec, of key] applied(6) that
      by (auto simp: SyncProjection_get_def revision_ids_of_valid split: option.splits)
    with that [of objs projections combined] changed(1) applied(2,3,6) show ?thesis by simp
  qed simp_all
qed simp_all

interpretation single_pass: catch_up_pass
  "catch_up_single_scalar_domain cipher persist scalar_trusted_state_codec cursors tr spec" tr cursors persist domain_wf scalar_paired
  for cipher persist cursors tr spec
proof
  fix d rec st t res d' rec' st' t'
  assume "catch_up_single_scalar_domain cipher persist scalar_trusted_state_codec cursors tr spec d rec st t = (res, d', rec', st', t')"
  then show "t' = snd (fetch_from_durable_cursor tr cursors rec t)"
    by (cases rule: catch_up_single_cases) simp_all
next
  fix d rec st t out d' rec' st' t'
  assume "catch_up_single_scalar_domain cipher persist scalar_trusted_state_codec cursors tr spec d rec st t = (Ok out, d', rec', st', t')"
  then show "\<exists>f. fetch_from_durable_cursor tr cursors rec t = (Ok f, t')"
    by (cases rule: catch_up_single_cases) simp_all
next
  fix d rec st t e d' rec' st' t'
  assume "catch_up_single_scalar_domain cipher persist scalar_trusted_state_codec cursors tr spec d rec st t = (Err e, d', rec', st', t')"
  then show "d' = d \<and> rec' = rec"
    by (cases rule: catch_up_single_cases) (auto elim: apply_scalar_range_cases)
next
  fix d rec st t out d' rec' st' t'
  assume "catch_up_single_scalar_domain cipher persist scalar_trusted_state_codec cursors tr spec d rec st t = (Ok out, d', rec', st', t')"
    and "moved_head out = None"
  then show "d' = d \<and> rec' = rec \<and> st' = st"
    by (cases rule: catch_up_single_cases) (auto elim: apply_scalar_range_cases)
next
  fix d rec st t out d' rec' st' t' head
  assume run: "catch_up_single_scalar_domain cipher persist scalar_trusted_state_codec cursors tr spec d rec st t = (Ok out, d', rec', st', t')"
    and head: "moved_head out = Some head"
  from run head show "cursor_advanced cursors rec rec' head \<and> persist st rec' = (Ok (), st')"
    by (cases rule: catch_up_single_cases) (auto elim!: apply_scalar_range_cases dest: next_caught_up_paired(1))
  assume wf: "domain_wf d" and len: "length (trusted_state rec') \<le> isize_max"
  from run head show "domain_wf d' \<and> scalar_paired d' (trusted_state rec')"
  proof (cases rule: catch_up_single_cases)
    case (changed h objs)
    note wf' = apply_scalar_range_wf [OF wf changed(2)]
    from changed(2) wf' scalar_pairs [OF _ wf' len] wf show ?thesis
      by (cases rule: apply_scalar_range_cases) auto
  qed simp_all
qed

interpretation recovery_pass: catch_up_pass
  "catch_up_scalar_recovery_state cipher persist multi_trusted_state_codec cursors tr spec" tr cursors persist recovery_wf recovery_paired
  for cipher persist cursors tr spec
proof
  fix x rec st t res x' rec' st' t'
  assume "catch_up_scalar_recovery_state cipher persist multi_trusted_state_codec cursors tr spec x rec st t = (res, x', rec', st', t')"
  then show "t' = snd (fetch_from_durable_cursor tr cursors rec t)"
    by (cases rule: catch_up_recovery_cases) simp_all
next
  fix x rec st t out x' rec' st' t'
  assume "catch_up_scalar_recovery_state cipher persist multi_trusted_state_codec cursors tr spec x rec st t = (Ok out, x', rec', st', t')"
  then show "\<exists>f. fetch_from_durable_cursor tr cursors rec t = (Ok f, t')"
    by (cases rule: catch_up_recovery_cases) simp_all
next
  fix x rec st t e x' rec' st' t'
  assume "catch_up_scalar_recovery_state cipher persist multi_trusted_state_codec cursors tr spec x rec st t = (Err e, x', rec', st', t')"
  then show "x' = x \<and> rec' = rec"
    by (cases rule: catch_up_recovery_cases) (auto elim: apply_recovery_range_cases)
next
  fix x rec st t out x' rec' st' t'
  assume "catch_up_scalar_recovery_state cipher persist multi_trusted_state_codec cursors tr spec x rec st t = (Ok out, x', rec', st', t')"
    and "moved_head out = None"
  then show "x' = x \<and> rec' = rec \<and> st' = st"
    by (cases rule: catch_up_recovery_cases) (auto elim: apply_recovery_range_cases)
next
  fix x rec st t out x' rec' st' t' head
  assume run: "catch_up_scalar_recovery_state cipher persist multi_trusted_state_codec cursors tr spec x rec st t = (Ok out, x', rec', st', t')"
    and head: "moved_head out = Some head"
  from run head show "cursor_advanced cursors rec rec' head \<and> persist st rec' = (Ok (), st')"
    by (cases rule: catch_up_recovery_cases) (auto elim!: apply_recovery_range_cases dest: next_caught_up_paired(1))
  assume wf: "recovery_wf x" and len: "length (trusted_state rec') \<le> isize_max"
  from run head show "recovery_wf x' \<and> recovery_paired x' (trusted_state rec')"
  proof (cases rule: catch_up_recovery_cases)
    case (changed h objs)
    note wf' = apply_recovery_range_wf [OF wf changed(2)]
    from changed(2) wf' recovery_pairs [OF _ wf' len] wf show ?thesis
      by (cases rule: apply_recovery_range_cases) auto
  qed simp_all
qed

section \<open>Properties\<close>

text \<open>What a pass that fails leaves of the store: untouched, or after one write the store refused.\<close>

definition write_refused :: "('st, 'se) persist_fn \<Rightarrow> 'st \<Rightarrow> 'st \<Rightarrow> bool" where
  "write_refused persist st st' \<longleftrightarrow> st' = st \<or> (\<exists>nxt e. persist st nxt = (Err e, st'))"

lemma write_refused_refl [simp]: "write_refused persist st st"
  by (simp add: write_refused_def)

lemma commit_received_refused:
  "commit_received persist codec rec st merged head = (Err e, rec', st') \<Longrightarrow> write_refused persist st st'"
  by (auto simp: commit_received_def persist_and_swap_def write_refused_def split: result.splits prod.splits)

lemma apply_scalar_refused:
  "apply_scalar_range cipher persist codec cursors d rec st spec head objs = (Err e, d', rec', st') \<Longrightarrow> write_refused persist st st'"
  by (auto simp: apply_scalar_range_def commit_received_scalar_domain_def dest: commit_received_refused split: if_splits result.splits prod.splits option.splits)

lemma apply_recovery_refused:
  "apply_recovery_range cipher persist codec cursors x rec st spec head objs = (Err e, x', rec', st') \<Longrightarrow> write_refused persist st st'"
  by (auto simp: apply_recovery_range_def dest: commit_received_refused split: if_splits result.splits prod.splits)

text \<open>
  C21. A catch-up pass never loses a fetched object and never advances past one. When it reports
  \<^verbatim>\<open>Applied\<close>, every register of the fetched range and everything known before is in the live domain,
  the reported identities are exactly those of the range, the cursor is the fetched head, the outbox
  is untouched and the durable record decodes to the live domain. A head without objects keeps the live
  domain and the outbox and durably moves the cursor to it. When the transport reports no news or no
  baseline, nothing changes. A failure, whatever the transport delivered, leaves live domain and record as
  they were and the store untouched or after one refused write, and the \<^verbatim>\<open>expect\<close> on the combined state
  never panics.
\<close>

theorem catch_up_absorbs_range:
  fixes res :: "('r ScalarCatchUpOutcome, ('te, TrustedStateCodecError, 'se, 'ce) ScalarCatchUpError) result"
  assumes "domain_wf d" and "length (trusted_state rec') \<le> isize_max"
    and "catch_up_single_scalar_domain cipher persist scalar_trusted_state_codec cursors tr spec d rec st t = (res, d', rec', st', t')"
  shows "case res of
     Ok (CatchUp_Applied head n observed sealed) \<Rightarrow>
       (\<exists>objs regs. fetch_from_durable_cursor tr cursors rec t = (Ok (Changed head objs), t') \<and> n = length objs \<and>
          decode_complete_scalar_domain_objects cipher (cu_key spec) (cu_continuum_id spec) (cu_domain_key spec) objs = Ok regs \<and>
          bs_set observed = (\<Union>reg \<in> set regs. known reg) \<and>
          (\<forall>reg \<in> set (LocalScalarDomain_causal d # regs). register_le reg (LocalScalarDomain_causal d'))) \<and>
       cursor_advanced cursors rec rec' head \<and> persist st rec' = (Ok (), st') \<and> domain_wf d' \<and> scalar_paired d' (trusted_state rec')
   | Ok (CatchUp_CursorAdvanced head) \<Rightarrow>
       fetch_from_durable_cursor tr cursors rec t = (Ok (Changed head []), t') \<and> d' = d \<and>
       cursor_advanced cursors rec rec' head \<and> persist st rec' = (Ok (), st') \<and> scalar_paired d' (trusted_state rec')
   | Ok (CatchUp_UpToDate head) \<Rightarrow>
       fetch_from_durable_cursor tr cursors rec t = (Ok (UpToDate head), t') \<and> d' = d \<and> rec' = rec \<and> st' = st
   | Ok (CatchUp_BaselineUnavailable head) \<Rightarrow>
       fetch_from_durable_cursor tr cursors rec t = (Ok (BaselineUnavailable head), t') \<and> d' = d \<and> rec' = rec \<and> st' = st
   | Err e \<Rightarrow> d' = d \<and> rec' = rec \<and> e \<noteq> CU_Panicked \<and> write_refused persist st st'"
  using assms(3)
proof (cases rule: catch_up_single_cases)
  case (changed head objs)
  note wf' = apply_scalar_range_wf [OF assms(1) changed(2)]
  note pairs = next_caught_up_paired(1) scalar_pairs [OF _ wf' assms(2)]
  from changed(2) show ?thesis
  proof (cases rule: apply_scalar_range_cases)
    case (failed e)
    have "e \<noteq> CU_Panicked"
    proof
      assume "e = CU_Panicked"
      with failed(4) obtain decoded where dec: "objs \<noteq> []" "decode_complete_scalar_domain_objects cipher (cu_key spec)
          (cu_continuum_id spec) (cu_domain_key spec) objs = Ok decoded" "try_fold merge_remote None decoded = Ok None" by blast
      with combined_remote [OF dec(3) complete_decode_valid [OF dec(2)] complete_decode_nonempty [OF dec(2,1)]]
      show False by blast
    qed
    moreover have "write_refused persist st st'" using changed(2) unfolding failed(1) by (rule apply_scalar_refused)
    ultimately show ?thesis using failed by simp
  next
    case advanced
    with changed(1) pairs [OF advanced(5) [folded advanced(3)]] show ?thesis by simp
  next
    case (applied decoded remote sealed)
    obtain r where r: "Some remote = Some r" "register_valid r" "\<And>x. x \<in> set decoded \<Longrightarrow> register_le x r"
      "known r = (\<Union>x \<in> set decoded. known x)"
      using combined_remote [OF applied(3) complete_decode_valid [OF applied(2)] complete_decode_nonempty [OF applied(2,1)]]
      by blast
    have "register_le (LocalScalarDomain_causal d) (LocalScalarDomain_causal d')" "register_le remote (LocalScalarDomain_causal d')"
      using observe_domain_wf [OF assms(1) _ applied(4)] r(1,2) by simp_all
    with r have le: "\<forall>reg \<in> set (LocalScalarDomain_causal d # decoded). register_le reg (LocalScalarDomain_causal d')"
      by (auto intro: register_le_trans)
    have ids: "bs_set (revision_ids_of remote) = (\<Union>x \<in> set decoded. known x)"
      using r by (simp add: revision_ids_of_valid)
    show ?thesis
      using applied(5,6) wf' pairs [OF applied(7)] changed(1) applied(2) ids le by auto
  qed
qed (simp_all add: write_refused_def)

text \<open>A transport whose one answer is a given range under head 5.\<close>

definition range_transport :: "bytes list \<Rightarrow> (nat, u8, unit) OpaqueTransport" where
  "range_transport objs = \<lparr>tr_head = (\<lambda>t. (Ok (Some 5), t)), tr_fetch_since = (\<lambda>t k. (Ok (Changed 5 objs), t + 1)),
     tr_publish = (\<lambda>t e objs. (Ok (Conflict (Some 5)), t + 1))\<rparr>"

abbreviation sample_spec :: ScalarCatchUpSpec where
  "sample_spec \<equiv> \<lparr>cu_key = sample_key, cu_continuum_id = OpaqueId 9, cu_domain_key = byte_key, cu_pre_observation_revision_id = None\<rparr>"

lemma sample_range_run:
  assumes "byte_wire wire" and "LocalScalarDomain_observe_remote d byte_register None = (Ok None, byte_domain)"
  shows "\<exists>rec' st' bs. catch_up_single_scalar_domain plain_aead sample_persist scalar_trusted_state_codec sample_codec
      (range_transport [wire]) sample_spec d rec None t =
      ((Ok (CatchUp_Applied 5 1 (bs_from_list [OpaqueId 5]) None) ::
        (_, (unit, TrustedStateCodecError, unit, unit) ScalarCatchUpError) result), byte_domain, rec', st', t + 1) \<and>
    rec' = rec\<lparr>trusted_state := bs, applied_cursor := Some (TransportCursor [5])\<rparr> \<and> st' = Some rec' \<and> length bs = 102"
proof -
  obtain bs where bs: "encode_local_scalar_snapshot (LocalScalarDomain_snapshot byte_domain) = Ok bs" "length bs = 102"
    using byte_domain_encodes by blast
  have "revision_ids_of byte_register = bs_from_list [OpaqueId 5]" by code_simp
  then show ?thesis
    using byte_wire_complete [OF assms(1)] assms(2) bs
    by (auto simp: catch_up_single_scalar_domain_def fetch_from_durable_cursor_def decode_cursor_def sample_codec_def
        range_transport_def apply_scalar_range_def merge_remote_def commit_received_scalar_domain_def
        scalar_trusted_state_codec_def commit_received_def persist_and_swap_def sample_persist_def
        DurableSyncRecord_apply_received_def split: option.split)
qed

lemma sample_observations:
  "LocalScalarDomain_observe_remote trusted_clean byte_register None = (Ok None, byte_domain)"
  "LocalScalarDomain_observe_remote byte_domain byte_register None = (Ok None, byte_domain)"
  by code_simp+

theorem catch_up_absorbs_range_witness:
  "\<exists>wire rec' st'. byte_wire wire \<and> catch_up_single_scalar_domain plain_aead sample_persist scalar_trusted_state_codec sample_codec
      (range_transport [wire]) sample_spec trusted_clean sample_record None 0 =
      ((Ok (CatchUp_Applied 5 1 (bs_from_list [OpaqueId 5]) None) ::
        (_, (unit, TrustedStateCodecError, unit, unit) ScalarCatchUpError) result), byte_domain, rec', st', 1) \<and>
    scalar_paired byte_domain (trusted_state rec') \<and> outbox rec' = outbox sample_record"
proof -
  obtain wire where wire: "byte_wire wire" using byte_wire_exists by blast
  from sample_range_run [OF wire sample_observations(1), of sample_record 0] obtain rec' st' bs where
    run: "catch_up_single_scalar_domain plain_aead sample_persist scalar_trusted_state_codec sample_codec
      (range_transport [wire]) sample_spec trusted_clean sample_record None 0 =
      ((Ok (CatchUp_Applied 5 1 (bs_from_list [OpaqueId 5]) None) ::
        (_, (unit, TrustedStateCodecError, unit, unit) ScalarCatchUpError) result), byte_domain, rec', st', 1)"
    and "trusted_state rec' = bs" "length bs = 102" by auto
  then have "length (trusted_state rec') \<le> isize_max" by (simp add: isize_max_def)
  from catch_up_absorbs_range [OF trusted_samples_wf(1) this run] wire run show ?thesis
    by (auto simp: cursor_advanced_def)
qed

text \<open>
  C22. Catch-up of a container: the range is merged as a whole before anything is observed. On
  \<^verbatim>\<open>Applied\<close>, each domain the merged range carries has absorbed it and kept what it knew (a domain new
  here starts from it), with exactly its identities reported; every other domain is unchanged, none
  of its work sealed. The cursor is the fetched head, the outbox is kept, and the durable record
  decodes to the live container. A head without objects keeps container and outbox and durably moves the
  cursor; no news and no baseline change nothing; a failure leaves container and record as they were and the
  store untouched or after one refused write.
\<close>

theorem recovery_catch_up_isolates:
  fixes res :: "('r ScalarRecoveryCatchUpOutcome, ('te, MultiScalarTrustedStateCodecError, 'se, 'ce) ScalarRecoveryCatchUpError) result"
  assumes "recovery_wf x" and "length (trusted_state rec') \<le> isize_max"
    and "catch_up_scalar_recovery_state cipher persist multi_trusted_state_codec cursors tr spec x rec st t = (res, x', rec', st', t')"
  shows "case res of
     Ok (CatchUp_Applied head n observed sealed) \<Rightarrow>
       (\<exists>objs projections combined. fetch_from_durable_cursor tr cursors rec t = (Ok (Changed head objs), t') \<and> n = length objs \<and>
          decode_complete_scalar_projections cipher (rcu_key spec) (rcu_continuum_id spec) objs =
            (Ok projections :: (_, ('te, MultiScalarTrustedStateCodecError, 'se, 'ce) ScalarRecoveryCatchUpError) result) \<and>
          try_fold (SyncProjection_merge ScalarRegister_merge) SyncProjection_new projections = Ok combined \<and>
          (\<forall>key. case SyncProjection_get combined key of
             None \<Rightarrow> RecoveryState_get x' key = RecoveryState_get x key \<and> bm_get observed key = None \<and> bm_get sealed key = None
           | Some remote \<Rightarrow> absorbed x x' key remote \<and> (\<exists>ids. bm_get observed key = Some ids \<and> bs_set ids = known remote))) \<and>
       cursor_advanced cursors rec rec' head \<and> persist st rec' = (Ok (), st') \<and> recovery_wf x' \<and> recovery_paired x' (trusted_state rec')
   | Ok (CatchUp_CursorAdvanced head) \<Rightarrow>
       fetch_from_durable_cursor tr cursors rec t = (Ok (Changed head []), t') \<and> x' = x \<and>
       cursor_advanced cursors rec rec' head \<and> persist st rec' = (Ok (), st') \<and> recovery_paired x' (trusted_state rec')
   | Ok (CatchUp_UpToDate head) \<Rightarrow>
       fetch_from_durable_cursor tr cursors rec t = (Ok (UpToDate head), t') \<and> x' = x \<and> rec' = rec \<and> st' = st
   | Ok (CatchUp_BaselineUnavailable head) \<Rightarrow>
       fetch_from_durable_cursor tr cursors rec t = (Ok (BaselineUnavailable head), t') \<and> x' = x \<and> rec' = rec \<and> st' = st
   | Err e \<Rightarrow> x' = x \<and> rec' = rec \<and> write_refused persist st st'"
  using assms(3)
proof (cases rule: catch_up_recovery_cases)
  case (changed head objs)
  note wf' = apply_recovery_range_wf [OF assms(1) changed(2)]
  note pairs = next_caught_up_paired(1) recovery_pairs [OF _ wf' assms(2)]
  from changed(2) show ?thesis
  proof (cases rule: apply_recovery_range_cases)
    case advanced
    with changed(1) pairs [OF advanced(5) [folded advanced(3)]] show ?thesis by simp
  next
    case (applied projections combined ob)
    note each = conjunct2 [OF observe_range_wf [OF assms(1) applied(2-4)], rule_format]
    have "case SyncProjection_get combined key of
        None \<Rightarrow> RecoveryState_get x' key = RecoveryState_get x key \<and> bm_get (ro_observed ob) key = None \<and> bm_get (ro_sealed ob) key = None
      | Some remote \<Rightarrow> absorbed x x' key remote \<and> (\<exists>ids. bm_get (ro_observed ob) key = Some ids \<and> bs_set ids = known remote)" for key
      using each [of key] revision_ids_of_valid
      by (cases "bm_get (domains combined) key") (auto simp: SyncProjection_get_def applied(5))
    then show ?thesis
      using applied(6,7) wf' pairs [OF applied(8)] changed(1) applied(2,3) by auto
  next
    case (failed e)
    have "write_refused persist st st'" using changed(2) unfolding failed(1) by (rule apply_recovery_refused)
    with failed show ?thesis by simp
  qed
qed (simp_all add: write_refused_def)

lemma single_projection:
  assumes "decode_protected_sync_part wire = Ok part" and "part_index part = 0" and "total_parts part = 1"
    and "unprotect_scalar_part cipher key continuum part = Ok q"
  shows "decode_complete_scalar_projections cipher key continuum [wire] = Ok [q]"
proof -
  have "MultipartInbox_ingest cipher MultipartInbox_new key continuum part = (Ok (Some q), MultipartInbox_new)"
    using assms by (simp add: ingest_single_part)
  moreover have "MultipartInbox_pending_publications MultipartInbox_new = 0"
    by (simp add: MultipartInbox_pending_publications_def MultipartInbox_new_def bm_len_card)
  ultimately show ?thesis
    using assms(1) by (simp add: decode_complete_scalar_projections_def assemble_projection_def)
qed

lemma byte_wire_projection:
  assumes "byte_wire wire"
  shows "decode_complete_scalar_projections plain_aead sample_key (OpaqueId 9) [wire] = Ok [byte_projection]"
  by (rule byte_wire_part [OF assms]) (rule single_projection)

abbreviation sample_recovery_spec :: ScalarRecoveryCatchUpSpec where
  "sample_recovery_spec \<equiv> \<lparr>rcu_key = sample_key, rcu_continuum_id = OpaqueId 9, rcu_pre_observation_revision_ids = bm_empty\<rparr>"

lemma sample_recovery_run:
  assumes "byte_wire wire" and "domain_wf d" and "LocalScalarDomain_observe_remote d byte_register None = (Ok None, byte_domain)"
  shows "\<exists>rec' st' bs. catch_up_scalar_recovery_state plain_aead sample_persist multi_trusted_state_codec sample_codec
      (range_transport [wire]) sample_recovery_spec (pair_recovery d) rec None t =
      ((Ok (CatchUp_Applied 5 1 (bm_insert byte_key (bs_from_list [OpaqueId 5]) bm_empty) bm_empty) ::
        (_, (unit, MultiScalarTrustedStateCodecError, unit, unit) ScalarRecoveryCatchUpError) result),
       pair_recovery byte_domain, rec', st', t + 1) \<and>
    rec' = rec\<lparr>trusted_state := bs, applied_cursor := Some (TransportCursor [5])\<rparr> \<and> st' = Some rec' \<and> length bs = 319"
proof -
  obtain bs where bs: "encode_multi_scalar_recovery_state (pair_recovery byte_domain) = Ok bs" "length bs = 319"
    using pair_recovery_encodes by blast
  have ids: "revision_ids_of byte_register = bs_from_list [OpaqueId 5]" by code_simp
  have merge: "SyncProjection_merge ScalarRegister_merge SyncProjection_new byte_projection = Ok byte_projection" by code_simp
  have entries: "bm_entries (domains byte_projection) = [(byte_key, byte_register)]"
    by (simp add: byte_projection_def sample_projection_def bm_entries_single)
  from assms(3) ids merge entries bs pair_recovery_restore [OF assms(2)] pair_recovery_replace [of d] show ?thesis
    by (auto simp: byte_wire_projection [OF assms(1)] catch_up_scalar_recovery_state_def fetch_from_durable_cursor_def decode_cursor_def sample_codec_def
        range_transport_def apply_recovery_range_def observe_domain_def multi_trusted_state_codec_def commit_received_def
        persist_and_swap_def sample_persist_def DurableSyncRecord_apply_received_def split: option.split)
qed

theorem recovery_catch_up_isolates_witness:
  "\<exists>wire rec' st'. byte_wire wire \<and> catch_up_scalar_recovery_state plain_aead sample_persist multi_trusted_state_codec sample_codec
      (range_transport [wire]) sample_recovery_spec (pair_recovery trusted_clean) sample_record None 0 =
      ((Ok (CatchUp_Applied 5 1 (bm_insert byte_key (bs_from_list [OpaqueId 5]) bm_empty) bm_empty) ::
        (_, (unit, MultiScalarTrustedStateCodecError, unit, unit) ScalarRecoveryCatchUpError) result),
       pair_recovery byte_domain, rec', st', 1) \<and>
    recovery_paired (pair_recovery byte_domain) (trusted_state rec')"
proof -
  obtain wire where wire: "byte_wire wire" using byte_wire_exists by blast
  from sample_recovery_run [OF wire trusted_samples_wf(1) sample_observations(1), of sample_record 0] obtain rec' st' bs where
    run: "catch_up_scalar_recovery_state plain_aead sample_persist multi_trusted_state_codec sample_codec
      (range_transport [wire]) sample_recovery_spec (pair_recovery trusted_clean) sample_record None 0 =
      ((Ok (CatchUp_Applied 5 1 (bm_insert byte_key (bs_from_list [OpaqueId 5]) bm_empty) bm_empty) ::
        (_, (unit, MultiScalarTrustedStateCodecError, unit, unit) ScalarRecoveryCatchUpError) result),
       pair_recovery byte_domain, rec', st', 1)"
    and "trusted_state rec' = bs" "length bs = 319" by auto
  then have "length (trusted_state rec') \<le> isize_max" by (simp add: isize_max_def)
  from recovery_catch_up_isolates [OF pair_recovery_wf [OF trusted_samples_wf(1)] this run] wire run show ?thesis by auto
qed

end
