(* ===== verification/Foreground.thy ===== *)
theory Foreground
  imports Sync_Session
begin

text \<open>
  The lifecycle gate of \<^verbatim>\<open>apc-sync/src/foreground.rs\<close>. The shared atomic flag and the wrapped
  transport are one state; the guarded transport is again an opaque transport over it.
\<close>

section \<open>Gate\<close>

record 't ForegroundTransport =
  ft_inner :: 't
  ft_foreground :: bool

datatype 'e ForegroundTransportError = Backgrounded | Inner 'e

definition guard :: "'t \<Rightarrow> 't ForegroundTransport" where
  "guard transport = \<lparr>ft_inner = transport, ft_foreground = False\<rparr>"

definition enter_foreground :: "'t ForegroundTransport \<Rightarrow> 't ForegroundTransport" where
  "enter_foreground g = g\<lparr>ft_foreground := True\<rparr>"

definition enter_background :: "'t ForegroundTransport \<Rightarrow> 't ForegroundTransport" where
  "enter_background g = g\<lparr>ft_foreground := False\<rparr>"

definition is_foreground :: "'t ForegroundTransport \<Rightarrow> bool" where
  "is_foreground g = ft_foreground g"

definition ensure_foreground :: "'t ForegroundTransport \<Rightarrow> (unit, 'e ForegroundTransportError) result" where
  "ensure_foreground g = (if ft_foreground g then Ok () else Err Backgrounded)"

text \<open>The common body of the three methods: \<^verbatim>\<open>self.ensure_foreground()?\<close>, then the inner call.\<close>

definition gated ::
    "('t \<Rightarrow> ('a, 'e) result \<times> 't) \<Rightarrow> 't ForegroundTransport \<Rightarrow> ('a, 'e ForegroundTransportError) result \<times> 't ForegroundTransport" where
  "gated call g =
     (case ensure_foreground g of
        Err e \<Rightarrow> (Err e, g)
      | Ok _ \<Rightarrow> (case call (ft_inner g) of (r, t) \<Rightarrow> (map_err Inner r, g\<lparr>ft_inner := t\<rparr>)))"

definition foreground_transport ::
    "('t, 'r, 'e) OpaqueTransport \<Rightarrow> ('t ForegroundTransport, 'r, 'e ForegroundTransportError) OpaqueTransport" where
  "foreground_transport tr =
     \<lparr>tr_head = gated (tr_head tr),
      tr_fetch_since = (\<lambda>g known. gated (\<lambda>t. tr_fetch_since tr t known) g),
      tr_publish = (\<lambda>g expected objects. gated (\<lambda>t. tr_publish tr t expected objects) g)\<rparr>"

section \<open>Traces\<close>

text \<open>What a platform and a session do with a gate, in the order they do it.\<close>

datatype 'r gate_event =
    EnterForeground
  | EnterBackground
  | Head
  | FetchSince "'r option"
  | Publish "'r option" "bytes list"

text \<open>One call on a transport, its result dropped.\<close>

fun apply_call :: "('t, 'r, 'e) OpaqueTransport \<Rightarrow> 'r gate_event \<Rightarrow> 't \<Rightarrow> 't" where
  "apply_call tr Head t = snd (tr_head tr t)"
| "apply_call tr (FetchSince k) t = snd (tr_fetch_since tr t k)"
| "apply_call tr (Publish k objs) t = snd (tr_publish tr t k objs)"
| "apply_call tr _ t = t"

fun gate_step :: "('t, 'r, 'e) OpaqueTransport \<Rightarrow> 't ForegroundTransport \<Rightarrow> 'r gate_event \<Rightarrow> 't ForegroundTransport" where
  "gate_step tr g EnterForeground = enter_foreground g"
| "gate_step tr g EnterBackground = enter_background g"
| "gate_step tr g e = apply_call (foreground_transport tr) e g"

text \<open>The calls of a trace that fall into the foreground.\<close>

fun foreground_calls :: "bool \<Rightarrow> 'r gate_event list \<Rightarrow> 'r gate_event list" where
  "foreground_calls f [] = []"
| "foreground_calls f (EnterForeground # es) = foreground_calls True es"
| "foreground_calls f (EnterBackground # es) = foreground_calls False es"
| "foreground_calls f (e # es) = (if f then e # foreground_calls f es else foreground_calls f es)"

lemma gated_inner:
  "ft_inner (snd (gated call g)) = (if ft_foreground g then snd (call (ft_inner g)) else ft_inner g)"
  "ft_foreground (snd (gated call g)) = ft_foreground g"
  by (simp_all add: gated_def ensure_foreground_def split: prod.split)

lemma gate_call:
  assumes "e \<notin> {EnterForeground, EnterBackground}"
  shows "ft_inner (gate_step tr g e) = (if ft_foreground g then apply_call tr e (ft_inner g) else ft_inner g)"
    and "ft_foreground (gate_step tr g e) = ft_foreground g"
  using assms by (cases e; simp add: foreground_transport_def gated_inner)+

lemma gate_run:
  "ft_inner (foldl (gate_step tr) g es) = foldl (\<lambda>t e. apply_call tr e t) (ft_inner g) (foreground_calls (ft_foreground g) es)"
proof (induction es arbitrary: g)
  case (Cons e es)
  show ?case
  proof (cases "e \<in> {EnterForeground, EnterBackground}")
    case True
    with Cons show ?thesis by (auto simp: enter_foreground_def enter_background_def)
  next
    case False
    then have "foreground_calls f (e # es) = (if f then e # foreground_calls f es else foreground_calls f es)" for f
      by (cases e) auto
    with Cons.IH [of "gate_step tr g e"] gate_call [OF False, of tr g] show ?thesis by simp
  qed
qed simp

section \<open>Properties\<close>

text \<open>
  Foreground-only synchronization: over any interleaving of lifecycle changes and transport
  calls, the wrapped transport sees exactly the calls made in the foreground, in order; a gate
  starts in the background, where every call fails without any effect, and in the foreground a
  call answers what the wrapped transport answers.
\<close>

lemma foreground_gate_exact:
  "ft_inner (foldl (gate_step tr) (guard t) es) = foldl (\<lambda>t e. apply_call tr e t) t (foreground_calls False es) \<and>
   (\<not> is_foreground g \<longrightarrow>
      tr_head (foreground_transport tr) g = (Err Backgrounded, g) \<and>
      tr_fetch_since (foreground_transport tr) g known = (Err Backgrounded, g) \<and>
      tr_publish (foreground_transport tr) g known objs = (Err Backgrounded, g)) \<and>
   (is_foreground g \<longrightarrow>
      fst (tr_publish (foreground_transport tr) g known objs) = map_err Inner (fst (tr_publish tr (ft_inner g) known objs)))"
  using gate_run [of tr "guard t" es]
  by (simp add: guard_def is_foreground_def foreground_transport_def gated_def ensure_foreground_def split: prod.split)

lemma foreground_gate_exact_witness:
  "ft_inner (foldl (gate_step count_transport) (guard 0)
     [Publish None [[1]], EnterForeground, Publish None [[1], [2]], EnterBackground, Publish None [[3]]]) = 2 \<and>
   tr_head (foreground_transport count_transport) (guard 0) = (Err Backgrounded, guard 0)"
  using foreground_gate_exact [of count_transport 0
      "[Publish None [[1]], EnterForeground, Publish None [[1], [2]], EnterBackground, Publish None [[3]]]"
      "guard 0" None "[]"]
  by (simp add: count_transport_def guard_def is_foreground_def)

end
