(* ===== verification/Resume.thy ===== *)
theory Resume
  imports Catchup Foreground
begin

text \<open>
  Foreground resume: \<^verbatim>\<open>apc-runtime/src/resume.rs\<close> for one pending publication, \<^verbatim>\<open>resume_batch.rs\<close>
  and \<^verbatim>\<open>resume_recovery_batch.rs\<close> for a set of them, and the bounded cycles \<^verbatim>\<open>resume_cycle.rs\<close>,
  \<^verbatim>\<open>resume_batch_cycle.rs\<close> and \<^verbatim>\<open>resume_recovery_cycle.rs\<close>. A pass catches up first; a stale publication is then
  retired only on evidence from this very catch-up, and bytes are offered to the transport only
  when they target the cursor the pass arrived at. The two set-based passes of the source
  are the same text over different evidence; they share \<open>resume_outbox_pass\<close> here.
\<close>

section \<open>One publication\<close>

datatype 'r ScalarResumeOutboxOutcome =
    Outbox_None
  | Outbox_BlockedByBaseline
  | Outbox_NeedsRebase PublicationId
  | Outbox_ObservedAndReconciled PublicationId 'r
  | Outbox_PublishedAndReconciled PublicationId 'r
  | Outbox_Conflict PublicationId "'r option"

record 'r ScalarResumeReport =
  srr_catch_up :: "'r ScalarCatchUpOutcome"
  srr_outbox :: "'r ScalarResumeOutboxOutcome"

text \<open>\<open>Resume_Panicked\<close> stands for the \<^verbatim>\<open>expect\<close> that catch-up preserves the outbox.\<close>

datatype ('te, 'tse, 'se, 'ce) ScalarResumeError =
    MultiplePendingOutboxUnsupported nat
  | Resume_CatchUp "('te, 'tse, 'se, 'ce) ScalarCatchUpError"
  | Resume_PendingDecode ScalarObjectDecodeError
  | Resume_Publish "('te, 'ce) SessionIoError"
  | Resume_Reconcile "('se, 'ce) SessionCommitError"
  | Resume_Panicked

definition is_baseline_unavailable :: "('r, 'o, 's) catch_up_outcome \<Rightarrow> bool" where
  "is_baseline_unavailable out = (case out of CatchUp_BaselineUnavailable _ \<Rightarrow> True | _ \<Rightarrow> False)"

definition resume_stale_publication ::
    "aead \<Rightarrow> ('st, 'se) persist_fn \<Rightarrow> ('r, 'ce) TransportCursorCodec \<Rightarrow> ScalarCatchUpSpec \<Rightarrow> PublicationId \<Rightarrow> DurableOutboxEntry \<Rightarrow>
     'r ScalarCatchUpOutcome \<Rightarrow> DurableSyncRecord \<Rightarrow> 'st \<Rightarrow>
     ('r ScalarResumeOutboxOutcome, ('te, 'tse, 'se, 'ce) ScalarResumeError) result \<times> DurableSyncRecord \<times> 'st" where
  "resume_stale_publication cipher persist cursors spec pub entry catch_up rec store =
     (case catch_up of
        CatchUp_Applied head _ observed _ \<Rightarrow>
          (case oe_objects entry of
             [object] \<Rightarrow>
               (case decode_single_scalar_domain_object cipher (cu_key spec) (cu_continuum_id spec) (cu_domain_key spec) object of
                  Err e \<Rightarrow> (Err (Resume_PendingDecode e), rec, store)
                | Ok pending \<Rightarrow>
                    if bs_is_subset (revision_ids_of pending) observed then
                      (case commit_reconciled_outbox persist cursors rec store pub (trusted_state rec) head of
                         (Err e, rec', store') \<Rightarrow> (Err (Resume_Reconcile e), rec', store')
                       | (Ok _, rec', store') \<Rightarrow> (Ok (Outbox_ObservedAndReconciled pub head), rec', store'))
                    else (Ok (Outbox_NeedsRebase pub), rec, store))
           | _ \<Rightarrow> (Ok (Outbox_NeedsRebase pub), rec, store))
      | _ \<Rightarrow> (Ok (Outbox_NeedsRebase pub), rec, store))"

definition resume_current_publication ::
    "('st, 'se) persist_fn \<Rightarrow> ('r, 'ce) TransportCursorCodec \<Rightarrow> ('t, 'r, 'te) OpaqueTransport \<Rightarrow> PublicationId \<Rightarrow>
     DurableSyncRecord \<Rightarrow> 'st \<Rightarrow> 't \<Rightarrow>
     ('r ScalarResumeOutboxOutcome, ('te, 'tse, 'se, 'ce) ScalarResumeError) result \<times> DurableSyncRecord \<times> 'st \<times> 't" where
  "resume_current_publication persist cursors tr pub rec store t =
     (case publish_staged tr cursors rec pub t of
        (Err e, t') \<Rightarrow> (Err (Resume_Publish e), rec, store, t')
      | (Ok (Published head), t') \<Rightarrow>
          (case commit_reconciled_outbox persist cursors rec store pub (trusted_state rec) head of
             (Err e, rec', store') \<Rightarrow> (Err (Resume_Reconcile e), rec', store', t')
           | (Ok _, rec', store') \<Rightarrow> (Ok (Outbox_PublishedAndReconciled pub head), rec', store', t'))
      | (Ok (Conflict current_head), t') \<Rightarrow> (Ok (Outbox_Conflict pub current_head), rec, store, t'))"

text \<open>What follows the catch-up: \<open>pending\<close> is the first key of the outbox before it.\<close>

definition resume_publication ::
    "aead \<Rightarrow> ('st, 'se) persist_fn \<Rightarrow> ('r, 'ce) TransportCursorCodec \<Rightarrow> ('t, 'r, 'te) OpaqueTransport \<Rightarrow> ScalarCatchUpSpec \<Rightarrow>
     PublicationId option \<Rightarrow> 'r ScalarCatchUpOutcome \<Rightarrow> DurableSyncRecord \<Rightarrow> 'st \<Rightarrow> 't \<Rightarrow>
     ('r ScalarResumeOutboxOutcome, ('te, 'tse, 'se, 'ce) ScalarResumeError) result \<times> DurableSyncRecord \<times> 'st \<times> 't" where
  "resume_publication cipher persist cursors tr spec pending catch_up rec store t =
     (if is_baseline_unavailable catch_up then (Ok Outbox_BlockedByBaseline, rec, store, t)
      else
        (case pending of
           None \<Rightarrow> (Ok Outbox_None, rec, store, t)
         | Some pub \<Rightarrow>
             (case bm_get (outbox rec) pub of
                None \<Rightarrow> (Err Resume_Panicked, rec, store, t)
              | Some entry \<Rightarrow>
                  if oe_expected_cursor entry \<noteq> applied_cursor rec then
                    (case resume_stale_publication cipher persist cursors spec pub entry catch_up rec store of
                       (res, rec', store') \<Rightarrow> (res, rec', store', t))
                  else resume_current_publication persist cursors tr pub rec store t)))"

definition resume_single_scalar_domain ::
    "aead \<Rightarrow> ('st, 'se) persist_fn \<Rightarrow> (bytes LocalScalarSnapshot, 'tse) TrustedStateCodec \<Rightarrow>
     ('r, 'ce) TransportCursorCodec \<Rightarrow> ('t, 'r, 'te) OpaqueTransport \<Rightarrow>
     ScalarCatchUpSpec \<Rightarrow> bytes LocalScalarDomain \<Rightarrow> DurableSyncRecord \<Rightarrow> 'st \<Rightarrow> 't \<Rightarrow>
     ('r ScalarResumeReport, ('te, 'tse, 'se, 'ce) ScalarResumeError) result \<times>
       bytes LocalScalarDomain \<times> DurableSyncRecord \<times> 'st \<times> 't" where
  "resume_single_scalar_domain cipher persist codec cursors tr spec domain rec store t =
     (let pending_count = bm_len (outbox rec)
      in if 1 < pending_count then (Err (MultiplePendingOutboxUnsupported pending_count), domain, rec, store, t)
         else
           (let pending = (case bm_keys (outbox rec) of [] \<Rightarrow> None | pub # _ \<Rightarrow> Some pub)
            in case catch_up_single_scalar_domain cipher persist codec cursors tr spec domain rec store t of
                 (Err e, domain1, rec1, store1, t1) \<Rightarrow> (Err (Resume_CatchUp e), domain1, rec1, store1, t1)
               | (Ok catch_up, domain1, rec1, store1, t1) \<Rightarrow>
                   (case resume_publication cipher persist cursors tr spec pending catch_up rec1 store1 t1 of
                      (Err e, rec2, store2, t2) \<Rightarrow> (Err e, domain1, rec2, store2, t2)
                    | (Ok out, rec2, store2, t2) \<Rightarrow>
                        (Ok \<lparr>srr_catch_up = catch_up, srr_outbox = out\<rparr>, domain1, rec2, store2, t2))))"

section \<open>A set of publications\<close>

datatype 'r ScalarBatchResumeAction =
    Action_None
  | Action_BlockedByBaseline
  | Action_NeedsRebase "PublicationId btree_set"
  | Action_PublishedAndReconciled "PublicationId btree_set" 'r
  | Action_Conflict "PublicationId btree_set" "'r option"

record ('r, 'cu) resume_report =
  rep_catch_up :: 'cu
  rep_observed_reconciled :: "PublicationId btree_set"
  rep_action :: "'r ScalarBatchResumeAction"

datatype ('cu, 'pd, 'te, 'se, 'ce) resume_error =
    RO_CatchUp 'cu
  | RO_PendingDecode PublicationId 'pd
  | RO_Publish "('te, 'ce) BatchPublishError"
  | RO_Reconcile "('se, 'ce) BatchCommitError"
  | RO_Panicked

type_synonym 'r ScalarBatchResumeReport = "('r, 'r ScalarCatchUpOutcome) resume_report"

type_synonym ('te, 'tse, 'se, 'ce) ScalarBatchResumeError =
  "(('te, 'tse, 'se, 'ce) ScalarCatchUpError, ScalarObjectDecodeError, 'te, 'se, 'ce) resume_error"

text \<open>Classification by equality with the durable cursor.\<close>

definition classify_publication ::
    "DurableSyncRecord \<Rightarrow> TransportCursor option \<Rightarrow> PublicationId btree_set \<times> PublicationId btree_set \<Rightarrow> PublicationId \<Rightarrow>
     (PublicationId btree_set \<times> PublicationId btree_set, ('cu, 'pd, 'te, 'se, 'ce) resume_error) result" where
  "classify_publication rec current_cursor st pub =
     (case st of (current, stale) \<Rightarrow>
        (case bm_get (outbox rec) pub of
           None \<Rightarrow> Err RO_Panicked
         | Some entry \<Rightarrow>
             if oe_expected_cursor entry = current_cursor then Ok (bs_insert pub current, stale)
             else Ok (current, bs_insert pub stale)))"

definition observe_publication ::
    "(PublicationId \<Rightarrow> DurableOutboxEntry \<Rightarrow> (bool, 'pd) result) \<Rightarrow> DurableSyncRecord \<Rightarrow> PublicationId btree_set \<Rightarrow> PublicationId \<Rightarrow>
     (PublicationId btree_set, ('cu, 'pd, 'te, 'se, 'ce) resume_error) result" where
  "observe_publication evidence rec observed_reconciled pub =
     (case bm_get (outbox rec) pub of
        None \<Rightarrow> Err RO_Panicked
      | Some entry \<Rightarrow>
          (case evidence pub entry of
             Err e \<Rightarrow> Err (RO_PendingDecode pub e)
           | Ok seen \<Rightarrow> Ok (if seen then bs_insert pub observed_reconciled else observed_reconciled)))"

text \<open>The stale set: what this catch-up proves to have arrived is retired, the rest stays.\<close>

definition reconcile_stale ::
    "('st, 'se) persist_fn \<Rightarrow> ('r, 'ce) TransportCursorCodec \<Rightarrow> ('o \<Rightarrow> PublicationId \<Rightarrow> DurableOutboxEntry \<Rightarrow> (bool, 'pd) result) \<Rightarrow>
     ('r, 'o, 's) catch_up_outcome \<Rightarrow> PublicationId btree_set \<Rightarrow> DurableSyncRecord \<Rightarrow> 'st \<Rightarrow>
     (PublicationId btree_set \<times> PublicationId btree_set, ('cu, 'pd, 'te, 'se, 'ce) resume_error) result \<times> DurableSyncRecord \<times> 'st" where
  "reconcile_stale persist cursors evidence catch_up stale rec store =
     (if bm_is_empty stale then (Ok (bm_empty, stale), rec, store)
      else
        (case catch_up of
           CatchUp_Applied head _ observed _ \<Rightarrow>
             (case try_fold (observe_publication (evidence observed) rec) bm_empty (bs_iter stale) of
                Err e \<Rightarrow> (Err e, rec, store)
              | Ok observed_reconciled \<Rightarrow>
                  if bm_is_empty observed_reconciled then (Ok (observed_reconciled, stale), rec, store)
                  else
                    (case commit_reconciled_outbox_batch persist cursors rec store (bs_iter observed_reconciled)
                            (trusted_state rec) head of
                       (Err e, rec', store') \<Rightarrow> (Err (RO_Reconcile e), rec', store')
                     | (Ok _, rec', store') \<Rightarrow>
                         (Ok (observed_reconciled,
                              bs_from_list (filter (\<lambda>pub. \<not> bs_contains observed_reconciled pub) (bs_iter stale))),
                          rec', store')))
         | _ \<Rightarrow> (Ok (bm_empty, stale), rec, store)))"

definition publish_current ::
    "('st, 'se) persist_fn \<Rightarrow> ('r, 'ce) TransportCursorCodec \<Rightarrow> ('t, 'r, 'te) OpaqueTransport \<Rightarrow> PublicationId btree_set \<Rightarrow>
     DurableSyncRecord \<Rightarrow> 'st \<Rightarrow> 't \<Rightarrow>
     ('r ScalarBatchResumeAction, ('cu, 'pd, 'te, 'se, 'ce) resume_error) result \<times> DurableSyncRecord \<times> 'st \<times> 't" where
  "publish_current persist cursors tr current rec store t =
     (case publish_staged_batch tr cursors rec (bs_iter current) t of
        (Err e, t') \<Rightarrow> (Err (RO_Publish e), rec, store, t')
      | (Ok (Published head), t') \<Rightarrow>
          (case commit_reconciled_outbox_batch persist cursors rec store (bs_iter current) (trusted_state rec) head of
             (Err e, rec', store') \<Rightarrow> (Err (RO_Reconcile e), rec', store', t')
           | (Ok _, rec', store') \<Rightarrow> (Ok (Action_PublishedAndReconciled current head), rec', store', t'))
      | (Ok (Conflict current_head), t') \<Rightarrow> (Ok (Action_Conflict current current_head), rec, store, t'))"

definition settle_outbox_set ::
    "('st, 'se) persist_fn \<Rightarrow> ('r, 'ce) TransportCursorCodec \<Rightarrow> ('t, 'r, 'te) OpaqueTransport \<Rightarrow>
     ('o \<Rightarrow> PublicationId \<Rightarrow> DurableOutboxEntry \<Rightarrow> (bool, 'pd) result) \<Rightarrow> PublicationId btree_set \<Rightarrow>
     ('r, 'o, 's) catch_up_outcome \<Rightarrow> DurableSyncRecord \<Rightarrow> 'st \<Rightarrow> 't \<Rightarrow>
     (PublicationId btree_set \<times> 'r ScalarBatchResumeAction, ('cu, 'pd, 'te, 'se, 'ce) resume_error) result \<times>
       DurableSyncRecord \<times> 'st \<times> 't" where
  "settle_outbox_set persist cursors tr evidence initial_pending catch_up rec store t =
     (if is_baseline_unavailable catch_up then (Ok (bm_empty, Action_BlockedByBaseline), rec, store, t)
      else if bm_is_empty initial_pending then (Ok (bm_empty, Action_None), rec, store, t)
      else
        (case try_fold (classify_publication rec (applied_cursor rec)) (bm_empty, bm_empty) (bs_iter initial_pending) of
           Err e \<Rightarrow> (Err e, rec, store, t)
         | Ok (current, stale) \<Rightarrow>
             (case reconcile_stale persist cursors evidence catch_up stale rec store of
                (Err e, rec1, store1) \<Rightarrow> (Err e, rec1, store1, t)
              | (Ok (observed_reconciled, unresolved), rec1, store1) \<Rightarrow>
                  if \<not> bm_is_empty unresolved then
                    (Ok (observed_reconciled, Action_NeedsRebase unresolved), rec1, store1, t)
                  else if bm_is_empty current then (Ok (observed_reconciled, Action_None), rec1, store1, t)
                  else
                    (case publish_current persist cursors tr current rec1 store1 t of
                       (Err e, rec2, store2, t2) \<Rightarrow> (Err e, rec2, store2, t2)
                     | (Ok action, rec2, store2, t2) \<Rightarrow> (Ok (observed_reconciled, action), rec2, store2, t2)))))"

definition resume_outbox_pass ::
    "('st, 'se) persist_fn \<Rightarrow> ('r, 'ce) TransportCursorCodec \<Rightarrow> ('t, 'r, 'te) OpaqueTransport \<Rightarrow>
     ('o \<Rightarrow> PublicationId \<Rightarrow> DurableOutboxEntry \<Rightarrow> (bool, 'pd) result) \<Rightarrow>
     ('x \<Rightarrow> DurableSyncRecord \<Rightarrow> 'st \<Rightarrow> 't \<Rightarrow>
       (('r, 'o, 's) catch_up_outcome, 'cu) result \<times> 'x \<times> DurableSyncRecord \<times> 'st \<times> 't) \<Rightarrow>
     'x \<Rightarrow> DurableSyncRecord \<Rightarrow> 'st \<Rightarrow> 't \<Rightarrow>
     (('r, ('r, 'o, 's) catch_up_outcome) resume_report, ('cu, 'pd, 'te, 'se, 'ce) resume_error) result \<times>
       'x \<times> DurableSyncRecord \<times> 'st \<times> 't" where
  "resume_outbox_pass persist cursors tr evidence catch_up_fn x rec store t =
     (let initial_pending = bs_from_list (bm_keys (outbox rec))
      in case catch_up_fn x rec store t of
           (Err e, x1, rec1, store1, t1) \<Rightarrow> (Err (RO_CatchUp e), x1, rec1, store1, t1)
         | (Ok catch_up, x1, rec1, store1, t1) \<Rightarrow>
             (case settle_outbox_set persist cursors tr evidence initial_pending catch_up rec1 store1 t1 of
                (Err e, rec2, store2, t2) \<Rightarrow> (Err e, x1, rec2, store2, t2)
              | (Ok (observed_reconciled, action), rec2, store2, t2) \<Rightarrow>
                  (Ok \<lparr>rep_catch_up = catch_up, rep_observed_reconciled = observed_reconciled, rep_action = action\<rparr>,
                   x1, rec2, store2, t2)))"

text \<open>The evidence of the scalar runtime: only a publication of one complete object can be proven.\<close>

definition scalar_evidence ::
    "aead \<Rightarrow> ScalarCatchUpSpec \<Rightarrow> RevisionId btree_set \<Rightarrow> PublicationId \<Rightarrow> DurableOutboxEntry \<Rightarrow> (bool, ScalarObjectDecodeError) result" where
  "scalar_evidence cipher spec observed pub entry =
     (case oe_objects entry of
        [object] \<Rightarrow>
          (case decode_single_scalar_domain_object cipher (cu_key spec) (cu_continuum_id spec) (cu_domain_key spec) object of
             Err e \<Rightarrow> Err e
           | Ok pending \<Rightarrow> Ok (bs_is_subset (revision_ids_of pending) observed))
      | _ \<Rightarrow> Ok False)"

definition resume_scalar_outbox_set ::
    "aead \<Rightarrow> ('st, 'se) persist_fn \<Rightarrow> (bytes LocalScalarSnapshot, 'tse) TrustedStateCodec \<Rightarrow>
     ('r, 'ce) TransportCursorCodec \<Rightarrow> ('t, 'r, 'te) OpaqueTransport \<Rightarrow>
     ScalarCatchUpSpec \<Rightarrow> bytes LocalScalarDomain \<Rightarrow> DurableSyncRecord \<Rightarrow> 'st \<Rightarrow> 't \<Rightarrow>
     ('r ScalarBatchResumeReport, ('te, 'tse, 'se, 'ce) ScalarBatchResumeError) result \<times>
       bytes LocalScalarDomain \<times> DurableSyncRecord \<times> 'st \<times> 't" where
  "resume_scalar_outbox_set cipher persist codec cursors tr spec =
     resume_outbox_pass persist cursors tr (scalar_evidence cipher spec)
       (catch_up_single_scalar_domain cipher persist codec cursors tr spec)"

section \<open>Bounded cycles\<close>

text \<open>The three cycles of the source have one shape: a pass, and one more only after a conflict.\<close>

record 'rep resume_cycle_report =
  cycle_initial :: 'rep
  cycle_post_conflict :: "'rep option"

definition bounded_cycle ::
    "('rep \<Rightarrow> bool) \<Rightarrow> ('x \<Rightarrow> DurableSyncRecord \<Rightarrow> 'st \<Rightarrow> 't \<Rightarrow> ('rep, 'e) result \<times> 'x \<times> DurableSyncRecord \<times> 'st \<times> 't) \<Rightarrow>
     'x \<Rightarrow> DurableSyncRecord \<Rightarrow> 'st \<Rightarrow> 't \<Rightarrow> ('rep resume_cycle_report, 'e) result \<times> 'x \<times> DurableSyncRecord \<times> 'st \<times> 't" where
  "bounded_cycle is_conflict pass x rec store t =
     (case pass x rec store t of
        (Err e, x1, rec1, store1, t1) \<Rightarrow> (Err e, x1, rec1, store1, t1)
      | (Ok initial, x1, rec1, store1, t1) \<Rightarrow>
          if \<not> is_conflict initial then
            (Ok \<lparr>cycle_initial = initial, cycle_post_conflict = None\<rparr>, x1, rec1, store1, t1)
          else
            (case pass x1 rec1 store1 t1 of
               (Err e, x2, rec2, store2, t2) \<Rightarrow> (Err e, x2, rec2, store2, t2)
             | (Ok post_conflict, x2, rec2, store2, t2) \<Rightarrow>
                 (Ok \<lparr>cycle_initial = initial, cycle_post_conflict = Some post_conflict\<rparr>, x2, rec2, store2, t2)))"

definition is_outbox_conflict :: "'r ScalarResumeReport \<Rightarrow> bool" where
  "is_outbox_conflict report = (case srr_outbox report of Outbox_Conflict _ _ \<Rightarrow> True | _ \<Rightarrow> False)"

definition is_action_conflict :: "('r, 'cu) resume_report \<Rightarrow> bool" where
  "is_action_conflict report = (case rep_action report of Action_Conflict _ _ \<Rightarrow> True | _ \<Rightarrow> False)"

definition resume_single_scalar_domain_bounded ::
    "aead \<Rightarrow> ('st, 'se) persist_fn \<Rightarrow> (bytes LocalScalarSnapshot, 'tse) TrustedStateCodec \<Rightarrow>
     ('r, 'ce) TransportCursorCodec \<Rightarrow> ('t, 'r, 'te) OpaqueTransport \<Rightarrow>
     ScalarCatchUpSpec \<Rightarrow> bytes LocalScalarDomain \<Rightarrow> DurableSyncRecord \<Rightarrow> 'st \<Rightarrow> 't \<Rightarrow>
     ('r ScalarResumeReport resume_cycle_report, ('te, 'tse, 'se, 'ce) ScalarResumeError) result \<times>
       bytes LocalScalarDomain \<times> DurableSyncRecord \<times> 'st \<times> 't" where
  "resume_single_scalar_domain_bounded cipher persist codec cursors tr spec =
     bounded_cycle is_outbox_conflict (resume_single_scalar_domain cipher persist codec cursors tr spec)"

definition resume_scalar_outbox_set_bounded ::
    "aead \<Rightarrow> ('st, 'se) persist_fn \<Rightarrow> (bytes LocalScalarSnapshot, 'tse) TrustedStateCodec \<Rightarrow>
     ('r, 'ce) TransportCursorCodec \<Rightarrow> ('t, 'r, 'te) OpaqueTransport \<Rightarrow>
     ScalarCatchUpSpec \<Rightarrow> bytes LocalScalarDomain \<Rightarrow> DurableSyncRecord \<Rightarrow> 'st \<Rightarrow> 't \<Rightarrow>
     ('r ScalarBatchResumeReport resume_cycle_report, ('te, 'tse, 'se, 'ce) ScalarBatchResumeError) result \<times>
       bytes LocalScalarDomain \<times> DurableSyncRecord \<times> 'st \<times> 't" where
  "resume_scalar_outbox_set_bounded cipher persist codec cursors tr spec =
     bounded_cycle is_action_conflict (resume_scalar_outbox_set cipher persist codec cursors tr spec)"

section \<open>Classification and evidence\<close>

lemma classify_all:
  assumes "set pubs \<subseteq> dom (bm_get (outbox rec))"
  shows "\<exists>cur' st'. try_fold (classify_publication rec c) (cur, st) pubs =
      (Ok (cur', st') :: (_, ('cu, 'pd, 'te, 'se, 'ce) resume_error) result) \<and>
    bs_set cur' = bs_set cur \<union> {p \<in> set pubs. oe_expected_cursor (the (bm_get (outbox rec) p)) = c} \<and>
    bs_set st' = bs_set st \<union> {p \<in> set pubs. oe_expected_cursor (the (bm_get (outbox rec) p)) \<noteq> c}"
  using assms
proof (induction pubs arbitrary: cur st)
  case (Cons p ps)
  then obtain e where e: "bm_get (outbox rec) p = Some e" by auto
  have ps: "set ps \<subseteq> dom (bm_get (outbox rec))" using Cons.prems by simp
  show ?case
  proof (cases "oe_expected_cursor e = c")
    case True
    with e Cons.IH [OF ps, of "bs_insert p cur" st] show ?thesis by (auto simp: classify_publication_def)
  next
    case False
    with e Cons.IH [OF ps, of cur "bs_insert p st"] show ?thesis by (auto simp: classify_publication_def)
  qed
qed simp

lemma observe_publication_step:
  "observe_publication ev rec obs p =
     (Ok obs' :: (_, ('cu, 'pd, 'te, 'se, 'ce) resume_error) result) \<longleftrightarrow>
     (\<exists>e seen. bm_get (outbox rec) p = Some e \<and> ev p e = Ok seen \<and> obs' = (if seen then bs_insert p obs else obs))"
  by (auto simp: observe_publication_def split: option.splits result.splits)

lemma observe_publication_panic:
  "observe_publication ev rec obs p = Err RO_Panicked \<longleftrightarrow> bm_get (outbox rec) p = None"
  by (auto simp: observe_publication_def split: option.splits result.splits)

lemma observe_publications_Ok:
  assumes "try_fold (observe_publication ev rec) obs pubs = (Ok obs' :: (_, ('cu, 'pd, 'te, 'se, 'ce) resume_error) result)"
  shows "bs_set obs' = bs_set obs \<union> {p \<in> set pubs. \<exists>e. bm_get (outbox rec) p = Some e \<and> ev p e = Ok True}"
  using assms
proof (induction pubs arbitrary: obs)
  case (Cons p ps)
  then obtain e seen where e: "bm_get (outbox rec) p = Some e" "ev p e = Ok seen"
    and rest: "try_fold (observe_publication ev rec) (if seen then bs_insert p obs else obs) ps =
      (Ok obs' :: (_, ('cu, 'pd, 'te, 'se, 'ce) resume_error) result)"
    by (auto simp: observe_publication_step split: result.splits)
  with Cons.IH [OF rest] show ?case by auto
qed simp

lemma observe_publications_Err:
  assumes "try_fold (observe_publication ev rec) obs pubs = (Err err :: (_, ('cu, 'pd, 'te, 'se, 'ce) resume_error) result)"
    and "set pubs \<subseteq> dom (bm_get (outbox rec))"
  shows "err \<noteq> RO_Panicked"
  using assms
proof (induction pubs arbitrary: obs)
  case (Cons p ps)
  then obtain e where e: "bm_get (outbox rec) p = Some e" by auto
  have "observe_publication ev rec obs p \<noteq> (Err RO_Panicked :: (_, ('cu, 'pd, 'te, 'se, 'ce) resume_error) result)"
    using e by (simp add: observe_publication_panic)
  with Cons.prems Cons.IH show ?case by (auto split: result.splits)
qed simp

text \<open>How the stale set can end: on success what was observed is retired and the rest is unresolved.\<close>

lemma reconcile_stale_cases:
  fixes res :: "(PublicationId btree_set \<times> PublicationId btree_set, ('cu, 'pd, 'te, 'se, 'ce) resume_error) result"
  assumes "reconcile_stale persist cursors evidence out stale rec st = (res, rec', st')"
    and "bs_set stale \<subseteq> dom (bm_get (outbox rec))"
  obtains (failed) e where "res = Err e" and "rec' = rec" and "e \<noteq> RO_Panicked"
  | (nothing) "res = Ok (bm_empty, stale)" and "rec' = rec" and "st' = st"
  | (retired) head n observed sealed seen unresolved c where "out = CatchUp_Applied head n observed sealed"
      and "res = Ok (seen, unresolved)"
      and "bs_set seen = {p \<in> bs_set stale. \<exists>e. bm_get (outbox rec) p = Some e \<and> evidence observed p e = Ok True}"
      and "bs_set seen \<noteq> {}" and "bs_set unresolved = bs_set stale - bs_set seen"
      and "bm_get (outbox rec') = (\<lambda>k. if k \<in> bs_set seen then None else bm_get (outbox rec) k)"
      and "trusted_state rec' = trusted_state rec" and "cc_encode cursors head = Ok c" and "applied_cursor rec' = Some c"
      and "persist st rec' = (Ok (), st')"
proof (cases "bs_set stale = {} \<or> (\<nexists>head n observed sealed. out = CatchUp_Applied head n observed sealed)")
  case True
  have "res = Ok (bm_empty, stale)" "rec' = rec" "st' = st"
    using assms(1) True by (auto simp: reconcile_stale_def bs_is_empty_iff simp del: bm_is_empty_iff
        split: if_splits catch_up_outcome.splits)
  then show ?thesis by (rule nothing)
next
  case False
  then obtain head n observed sealed where out: "out = CatchUp_Applied head n observed sealed" and ne: "bs_set stale \<noteq> {}"
    by auto
  show ?thesis
  proof (cases "try_fold (observe_publication (evidence observed) rec) bm_empty (bs_iter stale) ::
      (_, ('cu, 'pd, 'te, 'se, 'ce) resume_error) result")
    case (Err e)
    with observe_publications_Err [OF Err] assms ne failed [of e] show ?thesis
      by (auto simp: reconcile_stale_def out bs_is_empty_iff simp del: bm_is_empty_iff)
  next
    case (Ok seen)
    note seen = observe_publications_Ok [OF Ok, unfolded bs_set_empty set_bs_iter Un_empty_left]
    show ?thesis
    proof (cases "bs_set seen = {}")
      case True
      then have "seen = bm_empty" by (simp add: bs_eq_iff)
      with Ok assms(1) ne have "res = Ok (bm_empty, stale)" "rec' = rec" "st' = st"
        by (auto simp: reconcile_stale_def out bs_is_empty_iff simp del: bm_is_empty_iff)
      then show ?thesis by (rule nothing)
    next
      case False
      obtain r rec1 st1 where c: "commit_reconciled_outbox_batch persist cursors rec st (bs_iter seen) (trusted_state rec) head =
          (r, rec1, st1)" by (metis prod_cases3)
      have run: "(res, rec', st') = (case r of Err e \<Rightarrow> (Err (RO_Reconcile e), rec1, st1)
          | Ok _ \<Rightarrow> (Ok (seen, bs_from_list (filter (\<lambda>pub. \<not> bs_contains seen pub) (bs_iter stale))), rec1, st1))"
        using assms(1) ne False Ok c
        by (cases r) (auto simp: reconcile_stale_def out bs_is_empty_iff simp del: bm_is_empty_iff)
      from c show ?thesis
      proof (cases rule: commit_reconciled_batch_cases)
        case (accepted cur)
        with run seen False show ?thesis by (intro retired [OF out]) auto
      next
        case (refused e)
        with run failed [of "RO_Reconcile e"] show ?thesis by simp
      qed
    qed
  qed
qed

text \<open>The whole current set is offered against its common cursor.\<close>

lemma publish_batch_current:
  fixes tr :: "('t, 'r, 'te) OpaqueTransport" and cursors :: "('r, 'ce) TransportCursorCodec"
  assumes "bs_set current \<noteq> {}" and "bs_set current \<subseteq> dom (bm_get (outbox rec))"
    and "\<forall>p \<in> bs_set current. oe_expected_cursor (the (bm_get (outbox rec) p)) = c"
  defines "objs \<equiv> concat (map (\<lambda>p. oe_objects (the (bm_get (outbox rec) p))) (bs_iter current))"
  shows "publish_staged_batch tr cursors rec (bs_iter current) t =
    (case decode_cursor cursors c of Err e \<Rightarrow> (Err (Batch_Cursor e), t)
     | Ok expected \<Rightarrow> (case tr_publish tr t expected objs of (r, t') \<Rightarrow> (map_err Batch_Transport r, t')))"
proof -
  have fold: "try_fold (select_publication rec) (None, []) (bs_iter current) =
      (Ok (Some c, objs) :: (_, ('te, 'ce) BatchPublishError) result)"
    using assms(1-3) unfolding objs_def by (subst select_all_Ok [where c = c]) auto
  show ?thesis using assms(1) by (simp add: publish_staged_batch_def fold bs_is_empty_iff del: bm_is_empty_iff)
qed

text \<open>How publication of the current set can end.\<close>

lemma publish_current_cases:
  fixes res :: "('r ScalarBatchResumeAction, ('cu, 'pd, 'te, 'se, 'ce) resume_error) result"
  assumes "publish_current persist cursors tr current rec st t = (res, rec', st', t')"
    and "bs_set current \<noteq> {}" and "bs_set current \<subseteq> dom (bm_get (outbox rec))"
    and "\<forall>p \<in> bs_set current. oe_expected_cursor (the (bm_get (outbox rec) p)) = c"
  defines "objs \<equiv> concat (map (\<lambda>p. oe_objects (the (bm_get (outbox rec) p))) (bs_iter current))"
  obtains (undecodable) e where "decode_cursor cursors c = Err e" and "res = Err (RO_Publish (Batch_Cursor e))"
      and "rec' = rec" and "st' = st" and "t' = t"
  | (unacknowledged) expected r where "decode_cursor cursors c = Ok expected" and "tr_publish tr t expected objs = (r, t')"
      and "rec' = rec" and "st' = st" and "\<nexists>head. r = Ok (Published head)"
      and "(\<exists>e. res = Err (RO_Publish e)) \<or> (\<exists>h. res = Ok (Action_Conflict current h))"
  | (unrecorded) expected head e where "decode_cursor cursors c = Ok expected"
      and "tr_publish tr t expected objs = (Ok (Published head), t')" and "res = Err (RO_Reconcile e)" and "rec' = rec"
  | (published) expected head cur where "decode_cursor cursors c = Ok expected"
      and "tr_publish tr t expected objs = (Ok (Published head), t')" and "res = Ok (Action_PublishedAndReconciled current head)"
      and "bm_get (outbox rec') = (\<lambda>k. if k \<in> bs_set current then None else bm_get (outbox rec) k)"
      and "trusted_state rec' = trusted_state rec" and "cc_encode cursors head = Ok cur" and "applied_cursor rec' = Some cur"
      and "persist st rec' = (Ok (), st')"
proof -
  note batch = publish_batch_current [OF assms(2-4), of tr cursors t, folded objs_def]
  show ?thesis
  proof (cases "decode_cursor cursors c")
    case (Err e)
    with assms(1) batch undecodable show ?thesis by (simp add: publish_current_def)
  next
    case (Ok expected)
    obtain r t1 where p: "tr_publish tr t expected objs = (r, t1)" by fastforce
    show ?thesis
    proof (cases "\<exists>head. r = Ok (Published head)")
      case True
      then obtain head where r: "r = Ok (Published head)" by blast
      obtain rr rec1 st1 where c: "commit_reconciled_outbox_batch persist cursors rec st (bs_iter current) (trusted_state rec) head =
          (rr, rec1, st1)" by (metis prod_cases3)
      have run: "(res, rec', st', t') = (case rr of Err e \<Rightarrow> (Err (RO_Reconcile e), rec1, st1, t1)
          | Ok _ \<Rightarrow> (Ok (Action_PublishedAndReconciled current head), rec1, st1, t1))"
        using assms(1) Ok p r c by (cases rr) (auto simp: publish_current_def batch)
      from c show ?thesis
      proof (cases rule: commit_reconciled_batch_cases)
        case (accepted cur)
        with run p r show ?thesis by (intro published [OF Ok]) auto
      next
        case (refused e)
        with run p r unrecorded [OF Ok, of head e] show ?thesis by simp
      qed
    next
      case False
      with assms(1) Ok p show ?thesis
        by (intro unacknowledged [OF Ok, of r])
          (auto simp: publish_current_def batch split: result.splits PublishOutcome.splits)
    qed
  qed
qed

section \<open>What settling does to the outbox\<close>

text \<open>A pending publication whose arrival this catch-up proves.\<close>

definition arrived ::
    "('o \<Rightarrow> PublicationId \<Rightarrow> DurableOutboxEntry \<Rightarrow> (bool, 'pd) result) \<Rightarrow> ('r, 'o, 's) catch_up_outcome \<Rightarrow>
     DurableSyncRecord \<Rightarrow> PublicationId \<Rightarrow> bool" where
  "arrived evidence out rec pub \<longleftrightarrow>
     (case out of
        CatchUp_Applied _ _ observed _ \<Rightarrow> (\<exists>e. bm_get (outbox rec) pub = Some e \<and> evidence observed pub e = Ok True)
      | _ \<Rightarrow> False)"

text \<open>The pending publications that target the durable cursor.\<close>

definition current_pubs :: "DurableSyncRecord \<Rightarrow> PublicationId set" where
  "current_pubs rec = {p \<in> dom (bm_get (outbox rec)). oe_expected_cursor (the (bm_get (outbox rec) p)) = applied_cursor rec}"

definition offered_objects :: "DurableSyncRecord \<Rightarrow> bytes list" where
  "offered_objects rec = concat (map (\<lambda>p. oe_objects (the (bm_get (outbox rec) p))) (sorted_list_of_set (current_pubs rec)))"

definition retires :: "DurableSyncRecord \<Rightarrow> PublicationId set \<Rightarrow> DurableSyncRecord \<Rightarrow> bool" where
  "retires rec pubs rec' \<longleftrightarrow> trusted_state rec' = trusted_state rec \<and>
     bm_get (outbox rec') = (\<lambda>k. if k \<in> pubs then None else bm_get (outbox rec) k)"

lemma retires_none [simp]: "retires rec {} rec"
  by (simp add: retires_def)

lemma retires_trans: "retires rec a rec1 \<Longrightarrow> retires rec1 b rec2 \<Longrightarrow> retires rec (a \<union> b) rec2"
  by (auto simp: retires_def fun_eq_iff)

lemma reconcile_stale_retires:
  fixes rs :: "(PublicationId btree_set \<times> PublicationId btree_set, ('cu, 'pd, 'te, 'se, 'ce) resume_error) result"
  assumes "reconcile_stale persist cursors evidence out stale rec st = (rs, rec1, st1)"
    and "bs_set stale \<subseteq> dom (bm_get (outbox rec))"
    and "\<forall>head. moved_head out = Some head \<longrightarrow> (\<exists>c. cc_encode cursors head = Ok c \<and> applied_cursor rec = Some c)"
  shows "(\<exists>e. rs = Err e \<and> rec1 = rec \<and> e \<noteq> RO_Panicked) \<or>
    (\<exists>seen unresolved. rs = Ok (seen, unresolved) \<and> retires rec (bs_set seen) rec1 \<and> applied_cursor rec1 = applied_cursor rec \<and>
      (\<forall>p \<in> bs_set seen. arrived evidence out rec p) \<and> bs_set seen \<subseteq> bs_set stale \<and> bs_set unresolved = bs_set stale - bs_set seen)"
  using assms(1,2)
proof (cases rule: reconcile_stale_cases)
  case (retired head n observed sealed seen unresolved c)
  have "applied_cursor rec1 = applied_cursor rec" using assms(3) retired(1,8,9) by auto
  with retired show ?thesis by (auto simp: retires_def arrived_def)
qed auto

text \<open>Reconciling the stale set leaves the current one as it is.\<close>

lemma offered_unchanged:
  assumes "retires rec seen rec1" and "seen \<inter> current_pubs rec = {}" and "bs_set current = current_pubs rec"
  shows "concat (map (\<lambda>p. oe_objects (the (bm_get (outbox rec1) p))) (bs_iter current)) = offered_objects rec"
    and "bs_set current \<subseteq> dom (bm_get (outbox rec1))"
    and "\<forall>p \<in> bs_set current. oe_expected_cursor (the (bm_get (outbox rec1) p)) = applied_cursor rec"
proof -
  have kept: "bm_get (outbox rec1) p = bm_get (outbox rec) p" if "p \<in> bs_set current" for p
    using that assms by (auto simp: retires_def)
  have "bs_iter current = sorted_list_of_set (current_pubs rec)"
    by (rule sorted_distinct_set_unique) (simp_all add: assms(3) [symmetric])
  moreover have "finite (current_pubs rec)" using finite_bs_set [of current] by (simp add: assms(3))
  ultimately show "concat (map (\<lambda>p. oe_objects (the (bm_get (outbox rec1) p))) (bs_iter current)) = offered_objects rec"
    unfolding offered_objects_def using kept assms(3) by (intro arg_cong [of _ _ concat] map_cong) auto
  show "bs_set current \<subseteq> dom (bm_get (outbox rec1))"
    "\<forall>p \<in> bs_set current. oe_expected_cursor (the (bm_get (outbox rec1) p)) = applied_cursor rec"
    using kept assms(3) by (auto simp: current_pubs_def dom_def)
qed

text \<open>A settlement that has something to do: classification, the stale set, the current set.\<close>

lemma settle_run:
  fixes res :: "(PublicationId btree_set \<times> 'r ScalarBatchResumeAction, ('cu, 'pd, 'te, 'se, 'ce) resume_error) result"
  assumes "settle_outbox_set persist cursors tr evidence initial out rec st t = (res, rec', st', t')"
    and "bs_set initial = dom (bm_get (outbox rec))"
    and "\<not> (is_baseline_unavailable out \<or> bs_set initial = {})"
  obtains current stale rs rec1 st1 where "bs_set current = current_pubs rec"
    and "bs_set stale = dom (bm_get (outbox rec)) - current_pubs rec"
    and "reconcile_stale persist cursors evidence out stale rec st = (rs :: (_, ('cu, 'pd, 'te, 'se, 'ce) resume_error) result, rec1, st1)"
    and "(res, rec', st', t') = (case rs of Err e \<Rightarrow> (Err e, rec1, st1, t)
      | Ok (seen, unresolved) \<Rightarrow>
          if bs_set unresolved \<noteq> {} then (Ok (seen, Action_NeedsRebase unresolved), rec1, st1, t)
          else if bs_set current = {} then (Ok (seen, Action_None), rec1, st1, t)
          else (case publish_current persist cursors tr current rec1 st1 t of
                  (Err e, rec2, store2, t2) \<Rightarrow> (Err e, rec2, store2, t2)
                | (Ok action, rec2, store2, t2) \<Rightarrow> (Ok (seen, action), rec2, store2, t2)))"
proof -
  obtain current stale where split: "try_fold (classify_publication rec (applied_cursor rec)) (bm_empty, bm_empty) (bs_iter initial) =
      (Ok (current, stale) :: (_, ('cu, 'pd, 'te, 'se, 'ce) resume_error) result)"
    and cur: "bs_set current = current_pubs rec"
    and others: "bs_set stale = {p \<in> dom (bm_get (outbox rec)). oe_expected_cursor (the (bm_get (outbox rec) p)) \<noteq> applied_cursor rec}"
    using classify_all [of "bs_iter initial" rec "applied_cursor rec" bm_empty bm_empty, where ?'cu = 'cu and ?'pd = 'pd and ?'te = 'te
        and ?'se = 'se and ?'ce = 'ce] assms(2)
    by (auto simp: current_pubs_def)
  have stale: "bs_set stale = dom (bm_get (outbox rec)) - current_pubs rec" using others by (auto simp: current_pubs_def)
  obtain rs rec1 st1 where rstale: "reconcile_stale persist cursors evidence out stale rec st =
      (rs :: (_, ('cu, 'pd, 'te, 'se, 'ce) resume_error) result, rec1, st1)" by (metis prod_cases3)
  show ?thesis
  proof (rule that [OF cur stale rstale])
    show "(res, rec', st', t') = (case rs of Err e \<Rightarrow> (Err e, rec1, st1, t)
      | Ok (seen, unresolved) \<Rightarrow>
          if bs_set unresolved \<noteq> {} then (Ok (seen, Action_NeedsRebase unresolved), rec1, st1, t)
          else if bs_set current = {} then (Ok (seen, Action_None), rec1, st1, t)
          else (case publish_current persist cursors tr current rec1 st1 t of
                  (Err e, rec2, store2, t2) \<Rightarrow> (Err e, rec2, store2, t2)
                | (Ok action, rec2, store2, t2) \<Rightarrow> (Ok (seen, action), rec2, store2, t2)))"
      unfolding assms(1) [symmetric] settle_outbox_set_def split rstale prod.case result.case bs_is_empty_iff
      using assms(3) by (cases rs) simp_all
  qed
qed

text \<open>What a pass does after its catch-up: it retires what has arrived and stops, or, when nothing
  stale is left unproven, offers the whole current set once, and retires it only if acknowledged.\<close>

lemma settle_cases:
  fixes res :: "(PublicationId btree_set \<times> 'r ScalarBatchResumeAction, ('cu, 'pd, 'te, 'se, 'ce) resume_error) result"
  assumes "settle_outbox_set persist cursors tr evidence initial out rec st t = (res, rec', st', t')"
    and "bs_set initial = dom (bm_get (outbox rec))"
    and "\<forall>head. moved_head out = Some head \<longrightarrow> (\<exists>c. cc_encode cursors head = Ok c \<and> applied_cursor rec = Some c)"
  obtains (stopped) seen where "t' = t" and "retires rec seen rec'" and "\<And>p. p \<in> seen \<Longrightarrow> arrived evidence out rec p"
      and "res \<noteq> Err RO_Panicked" and "\<nexists>seen current h. res = Ok (seen, Action_Conflict current h)"
  | (offered) seen taken expected r where "retires rec (seen \<union> taken) rec'"
      and "seen = dom (bm_get (outbox rec)) - current_pubs rec"
      and "\<And>p. p \<in> seen \<Longrightarrow> arrived evidence out rec p"
      and "decode_cursor cursors (applied_cursor rec) = Ok expected"
      and "tr_publish tr t expected (offered_objects rec) = (r, t')"
      and "taken = {} \<or> taken = current_pubs rec \<and> (\<exists>head. r = Ok (Published head))"
      and "res \<noteq> Err RO_Panicked"
proof (cases "is_baseline_unavailable out \<or> bs_set initial = {}")
  case True
  with assms(1) have "t' = t" "rec' = rec" "res \<noteq> Err RO_Panicked" "\<nexists>seen current h. res = Ok (seen, Action_Conflict current h)"
    by (auto simp: settle_outbox_set_def bs_is_empty_iff simp del: bm_is_empty_iff split: if_splits)
  then show ?thesis using stopped [of "{}"] by simp
next
  case False
  from assms(1,2) False obtain current stale rs rec1 st1 where cur: "bs_set current = current_pubs rec"
    and stale: "bs_set stale = dom (bm_get (outbox rec)) - current_pubs rec"
    and rstale: "reconcile_stale persist cursors evidence out stale rec st = (rs :: (_, ('cu, 'pd, 'te, 'se, 'ce) resume_error) result, rec1, st1)"
    and run: "(res, rec', st', t') = (case rs of Err e \<Rightarrow> (Err e, rec1, st1, t)
      | Ok (seen, unresolved) \<Rightarrow>
          if bs_set unresolved \<noteq> {} then (Ok (seen, Action_NeedsRebase unresolved), rec1, st1, t)
          else if bs_set current = {} then (Ok (seen, Action_None), rec1, st1, t)
          else (case publish_current persist cursors tr current rec1 st1 t of
                  (Err e, rec2, store2, t2) \<Rightarrow> (Err e, rec2, store2, t2)
                | (Ok action, rec2, store2, t2) \<Rightarrow> (Ok (seen, action), rec2, store2, t2)))"
    by (rule settle_run)
  have dom: "bs_set stale \<subseteq> dom (bm_get (outbox rec))" using stale by blast
  from reconcile_stale_retires [OF rstale dom assms(3)] show ?thesis
  proof (elim disjE exE conjE)
    fix e assume "rs = Err e" "rec1 = rec" "e \<noteq> RO_Panicked"
    with run stopped [of "{}"] show ?thesis by simp
  next
    fix seen unresolved
    assume rs: "rs = Ok (seen, unresolved)" and ret: "retires rec (bs_set seen) rec1" and cursor: "applied_cursor rec1 = applied_cursor rec"
      and arr: "\<forall>p \<in> bs_set seen. arrived evidence out rec p" and sub: "bs_set seen \<subseteq> bs_set stale"
      and unr: "bs_set unresolved = bs_set stale - bs_set seen"
    show ?thesis
    proof (cases "bs_set unresolved \<noteq> {} \<or> bs_set current = {}")
      case True
      with run rs stopped [of "bs_set seen"] ret arr show ?thesis by (auto split: if_splits)
    next
      case False
      then have seen: "bs_set seen = dom (bm_get (outbox rec)) - current_pubs rec" using unr sub stale by auto
      have "bs_set seen \<inter> current_pubs rec = {}" using seen by blast
      note objs = offered_unchanged(1) [OF ret this cur] and in_dom = offered_unchanged(2) [OF ret this cur]
        and exp = offered_unchanged(3) [OF ret this cur]
      obtain pr rec2 st2 t2 where pub: "publish_current persist cursors tr current rec1 st1 t =
          (pr :: (_, ('cu, 'pd, 'te, 'se, 'ce) resume_error) result, rec2, st2, t2)" by (metis prod_cases4)
      have out: "res = (case pr of Err e \<Rightarrow> Err e | Ok action \<Rightarrow> Ok (seen, action))" "rec' = rec2" "st' = st2" "t' = t2"
        using run rs False pub by (auto split: result.splits)
      have arr': "arrived evidence out rec p" if "p \<in> dom (bm_get (outbox rec)) - current_pubs rec" for p
        using arr seen that by blast
      note offered' = offered [OF _ refl arr', folded seen]
      have ne: "bs_set current \<noteq> {}" using False by blast
      show ?thesis
        using pub ne in_dom exp
      proof (cases rule: publish_current_cases)
        case (undecodable e)
        with out ret arr stopped [of "bs_set seen"] show ?thesis by simp
      next
        case (unacknowledged expected r)
        with offered' [of "{}" expected r] out ret show ?thesis by (auto simp: objs)
      next
        case (unrecorded expected head e)
        with offered' [of "{}" expected "Ok (Published head)"] out ret show ?thesis by (simp add: objs)
      next
        case (published expected head c)
        have "retires rec1 (current_pubs rec) rec2" using published(4,5) by (simp add: retires_def cur)
        from retires_trans [OF ret this] published offered' [of "current_pubs rec" expected "Ok (Published head)"] out
        show ?thesis by (simp add: objs)
      qed
    qed
  qed
qed

section \<open>Transport calls of a pass\<close>

text \<open>A round of calls: at most one fetch, and at most one publication after it.\<close>

fun round_of_calls :: "'r gate_event list \<Rightarrow> bool" where
  "round_of_calls [] = True"
| "round_of_calls [FetchSince _] = True"
| "round_of_calls [FetchSince _, Publish _ _] = True"
| "round_of_calls _ = False"

abbreviation calls_lead :: "('t, 'r, 'te) OpaqueTransport \<Rightarrow> 't \<Rightarrow> 'r gate_event list \<Rightarrow> 't \<Rightarrow> bool" where
  "calls_lead tr t calls t' \<equiv> t' = foldl (\<lambda>t e. apply_call tr e t) t calls"

lemma fetch_calls:
  "snd (fetch_from_durable_cursor tr cursors rec t) = t \<and> (\<nexists>f. fst (fetch_from_durable_cursor tr cursors rec t) = Ok f) \<or>
   (\<exists>known. calls_lead tr t [FetchSince known] (snd (fetch_from_durable_cursor tr cursors rec t)))"
proof (cases "decode_cursor cursors (applied_cursor rec)")
  case (Ok known)
  then show ?thesis by (intro disjI2 exI [of _ known]) (simp add: fetch_from_durable_cursor_def split: prod.split)
qed (simp add: fetch_from_durable_cursor_def)

lemma fetch_round: "\<exists>calls. calls_lead tr t calls (snd (fetch_from_durable_cursor tr cursors rec t)) \<and> round_of_calls calls"
  using fetch_calls [of tr cursors rec t] by (metis foldl_Nil round_of_calls.simps(1,2))

lemma publish_after_fetch:
  assumes "fetch_from_durable_cursor tr cursors rec t = (Ok f, t1)" and "t' = snd (tr_publish tr t1 expected objs)"
  shows "\<exists>calls. calls_lead tr t calls t' \<and> round_of_calls calls"
proof -
  obtain known where "calls_lead tr t [FetchSince known] t1" using fetch_calls [of tr cursors rec t] assms(1) by auto
  with assms(2) show ?thesis by (intro exI [of _ "[FetchSince known, Publish expected objs]"]) simp
qed

text \<open>At most two rounds, the second only after a pass that ended in a conflict.\<close>

definition within_two_rounds ::
    "('t, 'r, 'te) OpaqueTransport \<Rightarrow> ('rep \<Rightarrow> bool) \<Rightarrow> ('rep, 'e) result \<times> 'x \<times> DurableSyncRecord \<times> 'st \<times> 't \<Rightarrow> 't \<Rightarrow> 't \<Rightarrow> bool" where
  "within_two_rounds tr conflict first_pass t t' \<longleftrightarrow>
     (\<exists>first second. calls_lead tr t (first @ second) t' \<and> round_of_calls first \<and> round_of_calls second \<and>
        (second = [] \<or> (\<exists>initial x1 rec1 st1. conflict initial \<and>
           first_pass = (Ok initial, x1, rec1, st1, foldl (\<lambda>t e. apply_call tr e t) t first))))"

lemma bounded_cycle_calls:
  assumes "\<And>x rec st t res x' rec' st' t'. pass x rec st t = (res, x', rec', st', t') \<Longrightarrow>
      \<exists>calls. calls_lead tr t calls t' \<and> round_of_calls calls"
    and "bounded_cycle conflict pass x rec st t = (res, x', rec', st', t')"
  shows "within_two_rounds tr conflict (pass x rec st t) t t'"
proof -
  obtain r x1 rec1 st1 t1 where p: "pass x rec st t = (r, x1, rec1, st1, t1)" by (metis prod_cases5)
  obtain first where f: "calls_lead tr t first t1" "round_of_calls first" using assms(1) [OF p] by blast
  show ?thesis
  proof (cases "\<exists>initial. r = Ok initial \<and> conflict initial")
    case True
    then obtain initial where r: "r = Ok initial" "conflict initial" by blast
    obtain r2 x2 rec2 st2 t2 where p2: "pass x1 rec1 st1 t1 = (r2, x2, rec2, st2, t2)" by (metis prod_cases5)
    obtain second where s: "calls_lead tr t1 second t2" "round_of_calls second" using assms(1) [OF p2] by blast
    have "t' = t2" using assms(2) p p2 r by (cases r2) (auto simp: bounded_cycle_def)
    with f s p r show ?thesis unfolding within_two_rounds_def by (intro exI [of _ first] exI [of _ second]) simp
  next
    case False
    then have "t' = t1" using assms(2) p by (cases r) (auto simp: bounded_cycle_def)
    with f show ?thesis unfolding within_two_rounds_def by (intro exI [of _ first] exI [of _ "[]"]) simp
  qed
qed

section \<open>The contract of a set-based pass\<close>

context catch_up_pass
begin

lemma resume_pass_cases:
  fixes res :: "(('r, ('r, 'o, 's) catch_up_outcome) resume_report, ('cu, 'pd, 'te, 'se, 'ce) resume_error) result"
  assumes "resume_outbox_pass persist cursors tr evidence catch_up x rec st t = (res, x', rec', st', t')"
  obtains (failed) e where "res = Err (RO_CatchUp e)" and "x' = x" and "rec' = rec"
      and "t' = snd (fetch_from_durable_cursor tr cursors rec t)"
  | (settled) out rec1 st1 r t1 where "catch_up x rec st t = (Ok out, x', rec1, st1, t1)" and "outbox rec1 = outbox rec"
      and "settle_outbox_set persist cursors tr evidence (bs_from_list (bm_keys (outbox rec))) out rec1 st1 t1 =
        (r :: (_, ('cu, 'pd, 'te, 'se, 'ce) resume_error) result, rec', st', t')"
      and "\<forall>head. moved_head out = Some head \<longrightarrow> (\<exists>c. cc_encode cursors head = Ok c \<and> applied_cursor rec1 = Some c)"
      and "res = (case r of Err e \<Rightarrow> Err e
        | Ok (seen, action) \<Rightarrow> Ok \<lparr>rep_catch_up = out, rep_observed_reconciled = seen, rep_action = action\<rparr>)"
proof -
  obtain cr x1 rec1 st1 t1 where c: "catch_up x rec st t = (cr, x1, rec1, st1, t1)" by (metis prod_cases5)
  show ?thesis
  proof (cases cr)
    case (Err e)
    with assms c pass_failed [of x rec st t e] pass_fetches [OF c] failed [of e] show ?thesis
      by (simp add: resume_outbox_pass_def)
  next
    case (Ok out)
    obtain r rec2 st2 t2 where s: "settle_outbox_set persist cursors tr evidence (bs_from_list (bm_keys (outbox rec))) out rec1 st1 t1 =
        (r :: (_, ('cu, 'pd, 'te, 'se, 'ce) resume_error) result, rec2, st2, t2)" by (metis prod_cases4)
    have "(res, x', rec', st', t') = (case r of Err e \<Rightarrow> (Err e, x1, rec2, st2, t2)
        | Ok (seen, action) \<Rightarrow> (Ok \<lparr>rep_catch_up = out, rep_observed_reconciled = seen, rep_action = action\<rparr>, x1, rec2, st2, t2))"
      unfolding assms [symmetric] resume_outbox_pass_def Let_def c Ok prod.case result.case s by (cases r) simp_all
    then have e: "res = (case r of Err e \<Rightarrow> Err e
        | Ok (seen, action) \<Rightarrow> Ok \<lparr>rep_catch_up = out, rep_observed_reconciled = seen, rep_action = action\<rparr>)"
      "x1 = x'" "rec2 = rec'" "st2 = st'" "t2 = t'"
      by (auto split: result.splits)
    have "\<forall>head. moved_head out = Some head \<longrightarrow> (\<exists>c. cc_encode cursors head = Ok c \<and> applied_cursor rec1 = Some c)"
      using pass_moved [OF c [unfolded Ok]] by (simp add: cursor_advanced_def)
    then show ?thesis
      using c [unfolded Ok e] pass_keeps_outbox [OF c] s [unfolded e] e(1)
      by (intro settled)
  qed
qed

text \<open>Live state and record stay paired whatever happens, nothing is added to the outbox, and a
  publication leaves it only on evidence of arrival or on an acknowledgement of its own bytes.\<close>

lemma resume_pass_safe:
  assumes "resume_outbox_pass persist cursors tr evidence catch_up x rec st t = (res, x', rec', st', t')"
    and "live x" and "paired x (trusted_state rec)" and "length (trusted_state rec') \<le> isize_max"
  shows "live x' \<and> paired x' (trusted_state rec') \<and> res \<noteq> Err RO_Panicked \<and> bm_get (outbox rec') \<subseteq>\<^sub>m bm_get (outbox rec) \<and>
    (\<forall>p \<in> dom (bm_get (outbox rec)) - dom (bm_get (outbox rec')). \<exists>out rec1 st1 t1.
       catch_up x rec st t = (Ok out, x', rec1, st1, t1) \<and>
       (arrived evidence out rec p \<or>
        p \<in> current_pubs rec1 \<and> (\<exists>expected head. decode_cursor cursors (applied_cursor rec1) = Ok expected \<and>
          tr_publish tr t1 expected (offered_objects rec1) = (Ok (Published head), t'))))"
  using assms(1)
proof (cases rule: resume_pass_cases)
  case (failed e)
  with assms show ?thesis by simp
next
  case (settled out rec1 st1 r t1)
  have init: "bs_set (bs_from_list (bm_keys (outbox rec))) = dom (bm_get (outbox rec1))" using settled(2) by simp
  have arr: "arrived evidence out rec1 p = arrived evidence out rec p" for p
    unfolding arrived_def settled(2) ..
  have step: "\<exists>pubs. retires rec1 pubs rec' \<and> res \<noteq> Err RO_Panicked \<and>
      (\<forall>p \<in> pubs. arrived evidence out rec p \<or> p \<in> current_pubs rec1 \<and>
        (\<exists>expected head. decode_cursor cursors (applied_cursor rec1) = Ok expected \<and>
          tr_publish tr t1 expected (offered_objects rec1) = (Ok (Published head), t')))"
    using settled(3) init settled(4)
  proof (cases rule: settle_cases)
    case (stopped seen)
    with arr settled(5) show ?thesis by (intro exI [of _ seen]) (auto split: result.splits)
  next
    case (offered seen taken expected pr)
    with arr settled(5) show ?thesis by (intro exI [of _ "seen \<union> taken"]) (auto split: result.splits)
  qed
  then obtain pubs where pubs: "retires rec1 pubs rec'" "res \<noteq> Err RO_Panicked"
    "\<And>p. p \<in> pubs \<Longrightarrow> arrived evidence out rec p \<or> p \<in> current_pubs rec1 \<and>
        (\<exists>expected head. decode_cursor cursors (applied_cursor rec1) = Ok expected \<and>
          tr_publish tr t1 expected (offered_objects rec1) = (Ok (Published head), t'))" by blast
  have "live x' \<and> paired x' (trusted_state rec')"
    using pass_keeps_paired [OF settled(1) assms(2,3)] assms(4) pubs(1) by (simp add: retires_def)
  moreover have "p \<in> pubs" if "p \<in> dom (bm_get (outbox rec)) - dom (bm_get (outbox rec'))" for p
    using that pubs(1) settled(2) by (auto simp: retires_def split: if_splits)
  moreover have "bm_get (outbox rec') \<subseteq>\<^sub>m bm_get (outbox rec)"
    using pubs(1) settled(2) by (auto simp: retires_def map_le_def)
  ultimately show ?thesis using pubs(2,3) settled(1) by blast
qed

lemma resume_pass_calls:
  assumes "resume_outbox_pass persist cursors tr evidence catch_up x rec st t = (res, x', rec', st', t')"
  shows "\<exists>calls. calls_lead tr t calls t' \<and> round_of_calls calls"
  using assms
proof (cases rule: resume_pass_cases)
  case (failed e)
  then show ?thesis using fetch_round [of tr cursors rec t] by simp
next
  case (settled out rec1 st1 r t1)
  have init: "bs_set (bs_from_list (bm_keys (outbox rec))) = dom (bm_get (outbox rec1))" using settled(2) by simp
  note t1 = pass_fetches [OF settled(1)]
  show ?thesis
    using settled(3) init settled(4)
  proof (cases rule: settle_cases)
    case (stopped seen)
    then show ?thesis using fetch_round [of tr cursors rec t] t1 by simp
  next
    case (offered seen taken expected pr)
    obtain f where "fetch_from_durable_cursor tr cursors rec t = (Ok f, t1)"
      using pass_fetched [OF settled(1)] by blast
    then show ?thesis by (rule publish_after_fetch [where expected = expected and objs = "offered_objects rec1"]) (simp add: offered(5))
  qed
qed

end

section \<open>The pass for one publication\<close>

text \<open>How the single-publication step can end: quietly, retired on evidence of arrival, or offered.\<close>

lemma resume_publication_cases:
  fixes res :: "('r ScalarResumeOutboxOutcome, ('te, 'tse, 'se, 'ce) ScalarResumeError) result"
  assumes "resume_publication cipher persist cursors tr spec pending out rec st t = (res, rec', st', t')"
    and "\<forall>pub. pending = Some pub \<longrightarrow> pub \<in> dom (bm_get (outbox rec))"
  obtains (quiet) "t' = t" and "rec' = rec" and "res \<noteq> Err Resume_Panicked"
  | (retired) pub where "t' = t" and "pending = Some pub" and "arrived (scalar_evidence cipher spec) out rec pub"
      and "retires rec {pub} rec'" and "res \<noteq> Err Resume_Panicked"
  | (offered) pub entry expected r where "pending = Some pub" and "bm_get (outbox rec) pub = Some entry"
      and "oe_expected_cursor entry = applied_cursor rec" and "decode_cursor cursors (applied_cursor rec) = Ok expected"
      and "tr_publish tr t expected (oe_objects entry) = (r, t')" and "res \<noteq> Err Resume_Panicked"
      and "rec' = rec \<or> retires rec {pub} rec' \<and> (\<exists>head. r = Ok (Published head))"
proof (cases "is_baseline_unavailable out \<or> pending = None")
  case True
  with assms(1) quiet show ?thesis by (auto simp: resume_publication_def split: if_splits)
next
  case False
  then obtain pub where pub: "pending = Some pub" by auto
  with assms(2) obtain entry where entry: "bm_get (outbox rec) pub = Some entry" by auto
  show ?thesis
  proof (cases "oe_expected_cursor entry = applied_cursor rec")
    case current: True
    then have run: "resume_current_publication persist cursors tr pub rec st t = (res, rec', st', t')"
      using assms(1) False pub entry by (simp add: resume_publication_def)
    show ?thesis
    proof (cases "decode_cursor cursors (applied_cursor rec)")
      case (Err e)
      with run entry current quiet show ?thesis by (auto simp: resume_current_publication_def publish_staged_def)
    next
      case (Ok expected)
      obtain r t1 where p: "tr_publish tr t expected (oe_objects entry) = (r, t1)" by fastforce
      have staged: "publish_staged tr cursors rec pub t = (map_err Io_Transport r, t1)"
        using entry current Ok p by (simp add: publish_staged_def)
      have "t' = t1 \<and> res \<noteq> Err Resume_Panicked \<and> (rec' = rec \<or> retires rec {pub} rec' \<and> (\<exists>head. r = Ok (Published head)))"
      proof (cases "\<exists>head. r = Ok (Published head)")
        case True
        then obtain head where r: "r = Ok (Published head)" by blast
        obtain cr rec1 st1 where c: "commit_reconciled_outbox persist cursors rec st pub (trusted_state rec) head = (cr, rec1, st1)"
          by (metis prod_cases3)
        from c show ?thesis
          by (cases rule: commit_reconciled_cases)
            (use run staged r c in \<open>auto simp: resume_current_publication_def retires_def fun_eq_iff\<close>)
      next
        case False
        with run staged show ?thesis
          by (auto simp: resume_current_publication_def split: result.splits PublishOutcome.splits)
      qed
      with offered [OF pub entry current Ok] p show ?thesis by blast
    qed
  next
    case stale: False
    obtain sr rec1 st1 where run: "resume_stale_publication cipher persist cursors spec pub entry out rec st =
        (sr :: (_, ('te, 'tse, 'se, 'ce) ScalarResumeError) result, rec1, st1)" by (metis prod_cases3)
    have e: "sr = res" "rec1 = rec'" "st1 = st'" "t' = t"
      using assms(1) False pub entry stale run by (auto simp: resume_publication_def)
    show ?thesis
    proof (cases "\<exists>head n observed sealed obj reg. out = CatchUp_Applied head n observed sealed \<and> oe_objects entry = [obj] \<and>
        decode_single_scalar_domain_object cipher (cu_key spec) (cu_continuum_id spec) (cu_domain_key spec) obj = Ok reg \<and>
        bs_is_subset (revision_ids_of reg) observed")
      case True
      then obtain head n observed sealed obj reg where o: "out = CatchUp_Applied head n observed sealed" "oe_objects entry = [obj]"
        "decode_single_scalar_domain_object cipher (cu_key spec) (cu_continuum_id spec) (cu_domain_key spec) obj = Ok reg"
        "bs_is_subset (revision_ids_of reg) observed" by blast
      then have arr: "arrived (scalar_evidence cipher spec) out rec pub" by (simp add: arrived_def scalar_evidence_def entry)
      obtain cr rec2 st2 where c: "commit_reconciled_outbox persist cursors rec st pub (trusted_state rec) head = (cr, rec2, st2)"
        by (metis prod_cases3)
      have out: "(res, rec', st') = (case cr of Err e \<Rightarrow> (Err (Resume_Reconcile e), rec2, st2)
          | Ok _ \<Rightarrow> (Ok (Outbox_ObservedAndReconciled pub head), rec2, st2))"
        using run e o c by (cases cr) (auto simp: resume_stale_publication_def)
      from c show ?thesis
      proof (cases rule: commit_reconciled_cases)
        case (accepted cur)
        with out have "retires rec {pub} rec'" "res \<noteq> Err Resume_Panicked" by (auto simp: retires_def fun_eq_iff)
        with retired [OF e(4) pub arr] show ?thesis by blast
      next
        case (refused err)
        with out quiet e(4) show ?thesis by simp
      qed
    next
      case no: False
      have "rec' = rec \<and> res \<noteq> Err Resume_Panicked"
      proof (cases "\<exists>head n observed sealed obj. out = CatchUp_Applied head n observed sealed \<and> oe_objects entry = [obj]")
        case True
        then obtain head n observed sealed obj where o: "out = CatchUp_Applied head n observed sealed" "oe_objects entry = [obj]" by blast
        with run e no show ?thesis
          by (cases "decode_single_scalar_domain_object cipher (cu_key spec) (cu_continuum_id spec) (cu_domain_key spec) obj")
            (auto simp: resume_stale_publication_def simp del: bs_is_subset_iff)
      next
        case False
        with run e show ?thesis
          by (auto simp: resume_stale_publication_def split: catch_up_outcome.splits list.splits)
      qed
      with quiet e(4) show ?thesis by blast
    qed
  qed
qed

lemma resume_single_cases:
  fixes res :: "('r ScalarResumeReport, ('te, TrustedStateCodecError, 'se, 'ce) ScalarResumeError) result"
  assumes "resume_single_scalar_domain cipher persist scalar_trusted_state_codec cursors tr spec d rec st t = (res, d', rec', st', t')"
  obtains (refused) "1 < bm_len (outbox rec)" and "res = Err (MultiplePendingOutboxUnsupported (bm_len (outbox rec)))"
      and "d' = d" and "rec' = rec" and "st' = st" and "t' = t"
  | (failed) e where "res = Err (Resume_CatchUp e)" and "d' = d" and "rec' = rec"
      and "t' = snd (fetch_from_durable_cursor tr cursors rec t)"
  | (resumed) out rec1 st1 t1 r pending where
      "catch_up_single_scalar_domain cipher persist scalar_trusted_state_codec cursors tr spec d rec st t =
        ((Ok out :: (_, ('te, TrustedStateCodecError, 'se, 'ce) ScalarCatchUpError) result), d', rec1, st1, t1)"
      and "outbox rec1 = outbox rec"
      and "resume_publication cipher persist cursors tr spec pending out rec1 st1 t1 =
        (r :: (_, ('te, TrustedStateCodecError, 'se, 'ce) ScalarResumeError) result, rec', st', t')"
      and "\<forall>pub. pending = Some pub \<longrightarrow> pub \<in> dom (bm_get (outbox rec1))"
      and "pending = (case bm_keys (outbox rec) of [] \<Rightarrow> None | pub # _ \<Rightarrow> Some pub)"
      and "res = (case r of Err e \<Rightarrow> Err e | Ok oo \<Rightarrow> Ok \<lparr>srr_catch_up = out, srr_outbox = oo\<rparr>)"
proof (cases "1 < bm_len (outbox rec)")
  case True
  have "(res, d', rec', st', t') = (Err (MultiplePendingOutboxUnsupported (bm_len (outbox rec))), d, rec, st, t)"
    unfolding assms [symmetric] resume_single_scalar_domain_def Let_def using True by simp
  then show ?thesis using refused [OF True] by simp
next
  case False
  obtain cr d1 rec1 st1 t1 where c: "catch_up_single_scalar_domain cipher persist scalar_trusted_state_codec cursors tr spec d rec st t =
      ((cr :: (_, ('te, TrustedStateCodecError, 'se, 'ce) ScalarCatchUpError) result), d1, rec1, st1, t1)" by (metis prod_cases5)
  let ?pending = "case bm_keys (outbox rec) of [] \<Rightarrow> None | pub # _ \<Rightarrow> Some pub"
  show ?thesis
  proof (cases cr)
    case (Err e)
    have "(res, d', rec', st', t') = (Err (Resume_CatchUp e), d1, rec1, st1, t1)"
      unfolding assms [symmetric] resume_single_scalar_domain_def Let_def c Err prod.case result.case using False by simp
    with single_pass.pass_failed [OF c [unfolded Err]] single_pass.pass_fetches [OF c] failed [of e] show ?thesis by simp
  next
    case (Ok out)
    obtain r rec2 st2 t2 where p: "resume_publication cipher persist cursors tr spec ?pending out rec1 st1 t1 =
        (r :: (_, ('te, TrustedStateCodecError, 'se, 'ce) ScalarResumeError) result, rec2, st2, t2)" by (metis prod_cases4)
    have "(res, d', rec', st', t') = (case r of Err e \<Rightarrow> (Err e, d1, rec2, st2, t2)
        | Ok oo \<Rightarrow> (Ok \<lparr>srr_catch_up = out, srr_outbox = oo\<rparr>, d1, rec2, st2, t2))"
      unfolding assms [symmetric] resume_single_scalar_domain_def Let_def c Ok prod.case result.case p
      using False by (cases r) simp_all
    then have e: "res = (case r of Err e \<Rightarrow> Err e | Ok oo \<Rightarrow> Ok \<lparr>srr_catch_up = out, srr_outbox = oo\<rparr>)"
      "d1 = d'" "rec2 = rec'" "st2 = st'" "t2 = t'" by (auto split: result.splits)
    note same = single_pass.pass_keeps_outbox [OF c]
    have "\<forall>pub. ?pending = Some pub \<longrightarrow> pub \<in> dom (bm_get (outbox rec1))"
      unfolding same set_bm_keys [symmetric]
      by (cases "bm_keys (outbox rec)") (simp_all del: set_bm_keys)
    from resumed [OF c [unfolded Ok e] same p [unfolded e] this refl e(1)] show ?thesis .
  qed
qed

lemma resume_single_outcome:
  fixes res :: "('r ScalarResumeReport, ('te, TrustedStateCodecError, 'se, 'ce) ScalarResumeError) result"
  assumes "resume_single_scalar_domain cipher persist scalar_trusted_state_codec cursors tr spec d rec st t = (res, d', rec', st', t')"
  shows "res \<noteq> Err Resume_Panicked \<and> (\<exists>calls. calls_lead tr t calls t' \<and> round_of_calls calls) \<and>
    (d' = d \<and> rec' = rec \<or> (\<exists>out rec1 st1 t1. trusted_state rec' = trusted_state rec1 \<and>
      catch_up_single_scalar_domain cipher persist scalar_trusted_state_codec cursors tr spec d rec st t =
        ((Ok out :: (_, ('te, TrustedStateCodecError, 'se, 'ce) ScalarCatchUpError) result), d', rec1, st1, t1)))"
  using assms
proof (cases rule: resume_single_cases)
  case refused
  moreover have "\<exists>calls. calls_lead tr t calls t \<and> round_of_calls calls" by (intro exI [of _ "[]"]) simp
  ultimately show ?thesis by simp
next
  case (failed e)
  with fetch_round [of tr cursors rec t] show ?thesis by simp
next
  case (resumed out rec1 st1 t1 r pending)
  note fetch = single_pass.pass_fetches [OF resumed(1)]
  obtain f where f: "fetch_from_durable_cursor tr cursors rec t = (Ok f, t1)" using single_pass.pass_fetched [OF resumed(1)] by blast
  have "trusted_state rec' = trusted_state rec1 \<and> res \<noteq> Err Resume_Panicked \<and> (\<exists>calls. calls_lead tr t calls t' \<and> round_of_calls calls)"
    using resumed(3,4)
  proof (cases rule: resume_publication_cases)
    case (offered pub entry expected pr)
    have "\<exists>calls. calls_lead tr t calls t' \<and> round_of_calls calls"
      by (rule publish_after_fetch [OF f, where expected = expected and objs = "oe_objects entry"]) (simp add: offered(5))
    with offered resumed(6) show ?thesis by (auto simp: retires_def split: result.splits)
  qed (use fetch fetch_round [of tr cursors rec t] resumed(6) in \<open>auto simp: retires_def split: result.splits\<close>)
  with resumed(1) show ?thesis by blast
qed

lemma resume_single_paired:
  fixes res :: "('r ScalarResumeReport, ('te, TrustedStateCodecError, 'se, 'ce) ScalarResumeError) result"
  assumes "resume_single_scalar_domain cipher persist scalar_trusted_state_codec cursors tr spec d rec st t = (res, d', rec', st', t')"
    and "domain_wf d" and "scalar_paired d (trusted_state rec)" and "length (trusted_state rec') \<le> isize_max"
  shows "domain_wf d' \<and> scalar_paired d' (trusted_state rec')"
  using resume_single_outcome [OF assms(1)] assms(2-4)
  by (auto dest: single_pass.pass_keeps_paired)

section \<open>A fetched range contains what it was published with\<close>

lemma ingest_single_released:
  assumes "inbox_wf inbox" and "unprotect_scalar_part cipher key continuum part = Ok q"
    and "part_index part = 0" and "total_parts part = 1"
    and "MultipartInbox_ingest cipher inbox key continuum part = (Ok r, inbox')"
  shows "r = Some q"
proof -
  let ?p = "pending_for inbox part"
  have tot: "pp_total_parts ?p = 1"
  proof (rule ccontr)
    assume "pp_total_parts ?p \<noteq> 1"
    then have "fst (MultipartInbox_ingest cipher inbox key continuum part) = Err MultipartTotalMismatch"
      by (simp add: ingest_authenticated [OF assms(2)] Let_def assms(4))
    with assms(5) show False by simp
  qed
  have none: "pp_parts ?p = bm_empty"
  proof (cases "bm_get (inbox_pending inbox) (publication_id part)")
    case (Some p)
    then have "pending_wf p" and p: "?p = p" using assms(1) by (auto simp: inbox_wf_def pending_for_def)
    then have "dom (bm_get (pp_parts p)) \<subset> {i. i < 1}" using tot by (simp add: pending_wf_def)
    moreover have "{i :: u32. i < 1} = {0}" unfolding words_below by (simp add: upt_rec)
    ultimately have "dom (bm_get (pp_parts p)) = {}" using subset_singletonD [of "dom (bm_get (pp_parts p))" 0] by auto
    then show ?thesis unfolding p by (intro bm_eqI) auto
  qed (simp add: pending_for_def)
  have "fst (MultipartInbox_ingest cipher inbox key continuum part) = Ok (Some q)"
    by (simp add: ingest_authenticated [OF assms(2)] Let_def assms(3,4) tot none release_complete_def bm_len_def bm_values_def
        bm_entries_single)
  with assms(5) show ?thesis by simp
qed

lemma complete_decode_contains:
  assumes "decode_complete_scalar_domain_objects cipher key continuum dk objs = Ok regs" and "wire \<in> set objs"
    and "decode_single_scalar_domain_object cipher key continuum dk wire = Ok reg"
  shows "reg \<in> set regs"
proof -
  let ?st0 = "\<lparr>oa_inbox = MultipartInbox_new, oa_completed = [], oa_seen = bm_empty\<rparr>"
  from assms(1) obtain st where run: "try_fold (assemble_object cipher key continuum dk) ?st0 objs = Ok st"
    and regs: "regs = oa_completed st"
    by (auto simp: decode_complete_scalar_domain_objects_def Let_def split: result.splits if_splits)
  from assms(3) obtain part q where part: "decode_protected_sync_part wire = Ok part" "part_index part = 0" "total_parts part = 1"
    "unprotect_scalar_part cipher key continuum part = Ok q" "scalar_register_from_projection q dk = Ok reg"
    by (auto simp: decode_single_scalar_domain_object_def split: result.splits if_splits)
  have step: "inbox_wf (oa_inbox b) \<and> (wire \<in> bs_set (oa_seen b) \<longrightarrow> reg \<in> set (oa_completed b))"
    if inv: "inbox_wf (oa_inbox a) \<and> (wire \<in> bs_set (oa_seen a) \<longrightarrow> reg \<in> set (oa_completed a))"
      and s: "assemble_object cipher key continuum dk a obj = Ok b" for a b obj
  proof -
    have more: "set (oa_completed a) \<subseteq> set (oa_completed b)"
      using s by (auto simp: assemble_object_def Let_def split: if_splits result.splits prod.splits option.splits)
    have "reg \<in> set (oa_completed b)" if new: "obj = wire" "wire \<notin> bs_set (oa_seen a)"
    proof -
      obtain res ib where ing: "MultipartInbox_ingest cipher (oa_inbox a) key continuum part = (res, ib)" by fastforce
      with s new part(1) obtain r where r: "res = Ok r" by (cases res) (auto simp: assemble_object_def Let_def)
      have "r = Some q" using ingest_single_released [OF conjunct1 [OF inv] part(4,2,3) ing [unfolded r]] .
      with s new part(1,5) ing r show ?thesis by (auto simp: assemble_object_def Let_def)
    qed
    with inv more assemble_result(1,2) [OF s] show ?thesis by auto
  qed
  have inv: "inbox_wf (oa_inbox st) \<and> (wire \<in> bs_set (oa_seen st) \<longrightarrow> reg \<in> set (oa_completed st))"
    using run by (rule try_fold_invariant) (auto simp: inbox_new_wf intro: step [THEN conjunct1] step [THEN conjunct2, rule_format])
  have "set objs \<subseteq> bs_set (oa_seen st)"
  proof -
    have "bs_set (oa_seen a) \<union> set xs \<subseteq> bs_set (oa_seen b)" if "try_fold (assemble_object cipher key continuum dk) a xs = Ok b" for a b xs
      using that
    proof (induction xs arbitrary: a)
      case (Cons x xs)
      then obtain c where c: "assemble_object cipher key continuum dk a x = Ok c"
        "try_fold (assemble_object cipher key continuum dk) c xs = Ok b" by (auto split: result.splits)
      from Cons.IH [OF c(2)] assemble_result(1) [OF c(1)] show ?case by auto
    qed simp
    from this [OF run] show ?thesis by blast
  qed
  with inv assms(2) regs show ?thesis by blast
qed

text \<open>The objects of a pending publication are in the fetched range, revision by revision.\<close>

definition came_back ::
    "aead \<Rightarrow> ScalarCatchUpSpec \<Rightarrow> ('t, 'r, 'te) OpaqueTransport \<Rightarrow> ('r, 'ce) TransportCursorCodec \<Rightarrow> DurableSyncRecord \<Rightarrow> 't \<Rightarrow>
     PublicationId \<Rightarrow> bool" where
  "came_back cipher spec tr cursors rec t p \<longleftrightarrow>
     (\<exists>head objs t1 regs entry wire pending.
        fetch_from_durable_cursor tr cursors rec t = (Ok (Changed head objs), t1) \<and>
        decode_complete_scalar_domain_objects cipher (cu_key spec) (cu_continuum_id spec) (cu_domain_key spec) objs = Ok regs \<and>
        bm_get (outbox rec) p = Some entry \<and> oe_objects entry = [wire] \<and>
        decode_single_scalar_domain_object cipher (cu_key spec) (cu_continuum_id spec) (cu_domain_key spec) wire = Ok pending \<and>
        known pending \<subseteq> (\<Union>reg \<in> set regs. known reg))"

lemma scalar_arrived:
  assumes "arrived (scalar_evidence cipher spec) out rec p"
    and "catch_up_single_scalar_domain cipher persist codec cursors tr spec d rec st t = (Ok out, d', rec', st', t')"
  shows "came_back cipher spec tr cursors rec t p"
proof -
  from assms(1) obtain head n observed sealed e where out: "out = CatchUp_Applied head n observed sealed"
    and e: "bm_get (outbox rec) p = Some e" "scalar_evidence cipher spec observed p e = Ok True"
    by (auto simp: arrived_def split: catch_up_outcome.splits)
  from e(2) obtain wire pending where w: "oe_objects e = [wire]"
    "decode_single_scalar_domain_object cipher (cu_key spec) (cu_continuum_id spec) (cu_domain_key spec) wire = Ok pending"
    "bs_set (revision_ids_of pending) \<subseteq> bs_set observed"
    by (auto simp: scalar_evidence_def split: list.splits result.splits)
  from assms(2) [unfolded out] obtain objs regs where "fetch_from_durable_cursor tr cursors rec t = (Ok (Changed head objs), t')"
    "decode_complete_scalar_domain_objects cipher (cu_key spec) (cu_continuum_id spec) (cu_domain_key spec) objs = Ok regs"
    "bs_set observed = (\<Union>reg \<in> set regs. known reg)" by (rule catch_up_single_observed)
  moreover have "known pending \<subseteq> bs_set observed" using w(3) revision_ids_of_valid [OF single_decode_valid [OF w(2)]] by simp
  ultimately show ?thesis unfolding came_back_def using e(1) w(1,2) by metis
qed

section \<open>Properties\<close>

text \<open>
  C23. A resume never loses a publication and never forgets one: after a pass over any number of
  pending publications, successful or failed at any point, live domain and durable record are still
  paired and nothing was added to the outbox; and a publication left it only if this pass's
  authenticated catch-up contained every revision it carries, or the transport acknowledged the
  publication of the complete current set against the cursor the pass arrived at.
\<close>

theorem resume_retires_only_proven:
  fixes res :: "('r ScalarBatchResumeReport, ('te, TrustedStateCodecError, 'se, 'ce) ScalarBatchResumeError) result"
  assumes "resume_scalar_outbox_set cipher persist scalar_trusted_state_codec cursors tr spec d rec st t = (res, d', rec', st', t')"
    and "domain_wf d" and "scalar_paired d (trusted_state rec)" and "length (trusted_state rec') \<le> isize_max"
  shows "domain_wf d' \<and> scalar_paired d' (trusted_state rec') \<and> res \<noteq> Err RO_Panicked \<and>
    bm_get (outbox rec') \<subseteq>\<^sub>m bm_get (outbox rec) \<and>
    (\<forall>p \<in> dom (bm_get (outbox rec)) - dom (bm_get (outbox rec')). \<exists>out rec1 st1 t1.
       catch_up_single_scalar_domain cipher persist scalar_trusted_state_codec cursors tr spec d rec st t =
         ((Ok out :: (_, ('te, TrustedStateCodecError, 'se, 'ce) ScalarCatchUpError) result), d', rec1, st1, t1) \<and>
       (came_back cipher spec tr cursors rec t p \<or>
        p \<in> current_pubs rec1 \<and> (\<exists>expected head. decode_cursor cursors (applied_cursor rec1) = Ok expected \<and>
          tr_publish tr t1 expected (offered_objects rec1) = (Ok (Published head), t'))))"
proof -
  note safe = single_pass.resume_pass_safe [OF assms(1) [unfolded resume_scalar_outbox_set_def] assms(2-4)]
  have arr: "came_back cipher spec tr cursors rec t p" if "arrived (scalar_evidence cipher spec) out rec p"
    "catch_up_single_scalar_domain cipher persist scalar_trusted_state_codec cursors tr spec d rec st t =
      ((Ok out :: (_, ('te, TrustedStateCodecError, 'se, 'ce) ScalarCatchUpError) result), d', rec1, st1, t1)" for p out rec1 st1 t1
    using that by (rule scalar_arrived)
  show ?thesis
  proof (intro conjI ballI, goal_cases)
    case (5 p)
    with safe obtain out rec1 st1 t1 where run: "catch_up_single_scalar_domain cipher persist scalar_trusted_state_codec cursors tr spec d rec st t =
        ((Ok out :: (_, ('te, TrustedStateCodecError, 'se, 'ce) ScalarCatchUpError) result), d', rec1, st1, t1)"
      and why: "arrived (scalar_evidence cipher spec) out rec p \<or> p \<in> current_pubs rec1 \<and> (\<exists>expected head.
        decode_cursor cursors (applied_cursor rec1) = Ok expected \<and>
        tr_publish tr t1 expected (offered_objects rec1) = (Ok (Published head), t'))" by blast
    then show ?case by (intro exI conjI [OF run] disj_forward [OF why]) (use arr [OF _ run] in blast)+
  qed (use safe in simp_all)
qed

text \<open>A publication of the sample object, staged before anything was fetched.\<close>

definition stale_record :: "bytes \<Rightarrow> bytes \<Rightarrow> DurableSyncRecord" where
  "stale_record trusted wire = \<lparr>trusted_state = trusted, applied_cursor = None, outbox = bm_insert (OpaqueId 4)
     \<lparr>oe_publication_id = OpaqueId 4, oe_expected_cursor = None, oe_objects = [wire]\<rparr> bm_empty\<rparr>"

theorem resume_retires_only_proven_witness:
  "\<exists>wire trusted rec' st'. byte_wire wire \<and>
     resume_scalar_outbox_set plain_aead sample_persist scalar_trusted_state_codec sample_codec (range_transport [wire]) sample_spec
       byte_domain (stale_record trusted wire) None 0 =
       ((Ok \<lparr>rep_catch_up = CatchUp_Applied 5 1 (bs_from_list [OpaqueId 5]) None,
           rep_observed_reconciled = bs_from_list [OpaqueId 4], rep_action = Action_None\<rparr> ::
         (_, (unit, TrustedStateCodecError, unit, unit) ScalarBatchResumeError) result), byte_domain, rec', st', 1) \<and>
     scalar_paired byte_domain (trusted_state rec') \<and> outbox rec' = bm_empty"
proof -
  obtain wire where wire: "byte_wire wire" using byte_wire_exists by blast
  obtain trusted where trusted: "encode_local_scalar_snapshot (LocalScalarDomain_snapshot byte_domain) = Ok trusted" "length trusted = 102"
    using byte_domain_encodes by blast
  have wf: "snapshot_wf (LocalScalarDomain_snapshot byte_domain)" using byte_domain_wf by (auto simp: snapshot_wf_def)
  have paired: "scalar_paired byte_domain (trusted_state (stale_record trusted wire))"
    using scalar_codec.decode_encode [OF wf, of trusted] trusted
    by (simp add: scalar_paired_def stale_record_def scalar_trusted_state_codec_def isize_max_def)
  from sample_range_run [OF wire sample_observations(2), of "stale_record trusted wire" 0] obtain rec1 st1 bs where
    run: "catch_up_single_scalar_domain plain_aead sample_persist scalar_trusted_state_codec sample_codec
      (range_transport [wire]) sample_spec byte_domain (stale_record trusted wire) None 0 =
      ((Ok (CatchUp_Applied 5 1 (bs_from_list [OpaqueId 5]) None) ::
        (_, (unit, TrustedStateCodecError, unit, unit) ScalarCatchUpError) result), byte_domain, rec1, st1, 1)"
    and rec1: "rec1 = (stale_record trusted wire)\<lparr>trusted_state := bs, applied_cursor := Some (TransportCursor [5])\<rparr>" and bs: "length bs = 102"
    by auto
  have set1: "bs_iter (bs_from_list [OpaqueId 4 :: PublicationId]) = [OpaqueId 4]" by (rule bs_iter_singleton) simp
  have set1': "bs_insert (OpaqueId 4 :: PublicationId) bm_empty = bs_from_list [OpaqueId 4]" by (simp add: bs_eq_iff)
  have ids: "revision_ids_of byte_register = bs_from_list [OpaqueId 5]" by code_simp
  have empty: "bm_remove (OpaqueId 4 :: PublicationId) (bm_insert (OpaqueId 4) (x :: DurableOutboxEntry) bm_empty) = bm_empty" for x
    by (rule bm_eqI) simp
  let ?rec' = "\<lparr>trusted_state = bs, applied_cursor = Some (TransportCursor [5]), outbox = bm_empty\<rparr>"
  have full: "resume_scalar_outbox_set plain_aead sample_persist scalar_trusted_state_codec sample_codec (range_transport [wire]) sample_spec
       byte_domain (stale_record trusted wire) None 0 =
       ((Ok \<lparr>rep_catch_up = CatchUp_Applied 5 1 (bs_from_list [OpaqueId 5]) None,
           rep_observed_reconciled = bs_from_list [OpaqueId 4], rep_action = Action_None\<rparr> ::
         (_, (unit, TrustedStateCodecError, unit, unit) ScalarBatchResumeError) result), byte_domain, ?rec', Some ?rec', 1)"
    unfolding resume_scalar_outbox_set_def resume_outbox_pass_def Let_def run prod.case result.case
    using set1 set1' ids empty byte_wire_decodes [OF wire]
    by (simp add: settle_outbox_set_def is_baseline_unavailable_def
        bs_is_empty_iff stale_record_def rec1 bm_keys_def bm_entries_single classify_publication_def reconcile_stale_def
        observe_publication_def scalar_evidence_def commit_reconciled_outbox_batch_def sample_codec_def sample_persist_def
        persist_and_swap_def DurableSyncRecord_retire_outbox_def del: bm_is_empty_iff)
  have "length (trusted_state ?rec') \<le> isize_max" using bs by (simp add: isize_max_def)
  note safe = resume_retires_only_proven [OF full byte_domain_wf paired this]
  show ?thesis
    by (intro exI [of _ wire] exI [of _ trusted] exI [of _ ?rec'] exI [of _ "Some ?rec'"] conjI wire full)
      (use safe in \<open>simp_all only: DurableSyncRecord.select_convs\<close>)
qed

text \<open>
  C25. A lost acknowledgement costs nothing: when the only pending publication is stale because its
  own object came back in the fetched range, the pass recognises it, retires it durably without any
  further transport call, and leaves the caught-up domain and its trusted state as they are.
\<close>

theorem lost_acknowledgement_reconciled:
  fixes tr :: "('t, 'r, 'te) OpaqueTransport" and persist :: "('st, 'se) persist_fn" and cursors :: "('r, 'ce) TransportCursorCodec"
  assumes "outbox rec = bm_insert pub entry bm_empty" and "oe_objects entry = [wire]"
    and "decode_single_scalar_domain_object cipher (cu_key spec) (cu_continuum_id spec) (cu_domain_key spec) wire = Ok pending"
    and "fetch_from_durable_cursor tr cursors rec t = (Ok (Changed head objs), t1)" and "wire \<in> set objs"
    and "catch_up_single_scalar_domain cipher persist scalar_trusted_state_codec cursors tr spec d rec st t =
      ((Ok out :: (_, ('te, TrustedStateCodecError, 'se, 'ce) ScalarCatchUpError) result), d1, rec1, st1, t1)"
    and "oe_expected_cursor entry \<noteq> applied_cursor rec1" and "\<forall>st r. fst (persist st r) = Ok ()"
  shows "\<exists>rec' st'. resume_single_scalar_domain cipher persist scalar_trusted_state_codec cursors tr spec d rec st t =
      (Ok \<lparr>srr_catch_up = out, srr_outbox = Outbox_ObservedAndReconciled pub head\<rparr>, d1, rec', st', t1) \<and>
    outbox rec' = bm_empty \<and> trusted_state rec' = trusted_state rec1 \<and> applied_cursor rec' = applied_cursor rec1"
proof -
  have out: "apply_scalar_range cipher persist scalar_trusted_state_codec cursors d rec st spec head objs =
      ((Ok out :: (_, ('te, TrustedStateCodecError, 'se, 'ce) ScalarCatchUpError) result), d1, rec1, st1)"
    using assms(6) unfolding catch_up_single_scalar_domain_def assms(4) prod.case result.case FetchOutcome.case
    by (cases "apply_scalar_range cipher persist scalar_trusted_state_codec cursors d rec st spec head objs ::
        (_, ('te, TrustedStateCodecError, 'se, 'ce) ScalarCatchUpError) result \<times> _") simp
  then obtain decoded remote sealed where
    dec: "decode_complete_scalar_domain_objects cipher (cu_key spec) (cu_continuum_id spec) (cu_domain_key spec) objs = Ok decoded"
      "try_fold merge_remote None decoded = Ok (Some remote)"
    and applied: "out = CatchUp_Applied head (length objs) (revision_ids_of remote) sealed"
    by (cases rule: apply_scalar_range_cases) (use assms(5) in auto)
  have mem: "pending \<in> set decoded" using complete_decode_contains [OF dec(1) assms(5,3)] .
  then have ne: "decoded \<noteq> []" by auto
  obtain r where r: "Some remote = Some r" "register_valid r" "known r = (\<Union>x \<in> set decoded. known x)"
    by (rule combined_remote [OF dec(2) complete_decode_valid [OF dec(1)] ne])
  have "register_valid pending" using complete_decode_valid [OF dec(1)] mem by (simp add: list_all_iff)
  then have sub: "bs_is_subset (revision_ids_of pending) (revision_ids_of remote)"
    using r mem by (auto simp: revision_ids_of_valid)
  have moved: "cursor_advanced cursors rec rec1 head" using single_pass.pass_moved [OF assms(6)] applied by simp
  then obtain c where c: "cc_encode cursors head = Ok c" "applied_cursor rec1 = Some c" and ob: "outbox rec1 = outbox rec"
    by (auto simp: cursor_advanced_def)
  have "bm_remove pub (bm_insert pub entry bm_empty) = bm_empty" by (rule bm_eqI) simp
  then have retire: "DurableSyncRecord_retire_outbox rec1 pub (trusted_state rec1) c =
      (Ok (), \<lparr>trusted_state = trusted_state rec1, applied_cursor = Some c, outbox = bm_empty\<rparr>)"
    by (simp add: retire_Ok ob assms(1))
  let ?rec' = "\<lparr>trusted_state = trusted_state rec1, applied_cursor = Some c, outbox = bm_empty\<rparr>"
  obtain st' where "persist st1 ?rec' = (Ok (), st')" using assms(8) by (metis prod.collapse)
  then have "commit_reconciled_outbox persist cursors rec1 st1 pub (trusted_state rec1) head = (Ok (), ?rec', st')"
    by (simp add: commit_reconciled_outbox_def c(1) retire persist_and_swap_def)
  then have "resume_publication cipher persist cursors tr spec (Some pub) out rec1 st1 t1 =
      ((Ok (Outbox_ObservedAndReconciled pub head) :: (_, ('te, TrustedStateCodecError, 'se, 'ce) ScalarResumeError) result),
       ?rec', st', t1)"
    using assms(2,3,7) sub
    by (simp add: resume_publication_def applied is_baseline_unavailable_def ob assms(1) resume_stale_publication_def
        del: bs_is_subset_iff)
  then have "resume_single_scalar_domain cipher persist scalar_trusted_state_codec cursors tr spec d rec st t =
      (Ok \<lparr>srr_catch_up = out, srr_outbox = Outbox_ObservedAndReconciled pub head\<rparr>, d1, ?rec', st', t1)"
    by (simp add: resume_single_scalar_domain_def assms(1,6) bm_len_def bm_keys_def bm_entries_single)
  with c(2) show ?thesis by auto
qed

theorem lost_acknowledgement_reconciled_witness:
  "\<exists>wire rec' st'. byte_wire wire \<and>
     resume_single_scalar_domain plain_aead sample_persist scalar_trusted_state_codec sample_codec (range_transport [wire]) sample_spec
       trusted_clean (stale_record [] wire) None 0 =
       ((Ok \<lparr>srr_catch_up = CatchUp_Applied 5 1 (bs_from_list [OpaqueId 5]) None,
           srr_outbox = Outbox_ObservedAndReconciled (OpaqueId 4) 5\<rparr> ::
         (_, (unit, TrustedStateCodecError, unit, unit) ScalarResumeError) result), byte_domain, rec', st', 1) \<and>
     outbox rec' = bm_empty"
proof -
  obtain wire where wire: "byte_wire wire" using byte_wire_exists by blast
  from sample_range_run [OF wire sample_observations(1), of "stale_record [] wire" 0] obtain rec1 st1 bs where
    run: "catch_up_single_scalar_domain plain_aead sample_persist scalar_trusted_state_codec sample_codec
      (range_transport [wire]) sample_spec trusted_clean (stale_record [] wire) None 0 =
      ((Ok (CatchUp_Applied 5 1 (bs_from_list [OpaqueId 5]) None) ::
        (_, (unit, TrustedStateCodecError, unit, unit) ScalarCatchUpError) result), byte_domain, rec1, st1, 1)"
    and rec1: "rec1 = (stale_record [] wire)\<lparr>trusted_state := bs, applied_cursor := Some (TransportCursor [5])\<rparr>"
    by auto
  let ?e = "\<lparr>oe_publication_id = OpaqueId 4, oe_expected_cursor = None, oe_objects = [wire]\<rparr>"
  have "outbox (stale_record [] wire) = bm_insert (OpaqueId 4) ?e bm_empty" "oe_objects ?e = [wire]" "wire \<in> set [wire]"
    "oe_expected_cursor ?e \<noteq> applied_cursor rec1" "\<forall>st r. fst (sample_persist st r) = Ok ()"
    by (simp_all add: stale_record_def rec1 sample_persist_def)
  moreover have "decode_single_scalar_domain_object plain_aead (cu_key sample_spec) (cu_continuum_id sample_spec)
      (cu_domain_key sample_spec) wire = Ok byte_register" using byte_wire_decodes [OF wire] by simp
  moreover have "fetch_from_durable_cursor (range_transport [wire]) sample_codec (stale_record [] wire) 0 = (Ok (Changed 5 [wire]), 1)"
    by (simp add: fetch_from_durable_cursor_def decode_cursor_def stale_record_def range_transport_def)
  ultimately show ?thesis
    using lost_acknowledgement_reconciled [OF _ _ _ _ _ run] wire by blast
qed

end
