(* ===== verification/Resume_Recovery.thy ===== *)
theory Resume_Recovery
  imports Resume
begin

text \<open>
  Resume of a recovery container: \<^verbatim>\<open>apc-runtime/src/resume_recovery_batch.rs\<close>, its bounded cycle
  \<^verbatim>\<open>resume_recovery_cycle.rs\<close> and the lifecycle-gated owner \<^verbatim>\<open>foreground_recovery.rs\<close>. The pass is
  the one of \<open>Resume\<close>; its evidence is per domain and accepts multipart publications.
\<close>

section \<open>Evidence for a multi-domain publication\<close>

datatype PendingRecoveryPublicationDecodeError =
    Pending_EmptyObjectSet
  | Pending_Wire ProtectedPartCodecError
  | Pending_PublicationIdMismatch PublicationId PublicationId
  | Pending_Protection SyncPartError
  | Pending_IncompleteMultipartPublication
  | Pending_MultipleCompletedPublications

record pending_assembly =
  pd_inbox :: MultipartInbox
  pd_completed :: "ScalarSyncProjection option"
  pd_seen :: "bytes btree_set"

definition assemble_pending ::
    "aead \<Rightarrow> ContentKey \<Rightarrow> ContinuumId \<Rightarrow> PublicationId \<Rightarrow> pending_assembly \<Rightarrow> bytes \<Rightarrow>
     (pending_assembly, PendingRecoveryPublicationDecodeError) result" where
  "assemble_pending cipher key continuum expected_publication_id st encoded =
     (if bs_contains (pd_seen st) encoded then Ok st
      else
        (let st1 = st\<lparr>pd_seen := bs_insert encoded (pd_seen st)\<rparr>
         in case decode_protected_sync_part encoded of
              Err e \<Rightarrow> Err (Pending_Wire e)
            | Ok part \<Rightarrow>
                if publication_id part \<noteq> expected_publication_id
                then Err (Pending_PublicationIdMismatch expected_publication_id (publication_id part))
                else
                  (case MultipartInbox_ingest cipher (pd_inbox st1) key continuum part of
                     (Err e, _) \<Rightarrow> Err (Pending_Protection e)
                   | (Ok None, inbox) \<Rightarrow> Ok (st1\<lparr>pd_inbox := inbox\<rparr>)
                   | (Ok (Some projection), inbox) \<Rightarrow>
                       (case pd_completed st1 of
                          Some _ \<Rightarrow> Err Pending_MultipleCompletedPublications
                        | None \<Rightarrow> Ok (st1\<lparr>pd_inbox := inbox, pd_completed := Some projection\<rparr>)))))"

definition decode_pending_recovery_publication ::
    "aead \<Rightarrow> ContentKey \<Rightarrow> ContinuumId \<Rightarrow> PublicationId \<Rightarrow> bytes list \<Rightarrow>
     (ScalarSyncProjection, PendingRecoveryPublicationDecodeError) result" where
  "decode_pending_recovery_publication cipher key continuum expected_publication_id encoded_objects =
     (if encoded_objects = [] then Err Pending_EmptyObjectSet
      else
        (case try_fold (assemble_pending cipher key continuum expected_publication_id)
                \<lparr>pd_inbox = MultipartInbox_new, pd_completed = None, pd_seen = bm_empty\<rparr> encoded_objects of
           Err e \<Rightarrow> Err e
         | Ok st \<Rightarrow>
             if MultipartInbox_pending_publications (pd_inbox st) \<noteq> 0 then Err Pending_IncompleteMultipartPublication
             else
               (case pd_completed st of
                  None \<Rightarrow> Err Pending_IncompleteMultipartPublication
                | Some projection \<Rightarrow> Ok projection)))"

definition projection_is_observed ::
    "ScalarSyncProjection \<Rightarrow> (DomainKey, RevisionId btree_set) btree_map \<Rightarrow> bool" where
  "projection_is_observed projection observed =
     list_all (\<lambda>(domain_key, register).
         case bm_get observed domain_key of
           None \<Rightarrow> False
         | Some observed_ids \<Rightarrow>
             list_all (\<lambda>revision. bs_contains observed_ids (rev_id revision)) (ScalarRegister_revisions register))
       (bm_entries (domains projection))"

section \<open>The pass and its cycle\<close>

record ScalarRecoveryResumeSpec =
  rr_key :: ContentKey
  rr_continuum_id :: ContinuumId
  rr_pre_observation_revision_ids :: "(DomainKey, RevisionId) btree_map"

definition recovery_evidence ::
    "aead \<Rightarrow> ScalarRecoveryResumeSpec \<Rightarrow> (DomainKey, RevisionId btree_set) btree_map \<Rightarrow> PublicationId \<Rightarrow> DurableOutboxEntry \<Rightarrow>
     (bool, PendingRecoveryPublicationDecodeError) result" where
  "recovery_evidence cipher spec observed pub entry =
     (case decode_pending_recovery_publication cipher (rr_key spec) (rr_continuum_id spec) pub (oe_objects entry) of
        Err e \<Rightarrow> Err e
      | Ok pending \<Rightarrow> Ok (projection_is_observed pending observed))"

type_synonym 'r ScalarRecoveryResumeAction = "'r ScalarBatchResumeAction"

type_synonym 'r ScalarRecoveryResumeReport = "('r, 'r ScalarRecoveryCatchUpOutcome) resume_report"

type_synonym ('te, 'tse, 'se, 'ce) ScalarRecoveryResumeError =
  "(('te, 'tse, 'se, 'ce) ScalarRecoveryCatchUpError, PendingRecoveryPublicationDecodeError, 'te, 'se, 'ce) resume_error"

definition resume_scalar_recovery_outbox_set ::
    "aead \<Rightarrow> ('st, 'se) persist_fn \<Rightarrow> (LocalScalarRecoveryState, 'tse) TrustedStateCodec \<Rightarrow>
     ('r, 'ce) TransportCursorCodec \<Rightarrow> ('t, 'r, 'te) OpaqueTransport \<Rightarrow>
     ScalarRecoveryResumeSpec \<Rightarrow> LocalScalarRecoveryState \<Rightarrow> DurableSyncRecord \<Rightarrow> 'st \<Rightarrow> 't \<Rightarrow>
     ('r ScalarRecoveryResumeReport, ('te, 'tse, 'se, 'ce) ScalarRecoveryResumeError) result \<times>
       LocalScalarRecoveryState \<times> DurableSyncRecord \<times> 'st \<times> 't" where
  "resume_scalar_recovery_outbox_set cipher persist codec cursors tr spec =
     resume_outbox_pass persist cursors tr (recovery_evidence cipher spec)
       (catch_up_scalar_recovery_state cipher persist codec cursors tr
          \<lparr>rcu_key = rr_key spec, rcu_continuum_id = rr_continuum_id spec,
           rcu_pre_observation_revision_ids = rr_pre_observation_revision_ids spec\<rparr>)"

definition resume_scalar_recovery_outbox_set_bounded ::
    "aead \<Rightarrow> ('st, 'se) persist_fn \<Rightarrow> (LocalScalarRecoveryState, 'tse) TrustedStateCodec \<Rightarrow>
     ('r, 'ce) TransportCursorCodec \<Rightarrow> ('t, 'r, 'te) OpaqueTransport \<Rightarrow>
     ContentKey \<Rightarrow> ContinuumId \<Rightarrow> (DomainKey, RevisionId) btree_map \<Rightarrow>
     LocalScalarRecoveryState \<Rightarrow> DurableSyncRecord \<Rightarrow> 'st \<Rightarrow> 't \<Rightarrow>
     ('r ScalarRecoveryResumeReport resume_cycle_report, ('te, 'tse, 'se, 'ce) ScalarRecoveryResumeError) result \<times>
       LocalScalarRecoveryState \<times> DurableSyncRecord \<times> 'st \<times> 't" where
  "resume_scalar_recovery_outbox_set_bounded cipher persist codec cursors tr key continuum pre_ids =
     bounded_cycle is_action_conflict
       (resume_scalar_recovery_outbox_set cipher persist codec cursors tr
          \<lparr>rr_key = key, rr_continuum_id = continuum, rr_pre_observation_revision_ids = pre_ids\<rparr>)"

section \<open>The foreground runtime\<close>

text \<open>The runtime owns the lifecycle flag and the guarded transport, which share one atomic: here
  the one state of the gate.\<close>

record ForegroundRecoveryCycleSpec =
  frc_key :: ContentKey
  frc_continuum_id :: ContinuumId
  frc_pre_observation_revision_ids :: "(DomainKey, RevisionId) btree_map"

record 't ForegroundRecoveryRuntime =
  frt_transport :: "'t ForegroundTransport"

definition ForegroundRecoveryRuntime_new :: "'t \<Rightarrow> 't ForegroundRecoveryRuntime" where
  "ForegroundRecoveryRuntime_new transport = \<lparr>frt_transport = guard transport\<rparr>"

definition ForegroundRecoveryRuntime_enter_foreground :: "'t ForegroundRecoveryRuntime \<Rightarrow> 't ForegroundRecoveryRuntime" where
  "ForegroundRecoveryRuntime_enter_foreground rt = rt\<lparr>frt_transport := enter_foreground (frt_transport rt)\<rparr>"

definition ForegroundRecoveryRuntime_enter_background :: "'t ForegroundRecoveryRuntime \<Rightarrow> 't ForegroundRecoveryRuntime" where
  "ForegroundRecoveryRuntime_enter_background rt = rt\<lparr>frt_transport := enter_background (frt_transport rt)\<rparr>"

definition ForegroundRecoveryRuntime_is_foreground :: "'t ForegroundRecoveryRuntime \<Rightarrow> bool" where
  "ForegroundRecoveryRuntime_is_foreground rt = is_foreground (frt_transport rt)"

definition resume_scalar_recovery ::
    "aead \<Rightarrow> ('st, 'se) persist_fn \<Rightarrow> (LocalScalarRecoveryState, 'tse) TrustedStateCodec \<Rightarrow>
     ('r, 'ce) TransportCursorCodec \<Rightarrow> ('t, 'r, 'te) OpaqueTransport \<Rightarrow> ForegroundRecoveryCycleSpec \<Rightarrow>
     't ForegroundRecoveryRuntime \<Rightarrow> LocalScalarRecoveryState \<Rightarrow> DurableSyncRecord \<Rightarrow> 'st \<Rightarrow>
     ('r ScalarRecoveryResumeReport resume_cycle_report,
      ('te ForegroundTransportError, 'tse, 'se, 'ce) ScalarRecoveryResumeError) result \<times>
       't ForegroundRecoveryRuntime \<times> LocalScalarRecoveryState \<times> DurableSyncRecord \<times> 'st" where
  "resume_scalar_recovery cipher persist codec cursors tr spec rt recovery rec store =
     (case resume_scalar_recovery_outbox_set_bounded cipher persist codec cursors (foreground_transport tr)
             (frc_key spec) (frc_continuum_id spec) (frc_pre_observation_revision_ids spec)
             recovery rec store (frt_transport rt) of
        (res, recovery', rec', store', transport) \<Rightarrow> (res, rt\<lparr>frt_transport := transport\<rparr>, recovery', rec', store'))"

section \<open>A pending publication is recognised from its own bytes\<close>

lemma pending_single:
  assumes "decode_protected_sync_part wire = Ok part" and "publication_id part = pub" and "part_index part = 0" and "total_parts part = 1"
    and "unprotect_scalar_part cipher key continuum part = Ok q"
  shows "decode_pending_recovery_publication cipher key continuum pub [wire] = Ok q"
proof -
  have "MultipartInbox_pending_publications MultipartInbox_new = 0"
    by (simp add: MultipartInbox_pending_publications_def MultipartInbox_new_def bm_len_card)
  then show ?thesis
    using assms(1,2) ingest_single_part [OF assms(5,3,4)]
    by (simp add: decode_pending_recovery_publication_def assemble_pending_def)
qed

lemma projection_is_observed_iff:
  assumes "projection_valid p"
  shows "projection_is_observed p observed \<longleftrightarrow>
    (\<forall>key reg. bm_get (domains p) key = Some reg \<longrightarrow> (\<exists>ids. bm_get observed key = Some ids \<and> known reg \<subseteq> bs_set ids))"
proof -
  have "list_all (\<lambda>r. bs_contains ids (rev_id r)) (ScalarRegister_revisions reg) \<longleftrightarrow> known reg \<subseteq> bs_set ids"
    if "bm_get (domains p) key = Some reg" for key reg ids
  proof -
    have "register_valid reg" using assms that by (auto simp: projection_valid_def keyed_valid_def)
    then have "rev_id ` set (ScalarRegister_revisions reg) = known reg" using revision_ids_of_valid by (simp add: revision_ids_of_def)
    moreover have "list_all (\<lambda>r. bs_contains ids (rev_id r)) (ScalarRegister_revisions reg) \<longleftrightarrow>
        rev_id ` set (ScalarRegister_revisions reg) \<subseteq> bs_set ids" by (auto simp: list_all_iff)
    ultimately show ?thesis by simp
  qed
  note each = this
  have "projection_is_observed p observed \<longleftrightarrow>
      (\<forall>key reg. bm_get (domains p) key = Some reg \<longrightarrow> (case bm_get observed key of None \<Rightarrow> False
        | Some ids \<Rightarrow> list_all (\<lambda>r. bs_contains ids (rev_id r)) (ScalarRegister_revisions reg)))"
    unfolding projection_is_observed_def list_all_iff [of _ "bm_entries (domains p)"] bm_entries_iff [symmetric] by fast
  also have "\<dots> \<longleftrightarrow> (\<forall>key reg. bm_get (domains p) key = Some reg \<longrightarrow> (\<exists>ids. bm_get observed key = Some ids \<and> known reg \<subseteq> bs_set ids))"
    by (intro iff_allI imp_cong refl) (auto simp: each simp del: bs_contains_iff split: option.split)
  finally show ?thesis .
qed

lemma project_domain_Ok:
  assumes "recovery_wf x" and "project_domain x m (key, sel) = Ok m'"
  obtains d reg where "RecoveryState_get x key = Some (LocalScalarDomain_snapshot d)" and "dk_domain key \<noteq> []" and "register_valid reg"
    and "bm_get (revisions reg) = bm_get (revisions (LocalScalarDomain_causal d)) |` causal_closure (LocalScalarDomain_causal d) (bs_iter sel)"
    and "m' = bm_insert key reg m"
proof -
  from assms(2) obtain d u reg where d: "RecoveryState_restore_domain x key = Ok (Some d)"
    and h: "fst (LocalScalarDomain_handoff d (bs_iter sel)) = Ok u"
    and reg: "closure_register (LocalScalarDomain_causal d) sel = Ok reg" and m': "m' = bm_insert key reg m"
    by (auto simp: project_domain_def split: if_splits result.splits option.splits)
  have wf: "domain_wf d" and get: "RecoveryState_get x key = Some (LocalScalarDomain_snapshot d)"
    using restore_domain_wf [OF assms(1)] d by (auto simp: RecoveryState_get_def)
  obtain d' where "LocalScalarDomain_handoff d (bs_iter sel) = (Ok u, d')" using h by (metis prod.collapse)
  from handoff_domain_wf [OF wf this] have "bs_set sel \<subseteq> known (LocalScalarDomain_causal d)" by simp
  from closure_register_Ok [OF domain_wfD(2) [OF wf] this] reg that [OF get _ _ _ m'] assms(1) get show ?thesis
    by (auto simp: recovery_wf_def RecoveryState_get_def)
qed

text \<open>What preparation projects of a container: per selected domain the causal closure, nothing else.\<close>

definition projects ::
    "LocalScalarRecoveryState \<Rightarrow> (DomainKey \<Rightarrow> RevisionId btree_set option) \<Rightarrow> (DomainKey \<Rightarrow> bytes ScalarRegister option) \<Rightarrow> bool" where
  "projects x sel doms \<longleftrightarrow>
     (\<forall>key. case sel key of
        None \<Rightarrow> doms key = None
      | Some ids \<Rightarrow> \<exists>d reg. RecoveryState_get x key = Some (LocalScalarDomain_snapshot d) \<and> doms key = Some reg \<and>
          bm_get (revisions reg) =
            bm_get (revisions (LocalScalarDomain_causal d)) |` causal_closure (LocalScalarDomain_causal d) (bs_iter ids))"

lemma project_all_Ok:
  assumes "try_fold (project_domain x) m es = Ok m'" and "recovery_wf x" and "distinct (map fst es)"
    and "projects x sel (bm_get m)" and "projection_wf \<lparr>domains = m\<rparr>" and "\<forall>key \<in> fst ` set es. sel key = None"
  shows "projects x (sel ++ map_of es) (bm_get m') \<and> projection_wf \<lparr>domains = m'\<rparr>"
  using assms
proof (induction es arbitrary: m sel)
  case (Cons e es)
  obtain key ids where e: "e = (key, ids)" by fastforce
  from Cons.prems(1) obtain m1 where step: "project_domain x m (key, ids) = Ok m1" and rest: "try_fold (project_domain x) m1 es = Ok m'"
    by (auto simp: e split: result.splits)
  obtain d reg where k: "RecoveryState_get x key = Some (LocalScalarDomain_snapshot d)" "dk_domain key \<noteq> []" "register_valid reg"
    "bm_get (revisions reg) = bm_get (revisions (LocalScalarDomain_causal d)) |` causal_closure (LocalScalarDomain_causal d) (bs_iter ids)"
    "m1 = bm_insert key reg m" by (rule project_domain_Ok [OF Cons.prems(2) step])
  have p1: "projects x (sel(key \<mapsto> ids)) (bm_get m1)" using Cons.prems(4) k by (auto simp: projects_def cong: option.case_cong)
  have p2: "projection_wf \<lparr>domains = m1\<rparr>"
    using Cons.prems(5) k by (auto simp: projection_wf_def projection_valid_def keyed_valid_def named_domains_def)
  have p3: "\<forall>key' \<in> fst ` set es. (sel(key \<mapsto> ids)) key' = None" and "distinct (map fst es)"
    using Cons.prems(3,6) by (auto simp: e)
  note Cons.IH [OF rest Cons.prems(2) this(2) p1 p2 p3]
  moreover have "sel(key \<mapsto> ids) ++ map_of es = sel ++ map_of (e # es)"
  proof -
    have "key \<notin> dom (map_of es)" using Cons.prems(3) by (simp add: e dom_map_of_conv_image_fst)
    then show ?thesis by (simp add: e map_add_upd_left)
  qed
  ultimately show ?case by (simp only:)
qed simp

section \<open>Properties\<close>

text \<open>
  A multi-domain publication survives its own transport: the durable object of a prepared
  container handoff is recognised under its publication identity, and decodes to exactly the causal
  closure of the selected revisions in every selected domain and to nothing in any other.
\<close>

lemma pending_publication_roundtrip:
  assumes "aead_correct cipher" and "length nonce = 24" and "recovery_wf x"
    and "prepare_recovery_handoff cipher (Some nonce) x continuum pub key sel = Ok prep"
    and "\<forall>wire \<in> set (prh_objects prep). length wire \<le> isize_max"
  shows "\<exists>q. decode_pending_recovery_publication cipher key continuum pub (prh_objects prep) = Ok q \<and>
    projection_wf q \<and> projects x (bm_get sel) (bm_get (domains q))"
proof -
  from assms(4) obtain m part wire where m: "try_fold (project_domain x) bm_empty (bm_entries sel) = Ok m"
    and part: "protect_scalar_part cipher (Some nonce) key continuum pub 0 1 (SyncProjection_from_domains m) = Ok part"
    and wire: "encode_protected_sync_part part = Ok wire" and prep: "prh_objects prep = [wire]"
    by (auto simp: prepare_recovery_handoff_def split: if_splits result.splits)
  have "distinct (map fst (bm_entries sel))" using bm_keys_distinct [of sel] by (simp add: bm_keys_def)
  from project_all_Ok [OF m assms(3) this, of Map.empty]
  have p: "projects x (bm_get sel) (bm_get m)" "projection_wf \<lparr>domains = m\<rparr>"
    by (simp_all add: projects_def projection_wf_def projection_valid_def keyed_valid_def named_domains_def
        bm_get_conv_map_of [of sel])
  have len: "length wire \<le> isize_max" using assms(5) prep by simp
  note dec = protected_wire_decodes [OF assms(1,2) _ part wire len, unfolded SyncProjection_from_domains_def, OF p(2)]
  from pending_single [OF dec] p show ?thesis by (auto simp: prep)
qed

lemma pending_publication_roundtrip_witness:
  "\<exists>prep q. prepare_recovery_handoff plain_aead (Some sample_nonce) (pair_recovery byte_domain) (OpaqueId 9) (OpaqueId 4) sample_key
       (bm_insert byte_key (bs_from_list [OpaqueId 5]) bm_empty) = Ok prep \<and>
     decode_pending_recovery_publication plain_aead sample_key (OpaqueId 9) (OpaqueId 4) (prh_objects prep) = Ok q \<and> projection_wf q"
proof -
  let ?sel = "bm_insert byte_key (bs_from_list [OpaqueId 5 :: RevisionId]) bm_empty"
  obtain clear where clear: "encode_scalar_projection byte_projection = Ok clear" "length clear = 118"
    using byte_projection_encodes by blast
  have "is_ok (fst (LocalScalarDomain_handoff byte_domain (bs_iter (bs_from_list [OpaqueId 5]))))" by code_simp
  then obtain u where hand: "fst (LocalScalarDomain_handoff byte_domain (bs_iter (bs_from_list [OpaqueId 5]))) = Ok u" by (auto simp: is_ok_iff)
  have reg: "closure_register byte_register (bs_from_list [OpaqueId 5]) = Ok byte_register" by code_simp
  have "project_domain (pair_recovery byte_domain) bm_empty (byte_key, bs_from_list [OpaqueId 5]) = Ok (bm_insert byte_key byte_register bm_empty)"
    using hand reg pair_recovery_restore [OF byte_domain_wf]
    by (simp add: project_domain_def bs_is_empty_iff LocalScalarDomain_causal_def byte_domain_def del: bm_is_empty_iff)
  moreover have "SyncProjection_from_domains (bm_insert byte_key byte_register bm_empty) = byte_projection"
    by (simp add: SyncProjection_from_domains_def byte_projection_def sample_projection_def)
  ultimately have "\<exists>wire. prepare_recovery_handoff plain_aead (Some sample_nonce) (pair_recovery byte_domain) (OpaqueId 9) (OpaqueId 4)
      sample_key ?sel = Ok \<lparr>prh_revision_ids = ?sel, prh_publication_id = OpaqueId 4, prh_objects = [wire]\<rparr> \<and> length wire \<le> isize_max"
    using clear byte_projection_nonempty
    by (simp add: prepare_recovery_handoff_def bm_entries_single protect_scalar_part_def validate_part_metadata_def protect_def
        protect_with_nonce_def plain_aead_def encode_protected_sync_part_def validate_metadata_def isize_max_def PROT_MAGIC_def PART_MAGIC_def)
  then obtain wire where prep: "prepare_recovery_handoff plain_aead (Some sample_nonce) (pair_recovery byte_domain) (OpaqueId 9) (OpaqueId 4)
      sample_key ?sel = Ok \<lparr>prh_revision_ids = ?sel, prh_publication_id = OpaqueId 4, prh_objects = [wire]\<rparr>" and "length wire \<le> isize_max" by blast
  moreover have "length sample_nonce = 24" by simp
  ultimately show ?thesis
    using pending_publication_roundtrip [OF plain_aead_correct _ pair_recovery_wf [OF byte_domain_wf] prep] by auto
qed

lemma pending_decode_valid:
  assumes "decode_pending_recovery_publication cipher key continuum pub objs = Ok q"
  shows "projection_valid q"
proof -
  let ?st0 = "\<lparr>pd_inbox = MultipartInbox_new, pd_completed = None, pd_seen = bm_empty\<rparr>"
  let ?I = "\<lambda>st. inbox_wf (pd_inbox st) \<and> (\<forall>p. pd_completed st = Some p \<longrightarrow> projection_wf p)"
  from assms obtain st where run: "try_fold (assemble_pending cipher key continuum pub) ?st0 objs = Ok st" and q: "pd_completed st = Some q"
    by (auto simp: decode_pending_recovery_publication_def split: if_splits result.splits option.splits)
  from run have "?I st"
  proof (rule try_fold_invariant)
    fix a b obj assume inv: "?I a" and step: "assemble_pending cipher key continuum pub a obj = Ok b"
    show "?I b"
    proof (cases "obj \<in> bs_set (pd_seen a)")
      case False
      with step obtain part where part: "decode_protected_sync_part obj = Ok part"
        by (auto simp: assemble_pending_def Let_def split: result.splits)
      obtain res inbox where ing: "MultipartInbox_ingest cipher (pd_inbox a) key continuum part = (res, inbox)" by fastforce
      with ingest_wf [OF conjunct1 [OF inv], of cipher key continuum part] step False part inv show ?thesis
        by (auto simp: assemble_pending_def Let_def split: if_splits result.splits option.splits)
    qed (use step inv in \<open>simp add: assemble_pending_def\<close>)
  qed (simp add: inbox_new_wf)
  with q show ?thesis by (simp add: projection_wf_def)
qed

lemma recovery_arrived:
  fixes tr :: "('t, 'r, 'te) OpaqueTransport" and persist :: "('st, 'se) persist_fn" and cursors :: "('r, 'ce) TransportCursorCodec"
    and codec :: "(LocalScalarRecoveryState, 'tse) TrustedStateCodec"
  assumes "recovery_wf x" and "arrived (recovery_evidence cipher spec) out rec p"
    and "catch_up_scalar_recovery_state cipher persist codec cursors tr
         \<lparr>rcu_key = rr_key spec, rcu_continuum_id = rr_continuum_id spec,
          rcu_pre_observation_revision_ids = rr_pre_observation_revision_ids spec\<rparr> x rec st t =
         ((Ok out :: (_, ('te, 'tse, 'se, 'ce) ScalarRecoveryCatchUpError) result), x', rec', st', t')"
  shows "\<exists>head objs projections combined entry pending.
     fetch_from_durable_cursor tr cursors rec t = (Ok (Changed head objs), t') \<and>
     decode_complete_scalar_projections cipher (rr_key spec) (rr_continuum_id spec) objs =
       (Ok projections :: (_, ('te, 'tse, 'se, 'ce) ScalarRecoveryCatchUpError) result) \<and>
     try_fold (SyncProjection_merge ScalarRegister_merge) SyncProjection_new projections = Ok combined \<and>
     bm_get (outbox rec) p = Some entry \<and>
     decode_pending_recovery_publication cipher (rr_key spec) (rr_continuum_id spec) p (oe_objects entry) = Ok pending \<and>
     (\<forall>key reg. SyncProjection_get pending key = Some reg \<longrightarrow>
        (\<exists>remote. SyncProjection_get combined key = Some remote \<and> known reg \<subseteq> known remote))"
proof -
  from assms(2) obtain head n observed sealed e where out: "out = CatchUp_Applied head n observed sealed"
    and e: "bm_get (outbox rec) p = Some e" "recovery_evidence cipher spec observed p e = Ok True"
    by (auto simp: arrived_def split: catch_up_outcome.splits)
  from e(2) obtain q where q: "decode_pending_recovery_publication cipher (rr_key spec) (rr_continuum_id spec) p (oe_objects e) = Ok q"
    "projection_is_observed q observed" by (auto simp: recovery_evidence_def split: result.splits)
  note seen = q(2) [unfolded projection_is_observed_iff [OF pending_decode_valid [OF q(1)]]]
  from assms(1,3) [unfolded out] obtain objs projections combined where
    "fetch_from_durable_cursor tr cursors rec t = (Ok (Changed head objs), t')"
    "decode_complete_scalar_projections cipher (rr_key spec) (rr_continuum_id spec) objs =
      (Ok projections :: (_, ('te, 'tse, 'se, 'ce) ScalarRecoveryCatchUpError) result)"
    "try_fold (SyncProjection_merge ScalarRegister_merge) SyncProjection_new projections = Ok combined"
    and ids: "\<And>key ids. bm_get observed key = Some ids \<Longrightarrow>
      \<exists>remote. SyncProjection_get combined key = Some remote \<and> bs_set ids = known remote"
    by (rule catch_up_recovery_observed) simp_all
  moreover have "\<exists>remote. SyncProjection_get combined key = Some remote \<and> known reg \<subseteq> known remote"
    if "SyncProjection_get q key = Some reg" for key reg
    using seen that ids by (fastforce simp: SyncProjection_get_def)
  ultimately show ?thesis using e(1) q(1) by blast
qed

text \<open>
  C24. Resume of a container: after a pass over any set of pending publications, successful or
  failed at any point, live container and durable record are still paired and nothing was added to
  the outbox; a publication left it only if its exact durable objects authenticate as one complete
  publication whose every revision, domain by domain, arrived in this pass, or the transport
  acknowledged the complete current set against the cursor the pass arrived at.
\<close>

theorem recovery_resume_retires_only_proven:
  fixes res :: "('r ScalarRecoveryResumeReport, ('te, MultiScalarTrustedStateCodecError, 'se, 'ce) ScalarRecoveryResumeError) result"
  assumes "resume_scalar_recovery_outbox_set cipher persist multi_trusted_state_codec cursors tr spec x rec st t = (res, x', rec', st', t')"
    and "recovery_wf x" and "recovery_paired x (trusted_state rec)" and "length (trusted_state rec') \<le> isize_max"
  shows "recovery_wf x' \<and> recovery_paired x' (trusted_state rec') \<and> res \<noteq> Err RO_Panicked \<and>
    bm_get (outbox rec') \<subseteq>\<^sub>m bm_get (outbox rec) \<and>
    (\<forall>p \<in> dom (bm_get (outbox rec)) - dom (bm_get (outbox rec')). \<exists>out rec1 st1 t1.
       catch_up_scalar_recovery_state cipher persist multi_trusted_state_codec cursors tr
         \<lparr>rcu_key = rr_key spec, rcu_continuum_id = rr_continuum_id spec,
          rcu_pre_observation_revision_ids = rr_pre_observation_revision_ids spec\<rparr> x rec st t =
         ((Ok out :: (_, ('te, MultiScalarTrustedStateCodecError, 'se, 'ce) ScalarRecoveryCatchUpError) result), x', rec1, st1, t1) \<and>
       ((\<exists>head objs projections combined entry pending.
           fetch_from_durable_cursor tr cursors rec t = (Ok (Changed head objs), t1) \<and>
           decode_complete_scalar_projections cipher (rr_key spec) (rr_continuum_id spec) objs =
             (Ok projections :: (_, ('te, MultiScalarTrustedStateCodecError, 'se, 'ce) ScalarRecoveryCatchUpError) result) \<and>
           try_fold (SyncProjection_merge ScalarRegister_merge) SyncProjection_new projections = Ok combined \<and>
           bm_get (outbox rec) p = Some entry \<and>
           decode_pending_recovery_publication cipher (rr_key spec) (rr_continuum_id spec) p (oe_objects entry) = Ok pending \<and>
           (\<forall>key reg. SyncProjection_get pending key = Some reg \<longrightarrow>
              (\<exists>remote. SyncProjection_get combined key = Some remote \<and> known reg \<subseteq> known remote))) \<or>
        p \<in> current_pubs rec1 \<and> (\<exists>expected head. decode_cursor cursors (applied_cursor rec1) = Ok expected \<and>
          tr_publish tr t1 expected (offered_objects rec1) = (Ok (Published head), t'))))"
proof -
  note safe = recovery_pass.resume_pass_safe [OF assms(1) [unfolded resume_scalar_recovery_outbox_set_def] assms(2-4)]
  show ?thesis
  proof (intro conjI ballI, goal_cases)
    case (5 p)
    with safe obtain out rec1 st1 t1 where run: "catch_up_scalar_recovery_state cipher persist multi_trusted_state_codec cursors tr
         \<lparr>rcu_key = rr_key spec, rcu_continuum_id = rr_continuum_id spec,
          rcu_pre_observation_revision_ids = rr_pre_observation_revision_ids spec\<rparr> x rec st t =
         ((Ok out :: (_, ('te, MultiScalarTrustedStateCodecError, 'se, 'ce) ScalarRecoveryCatchUpError) result), x', rec1, st1, t1)"
      and why: "arrived (recovery_evidence cipher spec) out rec p \<or> p \<in> current_pubs rec1 \<and> (\<exists>expected head.
        decode_cursor cursors (applied_cursor rec1) = Ok expected \<and>
        tr_publish tr t1 expected (offered_objects rec1) = (Ok (Published head), t'))" by blast
    note fetched = recovery_arrived [OF assms(2) _ run]
    show ?case
      by (rule exI [of _ out], rule exI [of _ rec1], rule exI [of _ st1], rule exI [of _ t1], rule conjI [OF run],
          rule disj_forward [OF why], erule fetched, assumption)
  qed (use safe in simp_all)
qed

theorem recovery_resume_retires_only_proven_witness:
  "\<exists>wire trusted rec' st'. byte_wire wire \<and>
     resume_scalar_recovery_outbox_set plain_aead sample_persist multi_trusted_state_codec sample_codec (range_transport [wire])
       \<lparr>rr_key = sample_key, rr_continuum_id = OpaqueId 9, rr_pre_observation_revision_ids = bm_empty\<rparr>
       (pair_recovery byte_domain) (stale_record trusted wire) None 0 =
       ((Ok \<lparr>rep_catch_up = CatchUp_Applied 5 1 (bm_insert byte_key (bs_from_list [OpaqueId 5]) bm_empty) bm_empty,
           rep_observed_reconciled = bs_from_list [OpaqueId 4], rep_action = Action_None\<rparr> ::
         (_, (unit, MultiScalarTrustedStateCodecError, unit, unit) ScalarRecoveryResumeError) result),
        pair_recovery byte_domain, rec', st', 1) \<and>
     recovery_paired (pair_recovery byte_domain) (trusted_state rec') \<and> outbox rec' = bm_empty"
proof -
  obtain wire where wire: "byte_wire wire" using byte_wire_exists by blast
  obtain trusted where trusted: "encode_multi_scalar_recovery_state (pair_recovery byte_domain) = Ok trusted" "length trusted = 319"
    using pair_recovery_encodes by blast
  note wf = pair_recovery_wf [OF byte_domain_wf]
  have paired: "recovery_paired (pair_recovery byte_domain) (trusted_state (stale_record trusted wire))"
    using multi_codec.decode_encode [OF wf, of trusted] trusted
    by (simp add: recovery_paired_def stale_record_def multi_trusted_state_codec_def isize_max_def)
  from sample_recovery_run [OF wire byte_domain_wf sample_observations(2), of "stale_record trusted wire" 0] obtain rec1 st1 bs where
    run: "catch_up_scalar_recovery_state plain_aead sample_persist multi_trusted_state_codec sample_codec
      (range_transport [wire]) sample_recovery_spec (pair_recovery byte_domain) (stale_record trusted wire) None 0 =
      ((Ok (CatchUp_Applied 5 1 (bm_insert byte_key (bs_from_list [OpaqueId 5]) bm_empty) bm_empty) ::
        (_, (unit, MultiScalarTrustedStateCodecError, unit, unit) ScalarRecoveryCatchUpError) result),
       pair_recovery byte_domain, rec1, st1, 1)"
    and rec1: "rec1 = (stale_record trusted wire)\<lparr>trusted_state := bs, applied_cursor := Some (TransportCursor [5])\<rparr>" and bs: "length bs = 319"
    by auto
  have set1: "bs_iter (bs_from_list [OpaqueId 4 :: PublicationId]) = [OpaqueId 4]" by (rule bs_iter_singleton) simp
  have set1': "bs_insert (OpaqueId 4 :: PublicationId) bm_empty = bs_from_list [OpaqueId 4]" by (simp add: bs_eq_iff)
  have empty: "bm_remove (OpaqueId 4 :: PublicationId) (bm_insert (OpaqueId 4) (x :: DurableOutboxEntry) bm_empty) = bm_empty" for x
    by (rule bm_eqI) simp
  have obs: "projection_is_observed byte_projection (bm_insert byte_key (bs_from_list [OpaqueId 5]) bm_empty)" by code_simp
  have dec: "decode_pending_recovery_publication plain_aead sample_key (OpaqueId 9) (OpaqueId 4) [wire] = Ok byte_projection"
    using byte_wire_part [OF wire] by (metis pending_single)
  let ?rec' = "\<lparr>trusted_state = bs, applied_cursor = Some (TransportCursor [5]), outbox = bm_empty\<rparr>"
  have full: "resume_scalar_recovery_outbox_set plain_aead sample_persist multi_trusted_state_codec sample_codec (range_transport [wire])
       \<lparr>rr_key = sample_key, rr_continuum_id = OpaqueId 9, rr_pre_observation_revision_ids = bm_empty\<rparr>
       (pair_recovery byte_domain) (stale_record trusted wire) None 0 =
       ((Ok \<lparr>rep_catch_up = CatchUp_Applied 5 1 (bm_insert byte_key (bs_from_list [OpaqueId 5]) bm_empty) bm_empty,
           rep_observed_reconciled = bs_from_list [OpaqueId 4], rep_action = Action_None\<rparr> ::
         (_, (unit, MultiScalarTrustedStateCodecError, unit, unit) ScalarRecoveryResumeError) result),
        pair_recovery byte_domain, ?rec', Some ?rec', 1)"
    unfolding resume_scalar_recovery_outbox_set_def resume_outbox_pass_def Let_def ScalarRecoveryResumeSpec.select_convs
      run prod.case result.case
    using set1 set1' empty obs dec
    by (simp add: settle_outbox_set_def is_baseline_unavailable_def
        bs_is_empty_iff stale_record_def rec1 bm_keys_def bm_entries_single classify_publication_def reconcile_stale_def
        observe_publication_def recovery_evidence_def commit_reconciled_outbox_batch_def sample_codec_def sample_persist_def
        persist_and_swap_def DurableSyncRecord_retire_outbox_def del: bm_is_empty_iff)
  have "length (trusted_state ?rec') \<le> isize_max" using bs by (simp add: isize_max_def)
  note safe = recovery_resume_retires_only_proven [OF full wf paired this]
  show ?thesis
    by (intro exI [of _ wire] exI [of _ trusted] exI [of _ ?rec'] exI [of _ "Some ?rec'"] conjI wire full)
      (use safe in \<open>simp_all only: DurableSyncRecord.select_convs\<close>)
qed

text \<open>
  C34. No cycle spins: whatever the transport answers and however the head moves, each of the three
  bounded cycles makes at most two rounds of calls, a round being at most one fetch followed by at
  most one publication, and starts a second round only when the first pass ended in a conflict.
\<close>

theorem resume_cycles_bounded:
  fixes tr :: "('t, 'r, 'te) OpaqueTransport" and persist :: "('st, 'se) persist_fn" and cursors :: "('r, 'ce) TransportCursorCodec"
    and res1 :: "('r ScalarResumeReport resume_cycle_report, ('te, TrustedStateCodecError, 'se, 'ce) ScalarResumeError) result"
    and res2 :: "('r ScalarBatchResumeReport resume_cycle_report, ('te, TrustedStateCodecError, 'se, 'ce) ScalarBatchResumeError) result"
    and res3 :: "('r ScalarRecoveryResumeReport resume_cycle_report,
      ('te, MultiScalarTrustedStateCodecError, 'se, 'ce) ScalarRecoveryResumeError) result"
  shows "(resume_single_scalar_domain_bounded cipher persist scalar_trusted_state_codec cursors tr spec d rec st t = (res1, d', rec', st', t') \<longrightarrow>
      within_two_rounds tr is_outbox_conflict (resume_single_scalar_domain cipher persist scalar_trusted_state_codec cursors tr spec d rec st t ::
        (_, ('te, TrustedStateCodecError, 'se, 'ce) ScalarResumeError) result \<times> _) t t') \<and>
    (resume_scalar_outbox_set_bounded cipher persist scalar_trusted_state_codec cursors tr spec d rec st t = (res2, d', rec', st', t') \<longrightarrow>
      within_two_rounds tr is_action_conflict (resume_scalar_outbox_set cipher persist scalar_trusted_state_codec cursors tr spec d rec st t ::
        (_, ('te, TrustedStateCodecError, 'se, 'ce) ScalarBatchResumeError) result \<times> _) t t') \<and>
    (resume_scalar_recovery_outbox_set_bounded cipher persist multi_trusted_state_codec cursors tr key continuum pre x rec st t =
        (res3, x', rec', st', t') \<longrightarrow>
      within_two_rounds tr is_action_conflict (resume_scalar_recovery_outbox_set cipher persist multi_trusted_state_codec cursors tr
          \<lparr>rr_key = key, rr_continuum_id = continuum, rr_pre_observation_revision_ids = pre\<rparr> x rec st t ::
        (_, ('te, MultiScalarTrustedStateCodecError, 'se, 'ce) ScalarRecoveryResumeError) result \<times> _) t t')"
  unfolding resume_single_scalar_domain_bounded_def resume_scalar_outbox_set_bounded_def resume_scalar_outbox_set_def
    resume_scalar_recovery_outbox_set_bounded_def resume_scalar_recovery_outbox_set_def
  by (intro conjI impI; erule bounded_cycle_calls [rotated])
    (rule resume_single_outcome [THEN conjunct2, THEN conjunct1] single_pass.resume_pass_calls recovery_pass.resume_pass_calls; assumption)+

text \<open>A transport that refuses every publication: the cycle tries twice and stops.\<close>

theorem resume_cycles_bounded_witness:
  "\<exists>rep. resume_single_scalar_domain_bounded plain_aead sample_persist scalar_trusted_state_codec sample_codec count_transport sample_spec
       trusted_clean (stale_record [] [8]) None 0 =
       ((Ok rep :: (_, (unit, TrustedStateCodecError, unit, unit) ScalarResumeError) result), trusted_clean, stale_record [] [8], None, 2) \<and>
     within_two_rounds count_transport is_outbox_conflict (resume_single_scalar_domain plain_aead sample_persist
       scalar_trusted_state_codec sample_codec count_transport sample_spec trusted_clean (stale_record [] [8]) None 0 ::
         (_, (unit, TrustedStateCodecError, unit, unit) ScalarResumeError) result \<times> _) 0 2"
proof -
  let ?rep = "\<lparr>srr_catch_up = CatchUp_UpToDate None, srr_outbox = Outbox_Conflict (OpaqueId 4) None\<rparr> :: u8 ScalarResumeReport"
  have pass: "resume_single_scalar_domain plain_aead sample_persist scalar_trusted_state_codec sample_codec count_transport sample_spec
      trusted_clean (stale_record [] [8]) None t =
      ((Ok ?rep :: (_, (unit, TrustedStateCodecError, unit, unit) ScalarResumeError) result),
       trusted_clean, stale_record [] [8], None, Suc t)" for t
    by (simp add: resume_single_scalar_domain_def stale_record_def bm_len_def bm_keys_def bm_entries_single
        catch_up_single_scalar_domain_def fetch_from_durable_cursor_def decode_cursor_def count_transport_def
        resume_publication_def is_baseline_unavailable_def resume_current_publication_def publish_staged_def)
  have full: "resume_single_scalar_domain_bounded plain_aead sample_persist scalar_trusted_state_codec sample_codec count_transport sample_spec
       trusted_clean (stale_record [] [8]) None 0 =
       ((Ok \<lparr>cycle_initial = ?rep, cycle_post_conflict = Some ?rep\<rparr> :: (_, (unit, TrustedStateCodecError, unit, unit) ScalarResumeError) result),
        trusted_clean, stale_record [] [8], None, 2)"
    by (simp add: resume_single_scalar_domain_bounded_def bounded_cycle_def pass is_outbox_conflict_def numeral_2_eq_2)
  note within = resume_cycles_bounded [THEN conjunct1, rule_format, OF full]
  show ?thesis by (intro exI [of _ "\<lparr>cycle_initial = ?rep, cycle_post_conflict = Some ?rep\<rparr>"] conjI full within)
qed

text \<open>A run of calls on the guarded transport in the foreground is that run on the wrapped one.\<close>

lemma foreground_calls_reach_inner:
  assumes "ft_foreground g" and "\<forall>e \<in> set calls. e \<notin> {EnterForeground, EnterBackground}"
  shows "ft_inner (foldl (\<lambda>g e. apply_call (foreground_transport tr) e g) g calls) = foldl (\<lambda>t e. apply_call tr e t) (ft_inner g) calls"
proof -
  have "ft_inner (foldl (gate_step tr) g calls) = foldl (\<lambda>t e. apply_call tr e t) (ft_inner g) (foreground_calls True calls)"
    using gate_run [of tr g calls] assms(1) by simp
  moreover have "foldl (gate_step tr) g calls = foldl (\<lambda>g e. apply_call (foreground_transport tr) e g) g calls" for g
    using assms(2)
  proof (induction calls arbitrary: g)
    case (Cons e es)
    then have "gate_step tr g e = apply_call (foreground_transport tr) e g" by (cases e) auto
    with Cons show ?case by simp
  qed simp
  moreover have "foreground_calls True calls = calls"
    using assms(2)
  proof (induction calls)
    case (Cons e es)
    then show ?case by (cases e) auto
  qed simp
  ultimately show ?thesis by simp
qed

lemma foreground_calls_keep_flag:
  "ft_foreground (foldl (\<lambda>g e. apply_call (foreground_transport tr) e g) g es) = ft_foreground g"
proof (induction es arbitrary: g)
  case (Cons e es)
  have "ft_foreground (apply_call (foreground_transport tr) e g) = ft_foreground g"
    by (cases e) (simp_all add: foreground_transport_def gated_def split: prod.split result.split)
  with Cons show ?case by simp
qed simp

lemma round_has_calls: "round_of_calls calls \<Longrightarrow> e \<in> set calls \<Longrightarrow> e \<notin> {EnterForeground, EnterBackground}"
  by (cases calls rule: round_of_calls.cases) auto

text \<open>
  C35. Lifecycle safety of recovery: a backgrounded runtime, as every runtime starts, refuses a cycle
  before any transport call and changes neither the transport, the container, the record nor the store;
  in the foreground a whole cycle reaches the wrapped transport by at most two rounds of one fetch and
  one publication, and the lifecycle is left as it was.
\<close>

theorem foreground_cycle_safe:
  fixes tr :: "('t, 'r, 'te) OpaqueTransport" and persist :: "('st, 'se) persist_fn" and cursors :: "('r, 'ce) TransportCursorCodec"
    and res :: "('r ScalarRecoveryResumeReport resume_cycle_report,
      ('te ForegroundTransportError, MultiScalarTrustedStateCodecError, 'se, 'ce) ScalarRecoveryResumeError) result"
  assumes "resume_scalar_recovery cipher persist multi_trusted_state_codec cursors tr spec rt x rec st = (res, rt', x', rec', st')"
  shows "\<not> ForegroundRecoveryRuntime_is_foreground (ForegroundRecoveryRuntime_new t) \<and>
    (if ForegroundRecoveryRuntime_is_foreground rt then
       \<exists>first second. round_of_calls first \<and> round_of_calls second \<and>
         calls_lead tr (ft_inner (frt_transport rt)) (first @ second) (ft_inner (frt_transport rt')) \<and>
         ForegroundRecoveryRuntime_is_foreground rt'
     else (\<exists>e. res = Err (RO_CatchUp (RCU_Io e)) \<and> (e = Io_Transport Backgrounded \<or> (\<exists>ce. e = Io_Cursor ce))) \<and>
       rt' = rt \<and> x' = x \<and> rec' = rec \<and> st' = st)"
proof (cases "ForegroundRecoveryRuntime_is_foreground rt")
  case True
  let ?tr = "foreground_transport tr"
  obtain g where run: "resume_scalar_recovery_outbox_set_bounded cipher persist multi_trusted_state_codec cursors ?tr
      (frc_key spec) (frc_continuum_id spec) (frc_pre_observation_revision_ids spec) x rec st (frt_transport rt) = (res, x', rec', st', g)"
    and rt': "rt' = rt\<lparr>frt_transport := g\<rparr>"
    using assms by (auto simp: resume_scalar_recovery_def split: prod.splits)
  have "within_two_rounds ?tr is_action_conflict (resume_scalar_recovery_outbox_set cipher persist multi_trusted_state_codec cursors ?tr
      \<lparr>rr_key = frc_key spec, rr_continuum_id = frc_continuum_id spec, rr_pre_observation_revision_ids = frc_pre_observation_revision_ids spec\<rparr>
      x rec st (frt_transport rt) ::
      (_, ('te ForegroundTransportError, MultiScalarTrustedStateCodecError, 'se, 'ce) ScalarRecoveryResumeError) result \<times> _) (frt_transport rt) g"
    using run unfolding resume_scalar_recovery_outbox_set_bounded_def resume_scalar_recovery_outbox_set_def
    by (rule bounded_cycle_calls [rotated]) (rule recovery_pass.resume_pass_calls)
  then obtain first second where c: "calls_lead ?tr (frt_transport rt) (first @ second) g" "round_of_calls first" "round_of_calls second"
    by (auto simp: within_two_rounds_def)
  have "calls_lead tr (ft_inner (frt_transport rt)) (first @ second) (ft_inner g)"
    unfolding c(1) using True c(2,3) round_has_calls
    by (intro foreground_calls_reach_inner) (auto simp: ForegroundRecoveryRuntime_is_foreground_def is_foreground_def)
  moreover have "ft_foreground g" unfolding c(1) using True
    by (simp add: foreground_calls_keep_flag ForegroundRecoveryRuntime_is_foreground_def is_foreground_def)
  ultimately show ?thesis using c(2,3) True rt'
    by (auto simp: ForegroundRecoveryRuntime_is_foreground_def ForegroundRecoveryRuntime_new_def guard_def is_foreground_def)
next
  case False
  then have closed: "tr_fetch_since (foreground_transport tr) (frt_transport rt) known = (Err Backgrounded, frt_transport rt)" for known
    by (simp add: foreground_transport_def gated_def ensure_foreground_def ForegroundRecoveryRuntime_is_foreground_def is_foreground_def)
  have "\<exists>e. fetch_from_durable_cursor (foreground_transport tr) cursors rec (frt_transport rt) = (Err e, frt_transport rt) \<and>
      (e = Io_Transport Backgrounded \<or> (\<exists>ce. e = Io_Cursor ce))"
    by (cases "decode_cursor cursors (applied_cursor rec)") (simp_all add: fetch_from_durable_cursor_def closed)
  with assms False show ?thesis
    by (auto simp: resume_scalar_recovery_def resume_scalar_recovery_outbox_set_bounded_def bounded_cycle_def
        resume_scalar_recovery_outbox_set_def resume_outbox_pass_def catch_up_scalar_recovery_state_def
        ForegroundRecoveryRuntime_is_foreground_def ForegroundRecoveryRuntime_new_def guard_def is_foreground_def)
qed

theorem foreground_cycle_safe_witness:
  "\<exists>res. resume_scalar_recovery plain_aead sample_persist multi_trusted_state_codec sample_codec count_transport
       \<lparr>frc_key = sample_key, frc_continuum_id = OpaqueId 9, frc_pre_observation_revision_ids = bm_empty\<rparr>
       (ForegroundRecoveryRuntime_new 0) (pair_recovery byte_domain) (stale_record [] [8]) None =
       ((res :: (_, (unit ForegroundTransportError, MultiScalarTrustedStateCodecError, unit, unit) ScalarRecoveryResumeError) result),
        ForegroundRecoveryRuntime_new 0, pair_recovery byte_domain, stale_record [] [8], None) \<and> \<not> is_ok res"
proof -
  obtain res rt' x' rec' st' where run: "resume_scalar_recovery plain_aead sample_persist multi_trusted_state_codec sample_codec count_transport
       \<lparr>frc_key = sample_key, frc_continuum_id = OpaqueId 9, frc_pre_observation_revision_ids = bm_empty\<rparr>
       (ForegroundRecoveryRuntime_new 0) (pair_recovery byte_domain) (stale_record [] [8]) None =
       ((res :: (_, (unit ForegroundTransportError, MultiScalarTrustedStateCodecError, unit, unit) ScalarRecoveryResumeError) result),
        rt', x', rec', st')" by (metis prod_cases5)
  note safe = foreground_cycle_safe [OF run, of 0]
  from safe have "rt' = ForegroundRecoveryRuntime_new 0" "x' = pair_recovery byte_domain" "rec' = stale_record [] [8]" "st' = None"
    "\<not> is_ok res" by (auto split: if_splits)
  with run show ?thesis by auto
qed

end
