(* ===== verification/Durability.thy ===== *)
theory Durability
  imports APC_Prelude
begin

text \<open>
  The durability coordinator of \<^verbatim>\<open>apc-core/src/durability.rs\<close>: the backend trait as a record of
  its five methods over a backend state, and \<^verbatim>\<open>commit_durable\<close>. The documented contract of the
  trait is the locale \<open>durability_backend\<close>; what the coordinator promises is proved in it once.
\<close>

section \<open>Fallible operations on a state\<close>

text \<open>A sequence of \<^verbatim>\<open>?\<close> statements over a state that also an error path has changed.\<close>

type_synonym ('s, 'a, 'e) io = "'s \<Rightarrow> ('a, 'e) result \<times> 's"

definition io_return :: "'a \<Rightarrow> ('s, 'a, 'e) io" where
  "io_return x s = (Ok x, s)"

definition io_fail :: "'e \<Rightarrow> ('s, 'a, 'e) io" where
  "io_fail e s = (Err e, s)"

definition io_bind :: "('s, 'a, 'e) io \<Rightarrow> ('a \<Rightarrow> ('s, 'b, 'e) io) \<Rightarrow> ('s, 'b, 'e) io" where
  "io_bind m f s = (case m s of (Err e, s') \<Rightarrow> (Err e, s') | (Ok x, s') \<Rightarrow> f x s')"

lemma io_simps [simp]:
  "io_return x s = (Ok x, s)" "io_fail e s = (Err e, s)"
  by (simp_all add: io_return_def io_fail_def)

lemma io_bind_Ok:
  "io_bind m f s = (Ok y, s'') \<longleftrightarrow> (\<exists>x s'. m s = (Ok x, s') \<and> f x s' = (Ok y, s''))"
  by (auto simp: io_bind_def split: prod.splits result.splits)

lemma io_bind_Err:
  "io_bind m f s = (Err e, s'') \<longleftrightarrow>
     m s = (Err e, s'') \<or> (\<exists>x s'. m s = (Ok x, s') \<and> f x s' = (Err e, s''))"
  by (auto simp: io_bind_def split: prod.splits result.splits)

lemma io_bind_step [simp]:
  "m s = (Ok x, s') \<Longrightarrow> io_bind m f s = f x s'" "m s = (Err e, s') \<Longrightarrow> io_bind m f s = (Err e, s')"
  by (simp_all add: io_bind_def)

text \<open>Partial correctness of such a sequence, error results included.\<close>

definition io_valid :: "('s \<Rightarrow> bool) \<Rightarrow> ('s, 'a, 'e) io \<Rightarrow> (('a, 'e) result \<Rightarrow> 's \<Rightarrow> bool) \<Rightarrow> bool" where
  "io_valid P m Q \<longleftrightarrow> (\<forall>s r s'. P s \<longrightarrow> m s = (r, s') \<longrightarrow> Q r s')"

lemma io_validD: "io_valid P m Q \<Longrightarrow> P s \<Longrightarrow> m s = (r, s') \<Longrightarrow> Q r s'"
  by (auto simp: io_valid_def)

lemma io_valid_conseq:
  "io_valid P m Q \<Longrightarrow> (\<And>s. P' s \<Longrightarrow> P s) \<Longrightarrow> (\<And>r s. Q r s \<Longrightarrow> Q' r s) \<Longrightarrow> io_valid P' m Q'"
  unfolding io_valid_def by blast

lemma io_valid_bind:
  assumes "io_valid P m R" and "\<And>x. io_valid (R (Ok x)) (f x) Q" and "\<And>e s. R (Err e) s \<Longrightarrow> Q (Err e) s"
  shows "io_valid P (io_bind m f) Q"
  unfolding io_valid_def
proof (intro allI impI)
  fix s r s'
  assume P: "P s" and run: "io_bind m f s = (r, s')"
  obtain r1 s1 where m: "m s = (r1, s1)" by fastforce
  note R = io_validD [OF assms(1) P m]
  show "Q r s'"
  proof (cases r1)
    case (Ok x)
    with run m have "f x s1 = (r, s')" by simp
    with R Ok io_validD [OF assms(2)] show ?thesis by blast
  next
    case (Err e)
    with run m have "r = Err e" "s' = s1" by simp_all
    with R Err assms(3) show ?thesis by simp
  qed
qed

lemma io_valid_step:
  assumes "io_valid P m R" and "\<And>s. P' s \<Longrightarrow> P s"
    and "\<And>x. io_valid (R (Ok x)) (f x) Q" and "\<And>e s. R (Err e) s \<Longrightarrow> Q (Err e) s"
  shows "io_valid P' (io_bind m f) Q"
proof -
  have "io_valid P' m R" by (rule io_valid_conseq [OF assms(1)]) (use assms(2) in auto)
  then show ?thesis by (rule io_valid_bind) (use assms(3,4) in auto)
qed

lemma io_valid_return: "(\<And>s. P s \<Longrightarrow> Q (Ok x) s) \<Longrightarrow> io_valid P (io_return x) Q"
  by (simp add: io_valid_def)

lemma io_valid_fail: "(\<And>s. P s \<Longrightarrow> Q (Err e) s) \<Longrightarrow> io_valid P (io_fail e) Q"
  by (simp add: io_valid_def)

text \<open>Progress: from \<open>P\<close> the sequence returns a success.\<close>

definition io_progress :: "('s \<Rightarrow> bool) \<Rightarrow> ('s, 'a, 'e) io \<Rightarrow> ('a \<Rightarrow> 's \<Rightarrow> bool) \<Rightarrow> bool" where
  "io_progress P m Q \<longleftrightarrow> (\<forall>s. P s \<longrightarrow> (\<exists>x s'. m s = (Ok x, s') \<and> Q x s'))"

lemma io_progress_bind:
  assumes "io_progress P m R" and "\<And>x. io_progress (R x) (f x) Q"
  shows "io_progress P (io_bind m f) Q"
  unfolding io_progress_def
proof (intro allI impI)
  fix s assume "P s"
  then obtain x s' where "m s = (Ok x, s')" "R x s'" using assms(1) unfolding io_progress_def by blast
  with assms(2) [of x] show "\<exists>y s''. io_bind m f s = (Ok y, s'') \<and> Q y s''"
    unfolding io_progress_def by simp
qed

lemma io_progress_return: "(\<And>s. P s \<Longrightarrow> Q x s) \<Longrightarrow> io_progress P (io_return x) Q"
  by (simp add: io_progress_def)

section \<open>Trait and coordinator\<close>

record ('s, 'b, 'c, 'e) DurabilityBackend =
  db_load_committed :: "('s, 'b option, 'e) io"
  db_write_candidate :: "'b \<Rightarrow> ('s, 'c, 'e) io"
  db_sync_candidate :: "'c \<Rightarrow> ('s, unit, 'e) io"
  db_publish_candidate :: "'c \<Rightarrow> ('s, unit, 'e) io"
  db_sync_committed_root :: "('s, unit, 'e) io"

definition commit_durable :: "('s, 'b, 'c, 'e) DurabilityBackend \<Rightarrow> 'b \<Rightarrow> ('s, unit, 'e) io" where
  "commit_durable backend state =
     io_bind (db_write_candidate backend state) (\<lambda>candidate.
     io_bind (db_sync_candidate backend candidate) (\<lambda>_.
     io_bind (db_publish_candidate backend candidate) (\<lambda>_.
     io_bind (db_sync_committed_root backend) (\<lambda>_. io_return ()))))"

section \<open>Contract\<close>

text \<open>
  \<open>possible s\<close> are the committed states a power loss in \<open>s\<close> may leave to recovery, \<open>visible s\<close> the
  one the running process sees. A crash picks one of the possible ones and nothing else; writing
  and syncing a candidate moves neither; publishing may add the candidate, and only the root
  barrier removes the older ones. A failing call keeps what was possible.
\<close>

locale durability_backend =
  fixes backend :: "('s, 'b, 'c, 'e) DurabilityBackend"
    and inv :: "'s \<Rightarrow> bool"
    and storable :: "'b \<Rightarrow> bool"
    and possible :: "'s \<Rightarrow> 'b option set"
    and visible :: "'s \<Rightarrow> 'b option"
    and written :: "'s \<Rightarrow> 'c \<Rightarrow> 'b \<Rightarrow> bool"
    and synced :: "'s \<Rightarrow> 'c \<Rightarrow> 'b \<Rightarrow> bool"
    and crash :: "'s \<Rightarrow> 's \<Rightarrow> bool"
    and quiet :: "'s \<Rightarrow> bool"
  assumes visible_possible: "inv s \<Longrightarrow> visible s \<in> possible s"
    and crash_recovers: "inv s \<Longrightarrow> crash s s' \<Longrightarrow> inv s' \<and> possible s' = {visible s'} \<and> visible s' \<in> possible s"
    and load_visible: "inv s \<Longrightarrow> quiet s \<Longrightarrow> fst (db_load_committed backend s) = Ok (visible s)"
    and write_law: "inv s \<Longrightarrow> storable b \<Longrightarrow> db_write_candidate backend b s = (r, s') \<Longrightarrow>
      inv s' \<and> possible s' = possible s \<and> visible s' = visible s \<and> (\<forall>c. r = Ok c \<longrightarrow> written s' c b)"
    and sync_law: "inv s \<Longrightarrow> written s c b \<Longrightarrow> db_sync_candidate backend c s = (r1, s') \<Longrightarrow>
      inv s' \<and> possible s' = possible s \<and> visible s' = visible s \<and> (r1 = Ok () \<longrightarrow> synced s' c b)"
    and publish_law: "inv s \<Longrightarrow> synced s c b \<Longrightarrow> storable b \<Longrightarrow> db_publish_candidate backend c s = (r1, s') \<Longrightarrow>
      inv s' \<and> possible s \<subseteq> possible s' \<and> possible s' \<subseteq> insert (Some b) (possible s) \<and>
      (r1 = Ok () \<longrightarrow> visible s' = Some b)"
    and root_law: "inv s \<Longrightarrow> db_sync_committed_root backend s = (r1, s') \<Longrightarrow>
      inv s' \<and> visible s' = visible s \<and> possible s' \<subseteq> possible s \<and> (r1 = Ok () \<longrightarrow> possible s' = {visible s})"
begin

text \<open>The acknowledgement boundary: success means that only the new state can be recovered.\<close>

lemma commit_Ok:
  assumes "inv s" and "storable b" and "commit_durable backend b s = (Ok (), s')"
  shows "inv s' \<and> possible s' = {Some b} \<and> visible s' = Some b"
proof -
  from assms(3) obtain c s1 s2 s3 where
    w: "db_write_candidate backend b s = (Ok c, s1)" and y: "db_sync_candidate backend c s1 = (Ok (), s2)"
    and p: "db_publish_candidate backend c s2 = (Ok (), s3)" and r: "db_sync_committed_root backend s3 = (Ok (), s')"
    by (auto simp: commit_durable_def io_bind_Ok)
  from write_law [OF assms(1,2) w] have "inv s1" "written s1 c b" by simp_all
  from sync_law [OF this y] have "inv s2" "synced s2 c b" by simp_all
  from publish_law [OF this assms(2) p] have "inv s3" "visible s3 = Some b" by simp_all
  with root_law [OF this(1) r] show ?thesis by simp
qed

text \<open>An error leaves an old state or the new one, never anything between.\<close>

lemma commit_Err:
  assumes "inv s" and "storable b" and "commit_durable backend b s = (Err e, s')"
  shows "inv s' \<and> possible s' \<subseteq> insert (Some b) (possible s)"
proof -
  obtain r1 s1 where w: "db_write_candidate backend b s = (r1, s1)" by fastforce
  note w1 = write_law [OF assms(1,2) w]
  show ?thesis
  proof (cases r1)
    case (Err e1)
    with w w1 assms(3) show ?thesis by (auto simp: commit_durable_def)
  next
    case (Ok c)
    obtain r2 s2 where y: "db_sync_candidate backend c s1 = (r2, s2)" by fastforce
    have "inv s1" "written s1 c b" using w1 Ok by simp_all
    note y1 = sync_law [OF this y]
    show ?thesis
    proof (cases r2)
      case (Err e1)
      with w Ok y w1 y1 assms(3) show ?thesis by (auto simp: commit_durable_def)
    next
      case ok2: (Ok u)
      obtain r3 s3 where p: "db_publish_candidate backend c s2 = (r3, s3)" by fastforce
      have "inv s2" "synced s2 c b" using y1 ok2 by simp_all
      note p1 = publish_law [OF this assms(2) p]
      show ?thesis
      proof (cases r3)
        case (Err e1)
        with w Ok y ok2 p w1 y1 p1 assms(3) show ?thesis by (auto simp: commit_durable_def)
      next
        case ok3: (Ok u)
        obtain r4 s4 where rt: "db_sync_committed_root backend s3 = (r4, s4)" by fastforce
        from assms(3) w Ok y ok2 p ok3 rt have "s4 = s'"
          by (cases r4) (simp_all add: commit_durable_def io_bind_def)
        with root_law [OF _ rt] w1 y1 p1 show ?thesis by blast
      qed
    qed
  qed
qed

text \<open>What recovery finds after a power loss at the end of a commit, acknowledged or not.\<close>

lemma crash_after_commit:
  assumes "inv s" and "storable b" and "commit_durable backend b s = (r, s1)" and "crash s1 s2" and "quiet s2"
  shows "r = Ok () \<Longrightarrow> fst (db_load_committed backend s2) = Ok (Some b)"
    and "\<exists>v \<in> insert (Some b) (possible s). fst (db_load_committed backend s2) = Ok v"
proof -
  have s1: "inv s1 \<and> possible s1 \<subseteq> insert (Some b) (possible s) \<and> (r = Ok () \<longrightarrow> possible s1 = {Some b})"
    using commit_Ok [OF assms(1,2)] commit_Err [OF assms(1,2)] assms(3) by (cases r) auto
  with crash_recovers [OF _ assms(4)] load_visible [OF _ assms(5)]
  have "fst (db_load_committed backend s2) = Ok (visible s2)" "visible s2 \<in> possible s1" by simp_all
  with s1 show "r = Ok () \<Longrightarrow> fst (db_load_committed backend s2) = Ok (Some b)"
    "\<exists>v \<in> insert (Some b) (possible s). fst (db_load_committed backend s2) = Ok v" by auto
qed

end

end
