(* ===== verification/Recovery_Envelope.thy ===== *)
theory Recovery_Envelope
  imports Byte_Codec
begin

unbundle bit_operations_syntax

text \<open>
  The development recovery envelope of \<^verbatim>\<open>apc-storage-fs/src/recovery.rs\<close>: magic, version, length,
  payload and an IEEE CRC-32. Decoding inverts encoding and accepts nothing else, and because the
  checksum register is updated by injective steps, no single corrupted byte can go unnoticed.
\<close>

section \<open>Checksum\<close>

text \<open>One round of the inner \<^verbatim>\<open>for _ in 0..8\<close> loop, one round of the outer loop, the whole.\<close>

definition crc_bit :: "u32 \<Rightarrow> u32" where
  "crc_bit crc = (let mask = 0 - (crc AND 1) in drop_bit 1 crc XOR (0xedb88320 AND mask))"

definition crc_byte :: "u32 \<Rightarrow> u8 \<Rightarrow> u32" where
  "crc_byte crc byte = (crc_bit ^^ 8) (crc XOR ucast byte)"

definition crc32_ieee :: "bytes \<Rightarrow> u32" where
  "crc32_ieee bs = NOT (foldl crc_byte 0xffffffff bs)"

section \<open>Envelope\<close>

definition DEV_MAGIC :: bytes where "DEV_MAGIC = ascii ''APCDEV01''"
definition DEV_VERSION :: u16 where "DEV_VERSION = 1"
definition DEV_HEADER_LEN :: nat where "DEV_HEADER_LEN = length DEV_MAGIC + 2 + 8"
definition CHECKSUM_LEN :: nat where "CHECKSUM_LEN = 4"

datatype RecoveryDecodeError =
    Dev_TooShort
  | Dev_InvalidMagic
  | Dev_UnsupportedVersion u16
  | Dev_LengthOverflow
  | Dev_LengthMismatch
  | Dev_ChecksumMismatch

text \<open>The bytes the checksum covers.\<close>

definition recovery_body :: "bytes \<Rightarrow> bytes" where
  "recovery_body payload =
     DEV_MAGIC @ to_be_bytes DEV_VERSION @ to_be_bytes (word_of_nat (length payload) :: u64) @ payload"

definition recovery_encode :: "bytes \<Rightarrow> bytes" where
  "recovery_encode payload =
     (let encoded = recovery_body payload in encoded @ to_be_bytes (crc32_ieee encoded))"

definition recovery_decode :: "bytes \<Rightarrow> (bytes, RecoveryDecodeError) result" where
  "recovery_decode encoded =
     (if length encoded < DEV_HEADER_LEN + CHECKSUM_LEN then Err Dev_TooShort
      else if take (length DEV_MAGIC) encoded \<noteq> DEV_MAGIC then Err Dev_InvalidMagic
      else
        (let version_offset = length DEV_MAGIC;
             version = from_be_bytes [encoded ! version_offset, encoded ! (version_offset + 1)] :: u16
         in if version \<noteq> DEV_VERSION then Err (Dev_UnsupportedVersion version)
            else
              (let length_offset = version_offset + 2;
                   payload_len_u64 = from_be_bytes (take 8 (drop length_offset encoded)) :: u64
               in case usize_try_from Dev_LengthOverflow payload_len_u64 of
                    Err e \<Rightarrow> Err e
                  | Ok payload_len \<Rightarrow>
                      (case Option.bind (checked_add_usize DEV_HEADER_LEN payload_len)
                              (\<lambda>v. checked_add_usize v CHECKSUM_LEN) of
                         None \<Rightarrow> Err Dev_LengthOverflow
                       | Some expected_len \<Rightarrow>
                           if length encoded \<noteq> expected_len then Err Dev_LengthMismatch
                           else
                             (let checksum_offset = DEV_HEADER_LEN + payload_len;
                                  stored_checksum = from_be_bytes (drop checksum_offset encoded) :: u32;
                                  actual_checksum = crc32_ieee (take checksum_offset encoded)
                              in if stored_checksum \<noteq> actual_checksum then Err Dev_ChecksumMismatch
                                 else Ok (take payload_len (drop DEV_HEADER_LEN encoded)))))))"

section \<open>Exactness of the framing\<close>

lemma dev_sizes [simp]: "length DEV_MAGIC = 8" "DEV_HEADER_LEN = 18" "CHECKSUM_LEN = 4"
  by (simp_all add: DEV_MAGIC_def DEV_HEADER_LEN_def CHECKSUM_LEN_def)

lemma length_recovery_body [simp]: "length (recovery_body p) = 18 + length p"
  by (simp add: recovery_body_def)

lemma length_recovery_encode [simp]: "length (recovery_encode p) = 22 + length p"
  by (simp add: recovery_encode_def Let_def)

lemma body_fields:
  "take 8 (recovery_body p) = DEV_MAGIC"
  "[recovery_body p ! 8, recovery_body p ! 9] = to_be_bytes DEV_VERSION"
  "take 8 (drop 10 (recovery_body p)) = to_be_bytes (word_of_nat (length p) :: u64)"
  "drop 18 (recovery_body p) = p"
proof -
  have "[to_be_bytes DEV_VERSION ! 0, to_be_bytes DEV_VERSION ! 1] = to_be_bytes DEV_VERSION"
    by (rule pair_of_two) simp
  then show "[recovery_body p ! 8, recovery_body p ! 9] = to_be_bytes DEV_VERSION"
    by (simp add: recovery_body_def nth_append)
qed (simp_all add: recovery_body_def)

lemma slices_of_18:
  assumes "18 \<le> length env"
  shows "env = take 8 env @ [env ! 8, env ! 9] @ take 8 (drop 10 env) @ drop 18 env"
proof -
  have "drop 8 env = [env ! 8, env ! 9] @ drop 10 env"
    using assms Cons_nth_drop_Suc [of 8 env] Cons_nth_drop_Suc [of 9 env] by simp
  moreover have "drop 10 env = take 8 (drop 10 env) @ drop 18 env"
    using append_take_drop_id [of 8 "drop 10 env"] by simp
  ultimately show ?thesis using append_take_drop_id [of 8 env] by metis
qed

lemma body_reassemble:
  assumes "length env = 18 + n" and "take 8 env = DEV_MAGIC"
    and "(from_be_bytes [env ! 8, env ! 9] :: u16) = DEV_VERSION"
    and "unat (from_be_bytes (take 8 (drop 10 env)) :: u64) = n"
  shows "env = recovery_body (drop 18 env)"
proof -
  have two: "to_be_bytes DEV_VERSION = [env ! 8, env ! 9]"
    using to_from_be_bytes(1) [of "[env ! 8, env ! 9]"] assms(3) by simp
  have "(word_of_nat n :: u64) = from_be_bytes (take 8 (drop 10 env))" using assms(4) by auto
  then have len: "to_be_bytes (word_of_nat n :: u64) = take 8 (drop 10 env)"
    using to_from_be_bytes(3) [of "take 8 (drop 10 env)"] assms(1) by simp
  have "length (drop 18 env) = n" using assms(1) by simp
  with slices_of_18 [of env] two len assms(1,2) show ?thesis
    by (simp add: recovery_body_def)
qed

text \<open>The decoder accepts exactly the encodings.\<close>

lemma recovery_decode_Ok:
  "recovery_decode env = Ok p \<longleftrightarrow> env = recovery_encode p \<and> 22 + length p \<le> usize_max"
proof
  assume "recovery_decode env = Ok p"
  then obtain n where f: "22 \<le> length env" "take 8 env = DEV_MAGIC"
      "(from_be_bytes [env ! 8, env ! (8 + 1)] :: u16) = DEV_VERSION"
    and n: "usize_try_from Dev_LengthOverflow (from_be_bytes (take 8 (drop (8 + 2) env))) = Ok n"
      "Option.bind (checked_add_usize 18 n) (\<lambda>v. checked_add_usize v 4) = Some (length env)"
    and c: "(from_be_bytes (drop (18 + n) env) :: u32) = crc32_ieee (take (18 + n) env)"
    and p: "p = take n (drop 18 env)"
    unfolding recovery_decode_def Let_def result_simps dev_sizes
    by (auto split: option.splits if_splits)
  have len: "length env = 22 + n" "22 + n \<le> usize_max"
    using n(2) by (auto simp: checked_add_usize_def split: if_splits)
  have num: "unat (from_be_bytes (take 8 (drop 10 env)) :: u64) = n"
    using n(1) by (simp add: usize_try_from_def split: if_splits)
  let ?b = "take (18 + n) env"
  have b: "?b = recovery_body (drop 18 ?b)"
  proof (rule body_reassemble)
    show "length ?b = 18 + n" "take 8 ?b = DEV_MAGIC" using len(1) f(2) by simp_all
    show "(from_be_bytes [?b ! 8, ?b ! 9] :: u16) = DEV_VERSION" using f(3) by simp
    show "unat (from_be_bytes (take 8 (drop 10 ?b)) :: u64) = n" using num by (simp add: drop_take)
  qed
  have pb: "drop 18 ?b = p" using p by (simp add: drop_take)
  have "drop (18 + n) env = to_be_bytes (crc32_ieee ?b)"
    using c to_from_be_bytes(2) [of "drop (18 + n) env"] len(1) by simp
  then have "env = ?b @ to_be_bytes (crc32_ieee ?b)" using append_take_drop_id [of "18 + n" env] by simp
  then have "env = recovery_encode p" using b pb by (simp add: recovery_encode_def Let_def)
  then show "env = recovery_encode p \<and> 22 + length p \<le> usize_max" using len p by simp
next
  assume "env = recovery_encode p \<and> 22 + length p \<le> usize_max"
  then have env: "env = recovery_body p @ to_be_bytes (crc32_ieee (recovery_body p))"
    and len: "22 + length p \<le> usize_max" by (simp_all add: recovery_encode_def Let_def)
  have lp: "length p < 2 ^ 64" using len by (simp add: usize_max_def)
  then have num: "unat (word_of_nat (length p) :: u64) = length p" by (simp add: unat_of_nat take_bit_nat_eq_self)
  note bf = body_fields [of p]
  have "take 8 env = DEV_MAGIC" "env ! 8 = recovery_body p ! 8" "env ! 9 = recovery_body p ! 9"
    "take 8 (drop 10 env) = take 8 (drop 10 (recovery_body p))"
    "drop (18 + length p) env = to_be_bytes (crc32_ieee (recovery_body p))"
    "take (18 + length p) env = recovery_body p" "take (length p) (drop 18 env) = p"
    using bf(1,4) by (simp_all add: env nth_append)
  with bf lp num len show "recovery_decode env = Ok p"
    by (simp add: recovery_decode_def Let_def usize_try_from_def checked_add_usize_def env usize_max_def)
qed


section \<open>The checksum separates single-byte changes\<close>

lemma crc_bit_alt: "crc_bit x = drop_bit 1 x XOR (if odd x then 0xedb88320 else 0)"
  by (simp add: crc_bit_def and_one_eq odd_iff_mod_2_eq_one)

lemma crc_bit_top: "bit (crc_bit x) 31 \<longleftrightarrow> odd x"
  by (simp add: crc_bit_alt bit_simps bit_numeral_rec) (use bit_imp_le_length [of x 32] in auto)

lemma xor_cancel:
  "a XOR c = b XOR c \<longleftrightarrow> a = (b :: 'a::len word)" "c XOR a = c XOR b \<longleftrightarrow> a = (b :: 'a::len word)"
proof -
  have undo: "(x XOR y) XOR y = x" "y XOR (y XOR x) = x" for x y :: "'a::len word"
    by (simp_all add: xor.assoc flip: xor.assoc [of y y x])
  show "a XOR c = b XOR c \<longleftrightarrow> a = b" by (metis undo(1))
  show "c XOR a = c XOR b \<longleftrightarrow> a = b" by (metis undo(2))
qed

lemma inj_crc_bit: "inj crc_bit"
proof (rule injI)
  fix x y assume eq: "crc_bit x = crc_bit y"
  then have odd: "odd x \<longleftrightarrow> odd y" using crc_bit_top [of x] crc_bit_top [of y] by simp
  with eq have "drop_bit 1 x = drop_bit 1 y"
    by (cases "odd y") (simp_all add: crc_bit_alt xor_cancel)
  moreover have "take_bit 1 x = take_bit 1 y" using odd by (auto simp: take_bit_eq_mod mod_2_eq_odd)
  ultimately show "x = y" by (metis bits_ident)
qed

lemma crc_byte_inject:
  "crc_byte c b = crc_byte c' b \<Longrightarrow> c = c'" "crc_byte c b = crc_byte c b' \<Longrightarrow> b = b'"
proof -
  have inj: "inj (crc_bit ^^ 8)" using inj_crc_bit by simp
  show "c = c'" if "crc_byte c b = crc_byte c' b"
    using injD [OF inj that [unfolded crc_byte_def]] by (simp add: xor_cancel)
  show "b = b'" if "crc_byte c b = crc_byte c b'"
  proof -
    have "(ucast b :: u32) = ucast b'"
      using injD [OF inj that [unfolded crc_byte_def]] by (simp add: xor_cancel)
    then have "unat (ucast b :: u32) = unat (ucast b' :: u32)" by simp
    moreover have "unat x < 2 ^ 32" for x :: u8 using unsigned_less [of x, where ?'a = nat] by simp
    ultimately have "unat b = unat b'" by (simp add: unsigned_ucast_eq take_bit_nat_eq_self)
    then show "b = b'" by (rule unsigned_word_eqI)
  qed
qed

lemma crc_fold_inject: "foldl crc_byte c bs = foldl crc_byte c' bs \<Longrightarrow> c = c'"
  by (induction bs arbitrary: c c') (auto dest: crc_byte_inject(1))

lemma crc_fold_update:
  "foldl crc_byte c (bs[i := b]) = foldl crc_byte c bs \<Longrightarrow> bs[i := b] = bs"
proof (induction bs arbitrary: i c)
  case (Cons a bs)
  then show ?case
    by (cases i) (auto dest!: crc_fold_inject dest: crc_byte_inject(2))
qed simp

lemma crc32_update: "crc32_ieee (bs[i := b]) = crc32_ieee bs \<Longrightarrow> bs[i := b] = bs"
  unfolding crc32_ieee_def by (rule crc_fold_update) simp

section \<open>Properties\<close>

text \<open>
  The recovery envelope is exact and detects corruption: the decoder accepts a byte string
  exactly when it is the encoding of the payload it returns, every encodable payload comes back
  unchanged, and an envelope with any one byte changed, wherever it is, is refused.
\<close>

lemma recovery_envelope_exact:
  "(recovery_decode env = Ok p \<longleftrightarrow> env = recovery_encode p \<and> 22 + length p \<le> usize_max) \<and>
   (i < length (recovery_encode p) \<and> b \<noteq> recovery_encode p ! i \<longrightarrow>
      \<not> is_ok (recovery_decode ((recovery_encode p)[i := b])))"
proof (intro conjI impI notI)
  show "recovery_decode env = Ok p \<longleftrightarrow> env = recovery_encode p \<and> 22 + length p \<le> usize_max"
    by (rule recovery_decode_Ok)
  let ?e = "recovery_encode p"
  assume i: "i < length ?e \<and> b \<noteq> ?e ! i" and "is_ok (recovery_decode (?e[i := b]))"
  then obtain q where q: "?e[i := b] = recovery_encode q" by (auto simp: is_ok_iff recovery_decode_Ok)
  then have len: "length q = length p" using length_list_update [of ?e i b] by simp
  note e = recovery_encode_def [of p, unfolded Let_def] recovery_encode_def [of q, unfolded Let_def]
  have split: "take (18 + length p) (recovery_encode q) = recovery_body q"
    "drop (18 + length p) (recovery_encode q) = to_be_bytes (crc32_ieee (recovery_body q))"
    by (simp_all add: e len)
  show False
  proof (cases "i < 18 + length p")
    case True
    then have upd: "?e[i := b] = (recovery_body p)[i := b] @ to_be_bytes (crc32_ieee (recovery_body p))"
      by (simp add: e list_update_append)
    have body: "recovery_body q = (recovery_body p)[i := b]"
      and "to_be_bytes (crc32_ieee (recovery_body q)) = to_be_bytes (crc32_ieee (recovery_body p))"
      using split upd len by (simp_all flip: q)
    then have "crc32_ieee ((recovery_body p)[i := b]) = crc32_ieee (recovery_body p)"
      by (simp add: to_be_bytes_inject)
    then have "(recovery_body p)[i := b] ! i = recovery_body p ! i" by (simp only: crc32_update)
    with True i show False by (simp add: e nth_append)
  next
    case False
    then have "?e[i := b] = recovery_body p @ (to_be_bytes (crc32_ieee (recovery_body p)))[i - (18 + length p) := b]"
      by (simp add: e list_update_append)
    then have "recovery_body q = recovery_body p" using split(1) by (simp flip: q)
    then have "?e[i := b] = ?e" using q by (simp add: e)
    with i show False by (metis nth_list_update_eq)
  qed
qed

lemma recovery_envelope_exact_witness:
  "recovery_decode (recovery_encode [1, 2, 3]) = Ok [1, 2, 3] \<and>
   \<not> is_ok (recovery_decode ((recovery_encode [1, 2, 3])[19 := 255]))"
proof -
  have byte: "recovery_encode [1, 2, 3] ! 19 = 2"
    by (simp add: recovery_encode_def recovery_body_def Let_def nth_append)
  show ?thesis
    using recovery_envelope_exact [of "recovery_encode [1, 2, 3]" "[1, 2, 3]" 19 255] byte
    by (simp add: usize_max_def)
qed

end
