(* ===== verification/Storage_Fs.thy ===== *)
theory Storage_Fs
  imports Durability Recovery_Envelope Utf8 BTree_Containers "HOL-Library.List_Lexorder"
begin

text \<open>
  The Unix storage backend of \<^verbatim>\<open>apc-storage-fs/src/lib.rs\<close> over a model of the part of
  \<^verbatim>\<open>std::fs\<close> it calls. A file has a content and a mark whether that content is on the medium; a
  directory has its current entries and every earlier state since its last \<^verbatim>\<open>sync_all\<close>, all of
  which a power loss may bring back. Each system call first takes the next entry of a fault
  schedule: a fault ends the call with an error, after a part of its effect given by the fault.
  Directory updates, renames included, are atomic and reach the medium in order; the content of a
  file that was not synced is arbitrary after a power loss. A \<open>file_system\<close> is what lies below the path of a
  store, so \<^verbatim>\<open>create_dir_all\<close> is a call that may fail and changes nothing in it: a path that does not exist
  is an empty store. Whether the path itself still leads there after a power loss is not a part of this
  state; \<open>Recovery_Probe\<close> keeps it where the program removes and creates such paths.
\<close>

section \<open>File system\<close>

datatype ErrorKind = NotFound | AlreadyExists | InvalidData | OtherError

datatype dir_id = RootDir | ObjectsDir

type_synonym entries = "(bytes, nat) btree_map"

record directory =
  live :: entries
  past :: "entries list"

record inode =
  content :: bytes
  stable :: bool

record file_system =
  root_dir :: directory
  objects_dir :: directory
  files :: "nat \<Rightarrow> inode"
  next_inode :: nat
  faults :: "(ErrorKind \<times> nat) option list"

definition fs_dir :: "dir_id \<Rightarrow> file_system \<Rightarrow> directory" where
  "fs_dir d s = (case d of RootDir \<Rightarrow> root_dir s | ObjectsDir \<Rightarrow> objects_dir s)"

definition set_dir :: "dir_id \<Rightarrow> directory \<Rightarrow> file_system \<Rightarrow> file_system" where
  "set_dir d dir s = (case d of RootDir \<Rightarrow> s\<lparr>root_dir := dir\<rparr> | ObjectsDir \<Rightarrow> s\<lparr>objects_dir := dir\<rparr>)"

definition change_entries :: "dir_id \<Rightarrow> entries \<Rightarrow> file_system \<Rightarrow> file_system" where
  "change_entries d e s = set_dir d \<lparr>live = e, past = live (fs_dir d s) # past (fs_dir d s)\<rparr> s"

definition set_file :: "nat \<Rightarrow> bytes \<Rightarrow> bool \<Rightarrow> file_system \<Rightarrow> file_system" where
  "set_file i c st s = s\<lparr>files := (files s)(i := \<lparr>content = c, stable = st\<rparr>)\<rparr>"

text \<open>Taking the next fault: \<open>partial n\<close> is the effect the failed call leaves behind.\<close>

definition syscall ::
    "(nat \<Rightarrow> file_system \<Rightarrow> file_system) \<Rightarrow> (file_system, 'a, ErrorKind) io \<Rightarrow> (file_system, 'a, ErrorKind) io" where
  "syscall partial call s =
     (case faults s of
        [] \<Rightarrow> call s
      | None # fs \<Rightarrow> call (s\<lparr>faults := fs\<rparr>)
      | Some (kind, n) # fs \<Rightarrow> (Err kind, partial n (s\<lparr>faults := fs\<rparr>)))"

definition open_read :: "dir_id \<Rightarrow> bytes \<Rightarrow> (file_system, nat, ErrorKind) io" where
  "open_read d name = syscall (\<lambda>_ s. s)
     (\<lambda>s. case bm_get (live (fs_dir d s)) name of None \<Rightarrow> (Err NotFound, s) | Some i \<Rightarrow> (Ok i, s))"

definition add_file :: "dir_id \<Rightarrow> bytes \<Rightarrow> file_system \<Rightarrow> file_system" where
  "add_file d name s =
     (case bm_get (live (fs_dir d s)) name of
        Some _ \<Rightarrow> s
      | None \<Rightarrow> (set_file (next_inode s) [] False
                 (change_entries d (bm_insert name (next_inode s) (live (fs_dir d s))) s))
                 \<lparr>next_inode := next_inode s + 1\<rparr>)"

text \<open>\<^verbatim>\<open>OpenOptions::new().write(true).create_new(true).open(path)\<close>\<close>

definition create_new :: "dir_id \<Rightarrow> bytes \<Rightarrow> (file_system, unit, ErrorKind) io" where
  "create_new d name = syscall (\<lambda>n s. if n = 0 then s else add_file d name s)
     (\<lambda>s. case bm_get (live (fs_dir d s)) name of
            Some _ \<Rightarrow> (Err AlreadyExists, s)
          | None \<Rightarrow> (Ok (), add_file d name s))"

definition truncate_entry :: "dir_id \<Rightarrow> bytes \<Rightarrow> file_system \<Rightarrow> file_system" where
  "truncate_entry d name s =
     (case bm_get (live (fs_dir d s)) name of None \<Rightarrow> s | Some i \<Rightarrow> set_file i [] False s)"

text \<open>\<^verbatim>\<open>write(true).truncate(true)\<close>, without and with \<^verbatim>\<open>create(true)\<close>\<close>

definition open_truncate :: "dir_id \<Rightarrow> bytes \<Rightarrow> (file_system, nat, ErrorKind) io" where
  "open_truncate d name = syscall (\<lambda>n s. if n = 0 then s else truncate_entry d name s)
     (\<lambda>s. case bm_get (live (fs_dir d s)) name of
            None \<Rightarrow> (Err NotFound, s)
          | Some i \<Rightarrow> (Ok i, truncate_entry d name s))"

definition open_create_truncate :: "dir_id \<Rightarrow> bytes \<Rightarrow> (file_system, nat, ErrorKind) io" where
  "open_create_truncate d name = syscall
     (\<lambda>n s. if n = 0 then s else if n = 1 then add_file d name s else truncate_entry d name (add_file d name s))
     (\<lambda>s. let s' = truncate_entry d name (add_file d name s)
          in case bm_get (live (fs_dir d s')) name of None \<Rightarrow> (Err NotFound, s') | Some i \<Rightarrow> (Ok i, s'))"

definition append_file :: "nat \<Rightarrow> bytes \<Rightarrow> file_system \<Rightarrow> file_system" where
  "append_file i bs s = set_file i (content (files s i) @ bs) False s"

definition write_all :: "nat \<Rightarrow> bytes \<Rightarrow> (file_system, unit, ErrorKind) io" where
  "write_all i bs = syscall (\<lambda>n. append_file i (take n bs)) (\<lambda>s. (Ok (), append_file i bs s))"

definition sync_file :: "nat \<Rightarrow> (file_system, unit, ErrorKind) io" where
  "sync_file i = syscall (\<lambda>_ s. s) (\<lambda>s. (Ok (), set_file i (content (files s i)) True s))"

definition open_dir :: "dir_id \<Rightarrow> (file_system, unit, ErrorKind) io" where
  "open_dir d = syscall (\<lambda>_ s. s) (\<lambda>s. (Ok (), s))"

definition sync_dir :: "dir_id \<Rightarrow> (file_system, unit, ErrorKind) io" where
  "sync_dir d = syscall (\<lambda>_ s. s) (\<lambda>s. (Ok (), set_dir d \<lparr>live = live (fs_dir d s), past = []\<rparr> s))"

definition move_entry :: "dir_id \<Rightarrow> bytes \<Rightarrow> bytes \<Rightarrow> file_system \<Rightarrow> file_system" where
  "move_entry d a b s =
     (case bm_get (live (fs_dir d s)) a of
        None \<Rightarrow> s
      | Some i \<Rightarrow> change_entries d (bm_insert b i (bm_remove a (live (fs_dir d s)))) s)"

definition rename_file :: "dir_id \<Rightarrow> bytes \<Rightarrow> bytes \<Rightarrow> (file_system, unit, ErrorKind) io" where
  "rename_file d a b = syscall (\<lambda>n s. if n = 0 then s else move_entry d a b s)
     (\<lambda>s. case bm_get (live (fs_dir d s)) a of
            None \<Rightarrow> (Err NotFound, s)
          | Some _ \<Rightarrow> (Ok (), move_entry d a b s))"

definition read_to_end :: "nat \<Rightarrow> (file_system, bytes, ErrorKind) io" where
  "read_to_end i = syscall (\<lambda>_ s. s) (\<lambda>s. (Ok (content (files s i)), s))"

definition read_to_string :: "nat \<Rightarrow> (file_system, bytes, ErrorKind) io" where
  "read_to_string i = io_bind (read_to_end i)
     (\<lambda>bs. if utf8_valid bs then io_return bs else io_fail InvalidData)"

definition read_dir :: "dir_id \<Rightarrow> (file_system, bytes list, ErrorKind) io" where
  "read_dir d = syscall (\<lambda>_ s. s) (\<lambda>s. (Ok (bm_keys (live (fs_dir d s))), s))"

definition next_dir_entry :: "bytes \<Rightarrow> (file_system, bytes, ErrorKind) io" where
  "next_dir_entry name = syscall (\<lambda>_ s. s) (\<lambda>s. (Ok name, s))"

section \<open>Candidate names\<close>

definition ROOT_FILE :: bytes where "ROOT_FILE = ascii ''root''"
definition ROOT_NEXT_FILE :: bytes where "ROOT_NEXT_FILE = ascii ''root.next''"
definition CANDIDATE_PREFIX :: bytes where "CANDIDATE_PREFIX = ascii ''candidate-''"
definition CANDIDATE_SUFFIX :: bytes where "CANDIDATE_SUFFIX = ascii ''.bin''"

text \<open>\<^verbatim>\<open>{id:020}\<close>: the decimal digits, padded with zeros.\<close>

fun decimal :: "nat \<Rightarrow> nat \<Rightarrow> bytes" where
  "decimal 0 v = []"
| "decimal (Suc n) v = decimal n (v div 10) @ [word_of_nat (48 + v mod 10)]"

definition candidate_name :: "u64 \<Rightarrow> bytes" where
  "candidate_name n = CANDIDATE_PREFIX @ decimal 20 (unat n) @ CANDIDATE_SUFFIX"

definition is_ascii_digit :: "u8 \<Rightarrow> bool" where
  "is_ascii_digit b \<longleftrightarrow> 48 \<le> b \<and> b \<le> 57"

definition valid_candidate_name :: "bytes \<Rightarrow> bool" where
  "valid_candidate_name file_name =
     (case Option.bind (strip_prefix CANDIDATE_PREFIX file_name) (strip_suffix CANDIDATE_SUFFIX) of
        None \<Rightarrow> False
      | Some number \<Rightarrow> length number = 20 \<and> list_all is_ascii_digit number)"

definition digits_value :: "bytes \<Rightarrow> nat" where
  "digits_value = foldl (\<lambda>v b. 10 * v + (unat b - 48)) 0"

text \<open>\<^verbatim>\<open>digits.parse::<u64>()\<close> on a string of digits\<close>

definition parse_u64 :: "bytes \<Rightarrow> u64 option" where
  "parse_u64 digits = (if digits_value digits < 2 ^ 64 then Some (word_of_nat (digits_value digits)) else None)"

section \<open>Backend\<close>

datatype FsStorageError =
    FsIo ErrorKind
  | InvalidRootManifest
  | InvalidRecoveryRecord
  | CandidateIdExhausted

datatype FsCandidate = FsCandidate (file_name: bytes)

record UnixFsDurabilityBackend =
  ub_fs :: file_system
  next_candidate :: u64

text \<open>\<^verbatim>\<open>?\<close> on an \<^verbatim>\<open>io::Result\<close>\<close>

definition on_fs :: "(file_system, 'a, ErrorKind) io \<Rightarrow> (UnixFsDurabilityBackend, 'a, FsStorageError) io" where
  "on_fs call b = (case call (ub_fs b) of (r, s) \<Rightarrow> (map_err FsIo r, b\<lparr>ub_fs := s\<rparr>))"

definition scan_entry :: "u64 option \<Rightarrow> bytes \<Rightarrow> u64 option" where
  "scan_entry maximum name =
     (if \<not> valid_candidate_name name then maximum
      else
        (case parse_u64 (take (length name - length CANDIDATE_SUFFIX - length CANDIDATE_PREFIX)
                           (drop (length CANDIDATE_PREFIX) name)) of
           None \<Rightarrow> maximum
         | Some value \<Rightarrow> Some (case maximum of None \<Rightarrow> value | Some current \<Rightarrow> max current value)))"

fun scan_entries :: "u64 option \<Rightarrow> bytes list \<Rightarrow> (file_system, u64 option, ErrorKind) io" where
  "scan_entries maximum [] = io_return maximum"
| "scan_entries maximum (n # ns) = io_bind (next_dir_entry n) (\<lambda>name. scan_entries (scan_entry maximum name) ns)"

definition scan_next_candidate :: "file_system \<Rightarrow> (u64, FsStorageError) result \<times> file_system" where
  "scan_next_candidate s =
     (case io_bind (read_dir ObjectsDir) (scan_entries None) s of
        (Err k, s') \<Rightarrow> (Err (FsIo k), s')
      | (Ok None, s') \<Rightarrow> (Ok 0, s')
      | (Ok (Some value), s') \<Rightarrow> (if value = - 1 then (Err CandidateIdExhausted, s') else (Ok (value + 1), s')))"

definition UnixFs_open :: "file_system \<Rightarrow> (UnixFsDurabilityBackend, FsStorageError) result \<times> file_system" where
  "UnixFs_open s =
     (case syscall (\<lambda>_ s. s) (\<lambda>s. (Ok (), s)) s of
        (Err k, s') \<Rightarrow> (Err (FsIo k), s')
      | (Ok _, s') \<Rightarrow>
          (case scan_next_candidate s' of
             (Err e, s'') \<Rightarrow> (Err e, s'')
           | (Ok nc, s'') \<Rightarrow> (Ok \<lparr>ub_fs = s'', next_candidate = nc\<rparr>, s'')))"

text \<open>The loop of \<^verbatim>\<open>allocate_candidate\<close> ends because the counter only grows.\<close>

lemma u64_successor: "unat (n + 1 :: u64) = unat n + 1" if "n \<noteq> - 1"
proof -
  have "1 + n \<noteq> 0" using that by (metis add_eq_0_iff minus_equation_iff)
  from unatSuc [OF this] show ?thesis by (simp add: add.commute)
qed

lemma u64_room_shrinks: "2 ^ 64 - unat (n + 1 :: u64) < 2 ^ 64 - unat n" if "n \<noteq> - 1"
  using u64_successor [OF that] unsigned_less [of n, where ?'a = nat] by simp

function allocate_candidate :: "UnixFsDurabilityBackend \<Rightarrow> (FsCandidate, FsStorageError) result \<times> UnixFsDurabilityBackend" where
  "allocate_candidate b =
     (let n = next_candidate b
      in if n = - 1 then (Err CandidateIdExhausted, b)
         else
           (let b1 = b\<lparr>next_candidate := n + 1\<rparr>
            in case create_new ObjectsDir (candidate_name n) (ub_fs b1) of
                 (Ok _, s) \<Rightarrow> (Ok (FsCandidate (candidate_name n)), b1\<lparr>ub_fs := s\<rparr>)
               | (Err k, s) \<Rightarrow>
                   if k = AlreadyExists then allocate_candidate (b1\<lparr>ub_fs := s\<rparr>)
                   else (Err (FsIo k), b1\<lparr>ub_fs := s\<rparr>)))"
  by pat_completeness auto

termination allocate_candidate
  by (relation "measure (\<lambda>b. 2 ^ 64 - unat (next_candidate b))")
    (use u64_room_shrinks in auto)

declare allocate_candidate.simps [simp del]

definition UnixFs_load_committed :: "(UnixFsDurabilityBackend, bytes option, FsStorageError) io" where
  "UnixFs_load_committed b =
     (case on_fs (open_read RootDir ROOT_FILE) b of
        (Err (FsIo NotFound), b') \<Rightarrow> (Ok None, b')
      | (Err e, b') \<Rightarrow> (Err e, b')
      | (Ok manifest, b') \<Rightarrow>
          io_bind (on_fs (read_to_string manifest)) (\<lambda>text.
            let file_name = trim_end_newlines text
            in if \<not> valid_candidate_name file_name then io_fail InvalidRootManifest
               else
                 io_bind (on_fs (open_read ObjectsDir file_name)) (\<lambda>file.
                 io_bind (on_fs (read_to_end file)) (\<lambda>encoded.
                   case recovery_decode encoded of
                     Err _ \<Rightarrow> io_fail InvalidRecoveryRecord
                   | Ok state \<Rightarrow> io_return (Some state)))) b')"

definition UnixFs_write_candidate :: "bytes \<Rightarrow> (UnixFsDurabilityBackend, FsCandidate, FsStorageError) io" where
  "UnixFs_write_candidate state =
     io_bind allocate_candidate (\<lambda>candidate.
     io_bind (on_fs (open_truncate ObjectsDir (file_name candidate))) (\<lambda>file.
     io_bind (on_fs (write_all file (recovery_encode state))) (\<lambda>_.
     io_return candidate)))"

definition UnixFs_sync_candidate :: "FsCandidate \<Rightarrow> (UnixFsDurabilityBackend, unit, FsStorageError) io" where
  "UnixFs_sync_candidate candidate =
     io_bind (on_fs (open_read ObjectsDir (file_name candidate))) (\<lambda>file.
     io_bind (on_fs (sync_file file)) (\<lambda>_.
     io_bind (on_fs (open_dir ObjectsDir)) (\<lambda>_.
     on_fs (sync_dir ObjectsDir))))"

definition UnixFs_publish_candidate :: "FsCandidate \<Rightarrow> (UnixFsDurabilityBackend, unit, FsStorageError) io" where
  "UnixFs_publish_candidate candidate =
     (if \<not> valid_candidate_name (file_name candidate) then io_fail InvalidRootManifest
      else
        io_bind (on_fs (open_create_truncate RootDir ROOT_NEXT_FILE)) (\<lambda>nxt.
        io_bind (on_fs (write_all nxt (file_name candidate))) (\<lambda>_.
        io_bind (on_fs (write_all nxt [10])) (\<lambda>_.
        io_bind (on_fs (sync_file nxt)) (\<lambda>_.
        on_fs (rename_file RootDir ROOT_NEXT_FILE ROOT_FILE))))))"

definition UnixFs_sync_committed_root :: "(UnixFsDurabilityBackend, unit, FsStorageError) io" where
  "UnixFs_sync_committed_root = io_bind (on_fs (open_dir RootDir)) (\<lambda>_. on_fs (sync_dir RootDir))"

definition unix_fs_backend :: "(UnixFsDurabilityBackend, bytes, FsCandidate, FsStorageError) DurabilityBackend" where
  "unix_fs_backend =
     \<lparr>db_load_committed = UnixFs_load_committed, db_write_candidate = UnixFs_write_candidate,
      db_sync_candidate = UnixFs_sync_candidate, db_publish_candidate = UnixFs_publish_candidate,
      db_sync_committed_root = UnixFs_sync_committed_root\<rparr>"

end
