(* ===== verification/Storage_Durability.thy ===== *)
theory Storage_Durability
  imports Storage_Fs
begin

text \<open>
  The Unix backend keeps the durability contract. \<open>fs_inv\<close> says that every root manifest a power
  loss may bring back names a candidate whose content and directory entry are on the medium, and
  that the scratch manifest is a file of its own. Steps that only add or extend files are framed
  by \<open>extends\<close>; the steps of a publication are treated one by one. The interpretation at the end
  gives the coordinator's theorems for this backend.
\<close>

section \<open>What is committed\<close>

definition snaps :: "directory \<Rightarrow> entries set" where
  "snaps d = insert (live d) (set (past d))"

lemma snaps_simps [simp]:
  "live d \<in> snaps d" "snaps \<lparr>live = e, past = []\<rparr> = {e}"
  "snaps \<lparr>live = e, past = live d # past d\<rparr> = insert e (snaps d)"
  by (auto simp: snaps_def)

definition stored :: "file_system \<Rightarrow> bytes \<Rightarrow> bytes \<Rightarrow> bool" where
  "stored s nm b \<longleftrightarrow> valid_candidate_name nm \<and> 22 + length b \<le> usize_max \<and>
     (\<exists>j. (\<forall>e \<in> snaps (objects_dir s). bm_get e nm = Some j) \<and>
        files s j = \<lparr>content = recovery_encode b, stable = True\<rparr>)"

definition commits :: "file_system \<Rightarrow> nat \<Rightarrow> bytes \<Rightarrow> bool" where
  "commits s i b \<longleftrightarrow> (\<exists>nm. files s i = \<lparr>content = nm @ [10], stable = True\<rparr> \<and> stored s nm b)"

definition committed :: "file_system \<Rightarrow> entries \<Rightarrow> bytes option" where
  "committed s e =
     (case bm_get e ROOT_FILE of
        None \<Rightarrow> None
      | Some i \<Rightarrow>
          (case bm_get (live (objects_dir s)) (trim_end_newlines (content (files s i))) of
             None \<Rightarrow> None
           | Some j \<Rightarrow> (case recovery_decode (content (files s j)) of Err _ \<Rightarrow> None | Ok b \<Rightarrow> Some b)))"

definition fs_inv :: "file_system \<Rightarrow> bool" where
  "fs_inv s \<longleftrightarrow>
     (\<forall>e \<in> snaps (root_dir s). \<forall>i. bm_get e ROOT_FILE = Some i \<longrightarrow> (\<exists>b. commits s i b)) \<and>
     (\<forall>e \<in> snaps (root_dir s) \<union> snaps (objects_dir s). \<forall>nm i. bm_get e nm = Some i \<longrightarrow> i < next_inode s) \<and>
     (\<forall>e \<in> snaps (root_dir s). \<forall>k. bm_get e ROOT_NEXT_FILE = Some k \<longrightarrow>
        bm_get e ROOT_FILE \<noteq> Some k \<and> (\<forall>ob \<in> snaps (objects_dir s). \<forall>nm. bm_get ob nm \<noteq> Some k)) \<and>
     (\<forall>e \<in> snaps (root_dir s). \<forall>k. bm_get (live (root_dir s)) ROOT_NEXT_FILE = Some k \<longrightarrow> bm_get e ROOT_FILE \<noteq> Some k)"

definition fs_possible :: "file_system \<Rightarrow> bytes option set" where
  "fs_possible s = committed s ` snaps (root_dir s)"

definition fs_visible :: "file_system \<Rightarrow> bytes option" where
  "fs_visible s = committed s (live (root_dir s))"

definition written_in :: "file_system \<Rightarrow> bytes \<Rightarrow> bytes \<Rightarrow> bool" where
  "written_in s nm b \<longleftrightarrow> valid_candidate_name nm \<and> 22 + length b \<le> usize_max \<and>
     (\<exists>j. bm_get (live (objects_dir s)) nm = Some j \<and> content (files s j) = recovery_encode b)"

text \<open>Power loss: each directory falls back to one of its states, unsynced contents are arbitrary.\<close>

definition fs_crash :: "file_system \<Rightarrow> file_system \<Rightarrow> bool" where
  "fs_crash s s' \<longleftrightarrow>
     (\<exists>e \<in> snaps (root_dir s). root_dir s' = \<lparr>live = e, past = []\<rparr>) \<and>
     (\<exists>e \<in> snaps (objects_dir s). objects_dir s' = \<lparr>live = e, past = []\<rparr>) \<and>
     next_inode s' = next_inode s \<and> (\<forall>i. stable (files s i) \<longrightarrow> files s' i = files s i)"

section \<open>Names\<close>

lemma valid_candidate_name_iff:
  "valid_candidate_name nm \<longleftrightarrow>
     (\<exists>ds. nm = CANDIDATE_PREFIX @ ds @ CANDIDATE_SUFFIX \<and> length ds = 20 \<and> list_all is_ascii_digit ds)"
proof -
  have "Option.bind (strip_prefix CANDIDATE_PREFIX nm) (strip_suffix CANDIDATE_SUFFIX) = Some ds \<longleftrightarrow>
      nm = CANDIDATE_PREFIX @ ds @ CANDIDATE_SUFFIX" for ds
    by (auto simp: bind_eq_Some_conv strip_prefix_Some strip_suffix_Some)
  then show ?thesis
    by (cases "Option.bind (strip_prefix CANDIDATE_PREFIX nm) (strip_suffix CANDIDATE_SUFFIX)")
      (simp_all add: valid_candidate_name_def, metis option.distinct(1))
qed

lemma decimal_digits: "length (decimal n v) = n" "list_all is_ascii_digit (decimal n v)"
proof (induction n v rule: decimal.induct)
  case (2 n v)
  have "is_ascii_digit (word_of_nat (48 + d))" if "d < 10" for d
  proof -
    have "d \<in> {0, 1, 2, 3, 4, 5, 6, 7, 8, 9}" using that by auto
    then show ?thesis by (auto simp: is_ascii_digit_def)
  qed
  then have "is_ascii_digit (word_of_nat (48 + v mod 10))" by simp
  with 2 show "length (decimal (Suc n) v) = Suc n" "list_all is_ascii_digit (decimal (Suc n) v)"
    by simp_all
qed simp_all

lemma candidate_name_valid: "valid_candidate_name (candidate_name n)"
  unfolding valid_candidate_name_iff candidate_name_def using decimal_digits by blast

lemma valid_name_text:
  assumes "valid_candidate_name nm"
  shows "utf8_valid (nm @ [10])" and "trim_end_newlines (nm @ [10]) = nm"
proof -
  obtain ds where ds: "nm = CANDIDATE_PREFIX @ ds @ CANDIDATE_SUFFIX" "list_all is_ascii_digit ds"
    using assms unfolding valid_candidate_name_iff by blast
  have "\<forall>b \<in> set CANDIDATE_PREFIX. b < 0x80" "\<forall>b \<in> set CANDIDATE_SUFFIX. b < 0x80"
    by (simp_all add: CANDIDATE_PREFIX_def CANDIDATE_SUFFIX_def ascii_def)
  moreover have "\<forall>b \<in> set ds. b < 0x80"
    using ds(2) by (fastforce simp: list_all_iff is_ascii_digit_def elim: order.strict_trans1)
  ultimately show "utf8_valid (nm @ [10])" by (intro utf8_valid_ascii) (auto simp: ds(1))
  show "trim_end_newlines (nm @ [10]) = nm"
    by (rule trim_one_newline) (simp add: ds(1) CANDIDATE_SUFFIX_def ascii_def)
qed

lemma root_names [simp]: "ROOT_FILE \<noteq> ROOT_NEXT_FILE" "ROOT_NEXT_FILE \<noteq> ROOT_FILE"
  by (simp_all add: ROOT_FILE_def ROOT_NEXT_FILE_def ascii_def)

section \<open>Recovery reads what is committed\<close>

lemma storedD:
  assumes "stored s nm b"
  obtains j where "bm_get (live (objects_dir s)) nm = Some j" "content (files s j) = recovery_encode b"
    "recovery_decode (recovery_encode b) = Ok b" "valid_candidate_name nm"
  using assms by (auto simp: stored_def recovery_decode_Ok)

lemma commits_committed:
  assumes "commits s i b" and "bm_get e ROOT_FILE = Some i"
  shows "committed s e = Some b"
proof -
  obtain nm where nm: "files s i = \<lparr>content = nm @ [10], stable = True\<rparr>" "stored s nm b"
    using assms(1) by (auto simp: commits_def)
  then show ?thesis
    by (auto elim!: storedD simp: committed_def assms(2) valid_name_text)
qed

lemma fs_invD:
  assumes "fs_inv s"
  shows "e \<in> snaps (root_dir s) \<Longrightarrow> bm_get e ROOT_FILE = Some i \<Longrightarrow> \<exists>b. commits s i b"
    and "e \<in> snaps (root_dir s) \<Longrightarrow> bm_get e nm = Some i \<Longrightarrow> i < next_inode s"
    and "ob \<in> snaps (objects_dir s) \<Longrightarrow> bm_get ob nm = Some i \<Longrightarrow> i < next_inode s"
    and "e \<in> snaps (root_dir s) \<Longrightarrow> bm_get e ROOT_NEXT_FILE = Some k \<Longrightarrow> bm_get e ROOT_FILE \<noteq> Some k"
    and "e \<in> snaps (root_dir s) \<Longrightarrow> bm_get e ROOT_NEXT_FILE = Some k \<Longrightarrow> ob \<in> snaps (objects_dir s) \<Longrightarrow> bm_get ob nm \<noteq> Some k"
    and "e \<in> snaps (root_dir s) \<Longrightarrow> bm_get (live (root_dir s)) ROOT_NEXT_FILE = Some k \<Longrightarrow> bm_get e ROOT_FILE \<noteq> Some k"
  using assms unfolding fs_inv_def by blast+

lemma fs_inv_committed:
  assumes "fs_inv s" and "e \<in> snaps (root_dir s)" and "bm_get e ROOT_FILE = Some i"
  obtains b where "commits s i b" "committed s e = Some b"
proof -
  obtain b where "commits s i b" using fs_invD(1) [OF assms] by blast
  with commits_committed [OF this assms(3)] that show thesis by blast
qed

lemma quiet_calls [simp]:
  assumes "faults s = []"
  shows "open_read d nm s = (case bm_get (live (fs_dir d s)) nm of None \<Rightarrow> (Err NotFound, s) | Some i \<Rightarrow> (Ok i, s))"
    and "read_to_end i s = (Ok (content (files s i)), s)"
    and "read_to_string i s = (if utf8_valid (content (files s i)) then (Ok (content (files s i)), s) else (Err InvalidData, s))"
  using assms by (simp_all add: open_read_def read_to_end_def read_to_string_def syscall_def io_bind_def)

lemma load_committed_visible:
  assumes "fs_inv (ub_fs b)" and "faults (ub_fs b) = []"
  shows "fst (UnixFs_load_committed b) = Ok (fs_visible (ub_fs b))"
proof (cases "bm_get (live (root_dir (ub_fs b))) ROOT_FILE")
  case None
  then show ?thesis
    using assms(2) by (simp add: UnixFs_load_committed_def on_fs_def fs_dir_def fs_visible_def committed_def)
next
  case (Some i)
  let ?s = "ub_fs b"
  from fs_inv_committed [OF assms(1) snaps_simps(1) Some] obtain v where v: "commits ?s i v" "fs_visible ?s = Some v"
    unfolding fs_visible_def by blast
  then obtain nm where nm: "content (files ?s i) = nm @ [10]" "stored ?s nm v" by (auto simp: commits_def)
  from nm(2) obtain j where j: "bm_get (live (objects_dir ?s)) nm = Some j" "content (files ?s j) = recovery_encode v"
    "recovery_decode (recovery_encode v) = Ok v" "valid_candidate_name nm" by (rule storedD)
  show ?thesis
    using assms(2) Some nm(1) j valid_name_text [OF j(4)] v(2)
    by (simp add: UnixFs_load_committed_def on_fs_def io_bind_def fs_dir_def)
qed

text \<open>A sequence of calls that only read gives the answer it gives without faults, or the kind of a
  scheduled fault; on the file system it only consumes the schedule.\<close>

abbreviation with_faults :: "UnixFsDurabilityBackend \<Rightarrow> (ErrorKind \<times> nat) option list \<Rightarrow> UnixFsDurabilityBackend" where
  "with_faults b fs \<equiv> b\<lparr>ub_fs := (ub_fs b)\<lparr>faults := fs\<rparr>\<rparr>"

definition only_reads :: "(UnixFsDurabilityBackend, 'a, FsStorageError) io \<Rightarrow> bool" where
  "only_reads m \<longleftrightarrow> (\<forall>b r b'. m b = (r, b') \<longrightarrow>
     (\<exists>fs. set fs \<subseteq> set (faults (ub_fs b)) \<and> b' = with_faults b fs) \<and>
     (r = fst (m (with_faults b [])) \<or> (\<exists>k n. Some (k, n) \<in> set (faults (ub_fs b)) \<and> r = Err (FsIo k))))"

lemma only_readsE:
  assumes "only_reads m" and "m b = (r, b')"
  obtains fs where "set fs \<subseteq> set (faults (ub_fs b))" and "b' = with_faults b fs"
    and "r = fst (m (with_faults b [])) \<or> (\<exists>k n. Some (k, n) \<in> set (faults (ub_fs b)) \<and> r = Err (FsIo k))"
  using assms unfolding only_reads_def by blast

lemma only_reads_syscall:
  assumes "\<And>s. snd (call s) = s" and "\<And>s fs. fst (call (s\<lparr>faults := fs\<rparr>)) = fst (call s)"
  shows "only_reads (on_fs (syscall (\<lambda>_ s. s) call))"
  unfolding only_reads_def
proof (intro allI impI)
  fix b r b' assume run: "on_fs (syscall (\<lambda>_ s. s) call) b = (r, b')"
  have call: "call (s\<lparr>faults := fs\<rparr>) = (fst (call s), s\<lparr>faults := fs\<rparr>)" for s fs using assms by (metis prod.collapse)
  have call0: "call s = (fst (call s), s)" for s using assms(1) by (metis prod.collapse)
  show "(\<exists>fs. set fs \<subseteq> set (faults (ub_fs b)) \<and> b' = with_faults b fs) \<and>
     (r = fst (on_fs (syscall (\<lambda>_ s. s) call) (with_faults b [])) \<or>
      (\<exists>k n. Some (k, n) \<in> set (faults (ub_fs b)) \<and> r = Err (FsIo k)))"
  proof (cases "faults (ub_fs b)")
    case Nil
    with run call0 [of "ub_fs b"] call [where s = "ub_fs b" and fs = "[]"] show ?thesis
      by (auto simp: syscall_def on_fs_def intro!: exI [of _ "[]"] split: prod.splits)
  next
    case (Cons f fs)
    with run call [where s = "ub_fs b" and fs = fs] call [where s = "ub_fs b" and fs = "[]"] show ?thesis
      by (cases f) (auto simp: syscall_def on_fs_def intro: exI [of _ fs] split: prod.splits)
  qed
qed

lemma only_reads_pure: "only_reads (io_return x)" "only_reads (io_fail e)"
  unfolding only_reads_def by (auto intro: exI [of _ "faults (ub_fs _)"])

lemma only_reads_bind:
  assumes "only_reads m" and "\<And>x. only_reads (f x)"
  shows "only_reads (io_bind m f)"
  unfolding only_reads_def
proof (intro allI impI)
  fix b r b' assume run: "io_bind m f b = (r, b')"
  obtain r1 b1 where m: "m b = (r1, b1)" by fastforce
  from assms(1) m obtain fs where fs: "set fs \<subseteq> set (faults (ub_fs b))" "b1 = with_faults b fs"
    "r1 = fst (m (with_faults b [])) \<or> (\<exists>k n. Some (k, n) \<in> set (faults (ub_fs b)) \<and> r1 = Err (FsIo k))" by (rule only_readsE)
  obtain r0 b0 where m0: "m (with_faults b []) = (r0, b0)" by fastforce
  from assms(1) m0 have "b0 = with_faults b []" by (rule only_readsE) simp
  note m0 = m0 [unfolded this]
  show "(\<exists>fs. set fs \<subseteq> set (faults (ub_fs b)) \<and> b' = with_faults b fs) \<and>
     (r = fst (io_bind m f (with_faults b [])) \<or> (\<exists>k n. Some (k, n) \<in> set (faults (ub_fs b)) \<and> r = Err (FsIo k)))"
  proof (cases r1)
    case (Err e)
    with run m have "r = Err e" "b' = b1" by simp_all
    with Err fs m0 show ?thesis by auto
  next
    case (Ok x)
    with fs(3) m0 have r0: "r0 = Ok x" by auto
    from Ok run m have "f x b1 = (r, b')" by simp
    with assms(2) obtain gs where "set gs \<subseteq> set (faults (ub_fs b1))" "b' = with_faults b1 gs"
      "r = fst (f x (with_faults b1 [])) \<or> (\<exists>k n. Some (k, n) \<in> set (faults (ub_fs b1)) \<and> r = Err (FsIo k))" by (rule only_readsE)
    with fs(1,2) m0 r0 show ?thesis by auto
  qed
qed

lemma only_reads_calls: "only_reads (on_fs (open_read d nm))" "only_reads (on_fs (read_to_end i))" "only_reads (on_fs (read_to_string i))"
proof -
  show "only_reads (on_fs (open_read d nm))" and e: "only_reads (on_fs (read_to_end i))"
    unfolding open_read_def read_to_end_def
    by (rule only_reads_syscall; simp add: fs_dir_def split: option.split dir_id.split)+
  have eq: "on_fs (read_to_string i) = io_bind (on_fs (read_to_end i)) (\<lambda>bs. if utf8_valid bs then io_return bs else io_fail (FsIo InvalidData))"
    by (rule ext) (auto simp: read_to_string_def on_fs_def io_bind_def split: prod.split result.split)
  show "only_reads (on_fs (read_to_string i))"
    unfolding eq by (rule only_reads_bind [OF e]) (simp add: only_reads_pure)
qed

text \<open>Hence loading: the committed state or an error, unless the schedule fakes a missing file.\<close>

lemma load_committed_faulty:
  assumes "fs_inv (ub_fs b)" and "\<And>n. Some (NotFound, n) \<notin> set (faults (ub_fs b))" and "UnixFs_load_committed b = (r, b')"
  shows "(r = Ok (fs_visible (ub_fs b)) \<or> (\<exists>e. r = Err e)) \<and>
    (\<exists>fs. set fs \<subseteq> set (faults (ub_fs b)) \<and> b' = with_faults b fs)"
proof -
  let ?first = "on_fs (open_read RootDir ROOT_FILE)"
  define rest where "rest = (\<lambda>manifest. io_bind (on_fs (read_to_string manifest)) (\<lambda>text.
      let file_name = trim_end_newlines text
      in if \<not> valid_candidate_name file_name then io_fail InvalidRootManifest
         else
           io_bind (on_fs (open_read ObjectsDir file_name)) (\<lambda>file.
           io_bind (on_fs (read_to_end file)) (\<lambda>encoded.
             case recovery_decode encoded of
               Err _ \<Rightarrow> io_fail InvalidRecoveryRecord
             | Ok state \<Rightarrow> io_return (Some state)))))"
  have load: "UnixFs_load_committed b = (case ?first b of (Err (FsIo NotFound), b') \<Rightarrow> (Ok None, b')
      | (Err e, b') \<Rightarrow> (Err e, b') | (Ok manifest, b') \<Rightarrow> rest manifest b')" for b
    unfolding UnixFs_load_committed_def rest_def ..
  have reading: "only_reads (rest i)" for i
    unfolding rest_def Let_def
    by (intro only_reads_bind only_reads_calls) (auto intro!: only_reads_bind only_reads_calls only_reads_pure split: result.split)
  have inv0: "fs_inv (ub_fs (with_faults b []))" "fs_visible (ub_fs (with_faults b [])) = fs_visible (ub_fs b)"
    using assms(1) by (simp_all add: fs_inv_def stored_def commits_def fs_visible_def committed_def cong: option.case_cong)
  have quiet: "fst (UnixFs_load_committed (with_faults b [])) = Ok (fs_visible (ub_fs b))"
    using load_committed_visible [OF inv0(1)] inv0(2) by simp
  obtain r1 b1 where m: "?first b = (r1, b1)" by fastforce
  from only_reads_calls(1) m obtain fs where fs: "set fs \<subseteq> set (faults (ub_fs b))" "b1 = with_faults b fs"
    "r1 = fst (?first (with_faults b [])) \<or> (\<exists>k n. Some (k, n) \<in> set (faults (ub_fs b)) \<and> r1 = Err (FsIo k))" by (rule only_readsE)
  obtain r0 b0 where m0: "?first (with_faults b []) = (r0, b0)" by fastforce
  from only_reads_calls(1) m0 have "b0 = with_faults b []" by (rule only_readsE) simp
  note m0 = m0 [unfolded this]
  show ?thesis
  proof (cases r1)
    case (Err e)
    show ?thesis
    proof (cases "e = FsIo NotFound")
      case True
      with fs(3) assms(2) Err m0 have "r0 = Err (FsIo NotFound)" by auto
      with quiet m0 have "fs_visible (ub_fs b) = None" by (simp add: load)
      with True Err m fs(1,2) assms(3) show ?thesis by (auto simp: load)
    next
      case False
      with Err m assms(3) have "r = Err e" "b' = b1"
        by (auto simp: load split: FsStorageError.splits ErrorKind.splits)
      with fs show ?thesis by auto
    qed
  next
    case (Ok i)
    with fs(3) m0 have r0: "r0 = Ok i" by auto
    from Ok m assms(3) have "rest i b1 = (r, b')" by (simp add: load)
    with reading obtain gs where "set gs \<subseteq> set (faults (ub_fs b1))" "b' = with_faults b1 gs"
      "r = fst (rest i (with_faults b1 [])) \<or> (\<exists>k n. Some (k, n) \<in> set (faults (ub_fs b1)) \<and> r = Err (FsIo k))" by (rule only_readsE)
    with fs(1,2) m0 r0 quiet show ?thesis by (auto simp: load)
  qed
qed

section \<open>Growing the object store\<close>

definition extends :: "file_system \<Rightarrow> file_system \<Rightarrow> bool" where
  "extends s0 s \<longleftrightarrow>
     root_dir s = root_dir s0 \<and> next_inode s0 \<le> next_inode s \<and>
     (\<forall>i < next_inode s0. content (files s i) = content (files s0 i) \<and> (stable (files s0 i) \<longrightarrow> stable (files s i))) \<and>
     (\<forall>e \<in> snaps (objects_dir s). \<exists>e0 \<in> snaps (objects_dir s0). bm_get e0 \<subseteq>\<^sub>m bm_get e) \<and>
     (\<forall>e \<in> snaps (objects_dir s). \<forall>nm j. bm_get e nm = Some j \<longrightarrow> j < next_inode s \<and>
        ((\<exists>e0 \<in> snaps (objects_dir s0). bm_get e0 nm = Some j) \<or> next_inode s0 \<le> j))"

lemma extends_refl: "fs_inv s \<Longrightarrow> extends s s"
  unfolding extends_def using fs_invD(3) map_le_refl by blast

lemma inode_eqI: "content f = c \<Longrightarrow> stable f \<Longrightarrow> f = \<lparr>content = c, stable = True\<rparr>"
  by simp

lemma extends_old:
  assumes "extends s0 s" and "e \<in> snaps (objects_dir s)"
  shows "\<exists>e0 \<in> snaps (objects_dir s0). bm_get e0 \<subseteq>\<^sub>m bm_get e"
  using assms by (simp add: extends_def)

lemma extends_stored:
  assumes "fs_inv s0" and "extends s0 s" and "stored s0 nm b"
  shows "stored s nm b"
proof -
  obtain j where j: "\<forall>e \<in> snaps (objects_dir s0). bm_get e nm = Some j"
    "files s0 j = \<lparr>content = recovery_encode b, stable = True\<rparr>"
    using assms(3) by (auto simp: stored_def)
  have "j < next_inode s0" using fs_invD(3) [OF assms(1)] j(1) snaps_simps(1) by blast
  then have "files s j = \<lparr>content = recovery_encode b, stable = True\<rparr>"
    using assms(2) j(2) by (intro inode_eqI) (simp_all add: extends_def)
  moreover have "bm_get e nm = Some j" if e: "e \<in> snaps (objects_dir s)" for e
  proof -
    obtain e0 where e0: "e0 \<in> snaps (objects_dir s0)" "bm_get e0 \<subseteq>\<^sub>m bm_get e"
      using extends_old [OF assms(2) e] by blast
    show ?thesis by (rule map_le_lookup [OF e0(2)]) (use j(1) e0(1) in blast)
  qed
  ultimately show ?thesis using assms(3) unfolding stored_def by blast
qed

lemma extends_commits:
  assumes "fs_inv s0" and "extends s0 s" and "commits s0 i b" and "i < next_inode s0"
  shows "commits s i b"
proof -
  obtain nm where nm: "files s0 i = \<lparr>content = nm @ [10], stable = True\<rparr>" "stored s0 nm b"
    using assms(3) by (auto simp: commits_def)
  then have "files s i = \<lparr>content = nm @ [10], stable = True\<rparr>"
    using assms(2,4) by (intro inode_eqI) (simp_all add: extends_def)
  with extends_stored [OF assms(1,2) nm(2)] show ?thesis by (auto simp: commits_def)
qed

lemma extends_committed:
  assumes "fs_inv s0" and "extends s0 s" and "e \<in> snaps (root_dir s0)"
  shows "committed s e = committed s0 e"
proof (cases "bm_get e ROOT_FILE")
  case None
  then show ?thesis by (simp add: committed_def)
next
  case (Some i)
  from fs_inv_committed [OF assms(1,3) Some] obtain b where b: "commits s0 i b" "committed s0 e = Some b" .
  have "i < next_inode s0" using fs_invD(2) [OF assms(1,3) Some] .
  from commits_committed [OF extends_commits [OF assms(1,2) b(1) this] Some] b(2) show ?thesis by simp
qed

lemma extends_inv:
  assumes "fs_inv s0" and "extends s0 s"
  shows "fs_inv s" and "fs_possible s = fs_possible s0" and "fs_visible s = fs_visible s0"
proof -
  have root: "root_dir s = root_dir s0" and bound: "next_inode s0 \<le> next_inode s"
    using assms(2) by (simp_all add: extends_def)
  have obj: "j < next_inode s \<and> ((\<exists>e0 \<in> snaps (objects_dir s0). bm_get e0 nm = Some j) \<or> next_inode s0 \<le> j)"
    if "e \<in> snaps (objects_dir s)" "bm_get e nm = Some j" for e nm j
    using assms(2) that unfolding extends_def by blast
  show "fs_inv s"
    unfolding fs_inv_def root
  proof (intro conjI ballI allI impI)
    fix e i assume e: "e \<in> snaps (root_dir s0)" and i: "bm_get e ROOT_FILE = Some i"
    from fs_invD(1) [OF assms(1) e i] fs_invD(2) [OF assms(1) e i] show "\<exists>b. commits s i b"
      using extends_commits [OF assms] by blast
  next
    fix e nm i assume "e \<in> snaps (root_dir s0) \<union> snaps (objects_dir s)" "bm_get e nm = Some i"
    then show "i < next_inode s" using obj fs_invD(2) [OF assms(1)] bound by (meson UnE less_le_trans)
  next
    fix e k ob nm assume e: "e \<in> snaps (root_dir s0)" "bm_get e ROOT_NEXT_FILE = Some k" "ob \<in> snaps (objects_dir s)"
    have "k < next_inode s0" using fs_invD(2) [OF assms(1) e(1,2)] .
    with obj [OF e(3)] fs_invD(5) [OF assms(1) e(1,2)] show "bm_get ob nm \<noteq> Some k" by (meson leD)
  qed (use fs_invD(4,6) [OF assms(1)] in blast)+
  show "fs_possible s = fs_possible s0" "fs_visible s = fs_visible s0"
    using extends_committed [OF assms] by (simp_all add: fs_possible_def fs_visible_def root)
qed

text \<open>The steps that extend: whatever the fault schedule does, adding an object, changing a file
  added since, syncing a file and syncing the directory.\<close>

lemma extends_faults [simp]: "extends s0 (s\<lparr>faults := f\<rparr>) = extends s0 s"
  by (simp add: extends_def)

lemma extends_set_file:
  assumes "extends s0 s" and "next_inode s0 \<le> i \<or> c = content (files s i) \<and> st"
  shows "extends s0 (set_file i c st s)"
  using assms by (auto simp: extends_def set_file_def)

lemma extends_add_file:
  assumes "extends s0 s" and "bm_get (live (objects_dir s)) nm = None"
  shows "extends s0 (add_file ObjectsDir nm s)"
proof -
  let ?l = "live (objects_dir s)" and ?n = "next_inode s"
  let ?e = "bm_insert nm ?n ?l"
  have n: "next_inode s0 \<le> ?n" using assms(1) by (simp add: extends_def)
  have s': "add_file ObjectsDir nm s = s\<lparr>objects_dir := \<lparr>live = ?e, past = ?l # past (objects_dir s)\<rparr>,
      files := (files s)(?n := \<lparr>content = [], stable = False\<rparr>), next_inode := ?n + 1\<rparr>"
    using assms(2) by (simp add: add_file_def fs_dir_def change_entries_def set_dir_def set_file_def)
  have le: "bm_get ?l \<subseteq>\<^sub>m bm_get ?e" using assms(2) by (auto simp: map_le_def)
  obtain e0 where e0: "e0 \<in> snaps (objects_dir s0)" "bm_get e0 \<subseteq>\<^sub>m bm_get ?l"
    using assms(1) snaps_simps(1) unfolding extends_def by blast
  have new: "j < ?n + 1 \<and> ((\<exists>e0 \<in> snaps (objects_dir s0). bm_get e0 x = Some j) \<or> next_inode s0 \<le> j)"
    if "e \<in> insert ?e (snaps (objects_dir s))" "bm_get e x = Some j" for e x j
  proof (cases "e = ?e \<and> x = nm")
    case True
    with that(2) n show ?thesis by auto
  next
    case False
    then have "\<exists>e' \<in> snaps (objects_dir s). bm_get e' x = Some j"
      using that snaps_simps(1) [of "objects_dir s"] by (cases "e = ?e") auto
    then have "j < ?n \<and> ((\<exists>e0 \<in> snaps (objects_dir s0). bm_get e0 x = Some j) \<or> next_inode s0 \<le> j)"
      using assms(1) unfolding extends_def by blast
    then show ?thesis by auto
  qed
  have old: "\<exists>e0 \<in> snaps (objects_dir s0). bm_get e0 \<subseteq>\<^sub>m bm_get e" if "e \<in> insert ?e (snaps (objects_dir s))" for e
  proof (cases "e = ?e")
    case True
    with e0 le show ?thesis by (blast intro: map_le_trans)
  next
    case False
    with that assms(1) show ?thesis unfolding extends_def by blast
  qed
  show ?thesis
    unfolding s' extends_def
    using assms(1) n new old by (simp add: extends_def)
qed

lemma extends_sync_dir:
  "extends s0 s \<Longrightarrow> extends s0 (set_dir ObjectsDir \<lparr>live = live (fs_dir ObjectsDir s), past = []\<rparr> s)"
  by (simp add: extends_def set_dir_def fs_dir_def) (metis snaps_simps(1))

section \<open>Writing and syncing a candidate\<close>

lemma syscall_valid:
  assumes "\<And>s f. P s \<Longrightarrow> P (s\<lparr>faults := f\<rparr>)" and "\<And>s r s'. P s \<Longrightarrow> call s = (r, s') \<Longrightarrow> Q r s'"
    and "\<And>s n k. P s \<Longrightarrow> Q (Err k) (partial n s)"
  shows "io_valid P (syscall partial call) Q"
  unfolding io_valid_def
proof (intro allI impI)
  fix s r s' assume P: "P s" and run: "syscall partial call s = (r, s')"
  then consider f where "call (s\<lparr>faults := f\<rparr>) = (r, s')"
    | "call s = (r, s')"
    | k n f where "r = Err k" "s' = partial n (s\<lparr>faults := f\<rparr>)"
    by (auto simp: syscall_def split: list.splits option.splits)
  then show "Q r s'"
  proof cases
    case (1 f)
    then show ?thesis by (rule assms(2) [OF assms(1) [OF P]])
  next
    case 2
    then show ?thesis by (rule assms(2) [OF P])
  next
    case (3 k n f)
    then show ?thesis using assms(3) [OF assms(1) [OF P]] by simp
  qed
qed

lemma on_fs_valid:
  assumes "io_valid P m (\<lambda>r s. Q (map_err FsIo r) s)"
  shows "io_valid (\<lambda>b. P (ub_fs b)) (on_fs m) (\<lambda>r b. Q r (ub_fs b))"
  using assms by (auto simp: io_valid_def on_fs_def split: prod.splits)

definition fresh :: "file_system \<Rightarrow> bytes \<Rightarrow> file_system \<Rightarrow> bool" where
  "fresh s0 nm s \<longleftrightarrow> extends s0 s \<and> valid_candidate_name nm \<and>
     (\<exists>j. bm_get (live (objects_dir s)) nm = Some j \<and> next_inode s0 \<le> j)"

definition opened :: "file_system \<Rightarrow> bytes \<Rightarrow> nat \<Rightarrow> bytes \<Rightarrow> file_system \<Rightarrow> bool" where
  "opened s0 nm i c s \<longleftrightarrow> extends s0 s \<and> valid_candidate_name nm \<and>
     bm_get (live (objects_dir s)) nm = Some i \<and> next_inode s0 \<le> i \<and> content (files s i) = c"

lemma add_file_fresh:
  assumes "extends s0 s" and "bm_get (live (objects_dir s)) nm = None" and "valid_candidate_name nm"
  shows "fresh s0 nm (add_file ObjectsDir nm s)"
proof -
  have "bm_get (live (objects_dir (add_file ObjectsDir nm s))) nm = Some (next_inode s)" "next_inode s0 \<le> next_inode s"
    using assms(1,2) by (simp_all add: add_file_def fs_dir_def change_entries_def set_dir_def set_file_def extends_def)
  with extends_add_file [OF assms(1,2)] assms(3) show ?thesis by (auto simp: fresh_def)
qed

lemma add_file_extends: "extends s0 s \<Longrightarrow> extends s0 (add_file ObjectsDir nm s)"
  by (cases "bm_get (live (objects_dir s)) nm") (simp_all add: extends_add_file, simp add: add_file_def fs_dir_def)

lemma create_new_valid:
  "valid_candidate_name nm \<Longrightarrow>
   io_valid (extends s0) (create_new ObjectsDir nm) (\<lambda>r s. extends s0 s \<and> (is_ok r \<longrightarrow> fresh s0 nm s))"
  unfolding create_new_def
  by (rule syscall_valid)
    (auto simp: add_file_fresh add_file_extends fs_dir_def split: option.splits)

lemma allocate_candidate_valid:
  "allocate_candidate b = (r, b') \<Longrightarrow> extends s0 (ub_fs b) \<Longrightarrow>
     extends s0 (ub_fs b') \<and> (\<forall>c. r = Ok c \<longrightarrow> fresh s0 (file_name c) (ub_fs b'))"
proof (induction b arbitrary: r b' rule: allocate_candidate.induct)
  case (1 b)
  let ?n = "next_candidate b" and ?b = "b\<lparr>next_candidate := next_candidate b + 1\<rparr>"
  show ?case
  proof (cases "?n = - 1")
    case True
    with 1(2,3) show ?thesis by (auto simp: allocate_candidate.simps [of b] Let_def)
  next
    case n: False
    obtain r1 s1 where c: "create_new ObjectsDir (candidate_name ?n) (ub_fs b) = (r1, s1)" by fastforce
    have v: "extends s0 s1 \<and> (is_ok r1 \<longrightarrow> fresh s0 (candidate_name ?n) s1)"
      by (rule io_validD [OF create_new_valid [OF candidate_name_valid]]) (use 1(3) c in simp_all)
    show ?thesis
    proof (cases r1)
      case (Ok u)
      with 1(2) n c v show ?thesis by (auto simp: allocate_candidate.simps [of b] Let_def)
    next
      case (Err k)
      show ?thesis
      proof (cases "k = AlreadyExists")
        case True
        with 1(2) n c Err have "allocate_candidate (?b\<lparr>ub_fs := s1\<rparr>) = (r, b')"
          by (simp add: allocate_candidate.simps [of b] Let_def)
        from 1(1) [OF refl n refl _ Err True this] c Err v show ?thesis by simp
      next
        case False
        with 1(2) n c Err v show ?thesis by (auto simp: allocate_candidate.simps [of b] Let_def)
      qed
    qed
  qed
qed

lemma set_file_opened:
  "opened s0 nm i c s \<Longrightarrow> opened s0 nm i c' (set_file i c' st s)"
  by (simp add: opened_def extends_set_file) (simp add: set_file_def)

lemma freshD: "fresh s0 nm s \<Longrightarrow> \<exists>i. opened s0 nm i (content (files s i)) s"
  by (auto simp: fresh_def opened_def)

lemma open_truncate_valid:
  "io_valid (fresh s0 nm) (open_truncate ObjectsDir nm) (\<lambda>r s. extends s0 s \<and> (\<forall>i. r = Ok i \<longrightarrow> opened s0 nm i [] s))"
proof -
  have tr: "opened s0 nm i [] (truncate_entry ObjectsDir nm s)"
    if "fresh s0 nm s" "bm_get (live (objects_dir s)) nm = Some i" for s i
    using that set_file_opened [of s0 nm i "content (files s i)" s "[]" False]
    by (simp add: truncate_entry_def fs_dir_def fresh_def opened_def)
  have ext: "extends s0 (truncate_entry ObjectsDir nm s)" "extends s0 s" if "fresh s0 nm s" for s
    using tr [OF that] that by (auto simp: fresh_def opened_def truncate_entry_def fs_dir_def)
  show ?thesis
    unfolding open_truncate_def
    by (rule syscall_valid) (auto simp: tr ext fs_dir_def fresh_def split: option.splits)
qed

lemma write_all_valid:
  "io_valid (opened s0 nm i c) (write_all i bs) (\<lambda>r s. extends s0 s \<and> (is_ok r \<longrightarrow> opened s0 nm i (c @ bs) s))"
proof -
  have app: "opened s0 nm i (c @ x) (append_file i x s)" if "opened s0 nm i c s" for x s
    using set_file_opened [OF that, of "c @ x" False] that by (simp add: append_file_def opened_def)
  have ext: "extends s0 (append_file i x s)" if "opened s0 nm i c s" for x s
    using app [OF that] by (simp add: opened_def)
  show ?thesis
    unfolding write_all_def
  proof (rule syscall_valid)
    fix s r s' assume "opened s0 nm i c s" "(Ok (), append_file i bs s) = (r, s')"
    with app [of s bs] ext [of s bs] show "extends s0 s' \<and> (is_ok r \<longrightarrow> opened s0 nm i (c @ bs) s')" by auto
  qed (simp_all add: ext opened_def)
qed

lemma write_candidate_valid:
  assumes "22 + length st \<le> usize_max"
  shows "io_valid (\<lambda>b. extends s0 (ub_fs b)) (UnixFs_write_candidate st)
    (\<lambda>r b. extends s0 (ub_fs b) \<and> (\<forall>c. r = Ok c \<longrightarrow> written_in (ub_fs b) (file_name c) st))"
proof -
  have alloc: "io_valid (\<lambda>b. extends s0 (ub_fs b)) allocate_candidate
      (\<lambda>r b. extends s0 (ub_fs b) \<and> (\<forall>c. r = Ok c \<longrightarrow> fresh s0 (file_name c) (ub_fs b)))"
    using allocate_candidate_valid unfolding io_valid_def by blast
  have opn: "io_valid (\<lambda>b. fresh s0 nm (ub_fs b)) (on_fs (open_truncate ObjectsDir nm))
      (\<lambda>r b. extends s0 (ub_fs b) \<and> (\<forall>i. r = Ok i \<longrightarrow> opened s0 nm i [] (ub_fs b)))" for nm
    by (rule on_fs_valid) (rule io_valid_conseq [OF open_truncate_valid], auto)
  have wr: "io_valid (\<lambda>b. opened s0 nm i [] (ub_fs b)) (on_fs (write_all i bs))
      (\<lambda>r b. extends s0 (ub_fs b) \<and> (is_ok r \<longrightarrow> opened s0 nm i bs (ub_fs b)))" for nm i bs
    by (rule on_fs_valid) (rule io_valid_conseq [OF write_all_valid], auto simp: is_ok_iff)
  show ?thesis
    unfolding UnixFs_write_candidate_def
  proof (rule io_valid_bind [OF alloc])
    fix c
    show "io_valid (\<lambda>b. extends s0 (ub_fs b) \<and> (\<forall>ca. Ok c = Ok ca \<longrightarrow> fresh s0 (file_name ca) (ub_fs b)))
        (io_bind (on_fs (open_truncate ObjectsDir (file_name c)))
          (\<lambda>file. io_bind (on_fs (write_all file (recovery_encode st))) (\<lambda>_. io_return c)))
        (\<lambda>r b. extends s0 (ub_fs b) \<and> (\<forall>c. r = Ok c \<longrightarrow> written_in (ub_fs b) (file_name c) st))"
      by (rule io_valid_step [OF opn [of "file_name c"]], simp,
          rule io_valid_step [OF wr [of "file_name c"]], simp, rule io_valid_return)
        (use assms in \<open>auto simp: opened_def written_in_def\<close>)
  qed auto
qed

lemma sync_candidate_valid:
  "io_valid (\<lambda>b. extends s0 (ub_fs b) \<and> written_in (ub_fs b) (file_name c) st) (UnixFs_sync_candidate c)
    (\<lambda>r b. extends s0 (ub_fs b) \<and> (is_ok r \<longrightarrow> stored (ub_fs b) (file_name c) st))"
proof -
  let ?nm = "file_name c"
  define at where "at sy i s \<longleftrightarrow> extends s0 s \<and> valid_candidate_name ?nm \<and> 22 + length st \<le> usize_max \<and>
      bm_get (live (objects_dir s)) ?nm = Some i \<and> content (files s i) = recovery_encode st \<and> (sy \<longrightarrow> stable (files s i))"
    for sy i s
  have opn: "io_valid (\<lambda>b. extends s0 (ub_fs b) \<and> written_in (ub_fs b) ?nm st) (on_fs (open_read ObjectsDir ?nm))
      (\<lambda>r b. extends s0 (ub_fs b) \<and> (\<forall>i. r = Ok i \<longrightarrow> at False i (ub_fs b)))"
    by (rule on_fs_valid, unfold open_read_def, rule syscall_valid)
      (auto simp: written_in_def at_def fs_dir_def split: option.splits)
  have syn: "io_valid (\<lambda>b. at False i (ub_fs b)) (on_fs (sync_file i))
      (\<lambda>r b. extends s0 (ub_fs b) \<and> (is_ok r \<longrightarrow> at True i (ub_fs b)))" for i
    by (rule on_fs_valid, unfold sync_file_def, rule syscall_valid)
      (auto simp: at_def extends_set_file, auto simp: set_file_def)
  have dir: "io_valid (\<lambda>b. at True i (ub_fs b)) (on_fs (open_dir ObjectsDir))
      (\<lambda>r b. extends s0 (ub_fs b) \<and> (is_ok r \<longrightarrow> at True i (ub_fs b)))" for i
    by (rule on_fs_valid, unfold open_dir_def, rule syscall_valid) (auto simp: at_def)
  have sdir: "io_valid (\<lambda>b. at True i (ub_fs b)) (on_fs (sync_dir ObjectsDir))
      (\<lambda>r b. extends s0 (ub_fs b) \<and> (is_ok r \<longrightarrow> stored (ub_fs b) ?nm st))" for i
  proof (rule on_fs_valid, unfold sync_dir_def, rule syscall_valid)
    fix s s' :: file_system and r :: "(unit, ErrorKind) result"
    assume a: "at True i s" and r: "(Ok (), set_dir ObjectsDir \<lparr>live = live (fs_dir ObjectsDir s), past = []\<rparr> s) = (r, s')"
    then have "files s' i = \<lparr>content = recovery_encode st, stable = True\<rparr>"
      by (intro inode_eqI) (auto simp: at_def set_dir_def)
    with a r extends_sync_dir [of s0 s] show "extends s0 s' \<and> (is_ok (map_err FsIo r) \<longrightarrow> stored s' ?nm st)"
      by (auto simp: at_def stored_def set_dir_def fs_dir_def)
  qed (auto simp: at_def)
  show ?thesis
    unfolding UnixFs_sync_candidate_def
  proof (rule io_valid_step [OF opn])
    fix i
    show "io_valid (\<lambda>b. extends s0 (ub_fs b) \<and> (\<forall>j. Ok i = Ok j \<longrightarrow> at False j (ub_fs b)))
        (io_bind (on_fs (sync_file i)) (\<lambda>_. io_bind (on_fs (open_dir ObjectsDir)) (\<lambda>_. on_fs (sync_dir ObjectsDir))))
        (\<lambda>r b. extends s0 (ub_fs b) \<and> (is_ok r \<longrightarrow> stored (ub_fs b) ?nm st))"
      by (rule io_valid_step [OF syn [of i]], simp, rule io_valid_step [OF dir [of i]], simp,
          rule io_valid_conseq [OF sdir [of i]]) auto
  qed auto
qed

section \<open>Publishing\<close>

text \<open>The scratch manifest is referenced by nothing that is committed.\<close>

lemma root_frame:
  assumes "fs_inv s" and "objects_dir s' = objects_dir s"
    and same: "\<And>i. i < next_inode s \<Longrightarrow> bm_get (live (root_dir s)) ROOT_NEXT_FILE \<noteq> Some i \<Longrightarrow> files s' i = files s i"
  shows "stored s nm b \<Longrightarrow> stored s' nm b"
    and "e \<in> snaps (root_dir s) \<Longrightarrow> bm_get e ROOT_FILE = Some i \<Longrightarrow> commits s i b \<Longrightarrow> commits s' i b"
    and "e \<in> snaps (root_dir s) \<Longrightarrow> committed s' e = committed s e"
proof -
  have obj: "files s' j = files s j" if "e \<in> snaps (objects_dir s)" "bm_get e x = Some j" for e x j
    using same fs_invD(3) [OF assms(1) that] fs_invD(5) [OF assms(1) snaps_simps(1) _ that(1)] that(2) by blast
  show st: "stored s' nm b" if "stored s nm b" for nm b
  proof -
    obtain j where "\<forall>e \<in> snaps (objects_dir s). bm_get e nm = Some j"
      "files s j = \<lparr>content = recovery_encode b, stable = True\<rparr>" using \<open>stored s nm b\<close> by (auto simp: stored_def)
    with obj [OF snaps_simps(1), of nm j] \<open>stored s nm b\<close> show ?thesis by (auto simp: stored_def assms(2))
  qed
  show cm: "commits s' i b" if "e \<in> snaps (root_dir s)" "bm_get e ROOT_FILE = Some i" "commits s i b" for e i b
  proof -
    have "files s' i = files s i"
      by (rule same [OF fs_invD(2) [OF assms(1) that(1,2)]]) (use fs_invD(6) [OF assms(1) that(1)] that(2) in blast)
    with that(3) st show ?thesis by (auto simp: commits_def)
  qed
  show "committed s' e = committed s e" if e: "e \<in> snaps (root_dir s)" for e
  proof (cases "bm_get e ROOT_FILE")
    case None
    then show ?thesis by (simp add: committed_def)
  next
    case (Some i)
    from fs_inv_committed [OF assms(1) e Some] obtain b where "commits s i b" "committed s e = Some b" .
    with commits_committed [OF cm [OF e Some] Some] show ?thesis by simp
  qed
qed

definition publishing :: "file_system \<Rightarrow> bytes \<Rightarrow> bytes \<Rightarrow> file_system \<Rightarrow> bool" where
  "publishing s0 nm b s \<longleftrightarrow> fs_inv s \<and> stored s nm b \<and>
     fs_possible s = fs_possible s0 \<and> fs_visible s = fs_visible s0"

lemma publishing_faults [simp]: "publishing s0 nm b (s\<lparr>faults := f\<rparr>) = publishing s0 nm b s"
  by (simp add: publishing_def fs_inv_def stored_def commits_def fs_possible_def fs_visible_def committed_def cong: option.case_cong)

lemma publishing_set_file:
  assumes "publishing s0 nm b s" and "bm_get (live (root_dir s)) ROOT_NEXT_FILE = Some k"
  shows "publishing s0 nm b (set_file k c st s)"
proof -
  let ?s = "set_file k c st s"
  have inv: "fs_inv s" using assms(1) by (simp add: publishing_def)
  have dirs: "objects_dir ?s = objects_dir s" "root_dir ?s = root_dir s" "next_inode ?s = next_inode s"
    by (simp_all add: set_file_def)
  have same: "bm_get (live (root_dir s)) ROOT_NEXT_FILE \<noteq> Some i \<Longrightarrow> files ?s i = files s i" for i
    using assms(2) by (simp add: set_file_def)
  note fr = root_frame [OF inv dirs(1) same]
  have "fs_inv ?s"
    unfolding fs_inv_def dirs using inv fr(2) unfolding fs_inv_def by meson
  with assms(1) fr show ?thesis by (simp add: publishing_def fs_possible_def fs_visible_def dirs)
qed

lemma publishing_add_next:
  assumes "publishing s0 nm b s"
  shows "publishing s0 nm b (add_file RootDir ROOT_NEXT_FILE s)"
    and "bm_get (live (root_dir (add_file RootDir ROOT_NEXT_FILE s))) ROOT_NEXT_FILE \<noteq> None"
proof -
  let ?s = "add_file RootDir ROOT_NEXT_FILE s" and ?l = "live (root_dir s)" and ?n = "next_inode s"
  let ?e = "bm_insert ROOT_NEXT_FILE ?n ?l"
  have inv: "fs_inv s" using assms by (simp add: publishing_def)
  show "bm_get (live (root_dir ?s)) ROOT_NEXT_FILE \<noteq> None"
    by (simp add: add_file_def fs_dir_def change_entries_def set_dir_def set_file_def split: option.split)
  show "publishing s0 nm b ?s"
  proof (cases "bm_get ?l ROOT_NEXT_FILE")
    case (Some k)
    then show ?thesis using assms by (simp add: add_file_def fs_dir_def)
  next
    case None
    then have s': "?s = s\<lparr>root_dir := \<lparr>live = ?e, past = ?l # past (root_dir s)\<rparr>,
        files := (files s)(?n := \<lparr>content = [], stable = False\<rparr>), next_inode := ?n + 1\<rparr>"
      by (simp add: add_file_def fs_dir_def change_entries_def set_dir_def set_file_def)
    have snaps': "snaps (root_dir ?s) = insert ?e (snaps (root_dir s))" by (simp add: s')
    have obj: "objects_dir ?s = objects_dir s" "next_inode ?s = ?n + 1" by (simp_all add: s')
    have fr: "stored ?s nm b" "\<And>e i b. e \<in> snaps (root_dir s) \<Longrightarrow> bm_get e ROOT_FILE = Some i \<Longrightarrow> commits s i b \<Longrightarrow> commits ?s i b"
      "\<And>e. e \<in> snaps (root_dir s) \<Longrightarrow> committed ?s e = committed s e"
      using root_frame [OF inv obj(1)] assms by (simp_all add: s' publishing_def)
    have root_e: "bm_get ?e ROOT_FILE = bm_get ?l ROOT_FILE" by simp
    have ce: "committed ?s ?e = committed s ?l" using fr(3) [OF snaps_simps(1)] by (simp add: committed_def)
    have small: "i < ?n" if "e \<in> snaps (root_dir s) \<union> snaps (objects_dir s)" "bm_get e x = Some i" for e x i
      using that fs_invD(2,3) [OF inv] by blast
    have "fs_inv ?s"
      unfolding fs_inv_def snaps' obj
    proof (intro conjI ballI allI impI)
      fix e i assume e: "e \<in> insert ?e (snaps (root_dir s))" "bm_get e ROOT_FILE = Some i"
      then obtain e' where "e' \<in> snaps (root_dir s)" "bm_get e' ROOT_FILE = Some i" using root_e snaps_simps(1) by fastforce
      with fs_invD(1) [OF inv this] fr(2) [OF this] show "\<exists>b. commits ?s i b" by blast
    next
      fix e x i assume e: "e \<in> insert ?e (snaps (root_dir s)) \<union> snaps (objects_dir s)" "bm_get e x = Some i"
      then show "i < ?n + 1"
        using small snaps_simps(1) by (cases "e = ?e \<and> x = ROOT_NEXT_FILE") (force split: if_splits dest: small)+
    next
      fix e k assume e: "e \<in> insert ?e (snaps (root_dir s))" "bm_get e ROOT_NEXT_FILE = Some k"
      show "bm_get e ROOT_FILE \<noteq> Some k"
        using e fs_invD(4) [OF inv] small [of ?l ROOT_FILE k] by (cases "e = ?e") auto
      fix ob x assume "ob \<in> snaps (objects_dir s)"
      then show "bm_get ob x \<noteq> Some k"
        using e fs_invD(5) [OF inv] small [of ob x k] by (cases "e = ?e") auto
    next
      fix e k assume e: "e \<in> insert ?e (snaps (root_dir s))" "bm_get (live (root_dir ?s)) ROOT_NEXT_FILE = Some k"
      then have "k = ?n" by (simp add: s')
      then show "bm_get e ROOT_FILE \<noteq> Some k"
        using e small [of e ROOT_FILE k] small [of ?l ROOT_FILE k] by (cases "e = ?e") auto
    qed
    moreover have "fs_possible ?s = fs_possible s"
      unfolding fs_possible_def snaps' using fr(3) ce by (auto simp: image_iff)
    moreover have "fs_visible ?s = fs_visible s" using ce by (simp add: fs_visible_def s')
    ultimately show ?thesis using assms fr(1) by (simp add: publishing_def)
  qed
qed

lemma publishing_rename:
  assumes "publishing s0 nm b s" and nxt: "bm_get (live (root_dir s)) ROOT_NEXT_FILE = Some k"
    and "files s k = \<lparr>content = nm @ [10], stable = True\<rparr>"
  defines "s' \<equiv> move_entry RootDir ROOT_NEXT_FILE ROOT_FILE s"
  shows "fs_inv s'" and "fs_possible s' = insert (Some b) (fs_possible s0)" and "fs_visible s' = Some b"
proof -
  let ?l = "live (root_dir s)"
  let ?e = "bm_insert ROOT_FILE k (bm_remove ROOT_NEXT_FILE ?l)"
  have inv: "fs_inv s" and st: "stored s nm b" using assms(1) by (simp_all add: publishing_def)
  have s': "s' = s\<lparr>root_dir := \<lparr>live = ?e, past = ?l # past (root_dir s)\<rparr>\<rparr>"
    using nxt by (simp add: s'_def move_entry_def fs_dir_def change_entries_def set_dir_def)
  have snaps': "snaps (root_dir s') = insert ?e (snaps (root_dir s))" by (simp add: s')
  have obj: "objects_dir s' = objects_dir s" "next_inode s' = next_inode s" "files s' = files s" by (simp_all add: s')
  have cm: "commits s' i v = commits s i v" for i v by (simp add: commits_def stored_def obj)
  have cd: "committed s' e = committed s e" for e by (simp add: committed_def obj cong: option.case_cong)
  have k: "commits s k b" using st assms(3) by (auto simp: commits_def)
  have ce: "committed s ?e = Some b" by (rule commits_committed [OF k]) simp
  show "fs_inv s'"
    unfolding fs_inv_def snaps' obj cm
  proof (intro conjI ballI allI impI)
    fix e i assume "e \<in> insert ?e (snaps (root_dir s))" "bm_get e ROOT_FILE = Some i"
    then show "\<exists>b. commits s i b" using k fs_invD(1) [OF inv] by auto
  next
    fix e x i assume e: "e \<in> insert ?e (snaps (root_dir s)) \<union> snaps (objects_dir s)" "bm_get e x = Some i"
    show "i < next_inode s"
    proof (cases "e = ?e")
      case True
      then show ?thesis using e(2) fs_invD(2) [OF inv snaps_simps(1)] nxt by (auto split: if_splits)
    next
      case False
      then show ?thesis using e fs_invD(2,3) [OF inv] by blast
    qed
  next
    fix e j assume e: "e \<in> insert ?e (snaps (root_dir s))" "bm_get e ROOT_NEXT_FILE = Some j"
    then show "bm_get e ROOT_FILE \<noteq> Some j" using fs_invD(4) [OF inv] by auto
    fix ob x assume "ob \<in> snaps (objects_dir s)"
    with e show "bm_get ob x \<noteq> Some j" using fs_invD(5) [OF inv] by auto
  next
    fix e j assume "bm_get (live (root_dir s')) ROOT_NEXT_FILE = Some j"
    then show "bm_get e ROOT_FILE \<noteq> Some j" by (simp add: s')
  qed
  show "fs_possible s' = insert (Some b) (fs_possible s0)"
    using assms(1) ce by (simp add: publishing_def fs_possible_def snaps' cd)
  have "live (root_dir s') = ?e" by (simp add: s')
  then show "fs_visible s' = Some b" using ce by (simp add: fs_visible_def cd)
qed

definition published :: "file_system \<Rightarrow> bytes \<Rightarrow> bool \<Rightarrow> file_system \<Rightarrow> bool" where
  "published s0 b fin s \<longleftrightarrow> fs_inv s \<and> fs_possible s0 \<subseteq> fs_possible s \<and>
     fs_possible s \<subseteq> insert (Some b) (fs_possible s0) \<and> (fin \<longrightarrow> fs_visible s = Some b)"

lemma publishing_published: "publishing s0 nm b s \<Longrightarrow> published s0 b False s"
  by (auto simp: publishing_def published_def)

definition scratch :: "file_system \<Rightarrow> bytes \<Rightarrow> bytes \<Rightarrow> nat \<Rightarrow> bytes \<Rightarrow> bool \<Rightarrow> file_system \<Rightarrow> bool" where
  "scratch s0 nm b k c sy s \<longleftrightarrow> publishing s0 nm b s \<and> bm_get (live (root_dir s)) ROOT_NEXT_FILE = Some k \<and>
     content (files s k) = c \<and> (sy \<longrightarrow> stable (files s k))"

lemma scratch_set_file: "scratch s0 nm b k c sy s \<Longrightarrow> scratch s0 nm b k c' sy' (set_file k c' sy' s)"
  by (simp add: scratch_def publishing_set_file) (simp add: set_file_def)

lemma scratch_faults [simp]: "scratch s0 nm b k c sy (s\<lparr>faults := f\<rparr>) = scratch s0 nm b k c sy s"
  by (simp add: scratch_def)

lemma scratch_published: "scratch s0 nm b k c sy s \<Longrightarrow> published s0 b False s"
  by (auto simp: scratch_def publishing_published)

lemma open_next_valid:
  "io_valid (publishing s0 nm b) (open_create_truncate RootDir ROOT_NEXT_FILE)
     (\<lambda>r s. published s0 b False s \<and> (\<forall>k. r = Ok k \<longrightarrow> scratch s0 nm b k [] False s))"
proof -
  have tr: "\<exists>k. bm_get (live (root_dir (truncate_entry RootDir ROOT_NEXT_FILE s))) ROOT_NEXT_FILE = Some k \<and>
      scratch s0 nm b k [] False (truncate_entry RootDir ROOT_NEXT_FILE s)"
    if p: "publishing s0 nm b s" and n: "bm_get (live (root_dir s)) ROOT_NEXT_FILE \<noteq> None" for s
  proof -
    from n obtain k where k: "bm_get (live (root_dir s)) ROOT_NEXT_FILE = Some k" by blast
    with p have "scratch s0 nm b k (content (files s k)) False s" by (simp add: scratch_def)
    from scratch_set_file [OF this, of "[]" False] k show ?thesis
      by (simp add: truncate_entry_def fs_dir_def set_file_def)
  qed
  note add = publishing_add_next
  note both = tr [OF add]
  show ?thesis
    unfolding open_create_truncate_def
  proof (rule syscall_valid)
    fix s r s'
    assume p: "publishing s0 nm b s"
    let ?t = "truncate_entry RootDir ROOT_NEXT_FILE (add_file RootDir ROOT_NEXT_FILE s)"
    assume "(let s' = ?t in case bm_get (live (fs_dir RootDir s')) ROOT_NEXT_FILE of
        None \<Rightarrow> (Err NotFound, s') | Some i \<Rightarrow> (Ok i, s')) = (r, s')"
    with both [OF p p] show "published s0 b False s' \<and> (\<forall>k. r = Ok k \<longrightarrow> scratch s0 nm b k [] False s')"
      by (auto simp: Let_def fs_dir_def scratch_published)
  next
    fix s n k
    assume p: "publishing s0 nm b s"
    from both [OF p p] add(1) [OF p] p show
      "published s0 b False (if n = 0 then s else if n = 1 then add_file RootDir ROOT_NEXT_FILE s
         else truncate_entry RootDir ROOT_NEXT_FILE (add_file RootDir ROOT_NEXT_FILE s)) \<and>
       (\<forall>ka. Err k = Ok ka \<longrightarrow> scratch s0 nm b ka [] False (if n = 0 then s else if n = 1 then add_file RootDir ROOT_NEXT_FILE s
         else truncate_entry RootDir ROOT_NEXT_FILE (add_file RootDir ROOT_NEXT_FILE s)))"
      by (auto simp: scratch_published publishing_published)
  qed simp
qed

lemma write_next_valid:
  "io_valid (scratch s0 nm b k c False) (write_all k bs)
     (\<lambda>r s. published s0 b False s \<and> (is_ok r \<longrightarrow> scratch s0 nm b k (c @ bs) False s))"
proof -
  have app: "scratch s0 nm b k (c @ x) False (append_file k x s)" if "scratch s0 nm b k c False s" for x s
    using scratch_set_file [OF that, of "c @ x" False] that by (simp add: append_file_def scratch_def)
  show ?thesis
    unfolding write_all_def
  proof (rule syscall_valid)
    fix s r s' assume "scratch s0 nm b k c False s" "(Ok (), append_file k bs s) = (r, s')"
    with app [of s bs] scratch_published show "published s0 b False s' \<and> (is_ok r \<longrightarrow> scratch s0 nm b k (c @ bs) False s')"
      by blast
  qed (use scratch_published [OF app] in auto)
qed

lemma sync_next_valid:
  "io_valid (scratch s0 nm b k c False) (sync_file k)
     (\<lambda>r s. published s0 b False s \<and> (is_ok r \<longrightarrow> scratch s0 nm b k c True s))"
  unfolding sync_file_def
proof (rule syscall_valid)
  fix s r s'
  assume p: "scratch s0 nm b k c False s" and "(Ok (), set_file k (content (files s k)) True s) = (r, s')"
  moreover from p have "content (files s k) = c" by (simp add: scratch_def)
  ultimately show "published s0 b False s' \<and> (is_ok r \<longrightarrow> scratch s0 nm b k c True s')"
    using scratch_set_file [OF p, of c True] scratch_published by blast
qed (auto simp: scratch_published)

lemma rename_valid:
  "io_valid (scratch s0 nm b k (nm @ [10]) True) (rename_file RootDir ROOT_NEXT_FILE ROOT_FILE)
     (\<lambda>r s. published s0 b (is_ok r) s)"
proof -
  have mv: "published s0 b True (move_entry RootDir ROOT_NEXT_FILE ROOT_FILE s)" if p: "scratch s0 nm b k (nm @ [10]) True s" for s
  proof -
    have "files s k = \<lparr>content = nm @ [10], stable = True\<rparr>" using p by (intro inode_eqI) (simp_all add: scratch_def)
    with publishing_rename [of s0 nm b s k] p show ?thesis by (auto simp: scratch_def published_def)
  qed
  have weak: "published s0 b f s" if "published s0 b True s" for f s using that by (simp add: published_def)
  show ?thesis
    unfolding rename_file_def
    by (rule syscall_valid)
      (auto simp: fs_dir_def weak [OF mv] scratch_published split: option.splits)
qed

lemma publish_candidate_valid:
  "io_valid (\<lambda>bk. publishing s0 (file_name c) b (ub_fs bk)) (UnixFs_publish_candidate c)
     (\<lambda>r bk. published s0 b (is_ok r) (ub_fs bk))"
proof (cases "valid_candidate_name (file_name c)")
  case False
  then show ?thesis by (auto simp: io_valid_def UnixFs_publish_candidate_def publishing_def stored_def)
next
  case True
  let ?nm = "file_name c"
  have opn: "io_valid (\<lambda>bk. publishing s0 ?nm b (ub_fs bk)) (on_fs (open_create_truncate RootDir ROOT_NEXT_FILE))
      (\<lambda>r bk. published s0 b False (ub_fs bk) \<and> (\<forall>k. r = Ok k \<longrightarrow> scratch s0 ?nm b k [] False (ub_fs bk)))"
    by (rule on_fs_valid) (rule io_valid_conseq [OF open_next_valid], auto)
  have wr: "io_valid (\<lambda>bk. scratch s0 ?nm b k x False (ub_fs bk)) (on_fs (write_all k bs))
      (\<lambda>r bk. published s0 b False (ub_fs bk) \<and> (is_ok r \<longrightarrow> scratch s0 ?nm b k (x @ bs) False (ub_fs bk)))" for k x bs
    by (rule on_fs_valid) (rule io_valid_conseq [OF write_next_valid], auto simp: is_ok_iff)
  have sy: "io_valid (\<lambda>bk. scratch s0 ?nm b k x False (ub_fs bk)) (on_fs (sync_file k))
      (\<lambda>r bk. published s0 b False (ub_fs bk) \<and> (is_ok r \<longrightarrow> scratch s0 ?nm b k x True (ub_fs bk)))" for k x
    by (rule on_fs_valid) (rule io_valid_conseq [OF sync_next_valid], auto simp: is_ok_iff)
  have mv: "io_valid (\<lambda>bk. scratch s0 ?nm b k (?nm @ [10]) True (ub_fs bk)) (on_fs (rename_file RootDir ROOT_NEXT_FILE ROOT_FILE))
      (\<lambda>r bk. published s0 b (is_ok r) (ub_fs bk))" for k
    by (rule on_fs_valid) (rule io_valid_conseq [OF rename_valid], auto simp: is_ok_def split: result.splits)
  have rest: "io_valid (\<lambda>bk. published s0 b False (ub_fs bk) \<and> (\<forall>j. Ok k = Ok j \<longrightarrow> scratch s0 ?nm b j [] False (ub_fs bk)))
      (io_bind (on_fs (write_all k ?nm)) (\<lambda>_. io_bind (on_fs (write_all k [10])) (\<lambda>_. io_bind (on_fs (sync_file k))
        (\<lambda>_. on_fs (rename_file RootDir ROOT_NEXT_FILE ROOT_FILE)))))
      (\<lambda>r bk. published s0 b (is_ok r) (ub_fs bk))" for k
    by (rule io_valid_step [OF wr [of k "[]"]], simp, rule io_valid_step [OF wr [of k ?nm]], simp,
        rule io_valid_step [OF sy [of k "?nm @ [10]"]], simp, rule io_valid_conseq [OF mv [of k]]) auto
  from True show ?thesis
    unfolding UnixFs_publish_candidate_def
    by (simp only: not_True_eq_False if_False) (rule io_valid_step [OF opn _ rest], auto)
qed

section \<open>Root barrier and power loss\<close>

text \<open>Falling back to one of the recorded root directories keeps the invariant and its state.\<close>

lemma settle_root:
  assumes "fs_inv s" and e: "e \<in> snaps (root_dir s)" and root: "root_dir s' = \<lparr>live = e, past = []\<rparr>"
    and obj: "snaps (objects_dir s') \<subseteq> snaps (objects_dir s)" and nx: "next_inode s' = next_inode s"
    and stb: "\<And>i. stable (files s i) \<Longrightarrow> files s' i = files s i"
  shows "fs_inv s'" and "fs_visible s' = committed s e" and "fs_possible s' = {committed s e}"
proof -
  have cm: "commits s' i b" if "commits s i b" for i b
  proof -
    from that obtain nm j where "files s i = \<lparr>content = nm @ [10], stable = True\<rparr>"
      "files s j = \<lparr>content = recovery_encode b, stable = True\<rparr>"
      "\<forall>e \<in> snaps (objects_dir s). bm_get e nm = Some j" "valid_candidate_name nm" "22 + length b \<le> usize_max"
      by (auto simp: commits_def stored_def)
    moreover from this have "files s' i = files s i" "files s' j = files s j" by (simp_all add: stb)
    ultimately show ?thesis using obj unfolding commits_def stored_def by (metis subsetD)
  qed
  show "fs_inv s'"
    unfolding fs_inv_def root nx snaps_simps
  proof (intro conjI ballI allI impI)
    fix e' i assume "e' \<in> {e}" "bm_get e' ROOT_FILE = Some i"
    then show "\<exists>b. commits s' i b" using fs_invD(1) [OF assms(1) e] cm by blast
  next
    fix e' nm i assume "e' \<in> {e} \<union> snaps (objects_dir s')" "bm_get e' nm = Some i"
    then show "i < next_inode s" using fs_invD(2) [OF assms(1) e] fs_invD(3) [OF assms(1)] obj by blast
  next
    fix e' k ob nm assume "e' \<in> {e}" "bm_get e' ROOT_NEXT_FILE = Some k" "ob \<in> snaps (objects_dir s')"
    then show "bm_get ob nm \<noteq> Some k" using fs_invD(5) [OF assms(1) e] obj by blast
  qed (use fs_invD(4) [OF assms(1) e] in auto)
  have "committed s' e = committed s e"
  proof (cases "bm_get e ROOT_FILE")
    case None
    then show ?thesis by (simp add: committed_def)
  next
    case (Some i)
    from fs_inv_committed [OF assms(1) e Some] obtain b where "commits s i b" "committed s e = Some b" .
    with commits_committed [OF cm Some] show ?thesis by simp
  qed
  then show "fs_visible s' = committed s e" "fs_possible s' = {committed s e}"
    by (simp_all add: fs_visible_def fs_possible_def root)
qed

lemma sync_root_valid:
  "io_valid (\<lambda>bk. fs_inv (ub_fs bk) \<and> fs_visible (ub_fs bk) = v \<and> fs_possible (ub_fs bk) = V) UnixFs_sync_committed_root
     (\<lambda>r bk. fs_inv (ub_fs bk) \<and> fs_visible (ub_fs bk) = v \<and> fs_possible (ub_fs bk) \<subseteq> V \<and>
        (is_ok r \<longrightarrow> fs_possible (ub_fs bk) = {v}))"
proof -
  let ?P = "\<lambda>s. fs_inv s \<and> fs_visible s = v \<and> fs_possible s = V"
  let ?Q = "\<lambda>r s. fs_inv s \<and> fs_visible s = v \<and> fs_possible s \<subseteq> V \<and> (is_ok r \<longrightarrow> fs_possible s = {v})"
  have flt: "?P (s\<lparr>faults := f\<rparr>) = ?P s" for s f
    by (simp add: fs_inv_def stored_def commits_def fs_possible_def fs_visible_def committed_def cong: option.case_cong)
  have sync: "?Q (Ok ()) (set_dir RootDir \<lparr>live = live (fs_dir RootDir s), past = []\<rparr> s)" if p: "?P s" for s
  proof -
    let ?s = "set_dir RootDir \<lparr>live = live (fs_dir RootDir s), past = []\<rparr> s"
    have "fs_inv ?s" "fs_visible ?s = fs_visible s" "fs_possible ?s = {fs_visible s}"
      unfolding fs_visible_def [of s]
      by (rule settle_root [of s "live (root_dir s)" ?s]; use p in \<open>simp add: set_dir_def fs_dir_def\<close>)+
    moreover have "v \<in> V" using p snaps_simps(1) [of "root_dir s"] by (auto simp: fs_visible_def fs_possible_def)
    ultimately show ?thesis using p by simp
  qed
  have opn: "io_valid (\<lambda>bk. ?P (ub_fs bk)) (on_fs (open_dir RootDir)) (\<lambda>r bk. ?P (ub_fs bk))"
    by (rule on_fs_valid, unfold open_dir_def, rule syscall_valid) (simp_all only: flt, auto)
  have syn: "io_valid (\<lambda>bk. ?P (ub_fs bk)) (on_fs (sync_dir RootDir)) (\<lambda>r bk. ?Q r (ub_fs bk))"
    by (rule on_fs_valid, unfold sync_dir_def, rule syscall_valid) (simp_all only: flt, use sync in auto)
  show ?thesis
    unfolding UnixFs_sync_committed_root_def
    by (rule io_valid_step [OF opn], simp, rule io_valid_conseq [OF syn]) auto
qed

text \<open>The backend keeps the contract: files as the medium, faults anywhere, power loss at any time.\<close>

interpretation unix_fs: durability_backend unix_fs_backend "\<lambda>b. fs_inv (ub_fs b)" "\<lambda>b. 22 + length b \<le> usize_max"
  "\<lambda>b. fs_possible (ub_fs b)" "\<lambda>b. fs_visible (ub_fs b)"
  "\<lambda>b c. written_in (ub_fs b) (file_name c)" "\<lambda>b c. stored (ub_fs b) (file_name c)"
  "\<lambda>b b'. fs_crash (ub_fs b) (ub_fs b')" "\<lambda>b. faults (ub_fs b) = []"
proof
  fix b :: UnixFsDurabilityBackend
  show "fs_visible (ub_fs b) \<in> fs_possible (ub_fs b)" by (simp add: fs_visible_def fs_possible_def)
next
  fix b b' :: UnixFsDurabilityBackend assume inv: "fs_inv (ub_fs b)" and crash: "fs_crash (ub_fs b) (ub_fs b')"
  then obtain e ob where e: "e \<in> snaps (root_dir (ub_fs b))" "root_dir (ub_fs b') = \<lparr>live = e, past = []\<rparr>"
    "ob \<in> snaps (objects_dir (ub_fs b))" "objects_dir (ub_fs b') = \<lparr>live = ob, past = []\<rparr>"
    "next_inode (ub_fs b') = next_inode (ub_fs b)" "\<And>i. stable (files (ub_fs b) i) \<Longrightarrow> files (ub_fs b') i = files (ub_fs b) i"
    unfolding fs_crash_def by blast
  have obj: "snaps (objects_dir (ub_fs b')) \<subseteq> snaps (objects_dir (ub_fs b))" using e(3,4) by simp
  from settle_root [OF inv e(1,2) obj e(5,6)] e(1)
  show "fs_inv (ub_fs b') \<and> fs_possible (ub_fs b') = {fs_visible (ub_fs b')} \<and> fs_visible (ub_fs b') \<in> fs_possible (ub_fs b)"
    by (simp add: fs_possible_def)
next
  fix b :: UnixFsDurabilityBackend assume "fs_inv (ub_fs b)" "faults (ub_fs b) = []"
  then show "fst (db_load_committed unix_fs_backend b) = Ok (fs_visible (ub_fs b))"
    by (simp add: unix_fs_backend_def load_committed_visible)
next
  fix b st r b' assume inv: "fs_inv (ub_fs b)" and len: "22 + length st \<le> usize_max"
    and run: "db_write_candidate unix_fs_backend st b = (r, b')"
  from io_validD [OF write_candidate_valid [OF len] extends_refl [OF inv]] run
  have w: "extends (ub_fs b) (ub_fs b') \<and> (\<forall>c. r = Ok c \<longrightarrow> written_in (ub_fs b') (file_name c) st)"
    by (simp add: unix_fs_backend_def)
  with extends_inv [OF inv] show "fs_inv (ub_fs b') \<and> fs_possible (ub_fs b') = fs_possible (ub_fs b) \<and>
      fs_visible (ub_fs b') = fs_visible (ub_fs b) \<and> (\<forall>c. r = Ok c \<longrightarrow> written_in (ub_fs b') (file_name c) st)" by simp
next
  fix b c st r b' assume inv: "fs_inv (ub_fs b)" and w: "written_in (ub_fs b) (file_name c) st"
    and run: "db_sync_candidate unix_fs_backend c b = (r, b')"
  from io_validD [OF sync_candidate_valid [of "ub_fs b" c st]] extends_refl [OF inv] w run
  have "extends (ub_fs b) (ub_fs b') \<and> (is_ok r \<longrightarrow> stored (ub_fs b') (file_name c) st)"
    by (simp add: unix_fs_backend_def)
  with extends_inv [OF inv] show "fs_inv (ub_fs b') \<and> fs_possible (ub_fs b') = fs_possible (ub_fs b) \<and>
      fs_visible (ub_fs b') = fs_visible (ub_fs b) \<and> (r = Ok () \<longrightarrow> stored (ub_fs b') (file_name c) st)" by auto
next
  fix b c st r b' assume inv: "fs_inv (ub_fs b)" and w: "stored (ub_fs b) (file_name c) st"
    and run: "db_publish_candidate unix_fs_backend c b = (r, b')"
  have "published (ub_fs b) st (is_ok r) (ub_fs b')"
    by (rule io_validD [OF publish_candidate_valid [of "ub_fs b" c st]])
      (use inv w run in \<open>simp_all add: publishing_def unix_fs_backend_def\<close>)
  then show "fs_inv (ub_fs b') \<and> fs_possible (ub_fs b) \<subseteq> fs_possible (ub_fs b') \<and>
      fs_possible (ub_fs b') \<subseteq> insert (Some st) (fs_possible (ub_fs b)) \<and> (r = Ok () \<longrightarrow> fs_visible (ub_fs b') = Some st)"
    by (auto simp: published_def)
next
  fix b r b' assume inv: "fs_inv (ub_fs b)" and run: "db_sync_committed_root unix_fs_backend b = (r, b')"
  from io_validD [OF sync_root_valid [of "fs_visible (ub_fs b)" "fs_possible (ub_fs b)"], of b r b'] inv run
  show "fs_inv (ub_fs b') \<and> fs_visible (ub_fs b') = fs_visible (ub_fs b) \<and>
      fs_possible (ub_fs b') \<subseteq> fs_possible (ub_fs b) \<and> (r = Ok () \<longrightarrow> fs_possible (ub_fs b') = {fs_visible (ub_fs b)})"
    by (auto simp: unix_fs_backend_def)
qed

end
