(* ===== verification/Storage_Progress.thy ===== *)
theory Storage_Progress
  imports Storage_Durability
begin

text \<open>
  Progress of the Unix backend and the properties of the storage crate: the candidate number
  computed on opening is free, and without faults a commit then succeeds.
\<close>

section \<open>Progress without faults\<close>

lemma digits_value_snoc: "digits_value (ds @ [d]) = 10 * digits_value ds + (unat d - 48)"
  by (simp add: digits_value_def)

lemma digits_value_decimal: "v < 10 ^ n \<Longrightarrow> digits_value (decimal n v) = v"
proof (induction n v rule: decimal.induct)
  case (1 v)
  then show ?case by (simp add: digits_value_def)
next
  case (2 n v)
  have "48 + v mod 10 < 256" using mod_less_divisor [of 10 v] by linarith
  then have "unat (word_of_nat (48 + v mod 10) :: u8) = 48 + v mod 10"
    by (simp only: unat_of_nat) (simp add: take_bit_nat_eq_self)
  moreover have "v div 10 < 10 ^ n" using 2 by (simp add: less_mult_imp_div_less mult.commute)
  ultimately show ?case using 2 by (simp add: digits_value_snoc)
qed

lemma parse_candidate_name:
  "parse_u64 (take (length (candidate_name n) - length CANDIDATE_SUFFIX - length CANDIDATE_PREFIX)
     (drop (length CANDIDATE_PREFIX) (candidate_name n))) = Some n"
proof -
  have lt: "unat n < 2 ^ 64" using unsigned_less [of n, where ?'a = nat] by simp
  then have "digits_value (decimal 20 (unat n)) = unat n" by (intro digits_value_decimal) simp
  with lt show ?thesis by (simp add: candidate_name_def parse_u64_def decimal_digits)
qed

lemma scan_entry_mono: "m = Some v \<Longrightarrow> \<exists>w. scan_entry m nm = Some w \<and> v \<le> w"
  by (auto simp: scan_entry_def split: option.splits)

lemma foldl_scan_mono: "\<exists>w. foldl scan_entry (Some v) ns = Some w \<and> v \<le> w"
proof (induction ns arbitrary: v)
  case (Cons n ns)
  obtain w where "scan_entry (Some v) n = Some w" "v \<le> w" using scan_entry_mono by blast
  with Cons.IH [of w] show ?case by (auto intro: order_trans)
qed simp

lemma foldl_scan_bound:
  "candidate_name n \<in> set ns \<Longrightarrow> \<exists>w. foldl scan_entry m ns = Some w \<and> n \<le> w"
proof (induction ns arbitrary: m)
  case (Cons a ns)
  show ?case
  proof (cases "a = candidate_name n")
    case True
    have "\<exists>w. scan_entry m a = Some w \<and> n \<le> w"
      unfolding True scan_entry_def parse_candidate_name by (auto simp: candidate_name_valid split: option.splits)
    then obtain w where "scan_entry m a = Some w" "n \<le> w" by blast
    with foldl_scan_mono [of w ns] show ?thesis by (auto intro: order_trans)
  next
    case False
    with Cons show ?thesis by simp
  qed
qed simp

lemma quiet_scan: "faults s = [] \<Longrightarrow> scan_entries m ns s = (Ok (foldl scan_entry m ns), s)"
  by (induction ns arbitrary: m) (simp_all add: next_dir_entry_def syscall_def io_bind_def)

text \<open>No object has a number the counter has still to reach.\<close>

definition fresh_numbers :: "UnixFsDurabilityBackend \<Rightarrow> bool" where
  "fresh_numbers b \<longleftrightarrow> (\<forall>n. next_candidate b \<le> n \<longrightarrow> bm_get (live (objects_dir (ub_fs b))) (candidate_name n) = None)"

text \<open>Reopening computes such a counter.\<close>

lemma open_fresh:
  assumes "faults s = []" and "UnixFs_open s = (Ok b, s')"
  shows "ub_fs b = s \<and> fresh_numbers b"
proof -
  let ?ns = "bm_keys (live (objects_dir s))"
  have scan: "scan_next_candidate s = (case foldl scan_entry None ?ns of None \<Rightarrow> (Ok 0, s)
      | Some v \<Rightarrow> if v = - 1 then (Err CandidateIdExhausted, s) else (Ok (v + 1), s))"
    using assms(1) quiet_scan [OF assms(1)]
    by (simp add: scan_next_candidate_def io_bind_def read_dir_def syscall_def fs_dir_def split: option.split)
  have open_eq: "UnixFs_open s = (case scan_next_candidate s of (Err e, s'') \<Rightarrow> (Err e, s'')
      | (Ok nc, s'') \<Rightarrow> (Ok \<lparr>ub_fs = s'', next_candidate = nc\<rparr>, s''))"
    using assms(1) by (simp add: UnixFs_open_def syscall_def)
  have fs: "ub_fs b = s"
    using assms(2) scan unfolding open_eq by (cases "foldl scan_entry None ?ns") (auto split: if_splits)
  have "candidate_name n \<notin> set ?ns" if "next_candidate b \<le> n" for n
  proof
    assume "candidate_name n \<in> set ?ns"
    from foldl_scan_bound [OF this, of None] obtain w
      where w: "foldl scan_entry None ?ns = Some w" "n \<le> w" by blast
    have "next_candidate b = w + 1 \<and> w \<noteq> - 1"
      using assms(2) unfolding open_eq scan w(1) by (cases "w = - 1") auto
    with w(2) that u64_successor [of w] show False by (simp add: word_le_nat_alt)
  qed
  with fs show ?thesis by (auto simp: fresh_numbers_def domIff)
qed

lemma open_candidate_free:
  assumes "faults s = []" and "UnixFs_open s = (Ok b, s')"
  shows "ub_fs b = s \<and> bm_get (live (objects_dir s)) (candidate_name (next_candidate b)) = None"
  using open_fresh [OF assms] by (auto simp: fresh_numbers_def)

text \<open>Without faults every call of a commit succeeds.\<close>

abbreviation quiet :: "UnixFsDurabilityBackend \<Rightarrow> bool" where
  "quiet b \<equiv> faults (ub_fs b) = []"

abbreviation same_objects :: "UnixFsDurabilityBackend \<Rightarrow> UnixFsDurabilityBackend \<Rightarrow> bool" where
  "same_objects b b' \<equiv> next_candidate b' = next_candidate b \<and> live (objects_dir (ub_fs b')) = live (objects_dir (ub_fs b))"

abbreviation has_object :: "bytes \<Rightarrow> UnixFsDurabilityBackend \<Rightarrow> bool" where
  "has_object nm b \<equiv> bm_get (live (objects_dir (ub_fs b))) nm \<noteq> None"

lemma set_file_fields [simp]:
  "faults (set_file i c st s) = faults s" "objects_dir (set_file i c st s) = objects_dir s"
  "root_dir (set_file i c st s) = root_dir s"
  by (simp_all add: set_file_def)

lemma add_file_fields [simp]:
  "faults (add_file d nm s) = faults s"
  "bm_get (live (objects_dir (add_file ObjectsDir nm s))) nm \<noteq> None"
  "objects_dir (add_file RootDir nm s) = objects_dir s"
  "bm_get (live (root_dir (add_file RootDir nm s))) nm \<noteq> None"
  by (cases d) (auto simp: add_file_def change_entries_def set_dir_def fs_dir_def split: option.split)

lemma truncate_fields [simp]:
  "faults (truncate_entry d nm s) = faults s" "objects_dir (truncate_entry d nm s) = objects_dir s"
  "root_dir (truncate_entry d nm s) = root_dir s"
  by (auto simp: truncate_entry_def split: option.split)

lemma quiet_write [simp]:
  "faults s = [] \<Longrightarrow> write_all i bs s = (Ok (), append_file i bs s)"
  "faults (append_file i bs s) = faults s" "objects_dir (append_file i bs s) = objects_dir s"
  "root_dir (append_file i bs s) = root_dir s"
  by (simp_all add: write_all_def syscall_def append_file_def)

lemma quiet_sync [simp]:
  "faults s = [] \<Longrightarrow> sync_file i s = (Ok (), set_file i (content (files s i)) True s)"
  "faults s = [] \<Longrightarrow> open_dir d s = (Ok (), s)"
  "faults s = [] \<Longrightarrow> sync_dir d s = (Ok (), set_dir d \<lparr>live = live (fs_dir d s), past = []\<rparr> s)"
  "faults (set_dir d dr s) = faults s"
  by (simp_all add: sync_file_def open_dir_def sync_dir_def syscall_def set_dir_def split: dir_id.split)

lemma write_candidate_progress:
  assumes "quiet b" and "next_candidate b \<noteq> - 1"
    and "bm_get (live (objects_dir (ub_fs b))) (candidate_name (next_candidate b)) = None"
  shows "\<exists>c b' i. UnixFs_write_candidate st b = (Ok c, b') \<and> quiet b' \<and> has_object (file_name c) b' \<and>
    next_candidate b' = next_candidate b + 1 \<and>
    live (objects_dir (ub_fs b')) = bm_insert (candidate_name (next_candidate b)) i (live (objects_dir (ub_fs b)))"
proof -
  let ?n = "next_candidate b"
  let ?s = "add_file ObjectsDir (candidate_name ?n) (ub_fs b)"
  let ?b = "b\<lparr>next_candidate := ?n + 1, ub_fs := ?s\<rparr>"
  have alloc: "allocate_candidate b = (Ok (FsCandidate (candidate_name ?n)), ?b)"
    using assms by (simp add: allocate_candidate.simps [of b] create_new_def syscall_def fs_dir_def Let_def)
  obtain i where i: "bm_get (live (objects_dir ?s)) (candidate_name ?n) = Some i" using add_file_fields(2) by blast
  have live: "live (objects_dir ?s) = bm_insert (candidate_name ?n) (next_inode (ub_fs b)) (live (objects_dir (ub_fs b)))"
    using assms(3) by (simp add: add_file_def change_entries_def set_dir_def fs_dir_def)
  have opn: "open_truncate ObjectsDir (candidate_name ?n) ?s = (Ok i, truncate_entry ObjectsDir (candidate_name ?n) ?s)"
    using assms(1) i by (simp add: open_truncate_def syscall_def fs_dir_def)
  show ?thesis
    using assms(1) i alloc live by (auto simp: UnixFs_write_candidate_def on_fs_def opn io_bind_def)
qed

lemma sync_candidate_progress:
  assumes "quiet b" and "has_object (file_name c) b"
  shows "\<exists>b'. UnixFs_sync_candidate c b = (Ok (), b') \<and> quiet b' \<and> same_objects b b' \<and> past (objects_dir (ub_fs b')) = []"
  using assms by (auto simp: UnixFs_sync_candidate_def on_fs_def fs_dir_def io_bind_def set_dir_def)

lemma publish_candidate_progress:
  assumes "quiet b" and "valid_candidate_name (file_name c)"
  shows "\<exists>b'. UnixFs_publish_candidate c b = (Ok (), b') \<and> quiet b' \<and> same_objects b b' \<and>
    past (objects_dir (ub_fs b')) = past (objects_dir (ub_fs b))"
proof -
  let ?s = "truncate_entry RootDir ROOT_NEXT_FILE (add_file RootDir ROOT_NEXT_FILE (ub_fs b))"
  obtain i where i: "bm_get (live (root_dir ?s)) ROOT_NEXT_FILE = Some i"
    by (metis add_file_fields(4) not_None_eq truncate_fields(3))
  have opn: "open_create_truncate RootDir ROOT_NEXT_FILE (ub_fs b) = (Ok i, ?s)"
    using assms(1) i by (simp add: open_create_truncate_def syscall_def fs_dir_def)
  have ren: "\<exists>t. rename_file RootDir ROOT_NEXT_FILE ROOT_FILE s = (Ok (), t) \<and> faults t = [] \<and> objects_dir t = objects_dir s"
    if "faults s = []" "bm_get (live (root_dir s)) ROOT_NEXT_FILE = Some i" for s
    using that by (simp add: rename_file_def syscall_def fs_dir_def move_entry_def change_entries_def set_dir_def)
  let ?t = "set_file i (content (files (append_file i [10] (append_file i (file_name c) ?s)) i)) True
      (append_file i [10] (append_file i (file_name c) ?s))"
  from ren [of ?t] assms(1) i obtain t where "rename_file RootDir ROOT_NEXT_FILE ROOT_FILE ?t = (Ok (), t)" "faults t = []"
    "objects_dir t = objects_dir (ub_fs b)" by auto
  with assms i show ?thesis by (simp add: UnixFs_publish_candidate_def on_fs_def io_bind_def opn)
qed

text \<open>A store with nothing left to sync: what the process sees is all a power loss can bring back.\<close>

definition settled_dirs :: "file_system \<Rightarrow> bool" where
  "settled_dirs s \<longleftrightarrow> past (root_dir s) = [] \<and> past (objects_dir s) = []"

lemma settled_dirs_faults [simp]: "settled_dirs (s\<lparr>faults := fs\<rparr>) = settled_dirs s"
  by (simp add: settled_dirs_def)

lemma settled_dirs_crash: "settled_dirs s \<Longrightarrow> fs_crash s (s\<lparr>faults := fs\<rparr>)"
  by (simp add: settled_dirs_def fs_crash_def snaps_def)

lemma crash_settles: "fs_crash s s' \<Longrightarrow> settled_dirs s'"
  by (auto simp: settled_dirs_def fs_crash_def)

lemma commit_progress_objects:
  assumes "fs_inv (ub_fs b)" and "22 + length st \<le> usize_max" and "quiet b" and "next_candidate b \<noteq> - 1"
    and "bm_get (live (objects_dir (ub_fs b))) (candidate_name (next_candidate b)) = None"
  shows "\<exists>b' i. commit_durable unix_fs_backend st b = (Ok (), b') \<and> quiet b' \<and> next_candidate b' = next_candidate b + 1 \<and>
    objects_dir (ub_fs b') = \<lparr>live = bm_insert (candidate_name (next_candidate b)) i (live (objects_dir (ub_fs b))), past = []\<rparr> \<and>
    settled_dirs (ub_fs b')"
proof -
  obtain c b1 i where w: "UnixFs_write_candidate st b = (Ok c, b1)" "quiet b1" "has_object (file_name c) b1" "next_candidate b1 = next_candidate b + 1"
    "live (objects_dir (ub_fs b1)) = bm_insert (candidate_name (next_candidate b)) i (live (objects_dir (ub_fs b)))"
    using write_candidate_progress [OF assms(3-5)] by blast
  from unix_fs.write_law [OF assms(1,2), of "Ok c" b1] w(1)
  have v: "valid_candidate_name (file_name c)" by (simp add: unix_fs_backend_def written_in_def)
  obtain b2 where s: "UnixFs_sync_candidate c b1 = (Ok (), b2)" "quiet b2" "same_objects b1 b2" "past (objects_dir (ub_fs b2)) = []"
    using sync_candidate_progress [OF w(2,3)] by blast
  obtain b3 where p: "UnixFs_publish_candidate c b2 = (Ok (), b3)" "quiet b3" "same_objects b2 b3"
    "past (objects_dir (ub_fs b3)) = past (objects_dir (ub_fs b2))"
    using publish_candidate_progress [OF s(2) v] by blast
  have "objects_dir (ub_fs b3) = \<lparr>live = bm_insert (candidate_name (next_candidate b)) i (live (objects_dir (ub_fs b))), past = []\<rparr>"
    using w(5) s(3,4) p(3,4) by (cases "objects_dir (ub_fs b3)") simp
  with w(1,4) s(1,3) p show ?thesis
    by (intro exI [of _ "b3\<lparr>ub_fs := set_dir RootDir \<lparr>live = live (fs_dir RootDir (ub_fs b3)), past = []\<rparr> (ub_fs b3)\<rparr>"] exI [of _ i])
      (simp add: commit_durable_def unix_fs_backend_def UnixFs_sync_committed_root_def on_fs_def io_bind_def set_dir_def fs_dir_def
        settled_dirs_def)
qed

lemma commit_progress:
  assumes "fs_inv (ub_fs b)" and "22 + length st \<le> usize_max" and "quiet b" and "next_candidate b \<noteq> - 1"
    and "bm_get (live (objects_dir (ub_fs b))) (candidate_name (next_candidate b)) = None"
  shows "\<exists>b'. commit_durable unix_fs_backend st b = (Ok (), b')"
  using commit_progress_objects [OF assms] by blast

text \<open>Distinct numbers have distinct names, so a commit leaves the numbers above its own free.\<close>

lemma candidate_name_inject: "candidate_name m = candidate_name n \<longleftrightarrow> m = n"
  by (metis option.inject parse_candidate_name)

text \<open>A store whose objects all have numbers below a bound, in every state a power loss may bring back.\<close>

definition numbered :: "file_system \<Rightarrow> nat \<Rightarrow> bool" where
  "numbered s k \<longleftrightarrow> (\<forall>e \<in> snaps (objects_dir s). \<forall>nm i. bm_get e nm = Some i \<longrightarrow> (\<exists>m. unat m < k \<and> nm = candidate_name m))"

lemma numbered_live:
  "numbered s k \<Longrightarrow> bm_get (live (objects_dir s)) nm = Some i \<Longrightarrow> \<exists>m. unat m < k \<and> nm = candidate_name m"
  unfolding numbered_def using snaps_simps(1) [of "objects_dir s"] by blast

lemma numbered_fresh: "numbered (ub_fs b) (unat (next_candidate b)) \<Longrightarrow> fresh_numbers b"
  unfolding numbered_def fresh_numbers_def
  by (metis candidate_name_inject not_None_eq not_less snaps_simps(1) word_le_nat_alt)

lemma numbered_crash: "numbered s k \<Longrightarrow> fs_crash s s' \<Longrightarrow> numbered s' k"
  by (auto simp: numbered_def fs_crash_def)

text \<open>The progress of one commit in these terms; repeated commits follow by iteration.\<close>

lemma commit_numbered:
  assumes "fs_inv (ub_fs b)" and "22 + length st \<le> usize_max" and "quiet b" and "next_candidate b \<noteq> - 1"
    and "numbered (ub_fs b) (unat (next_candidate b))"
  obtains b' where "commit_durable unix_fs_backend st b = (Ok (), b')" and "quiet b'" and "unat (next_candidate b') = unat (next_candidate b) + 1"
    and "numbered (ub_fs b') (unat (next_candidate b'))" and "fs_inv (ub_fs b')" and "fs_possible (ub_fs b') = {Some st}"
    and "settled_dirs (ub_fs b')"
proof -
  have free: "bm_get (live (objects_dir (ub_fs b))) (candidate_name (next_candidate b)) = None"
    using numbered_fresh [OF assms(5)] by (simp add: fresh_numbers_def)
  from commit_progress_objects [OF assms(1-4) free] obtain b' i where
    run: "commit_durable unix_fs_backend st b = (Ok (), b')" and b': "quiet b'" "next_candidate b' = next_candidate b + 1"
      "objects_dir (ub_fs b') = \<lparr>live = bm_insert (candidate_name (next_candidate b)) i (live (objects_dir (ub_fs b))), past = []\<rparr>" "settled_dirs (ub_fs b')" by blast
  note succ = u64_successor [OF assms(4)]
  have "numbered (ub_fs b') (unat (next_candidate b'))"
    using numbered_live [OF assms(5)] unfolding numbered_def b'(2,3) succ
    by (auto split: if_splits) (metis less_SucI)
  moreover note unix_fs.commit_Ok [OF assms(1,2) run]
  ultimately show ?thesis using that [OF run b'(1)] b'(2,4) succ by simp
qed

lemma scan_entry_name:
  "scan_entry m (candidate_name n) = Some (case m of None \<Rightarrow> n | Some c \<Rightarrow> max c n)"
  unfolding scan_entry_def parse_candidate_name by (simp add: candidate_name_valid)

lemma foldl_scan_numbered:
  assumes "\<And>nm. nm \<in> set ns \<Longrightarrow> \<exists>m. unat m < k \<and> nm = candidate_name m" and "\<And>v. m0 = Some v \<Longrightarrow> unat v < k"
    and "foldl scan_entry m0 ns = Some w"
  shows "unat w < k"
  using assms
proof (induction ns arbitrary: m0)
  case (Cons nm ns)
  from Cons.prems(1) [of nm] obtain m where m: "unat m < k" "nm = candidate_name m" by auto
  show ?case
  proof (rule Cons.IH [of "scan_entry m0 nm"])
    show "foldl scan_entry (scan_entry m0 nm) ns = Some w" using Cons.prems(3) by simp
    show "unat v < k" if "scan_entry m0 nm = Some v" for v
      using that m Cons.prems(2) by (auto simp: scan_entry_name max_def split: option.splits if_splits)
  qed (use Cons.prems(1) in simp)
qed simp

text \<open>Reopening such a store succeeds.\<close>

lemma open_numbered:
  assumes "faults s = []" and "numbered s k" and "k < 2 ^ 64 - 1"
  obtains b where "UnixFs_open s = (Ok b, s)" and "ub_fs b = s" and "unat (next_candidate b) \<le> k"
    and "past (objects_dir s) = [] \<Longrightarrow> numbered s (unat (next_candidate b))"
proof -
  let ?ns = "bm_keys (live (objects_dir s))"
  have names: "\<exists>m. unat m < k \<and> nm = candidate_name m" if "nm \<in> set ?ns" for nm
    using numbered_live [OF assms(2)] that by auto
  have open_eq: "UnixFs_open s = (case foldl scan_entry None ?ns of None \<Rightarrow> (Ok \<lparr>ub_fs = s, next_candidate = 0\<rparr>, s)
      | Some v \<Rightarrow> if v = - 1 then (Err CandidateIdExhausted, s) else (Ok \<lparr>ub_fs = s, next_candidate = v + 1\<rparr>, s))"
    using assms(1) quiet_scan [OF assms(1)]
    by (simp add: UnixFs_open_def scan_next_candidate_def io_bind_def read_dir_def syscall_def fs_dir_def split: option.split)
  show ?thesis
  proof (cases "foldl scan_entry None ?ns")
    case None
    have "?ns = []"
    proof (rule ccontr)
      assume "?ns \<noteq> []"
      then obtain nm where "nm \<in> set ?ns" by (cases ?ns) auto
      with names obtain m where "candidate_name m \<in> set ?ns" by blast
      from foldl_scan_bound [OF this, of None] None show False by simp
    qed
    then have "bm_get (live (objects_dir s)) nm = None" for nm using set_bm_keys [of "live (objects_dir s)"] by (auto simp: domIff)
    then show ?thesis using that [of "\<lparr>ub_fs = s, next_candidate = 0\<rparr>"] None open_eq by (simp add: numbered_def snaps_def)
  next
    case (Some w)
    have w: "unat w < k" by (rule foldl_scan_numbered [OF names _ Some]) simp_all
    then have ne: "w \<noteq> - 1" using assms(3) by (auto simp: unsigned_minus_1_eq_mask mask_eq_exp_minus_1)
    note succ = u64_successor [OF ne]
    have "unat m < unat (w + 1)" if "candidate_name m \<in> set ?ns" for m
      using foldl_scan_bound [OF that, of None] Some succ by (auto simp: word_le_nat_alt)
    then have "numbered s (unat (w + 1))" if "past (objects_dir s) = []"
      using names that unfolding numbered_def snaps_def by fastforce
    then show ?thesis using that [of "\<lparr>ub_fs = s, next_candidate = w + 1\<rparr>"] Some open_eq ne w succ by simp
  qed
qed

section \<open>Properties\<close>

text \<open>An empty store, and the state a power loss leaves when it loses nothing.\<close>

definition sample_fs :: file_system where
  "sample_fs = \<lparr>root_dir = \<lparr>live = bm_empty, past = []\<rparr>, objects_dir = \<lparr>live = bm_empty, past = []\<rparr>,
     files = (\<lambda>_. \<lparr>content = [], stable = False\<rparr>), next_inode = 0, faults = []\<rparr>"

definition sample_backend :: UnixFsDurabilityBackend where
  "sample_backend = \<lparr>ub_fs = sample_fs, next_candidate = 0\<rparr>"

definition settled :: "UnixFsDurabilityBackend \<Rightarrow> UnixFsDurabilityBackend" where
  "settled b = b\<lparr>ub_fs := (ub_fs b)\<lparr>root_dir := \<lparr>live = live (root_dir (ub_fs b)), past = []\<rparr>,
     objects_dir := \<lparr>live = live (objects_dir (ub_fs b)), past = []\<rparr>, faults := []\<rparr>\<rparr>"

lemma settled_crash: "fs_crash (ub_fs b) (ub_fs (settled b))" "quiet (settled b)"
  by (simp_all add: settled_def fs_crash_def)

lemma sample_fs_inv: "fs_inv sample_fs"
  by (simp add: fs_inv_def sample_fs_def)

lemma sample_open: "UnixFs_open sample_fs = (Ok sample_backend, sample_fs)"
  by (simp add: UnixFs_open_def scan_next_candidate_def read_dir_def syscall_def sample_fs_def sample_backend_def
      io_bind_def fs_dir_def bm_keys_def bm_entries_empty)

text \<open>
  C15. The acknowledgement boundary of the Unix backend: whatever calls fail on the way, a commit
  that reported success is what recovery reads after a power loss, one that reported an error
  leaves an earlier committed state or the new one and never a mixture, and in both cases the
  store stays usable.
\<close>

theorem unix_commit_survives_power_loss:
  assumes "fs_inv (ub_fs b)" and "22 + length st \<le> usize_max"
    and "commit_durable unix_fs_backend st b = (r, b1)"
    and "fs_crash (ub_fs b1) (ub_fs b2)" and "faults (ub_fs b2) = []"
  shows "(r = Ok () \<longrightarrow> fst (UnixFs_load_committed b2) = Ok (Some st)) \<and>
    (\<exists>v \<in> insert (Some st) (fs_possible (ub_fs b)). fst (UnixFs_load_committed b2) = Ok v) \<and>
    fs_inv (ub_fs b1) \<and> fs_inv (ub_fs b2)"
proof -
  have load: "db_load_committed unix_fs_backend = UnixFs_load_committed" by (simp add: unix_fs_backend_def)
  note crash = unix_fs.crash_after_commit [OF assms, unfolded load]
  have "fs_inv (ub_fs b1)"
    using unix_fs.commit_Ok [OF assms(1,2), of b1] unix_fs.commit_Err [OF assms(1,2), of _ b1] assms(3) by (cases r) auto
  with unix_fs.crash_recovers [OF this assms(4)] crash show ?thesis by simp
qed

theorem unix_commit_survives_power_loss_witness:
  "\<exists>b1. commit_durable unix_fs_backend [1, 2] sample_backend = (Ok (), b1) \<and>
     fst (UnixFs_load_committed (settled b1)) = Ok (Some [1, 2])"
proof -
  have inv: "fs_inv (ub_fs sample_backend)" and len: "22 + length [1, 2 :: u8] \<le> usize_max"
    by (simp_all add: sample_backend_def sample_fs_inv usize_max_def)
  have "quiet sample_backend" "next_candidate sample_backend \<noteq> - 1"
    "bm_get (live (objects_dir (ub_fs sample_backend))) (candidate_name (next_candidate sample_backend)) = None"
    by (simp_all add: sample_backend_def sample_fs_def)
  from commit_progress [OF inv len this] obtain b1
    where run: "commit_durable unix_fs_backend [1, 2] sample_backend = (Ok (), b1)" by blast
  from unix_commit_survives_power_loss [OF inv len run settled_crash] run show ?thesis by blast
qed

text \<open>
  C31. A store reopened after any power loss makes progress: the candidate number computed from
  the directory is free, so without faults the next commit succeeds, as long as candidate
  numbers are left.
\<close>

theorem reopened_store_commits:
  assumes "fs_inv s" and "faults s = []" and "UnixFs_open s = (Ok b, s')" and "next_candidate b \<noteq> - 1"
    and "22 + length st \<le> usize_max"
  shows "\<exists>b'. commit_durable unix_fs_backend st b = (Ok (), b') \<and> fs_possible (ub_fs b') = {Some st}"
proof -
  have b: "ub_fs b = s" "bm_get (live (objects_dir s)) (candidate_name (next_candidate b)) = None"
    using open_candidate_free [OF assms(2,3)] by simp_all
  have inv: "fs_inv (ub_fs b)" using assms(1) b(1) by simp
  from commit_progress [OF inv assms(5)] b assms(2,4) obtain b' where run: "commit_durable unix_fs_backend st b = (Ok (), b')"
    by auto
  from unix_fs.commit_Ok [OF inv assms(5) run] run show ?thesis by simp
qed

theorem reopened_store_commits_witness:
  "\<exists>b'. commit_durable unix_fs_backend [7] sample_backend = (Ok (), b') \<and> fs_possible (ub_fs b') = {Some [7]}"
  by (rule reopened_store_commits [OF sample_fs_inv _ sample_open])
    (simp_all add: sample_fs_def sample_backend_def usize_max_def)

end
