(* ===== verification/Record_Store.thy ===== *)
theory Record_Store
  imports Sync_Session Crypto_Envelope Storage_Progress
begin

text \<open>
  The protected record store of \<^verbatim>\<open>apc-sync/src/record_store.rs\<close>: it encodes the durable record,
  seals it and commits the sealed bytes through a durability backend. The cipher is a parameter;
  the nonces the operating system will deliver are a field of the store, \<open>None\<close> for a failing
  call. The locale \<open>protected_record_store\<close> derives the store contract of a session from the
  contract of any backend, and the interpretation at the end runs it on the Unix backend.
\<close>

section \<open>Store\<close>

definition RECORD_CONTEXT_DOMAIN :: bytes where
  "RECORD_CONTEXT_DOMAIN = ascii ''A.P.C. durable sync recovery'' @ [0] @ ascii ''v1'' @ [0]"

datatype 'e ProtectedSyncStoreError =
    PS_Backend 'e
  | PS_Recovery SyncRecoveryError
  | PS_Protection ProtectionError
  | PS_EmptyContext

record 's ProtectedSyncRecordStore =
  prs_backend :: 's
  prs_key :: ContentKey
  prs_context :: bytes
  prs_entropy :: "bytes option list"

definition ProtectedSyncRecordStore_new ::
    "'s \<Rightarrow> ContentKey \<Rightarrow> bytes \<Rightarrow> bytes option list \<Rightarrow> ('s ProtectedSyncRecordStore, 'e ProtectedSyncStoreError) result" where
  "ProtectedSyncRecordStore_new backend key context entropy =
     (if context = [] then Err PS_EmptyContext
      else Ok \<lparr>prs_backend = backend, prs_key = key, prs_context = context, prs_entropy = entropy\<rparr>)"

definition protection_context :: "'s ProtectedSyncRecordStore \<Rightarrow> bytes" where
  "protection_context store = RECORD_CONTEXT_DOMAIN @ prs_context store"

text \<open>The part of \<^verbatim>\<open>load_committed\<close> after the backend has answered.\<close>

definition open_record ::
    "aead \<Rightarrow> 's ProtectedSyncRecordStore \<Rightarrow> bytes option \<Rightarrow> (DurableSyncRecord option, 'e ProtectedSyncStoreError) result" where
  "open_record cipher store found =
     (case found of
        None \<Rightarrow> Ok None
      | Some protected \<Rightarrow>
          (case unprotect cipher (prs_key store) (protection_context store) protected of
             Err e \<Rightarrow> Err (PS_Protection e)
           | Ok clear \<Rightarrow>
               (case decode_durable_sync_record clear of
                  Err e \<Rightarrow> Err (PS_Recovery e)
                | Ok rec \<Rightarrow> Ok (Some rec))))"

definition ProtectedSyncRecordStore_load_committed ::
    "aead \<Rightarrow> ('s, bytes, 'c, 'e) DurabilityBackend \<Rightarrow> 's ProtectedSyncRecordStore \<Rightarrow>
     (DurableSyncRecord option, 'e ProtectedSyncStoreError) result \<times> 's ProtectedSyncRecordStore" where
  "ProtectedSyncRecordStore_load_committed cipher backend store =
     (case db_load_committed backend (prs_backend store) of
        (Err e, b) \<Rightarrow> (Err (PS_Backend e), store\<lparr>prs_backend := b\<rparr>)
      | (Ok found, b) \<Rightarrow> (open_record cipher store found, store\<lparr>prs_backend := b\<rparr>))"

definition next_nonce :: "'s ProtectedSyncRecordStore \<Rightarrow> bytes option \<times> 's ProtectedSyncRecordStore" where
  "next_nonce store =
     (case prs_entropy store of [] \<Rightarrow> (None, store) | n # ns \<Rightarrow> (n, store\<lparr>prs_entropy := ns\<rparr>))"

definition ProtectedSyncRecordStore_persist ::
    "aead \<Rightarrow> ('s, bytes, 'c, 'e) DurabilityBackend \<Rightarrow> ('s ProtectedSyncRecordStore, 'e ProtectedSyncStoreError) persist_fn" where
  "ProtectedSyncRecordStore_persist cipher backend store rec =
     (case encode_durable_sync_record rec of
        Err e \<Rightarrow> (Err (PS_Recovery e), store)
      | Ok clear \<Rightarrow>
          (case next_nonce store of (nonce, store') \<Rightarrow>
             (case protect cipher nonce (prs_key store') (protection_context store') clear of
                Err e \<Rightarrow> (Err (PS_Protection e), store')
              | Ok protected \<Rightarrow>
                  (case commit_durable backend protected (prs_backend store') of
                     (res, b) \<Rightarrow> (map_err PS_Backend res, store'\<lparr>prs_backend := b\<rparr>)))))"

section \<open>The store keeps the session's contract\<close>

definition record_storable :: "DurableSyncRecord \<Rightarrow> bool" where
  "record_storable rec \<longleftrightarrow> record_wf rec \<and>
     (\<forall>bs. encode_durable_sync_record rec = Ok bs \<longrightarrow> length bs + 59 \<le> isize_max)"

definition entropy_wf :: "'s ProtectedSyncRecordStore \<Rightarrow> bool" where
  "entropy_wf store \<longleftrightarrow> (\<forall>n. Some n \<in> set (prs_entropy store) \<longrightarrow> length n = NONCE_BYTES)"

lemma protection_context_nonempty [simp]: "protection_context store \<noteq> []"
  by (simp add: protection_context_def RECORD_CONTEXT_DOMAIN_def)

lemma next_nonce_fields:
  assumes "next_nonce store = (n, store')"
  shows "prs_backend store' = prs_backend store" "prs_key store' = prs_key store"
    "protection_context store' = protection_context store"
    "entropy_wf store \<Longrightarrow> entropy_wf store'" "entropy_wf store \<Longrightarrow> n = Some bs \<Longrightarrow> length bs = 24"
  using assms by (auto simp: next_nonce_def protection_context_def entropy_wf_def split: list.splits)

lemma open_record_context:
  "prs_key store' = prs_key store \<Longrightarrow> protection_context store' = protection_context store \<Longrightarrow>
     open_record cipher store' = open_record cipher store"
  by (rule ext) (simp add: open_record_def split: option.split)

text \<open>What was sealed opens to the record it was made from.\<close>

lemma open_sealed_record:
  assumes "aead_correct cipher" and "record_storable rec" and "encode_durable_sync_record rec = Ok clear"
    and "length nonce = 24" and "protect cipher (Some nonce) (prs_key store) (protection_context store) clear = Ok env"
  shows "open_record cipher store (Some env) = Ok (Some rec)" and "length env \<le> isize_max"
proof -
  have wf: "record_wf rec" and len: "length clear + 59 \<le> isize_max" using assms(2,3) by (auto simp: record_storable_def)
  show env: "length env \<le> isize_max" using protect_length [OF assms(1,4,5)] len by simp
  have "unprotect cipher (prs_key store) (protection_context store) env = Ok clear"
    using unprotect_protect_iff [OF assms(1) protection_context_nonempty env] assms(4,5) by blast
  moreover have "decode_durable_sync_record clear = Ok rec"
    using decode_encode_record [OF assms(3) wf] len by simp
  ultimately show "open_record cipher store (Some env) = Ok (Some rec)" by (simp add: open_record_def)
qed

text \<open>A store whose backend is in order, and the records a restart may read from it, both relative
  to what the backend promises.\<close>

definition usable_store :: "aead \<Rightarrow> ('s \<Rightarrow> bool) \<Rightarrow> 's ProtectedSyncRecordStore \<Rightarrow> bool" where
  "usable_store cipher ok st \<longleftrightarrow> aead_correct cipher \<and> ok (prs_backend st) \<and> entropy_wf st"

definition recoverable_records ::
    "aead \<Rightarrow> ('s \<Rightarrow> bytes option set) \<Rightarrow> 's ProtectedSyncRecordStore \<Rightarrow> (DurableSyncRecord option, 'e ProtectedSyncStoreError) result set" where
  "recoverable_records cipher possible st = open_record cipher st ` possible (prs_backend st)"

locale protected_record_store = durability_backend backend inv storable possible visible written synced crash quiet
  for backend :: "('s, bytes, 'c, 'e) DurabilityBackend" and inv storable possible visible written synced crash quiet +
  fixes cipher :: aead
  assumes storable_bytes: "length bs \<le> isize_max \<Longrightarrow> storable bs"
begin

lemma persist_recoverable:
  assumes "usable_store cipher inv st" and "record_storable rec"
    and "ProtectedSyncRecordStore_persist cipher backend st rec = (r, st')"
  shows "usable_store cipher inv st' \<and> prs_key st' = prs_key st \<and> protection_context st' = protection_context st \<and>
    recoverable_records cipher possible st' \<subseteq> insert (Ok (Some rec)) (recoverable_records cipher possible st) \<and>
    (r = Ok () \<longrightarrow> recoverable_records cipher possible st' = {Ok (Some rec)})"
proof (cases "encode_durable_sync_record rec")
  case (Err e)
  with assms show ?thesis by (auto simp: ProtectedSyncRecordStore_persist_def)
next
  case clear: (Ok clear)
  obtain n st1 where n: "next_nonce st = (n, st1)" by fastforce
  note f = next_nonce_fields [OF n]
  have st1: "usable_store cipher inv st1" "recoverable_records cipher possible st1 = recoverable_records cipher possible st"
    using assms(1) f by (simp_all add: usable_store_def recoverable_records_def open_record_context [OF f(2,3)])
  show ?thesis
  proof (cases "protect cipher n (prs_key st1) (protection_context st1) clear")
    case (Err e)
    with assms(3) clear n st1 f show ?thesis by (auto simp: ProtectedSyncRecordStore_persist_def)
  next
    case env: (Ok env)
    then obtain nonce where nonce: "n = Some nonce" by (cases n) (auto simp: protect_def)
    have "length nonce = 24" using f(5) assms(1) nonce by (simp add: usable_store_def)
    note sealed = open_sealed_record [OF _ assms(2) clear this env [unfolded nonce]]
    have ok: "aead_correct cipher" and inv: "inv (prs_backend st1)" using st1(1) by (simp_all add: usable_store_def)
    obtain res b where c: "commit_durable backend env (prs_backend st1) = (res, b)" by fastforce
    have st': "st' = st1\<lparr>prs_backend := b\<rparr>" "r = map_err PS_Backend res"
      using assms(3) clear n env c by (simp_all add: ProtectedSyncRecordStore_persist_def)
    have stor: "storable env" by (rule storable_bytes [OF sealed(2) [OF ok]])
    have fl: "prs_key st' = prs_key st1" "protection_context st' = protection_context st1"
      by (simp_all add: st'(1) protection_context_def)
    have b: "inv b \<and> possible b \<subseteq> insert (Some env) (possible (prs_backend st1)) \<and> (res = Ok () \<longrightarrow> possible b = {Some env})"
      using commit_Ok [OF inv stor, of b] commit_Err [OF inv stor, of _ b] c by (cases res) auto
    have rec': "recoverable_records cipher possible st' = open_record cipher st1 ` possible b"
      by (simp add: recoverable_records_def open_record_context [OF fl]) (simp add: st'(1))
    have "usable_store cipher inv st'" using st1(1) b by (simp add: usable_store_def st'(1) entropy_wf_def)
    moreover have "recoverable_records cipher possible st' \<subseteq> insert (Ok (Some rec)) (recoverable_records cipher possible st)"
    proof -
      have "open_record cipher st1 ` possible b \<subseteq> open_record cipher st1 ` insert (Some env) (possible (prs_backend st1))"
        using b by (intro image_mono) blast
      then show ?thesis unfolding rec' st1(2) [symmetric] by (simp add: recoverable_records_def sealed(1) [OF ok])
    qed
    moreover have "r = Ok () \<longrightarrow> recoverable_records cipher possible st' = {Ok (Some rec)}"
      unfolding rec' using b sealed(1) [OF ok] st'(2) by auto
    ultimately show ?thesis using fl f by simp
  qed
qed

lemma load_after_crash:
  assumes "usable_store cipher inv st" and "crash (prs_backend st) (prs_backend st')" and "quiet (prs_backend st')"
    and "prs_key st' = prs_key st" and "protection_context st' = protection_context st"
  shows "fst (ProtectedSyncRecordStore_load_committed cipher backend st') \<in> recoverable_records cipher possible st"
proof -
  have "inv (prs_backend st)" using assms(1) by (simp add: usable_store_def)
  note cr = crash_recovers [OF this assms(2)]
  with load_visible [OF _ assms(3)] obtain b where
    "db_load_committed backend (prs_backend st') = (Ok (visible (prs_backend st')), b)" by (metis prod.collapse)
  with cr show ?thesis
    by (simp add: ProtectedSyncRecordStore_load_committed_def recoverable_records_def open_record_context [OF assms(4,5)])
qed

end

sublocale protected_record_store \<subseteq> store: sync_record_store
    "ProtectedSyncRecordStore_persist cipher backend" "recoverable_records cipher possible" "usable_store cipher inv" record_storable
proof
  fix st rec st'
  assume "usable_store cipher inv st" "record_storable rec" "ProtectedSyncRecordStore_persist cipher backend st rec = (Ok (), st')"
  then show "usable_store cipher inv st' \<and> recoverable_records cipher possible st' = {Ok (Some rec)}" using persist_recoverable by blast
next
  fix st rec e st'
  assume "usable_store cipher inv st" "record_storable rec" "ProtectedSyncRecordStore_persist cipher backend st rec = (Err e, st')"
  then show "usable_store cipher inv st' \<and> recoverable_records cipher possible st' \<subseteq> insert (Ok (Some rec)) (recoverable_records cipher possible st)"
    using persist_recoverable by blast
qed

text \<open>The store on the Unix backend, for any cipher.\<close>

interpretation unix_store: protected_record_store unix_fs_backend "\<lambda>b. fs_inv (ub_fs b)" "\<lambda>b. 22 + length b \<le> usize_max"
  "\<lambda>b. fs_possible (ub_fs b)" "\<lambda>b. fs_visible (ub_fs b)"
  "\<lambda>b c. written_in (ub_fs b) (file_name c)" "\<lambda>b c. stored (ub_fs b) (file_name c)"
  "\<lambda>b b'. fs_crash (ub_fs b) (ub_fs b')" "\<lambda>b. faults (ub_fs b) = []" cipher for cipher
  by unfold_locales (simp add: isize_max_def usize_max_def)

section \<open>Progress on the Unix backend\<close>

text \<open>The documentation of the cipher bounds only the length of what it encrypts.\<close>

definition aead_total :: "aead \<Rightarrow> bool" where
  "aead_total c \<longleftrightarrow> (\<forall>k n a m. length n = 24 \<longrightarrow> length m < 2 ^ 32 \<longrightarrow> aead_encrypt c k n a m \<noteq> None)"

lemma protect_total:
  assumes "aead_correct c" and "aead_total c" and "length nonce = 24" and "length m < 2 ^ 32" and "context \<noteq> []"
  obtains env where "protect c (Some nonce) key context m = Ok env" and "length env = length m + 59"
proof -
  obtain ct where ct: "aead_encrypt c (expose_bytes key) nonce (build_aad context) m = Some ct"
    using assms(2-4) unfolding aead_total_def by blast
  then have "length ct = length m + 16" using assms(1,3) by (auto simp: aead_correct_def)
  then obtain env where env: "protect c (Some nonce) key context m = Ok env"
    using ct assms(4,5) by (simp add: protect_def protect_with_nonce_def)
  with protect_length [OF assms(1,3) env] that show ?thesis by simp
qed

text \<open>A store that can still write \<open>k\<close> records: calm, with object numbers and entropy left.\<close>

definition store_ready :: "UnixFsDurabilityBackend ProtectedSyncRecordStore \<Rightarrow> nat \<Rightarrow> bool" where
  "store_ready st k \<longleftrightarrow> fs_inv (ub_fs (prs_backend st)) \<and> faults (ub_fs (prs_backend st)) = [] \<and>
     numbered (ub_fs (prs_backend st)) (unat (next_candidate (prs_backend st))) \<and>
     unat (next_candidate (prs_backend st)) + k < 2 ^ 64 - 1 \<and>
     entropy_wf st \<and> k \<le> length (prs_entropy st) \<and> None \<notin> set (take k (prs_entropy st))"

definition holds_record :: "aead \<Rightarrow> UnixFsDurabilityBackend ProtectedSyncRecordStore \<Rightarrow> DurableSyncRecord \<Rightarrow> bool" where
  "holds_record cipher st rec \<longleftrightarrow>
     (recoverable_records cipher (\<lambda>b. fs_possible (ub_fs b)) st :: (_, FsStorageError ProtectedSyncStoreError) result set) = {Ok (Some rec)}"

lemma persist_progress:
  assumes "aead_correct cipher" and "aead_total cipher" and "store_ready st (Suc k)" and "record_storable rec"
    and "encode_durable_sync_record rec = Ok clear" and "length clear < 2 ^ 32"
  obtains st' where "ProtectedSyncRecordStore_persist cipher unix_fs_backend st rec = (Ok (), st')" and "store_ready st' k"
    and "prs_key st' = prs_key st" and "prs_context st' = prs_context st" and "holds_record cipher st' rec"
    and "unat (next_candidate (prs_backend st')) = unat (next_candidate (prs_backend st)) + 1"
    and "settled_dirs (ub_fs (prs_backend st'))"
proof -
  from assms(3) obtain n ns where e: "prs_entropy st = Some n # ns" "length n = 24" "k \<le> length ns" "None \<notin> set (take k ns)"
    by (cases "prs_entropy st"; cases "hd (prs_entropy st)") (auto simp: store_ready_def entropy_wf_def)
  let ?st1 = "st\<lparr>prs_entropy := ns\<rparr>"
  have nonce: "next_nonce st = (Some n, ?st1)" by (simp add: next_nonce_def e(1))
  obtain env where env: "protect cipher (Some n) (prs_key ?st1) (protection_context ?st1) clear = Ok env" "length env = length clear + 59"
    by (rule protect_total [OF assms(1,2) e(2) assms(6) protection_context_nonempty])
  have b: "fs_inv (ub_fs (prs_backend st))" "quiet (prs_backend st)" "numbered (ub_fs (prs_backend st)) (unat (next_candidate (prs_backend st)))"
    "next_candidate (prs_backend st) \<noteq> - 1" "22 + length env \<le> usize_max"
    using assms(3,6) env(2) by (auto simp: store_ready_def unsigned_minus_1_eq_mask mask_eq_exp_minus_1 usize_max_def)
  obtain b' where c: "commit_durable unix_fs_backend env (prs_backend st) = (Ok (), b')" "quiet b'"
    "unat (next_candidate b') = unat (next_candidate (prs_backend st)) + 1" "numbered (ub_fs b') (unat (next_candidate b'))" "fs_inv (ub_fs b')"
    "settled_dirs (ub_fs b')"
    by (rule commit_numbered [OF b(1,5,2,4,3)])
  let ?st' = "?st1\<lparr>prs_backend := b'\<rparr>"
  have run: "ProtectedSyncRecordStore_persist cipher unix_fs_backend st rec = (Ok (), ?st')"
    using assms(5) nonce env(1) c(1) by (simp add: ProtectedSyncRecordStore_persist_def)
  have ready: "store_ready ?st' k" using assms(3) c e by (auto simp: store_ready_def entropy_wf_def)
  have "usable_store cipher (\<lambda>b. fs_inv (ub_fs b)) st" using assms(1,3) by (simp add: usable_store_def store_ready_def)
  then have "holds_record cipher ?st' rec"
    unfolding holds_record_def
    by (rule unix_store.persist_recoverable [OF _ assms(4) run, THEN conjunct2, THEN conjunct2, THEN conjunct2, THEN conjunct2,
          THEN mp, OF _ refl])
  with that [OF run ready] c(3,6) show ?thesis by simp
qed

lemma load_ready:
  assumes "store_ready st k" and "holds_record cipher st rec"
  shows "ProtectedSyncRecordStore_load_committed cipher unix_fs_backend st = (Ok (Some rec), st)"
proof -
  let ?b = "prs_backend st"
  have inv: "fs_inv (ub_fs ?b)" and q: "faults (ub_fs ?b) = []" using assms(1) by (simp_all add: store_ready_def)
  obtain r b' where load: "UnixFs_load_committed ?b = (r, b')" by fastforce
  with load_committed_visible [OF inv q] have r: "r = Ok (fs_visible (ub_fs ?b))" by simp
  from load_committed_faulty [OF inv _ load] q have b': "b' = ?b" by auto
  have "fs_visible (ub_fs ?b) \<in> fs_possible (ub_fs ?b)" using unix_fs.visible_possible [OF inv] .
  with assms(2) have "(open_record cipher st (fs_visible (ub_fs ?b)) :: (_, FsStorageError ProtectedSyncStoreError) result) = Ok (Some rec)"
    unfolding holds_record_def recoverable_records_def by blast
  with load r b' show ?thesis by (simp add: ProtectedSyncRecordStore_load_committed_def unix_fs_backend_def)
qed

text \<open>Power loss and reopening: the same record, and room for further ones.\<close>

lemma holds_record_crash:
  assumes "store_ready st k" and "holds_record cipher st rec" and "fs_crash (ub_fs (prs_backend st)) s" and "faults s = []"
    and "j < 2 ^ 63" and "unat (next_candidate (prs_backend st)) < 2 ^ 63"
    and "j \<le> length entropy" and "None \<notin> set (take j entropy)" and "\<forall>n. Some n \<in> set entropy \<longrightarrow> length n = 24"
  obtains b where "UnixFs_open s = (Ok b, s)" and "ub_fs b = s"
    and "unat (next_candidate b) \<le> unat (next_candidate (prs_backend st))"
    and "store_ready \<lparr>prs_backend = b, prs_key = prs_key st, prs_context = prs_context st, prs_entropy = entropy\<rparr> j"
    and "holds_record cipher \<lparr>prs_backend = b, prs_key = prs_key st, prs_context = prs_context st, prs_entropy = entropy\<rparr> rec"
proof -
  let ?n = "unat (next_candidate (prs_backend st))"
  have num: "numbered s ?n" using numbered_crash assms(1,3) by (auto simp: store_ready_def)
  obtain b where b: "UnixFs_open s = (Ok b, s)" "ub_fs b = s" "unat (next_candidate b) \<le> ?n"
    "past (objects_dir s) = [] \<Longrightarrow> numbered s (unat (next_candidate b))"
    using open_numbered [OF assms(4) num] assms(6) by auto
  let ?st = "\<lparr>prs_backend = b, prs_key = prs_key st, prs_context = prs_context st, prs_entropy = entropy\<rparr>"
  have inv: "fs_inv (ub_fs (prs_backend st))" using assms(1) by (simp add: store_ready_def)
  have crash: "fs_crash (ub_fs (prs_backend st)) (ub_fs b)" using assms(3) b(2) by simp
  note cr = unix_fs.crash_recovers [OF inv crash]
  have "past (objects_dir s) = []" using assms(3) by (auto simp: fs_crash_def)
  with b(4) have "numbered s (unat (next_candidate b))" .
  then have "store_ready ?st j" using assms b(2,3) cr by (simp add: store_ready_def entropy_wf_def)
  moreover have "open_record cipher ?st = (open_record cipher st :: _ \<Rightarrow> (_, FsStorageError ProtectedSyncStoreError) result)"
    by (rule open_record_context) (simp_all add: protection_context_def)
  then have "holds_record cipher ?st rec" using assms(2) cr unfolding holds_record_def recoverable_records_def by auto
  ultimately show ?thesis using that b(1-3) by blast
qed

section \<open>Properties\<close>

definition sample_store :: "UnixFsDurabilityBackend ProtectedSyncRecordStore" where
  "sample_store = \<lparr>prs_backend = sample_backend, prs_key = ContentKey (replicate 32 1), prs_context = [9],
     prs_entropy = [Some (replicate 24 7)]\<rparr>"

text \<open>
  From session to medium: a record persisted through the protected store on the Unix backend
  and acknowledged is exactly the record a restart with the same key and context reads after any
  power loss; after a failed persist, whatever call failed, the restart reads that record or one
  that was recoverable before.
\<close>

lemma persisted_record_recovers:
  assumes "aead_correct cipher" and "fs_inv (ub_fs (prs_backend st))" and "entropy_wf st" and "record_storable rec"
    and "ProtectedSyncRecordStore_persist cipher unix_fs_backend st rec = (r, st1)"
    and "fs_crash (ub_fs (prs_backend st1)) (ub_fs (prs_backend st2))" and "faults (ub_fs (prs_backend st2)) = []"
    and "prs_key st2 = prs_key st" and "prs_context st2 = prs_context st"
  shows "(r = Ok () \<longrightarrow> fst (ProtectedSyncRecordStore_load_committed cipher unix_fs_backend st2) = Ok (Some rec)) \<and>
    fst (ProtectedSyncRecordStore_load_committed cipher unix_fs_backend st2) \<in>
      insert (Ok (Some rec)) (open_record cipher st ` fs_possible (ub_fs (prs_backend st)))"
proof -
  let ?P = "\<lambda>b. fs_possible (ub_fs b)" and ?I = "\<lambda>b. fs_inv (ub_fs b)"
  have "usable_store cipher ?I st" using assms(1-3) by (simp add: usable_store_def)
  note p = unix_store.persist_recoverable [OF this assms(4,5)]
  have "protection_context st2 = protection_context st1"
    using p assms(9) unfolding protection_context_def by (metis same_append_eq)
  moreover from p have "usable_store cipher ?I st1" by (rule conjunct1)
  moreover have "prs_key st2 = prs_key st1" using p assms(8) by metis
  ultimately have "fst (ProtectedSyncRecordStore_load_committed cipher unix_fs_backend st2) \<in> recoverable_records cipher ?P st1"
    using unix_store.load_after_crash [OF _ assms(6,7)] by blast
  with p show ?thesis by (auto simp: recoverable_records_def)
qed

lemma sample_record_storable: "record_storable sample_record"
  using sample_record_encodes sample_record_wf by (auto simp: record_storable_def isize_max_def)

lemma sample_store_usable: "fs_inv (ub_fs (prs_backend sample_store))" "entropy_wf sample_store"
  by (simp_all add: sample_store_def sample_backend_def sample_fs_inv entropy_wf_def)

lemma sample_store_persists:
  assumes "record_storable rec" and "encode_durable_sync_record rec = Ok bs"
  shows "\<exists>st1. ProtectedSyncRecordStore_persist plain_aead unix_fs_backend sample_store rec = (Ok (), st1) \<and>
    prs_key st1 = prs_key sample_store \<and> prs_context st1 = prs_context sample_store"
proof -
  define env where "env = envelope_of (replicate 24 7) (bs @ replicate 16 0)"
  have len: "length bs + 59 \<le> isize_max" using assms by (simp add: record_storable_def)
  have prot: "protect plain_aead (Some (replicate 24 7)) (prs_key sample_store) (protection_context st) bs = Ok env"
    if "protection_context st \<noteq> []" for st :: "UnixFsDurabilityBackend ProtectedSyncRecordStore"
    using len that
    by (simp add: protect_def protect_with_nonce_def plain_aead_def env_def envelope_of_def isize_max_def)
  have "22 + length env \<le> usize_max" using len by (simp add: env_def envelope_of_def isize_max_def usize_max_def)
  moreover have "quiet sample_backend" "next_candidate sample_backend \<noteq> - 1"
    "bm_get (live (objects_dir (ub_fs sample_backend))) (candidate_name (next_candidate sample_backend)) = None"
    by (simp_all add: sample_backend_def sample_fs_def)
  moreover have "fs_inv (ub_fs sample_backend)" by (simp add: sample_backend_def sample_fs_inv)
  ultimately obtain b1 where "commit_durable unix_fs_backend env sample_backend = (Ok (), b1)"
    using commit_progress by blast
  then show ?thesis
    using assms(2) prot by (simp add: ProtectedSyncRecordStore_persist_def next_nonce_def sample_store_def)
qed

lemma persisted_record_recovers_witness:
  "\<exists>st1. ProtectedSyncRecordStore_persist plain_aead unix_fs_backend sample_store sample_record = (Ok (), st1) \<and>
     fst (ProtectedSyncRecordStore_load_committed plain_aead unix_fs_backend
       (st1\<lparr>prs_backend := settled (prs_backend st1)\<rparr>)) = Ok (Some sample_record)"
proof -
  obtain bs where "encode_durable_sync_record sample_record = Ok bs" using sample_record_encodes by blast
  from sample_store_persists [OF sample_record_storable this] obtain st1 where
    run: "ProtectedSyncRecordStore_persist plain_aead unix_fs_backend sample_store sample_record = (Ok (), st1)"
    and st1: "prs_key st1 = prs_key sample_store" "prs_context st1 = prs_context sample_store" by blast
  from persisted_record_recovers [OF plain_aead_correct sample_store_usable sample_record_storable run,
      of "st1\<lparr>prs_backend := settled (prs_backend st1)\<rparr>"] run st1 settled_crash show ?thesis by simp
qed

end
