(* ===== verification/Runtime_Crash.thy ===== *)
theory Runtime_Crash
  imports Receive Record_Store
begin

text \<open>
  The runtime transitions of \<^verbatim>\<open>apc-runtime\<close> on the whole persistence stack: semantic domain,
  trusted-state codec, durable record, protected record store, commit protocol and Unix file system.
  The transitions are taken together as \<open>scalar_transition\<close>: staging a prepared handoff
  (\<^verbatim>\<open>publication.rs\<close>) and observing received state (\<^verbatim>\<open>receive.rs\<close>).
\<close>

section \<open>A durable swap over a store that keeps its contract\<close>

context sync_record_store
begin

lemma swap_recovers:
  assumes "usable st" and "\<forall>f \<in> recoverable st. \<exists>r. f = Ok (Some r) \<and> P r"
    and "\<And>n. nxt = Some n \<Longrightarrow> storable n \<and> Q n"
    and "(ok, x', rec', st') = durable_swap persist nxt x cand rec st"
  shows "usable st' \<and> (\<forall>f \<in> recoverable st'. \<exists>r. f = Ok (Some r) \<and> (if ok then r = rec' \<and> Q r else P r \<or> Q r))"
proof (cases nxt)
  case None
  with assms(1,2,4) show ?thesis by (auto simp: durable_swap_def)
next
  case (Some n)
  obtain r s where p: "persist st n = (r, s)" by fastforce
  have n: "storable n" "Q n" using assms(3) [OF Some] by simp_all
  show ?thesis
  proof (cases r)
    case (Ok u)
    with assms(4) Some p persist_Ok [OF assms(1) n(1), of s] n(2) show ?thesis by (simp add: durable_swap_def)
  next
    case (Err e)
    with persist_Err [OF assms(1) n(1), of e s] p
    have "usable s \<and> recoverable s \<subseteq> insert (Ok (Some n)) (recoverable st)" by simp
    with assms(2,4) Some p Err n(2) show ?thesis by (auto simp: durable_swap_def)
  qed
qed

end

section \<open>Scalar transitions\<close>

datatype 'r scalar_transition =
    Stage "RevisionId btree_set" ProtectedPublication
  | Observe "(bytes, 'r) ReceivedScalarState"

text \<open>Whether the call succeeded, and the live domain, record and store it leaves.\<close>

fun run_transition ::
    "('st, 'se) persist_fn \<Rightarrow> ('r, 'ce) TransportCursorCodec \<Rightarrow> bytes LocalScalarDomain \<Rightarrow> DurableSyncRecord \<Rightarrow> 'st \<Rightarrow>
     'r scalar_transition \<Rightarrow> bool \<times> bytes LocalScalarDomain \<times> DurableSyncRecord \<times> 'st" where
  "run_transition persist cursors d rec st (Stage ids publication) =
     (case stage_scalar_handoff persist scalar_trusted_state_codec d rec st ids publication of
        (res, out) \<Rightarrow> (is_ok res, out))"
| "run_transition persist cursors d rec st (Observe received) =
     (case commit_received_scalar_domain persist scalar_trusted_state_codec cursors d rec st received of
        (res, out) \<Rightarrow> (is_ok res, out))"

text \<open>The candidate domain a transition computes on its clone, and the record it would persist.\<close>

fun candidate_domain :: "bytes LocalScalarDomain \<Rightarrow> 'r scalar_transition \<Rightarrow> bytes LocalScalarDomain option" where
  "candidate_domain d (Stage ids publication) =
     (case LocalScalarDomain_handoff d (bs_iter ids) of (Ok _, c) \<Rightarrow> Some c | (Err _, _) \<Rightarrow> None)"
| "candidate_domain d (Observe received) =
     (case LocalScalarDomain_observe_remote d (received_remote received) (pre_observation_revision_id received) of
        (Ok _, c) \<Rightarrow> Some c | (Err _, _) \<Rightarrow> None)"

fun candidate_record ::
    "('r, 'ce) TransportCursorCodec \<Rightarrow> bytes LocalScalarDomain \<Rightarrow> DurableSyncRecord \<Rightarrow> 'r scalar_transition \<Rightarrow>
     DurableSyncRecord option" where
  "candidate_record cursors d rec t =
     (case candidate_domain d t of
        None \<Rightarrow> None
      | Some c \<Rightarrow> when_encoded (encode_local_scalar_snapshot (LocalScalarDomain_snapshot c))
          (case t of
             Stage ids publication \<Rightarrow> next_staged rec (pp_publication_id publication) (pp_objects publication)
           | Observe received \<Rightarrow> next_received cursors rec (received_new_head received)))"

declare candidate_record.simps [simp del]

definition transition_ok :: "'r scalar_transition \<Rightarrow> bool" where
  "transition_ok t = (case t of Stage ids publication \<Rightarrow> True | Observe received \<Rightarrow> register_valid (received_remote received))"

lemma run_transition_swap:
  "run_transition persist cursors d rec st t =
     durable_swap persist (candidate_record cursors d rec t) d (the (candidate_domain d t)) rec st"
proof (cases t)
  case (Stage ids publication)
  obtain hr cand where h: "LocalScalarDomain_handoff d (bs_iter ids) = (hr, cand)" by fastforce
  obtain res d' rec' st' where run: "stage_scalar_handoff persist scalar_trusted_state_codec d rec st ids publication =
      (res, d', rec', st')" by (metis prod_cases4)
  have "(is_ok res, d', rec', st') = run_transition persist cursors d rec st t" by (simp add: Stage run)
  with stage_scalar_swap [OF run h] h show ?thesis
    by (cases hr) (auto simp: Stage candidate_record.simps scalar_trusted_state_codec_def durable_swap_def)
next
  case (Observe received)
  obtain hr cand where h: "LocalScalarDomain_observe_remote d (received_remote received)
      (pre_observation_revision_id received) = (hr, cand)" by fastforce
  obtain res d' rec' st' where run: "commit_received_scalar_domain persist scalar_trusted_state_codec cursors d rec st received =
      (res, d', rec', st')" by (metis prod_cases4)
  have "(is_ok res, d', rec', st') = run_transition persist cursors d rec st t" by (simp add: Observe run)
  with receive_scalar_swap [OF run h] h show ?thesis
    by (cases hr) (auto simp: Observe candidate_record.simps scalar_trusted_state_codec_def durable_swap_def)
qed

lemma candidate_domain_wf:
  assumes "domain_wf d" and "transition_ok t" and "candidate_domain d t = Some c"
  shows "domain_wf c"
proof (cases t)
  case (Stage ids publication)
  with assms(3) obtain u where "LocalScalarDomain_handoff d (bs_iter ids) = (Ok u, c)"
    by (auto split: prod.splits result.splits)
  from handoff_domain_wf [OF assms(1) this] show ?thesis by (rule conjunct1)
next
  case (Observe received)
  with assms(3) obtain u where "LocalScalarDomain_observe_remote d (received_remote received)
      (pre_observation_revision_id received) = (Ok u, c)" by (auto split: prod.splits result.splits)
  from observe_domain_wf [OF assms(1) _ this] assms(2) Observe show ?thesis by (simp add: transition_ok_def)
qed

lemma candidate_record_recovers:
  assumes "domain_wf d" and "transition_ok t" and "candidate_record cursors d rec t = Some nxt"
    and "length (trusted_state nxt) \<le> isize_max"
  shows "\<exists>c. candidate_domain d t = Some c \<and> recover_scalar_domain scalar_trusted_state_codec nxt = Ok c"
proof -
  from assms(3) obtain c bs where c: "candidate_domain d t = Some c"
    and enc: "tc_encode scalar_trusted_state_codec (LocalScalarDomain_snapshot c) = Ok bs"
    and nxt: "(case t of Stage ids publication \<Rightarrow> next_staged rec (pp_publication_id publication) (pp_objects publication)
        | Observe received \<Rightarrow> next_received cursors rec (received_new_head received)) bs = Some nxt"
    by (auto simp: candidate_record.simps when_encoded_def scalar_trusted_state_codec_def
        split: option.splits result.splits)
  have "trusted_state nxt = bs" using nxt by (cases t) (auto dest: next_staged_fields next_received_fields)
  with c enc assms(4) candidate_domain_wf [OF assms(1,2) c] scalar_state.recover_encoded [of c nxt] show ?thesis by simp
qed

section \<open>Sequences of transitions\<close>

text \<open>
  A step runs one transition with whatever outcome and keeps, beside the state, the set of domains a
  restart may yet find: the live one after a success, one more candidate after each failure. A
  candidate record that is persisted fits in memory.
\<close>

inductive runtime_step ::
    "('st, 'se) persist_fn \<Rightarrow> ('r, 'ce) TransportCursorCodec \<Rightarrow>
     bytes LocalScalarDomain \<times> DurableSyncRecord \<times> 'st \<times> bytes LocalScalarDomain set \<Rightarrow>
     bytes LocalScalarDomain \<times> DurableSyncRecord \<times> 'st \<times> bytes LocalScalarDomain set \<Rightarrow> bool"
  for persist :: "('st, 'se) persist_fn" and cursors :: "('r, 'ce) TransportCursorCodec" where
  transition: "transition_ok t \<Longrightarrow>
    (\<And>nxt. candidate_record cursors d rec t = Some nxt \<Longrightarrow> record_storable nxt \<and> length (trusted_state nxt) \<le> isize_max) \<Longrightarrow>
    run_transition persist cursors d rec st t = (ok, d', rec', st') \<Longrightarrow>
    runtime_step persist cursors (d, rec, st, A)
      (d', rec', st', if ok then {d'} else A \<union> set_option (candidate_domain d t))"

definition runtime_inv ::
    "('st \<Rightarrow> (DurableSyncRecord option, 'se) result set) \<Rightarrow> ('st \<Rightarrow> bool) \<Rightarrow>
     bytes LocalScalarDomain \<times> DurableSyncRecord \<times> 'st \<times> bytes LocalScalarDomain set \<Rightarrow> bool" where
  "runtime_inv recoverable usable s \<longleftrightarrow> (case s of (d, rec, st, A) \<Rightarrow>
     usable st \<and> domain_wf d \<and> d \<in> A \<and> recover_scalar_domain scalar_trusted_state_codec rec = Ok d \<and>
     (\<forall>f \<in> recoverable st. \<exists>r. f = Ok (Some r) \<and>
        (\<exists>x \<in> A. recover_scalar_domain scalar_trusted_state_codec r = Ok x)))"

locale scalar_runtime = sync_record_store persist recoverable usable record_storable
  for persist :: "('st, 'se) persist_fn" and recoverable usable
begin

lemma runtime_step_inv:
  assumes "runtime_inv recoverable usable s" and "runtime_step persist cursors s s'"
  shows "runtime_inv recoverable usable s'"
  using assms(2)
proof (cases rule: runtime_step.cases)
  case (transition t d rec st ok d' rec' st' A)
  let ?rec = "recover_scalar_domain scalar_trusted_state_codec"
  let ?P = "\<lambda>r. \<exists>x \<in> A. ?rec r = Ok x" and ?Q = "\<lambda>r. \<exists>c. candidate_domain d t = Some c \<and> ?rec r = Ok c"
  from assms(1) have pre: "usable st" "domain_wf d" "d \<in> A" "?rec rec = Ok d"
    "\<forall>f \<in> recoverable st. \<exists>r. f = Ok (Some r) \<and> ?P r"
    by (auto simp: runtime_inv_def transition(1))
  have cand: "record_storable n \<and> ?Q n" if "candidate_record cursors d rec t = Some n" for n
    using transition(4) [OF that] candidate_record_recovers [OF pre(2) transition(3) that] by simp
  have swap: "(ok, d', rec', st') =
      durable_swap persist (candidate_record cursors d rec t) d (the (candidate_domain d t)) rec st"
    using transition(5) by (simp add: run_transition_swap)
  note post = swap_recovers [of st ?P "candidate_record cursors d rec t" ?Q, OF pre(1,5) cand swap]
  note out = durable_swap_outcome [OF swap]
  show ?thesis
  proof (cases ok)
    case True
    then have n: "candidate_record cursors d rec t = Some rec'" and d': "d' = the (candidate_domain d t)" using out by simp_all
    from cand [OF n] d' have "candidate_domain d t = Some d'" "?rec rec' = Ok d'" by auto
    with post True candidate_domain_wf [OF pre(2) transition(3)] show ?thesis
      by (auto simp: runtime_inv_def transition(2))
  next
    case False
    then have "d' = d" "rec' = rec" using out by simp_all
    with False post pre show ?thesis
      unfolding runtime_inv_def transition(2) by (fastforce split: if_splits)
  qed
qed

lemma runtime_steps_inv:
  "(runtime_step persist cursors)\<^sup>*\<^sup>* s s' \<Longrightarrow> runtime_inv recoverable usable s \<Longrightarrow> runtime_inv recoverable usable s'"
  by (induction rule: rtranclp_induct) (auto dest: runtime_step_inv)

end

text \<open>The runtime on the protected store over the Unix backend.\<close>

interpretation unix_runtime: scalar_runtime "ProtectedSyncRecordStore_persist cipher unix_fs_backend"
  "recoverable_records cipher (\<lambda>b. fs_possible (ub_fs b))" "usable_store cipher (\<lambda>b. fs_inv (ub_fs b))" for cipher
  by (rule scalar_runtime.intro) (rule unix_store.store.sync_record_store_axioms)

section \<open>Property\<close>

text \<open>
  C12. The runtime loses nothing it acknowledged and invents nothing. Start with a store that holds
  the record of the live domain, run any sequence of staged handoffs and observations, each with any
  outcome, then lose power: the record read at restart restores to the live domain or, when
  transitions failed since the last successful one, to the candidate of one of those, and never to
  anything else; before the power loss the record in memory restores to the live domain.
\<close>

theorem runtime_survives_power_loss:
  assumes "aead_correct cipher" and "fs_inv (ub_fs (prs_backend st))" and "entropy_wf st" and "domain_wf d"
    and "(open_record cipher st :: _ \<Rightarrow> (_, FsStorageError ProtectedSyncStoreError) result) `
      fs_possible (ub_fs (prs_backend st)) = {Ok (Some rec)}"
    and "recover_scalar_domain scalar_trusted_state_codec rec = Ok d"
    and "(runtime_step (ProtectedSyncRecordStore_persist cipher unix_fs_backend) cursors)\<^sup>*\<^sup>*
      (d, rec, st, {d}) (d', rec', st1, A)"
    and "fs_crash (ub_fs (prs_backend st1)) (ub_fs (prs_backend st2))" and "faults (ub_fs (prs_backend st2)) = []"
    and "prs_key st2 = prs_key st1" and "prs_context st2 = prs_context st1"
  shows "recover_scalar_domain scalar_trusted_state_codec rec' = Ok d' \<and> d' \<in> A \<and>
    (\<exists>r x. fst (ProtectedSyncRecordStore_load_committed cipher unix_fs_backend st2) = Ok (Some r) \<and>
       recover_scalar_domain scalar_trusted_state_codec r = Ok x \<and> x \<in> A)"
proof -
  let ?R = "recoverable_records cipher (\<lambda>b. fs_possible (ub_fs b)) ::
    UnixFsDurabilityBackend ProtectedSyncRecordStore \<Rightarrow> (_, FsStorageError ProtectedSyncStoreError) result set"
  let ?U = "usable_store cipher (\<lambda>b. fs_inv (ub_fs b))"
  have "?U st" using assms(1-3) by (simp add: usable_store_def)
  moreover have "?R st = {Ok (Some rec)}" using assms(5) by (simp add: recoverable_records_def)
  ultimately have "runtime_inv ?R ?U (d, rec, st, {d})" using assms(4,6) by (simp add: runtime_inv_def)
  from unix_runtime.runtime_steps_inv [OF assms(7) this]
  have post: "?U st1" "recover_scalar_domain scalar_trusted_state_codec rec' = Ok d'" "d' \<in> A"
    "\<forall>f \<in> ?R st1. \<exists>r. f = Ok (Some r) \<and> (\<exists>x \<in> A. recover_scalar_domain scalar_trusted_state_codec r = Ok x)"
    by (simp_all add: runtime_inv_def)
  have "protection_context st2 = protection_context st1" using assms(11) by (simp add: protection_context_def)
  from unix_store.load_after_crash [OF post(1) assms(8,9,10) this] post show ?thesis by blast
qed

definition byte_record :: "bytes \<Rightarrow> DurableSyncRecord" where
  "byte_record bs = DurableSyncRecord_new bs None"

definition byte_staged :: "bytes \<Rightarrow> DurableSyncRecord" where
  "byte_staged bs = \<lparr>trusted_state = bs, applied_cursor = None, outbox = bm_insert (OpaqueId 6)
     \<lparr>oe_publication_id = OpaqueId 6, oe_expected_cursor = None, oe_objects = [[1]]\<rparr> bm_empty\<rparr>"

lemma byte_records_storable:
  assumes "length bs < 1000"
  shows "record_storable (byte_record bs)" and "is_ok (encode_durable_sync_record (byte_record bs))"
    and "record_storable (byte_staged bs)"
  using assms
  by (auto simp: record_storable_def byte_record_def byte_staged_def record_wf_def DurableSyncRecord_new_def cursor_wf_def
      entry_wf_def vec_capacity_ok_def encode_durable_sync_record_def write_bytes_def write_len_def
      write_optional_cursor_def bm_len_def bm_values_def bm_entries_single bm_entries_empty write_outbox_entry_def
      isize_max_def split: if_splits)

text \<open>One staged handoff on a store that holds the record of the domain, then a power loss.\<close>

theorem runtime_survives_power_loss_witness:
  "\<exists>rec st d' rec' st1 A. runtime_step (ProtectedSyncRecordStore_persist plain_aead unix_fs_backend) sample_codec
       (byte_domain, rec, st, {byte_domain}) (d', rec', st1, A) \<and>
     (\<exists>r x. fst (ProtectedSyncRecordStore_load_committed plain_aead unix_fs_backend
         (st1\<lparr>prs_backend := settled (prs_backend st1)\<rparr>)) = Ok (Some r) \<and>
       recover_scalar_domain scalar_trusted_state_codec r = Ok x \<and> x \<in> A)"
proof -
  let ?P = "ProtectedSyncRecordStore_persist plain_aead unix_fs_backend"
  let ?t = "Stage (bs_from_list [OpaqueId 5]) \<lparr>pp_publication_id = OpaqueId 6, pp_objects = [[1]]\<rparr> :: u8 scalar_transition"
  obtain bs where bs: "encode_local_scalar_snapshot (LocalScalarDomain_snapshot byte_domain) = Ok bs" "length bs = 102"
    using byte_domain_encodes by blast
  have "length bs < 1000" using bs(2) by simp
  note stor = byte_records_storable [OF this]
  obtain cs where "encode_durable_sync_record (byte_record bs) = Ok cs" using stor(2) by (auto simp: is_ok_iff)
  from sample_store_persists [OF stor(1) this] obtain st where
    st: "?P sample_store (byte_record bs) = (Ok (), st)" by blast
  have "usable_store plain_aead (\<lambda>b. fs_inv (ub_fs b)) sample_store"
    using sample_store_usable plain_aead_correct by (simp add: usable_store_def)
  note p = unix_store.persist_recoverable [OF this stor(1) st]
  have rec: "recover_scalar_domain scalar_trusted_state_codec (byte_record bs) = Ok byte_domain"
    using bs by (intro scalar_state.recover_encoded byte_domain_wf)
      (simp_all add: scalar_trusted_state_codec_def byte_record_def DurableSyncRecord_new_def isize_max_def)
  have "LocalScalarDomain_handoff byte_domain (bs_iter (bs_from_list [OpaqueId 5])) = (Ok (), byte_domain)" by code_simp
  then have cand: "candidate_record sample_codec byte_domain (byte_record bs) ?t = Some (byte_staged bs)"
    using bs(1) by (simp add: candidate_record.simps when_encoded_def next_staged_def DurableSyncRecord_prepare_outbox_def
        validate_objects_def byte_record_def byte_staged_def DurableSyncRecord_new_def)
  obtain ok d' rec' st1 where run: "run_transition ?P sample_codec byte_domain (byte_record bs) st ?t = (ok, d', rec', st1)"
    by (metis prod_cases4)
  define A where "A = (if ok then {d'} else {byte_domain} \<union> set_option (candidate_domain byte_domain ?t))"
  have step: "runtime_step ?P sample_codec (byte_domain, byte_record bs, st, {byte_domain}) (d', rec', st1, A)"
    unfolding A_def using cand stor(3) bs(2)
    by (intro runtime_step.transition run) (auto simp: transition_ok_def byte_staged_def isize_max_def)
  then have steps: "(runtime_step ?P sample_codec)\<^sup>*\<^sup>* (byte_domain, byte_record bs, st, {byte_domain}) (d', rec', st1, A)" ..
  have "fs_inv (ub_fs (prs_backend st))" "entropy_wf st"
    using conjunct1 [OF p] by (simp_all add: usable_store_def)
  moreover have "(open_record plain_aead st :: _ \<Rightarrow> (_, FsStorageError ProtectedSyncStoreError) result) `
      fs_possible (ub_fs (prs_backend st)) = {Ok (Some (byte_record bs))}"
    by (rule p [THEN conjunct2, THEN conjunct2, THEN conjunct2, THEN conjunct2, THEN mp, OF refl,
          unfolded recoverable_records_def])
  ultimately have "\<exists>r x. fst (ProtectedSyncRecordStore_load_committed plain_aead unix_fs_backend
         (st1\<lparr>prs_backend := settled (prs_backend st1)\<rparr>)) = Ok (Some r) \<and>
       recover_scalar_domain scalar_trusted_state_codec r = Ok x \<and> x \<in> A"
    using runtime_survives_power_loss [OF plain_aead_correct _ _ byte_domain_wf _ rec steps,
        of "st1\<lparr>prs_backend := settled (prs_backend st1)\<rparr>"] settled_crash by simp
  with step show ?thesis by blast
qed

end
