(* ===== verification/Resume_Crash.thy ===== *)
theory Resume_Crash
  imports Resume_Recovery Runtime_Crash
begin

text \<open>
  A resume pass on the persistence stack, with a power loss at any of its durable writes. A pass
  writes a record after the catch-up, after the reconciliation of stale publications and after an
  acknowledged publication; \<open>writes\<close> is the store after a sequence of such attempts, successful or
  not. The locale \<open>crash_safe_pass\<close> extends the contract of a catch-up by what it may write, and
  shows what every record a resume ever tries to write contains.
\<close>

section \<open>Attempted writes\<close>

definition writes :: "('st, 'se) persist_fn \<Rightarrow> 'st \<Rightarrow> DurableSyncRecord list \<Rightarrow> 'st" where
  "writes persist = foldl (\<lambda>st n. snd (persist st n))"

definition only_writes :: "('st, 'se) persist_fn \<Rightarrow> (DurableSyncRecord \<Rightarrow> bool) \<Rightarrow> 'st \<Rightarrow> 'st \<Rightarrow> bool" where
  "only_writes persist G st st' \<longleftrightarrow> (\<exists>ns. st' = writes persist st ns \<and> (\<forall>n \<in> set ns. G n))"

lemma only_writes_none [intro]: "only_writes persist G st st"
  unfolding only_writes_def by (intro exI [of _ "[]"]) (simp add: writes_def)

lemma only_writes_one [intro]: "G n \<Longrightarrow> persist st n = (r, st') \<Longrightarrow> only_writes persist G st st'"
  unfolding only_writes_def by (intro exI [of _ "[n]"]) (simp add: writes_def)

lemma only_writes_trans:
  assumes "only_writes persist G st st1" and "only_writes persist G st1 st2"
  shows "only_writes persist G st st2"
proof -
  from assms obtain ns ms where "st1 = writes persist st ns" "\<forall>n \<in> set ns. G n" "st2 = writes persist st1 ms" "\<forall>n \<in> set ms. G n"
    by (auto simp: only_writes_def)
  then show ?thesis unfolding only_writes_def by (intro exI [of _ "ns @ ms"]) (auto simp: writes_def)
qed

lemma only_writes_mono: "only_writes persist G st st' \<Longrightarrow> (\<And>n. G n \<Longrightarrow> H n) \<Longrightarrow> only_writes persist H st st'"
  by (auto simp: only_writes_def)

lemma swap_writes: "persist_and_swap persist err rec st nxt = (res, rec', st') \<Longrightarrow> G nxt \<Longrightarrow> only_writes persist G st st'"
  by (cases "persist st nxt") (auto simp: persist_and_swap_def split: result.splits)

lemma commit_received_writes:
  assumes "commit_received persist cursors rec st bs head = (res, rec', st')"
    and "\<And>n. next_received cursors rec head bs = Some n \<Longrightarrow> G n"
  shows "only_writes persist G st st'"
  using assms by (auto simp: commit_received_def next_received_def intro: swap_writes split: result.splits)

lemma commit_batch_writes:
  assumes "commit_reconciled_outbox_batch persist cursors rec st pubs bs head = (res, rec', st')"
    and "\<And>n. trusted_state n = bs \<Longrightarrow> bm_get (outbox n) = (\<lambda>k. if k \<in> set pubs then None else bm_get (outbox rec) k) \<Longrightarrow> G n"
  shows "only_writes persist G st st'"
proof (cases "\<exists>c n. cc_encode cursors head = Ok c \<and> bs_set (bs_from_list pubs) \<noteq> {} \<and>
    try_each (\<lambda>nxt pub. DurableSyncRecord_retire_outbox nxt pub bs c) rec (bs_iter (bs_from_list pubs)) = (Ok (), n)")
  case True
  then obtain c n where c: "cc_encode cursors head = Ok c" and ne: "bs_set (bs_from_list pubs) \<noteq> {}"
    and loop: "try_each (\<lambda>nxt pub. DurableSyncRecord_retire_outbox nxt pub bs c) rec (bs_iter (bs_from_list pubs)) = (Ok (), n)"
    by blast
  have "bs_iter (bs_from_list pubs) \<noteq> []" using ne by simp
  from loop [unfolded retire_all_Ok [OF distinct_bs_iter this]] have "G n" by (intro assms(2)) auto
  moreover have "persist_and_swap persist BC_Store rec st n = (res, rec', st')"
    using assms(1) c ne loop by (simp add: commit_reconciled_outbox_batch_def bs_is_empty_iff Let_def del: bm_is_empty_iff)
  ultimately show ?thesis by (rule swap_writes [rotated])
next
  case False
  with assms(1) have "st' = st"
    by (auto simp: commit_reconciled_outbox_batch_def bs_is_empty_iff Let_def simp del: bm_is_empty_iff
        split: if_splits result.splits prod.splits)
  then show ?thesis by blast
qed

text \<open>A store that also keeps every record it was asked to persist.\<close>

definition logged :: "('st, 'se) persist_fn \<Rightarrow> ('st \<times> DurableSyncRecord list, 'se) persist_fn" where
  "logged persist st n = (case persist (fst st) n of (r, s) \<Rightarrow> (r, s, snd st @ [n]))"

lemma writes_logged: "writes (logged persist) (st, ms) ns = (writes persist st ns, ms @ ns)"
proof (induction ns arbitrary: st ms)
  case (Cons n ns)
  then show ?case by (cases "persist st n") (simp add: writes_def logged_def)
qed (simp add: writes_def)

lemma logged_writes:
  assumes "only_writes (logged persist) G (st, []) (st', ns)"
  shows "st' = writes persist st ns" and "\<forall>n \<in> set ns. G n"
  using assms by (auto simp: only_writes_def writes_logged)

text \<open>A store over a backend that keeps its contract holds, after any number of attempts, a record
  that could be recovered before or one of those attempted.\<close>

context protected_record_store
begin

lemma writes_recoverable:
  assumes "usable_store cipher inv st" and "\<forall>n \<in> set ns. record_storable n"
  shows "usable_store cipher inv (writes (ProtectedSyncRecordStore_persist cipher backend) st ns) \<and>
    prs_key (writes (ProtectedSyncRecordStore_persist cipher backend) st ns) = prs_key st \<and>
    protection_context (writes (ProtectedSyncRecordStore_persist cipher backend) st ns) = protection_context st \<and>
    recoverable_records cipher possible (writes (ProtectedSyncRecordStore_persist cipher backend) st ns) \<subseteq>
      recoverable_records cipher possible st \<union> (\<lambda>n. Ok (Some n)) ` set ns"
  using assms
proof (induction ns arbitrary: st)
  case (Cons n ns)
  obtain r st1 where p: "ProtectedSyncRecordStore_persist cipher backend st n = (r, st1)" by fastforce
  have "record_storable n" using Cons.prems by simp
  note step = persist_recoverable [OF Cons.prems(1) this p]
  with Cons.IH [of st1] Cons.prems(2) p show ?case unfolding writes_def by auto
qed (simp add: writes_def)

end

section \<open>What a settlement writes\<close>

lemma reconcile_stale_writes:
  fixes res :: "(PublicationId btree_set \<times> PublicationId btree_set, ('cu, 'pd, 'te, 'se, 'ce) resume_error) result"
  assumes "reconcile_stale persist cursors evidence out stale rec st = (res, rec', st')"
    and "\<And>n pubs. retires rec pubs n \<Longrightarrow> pubs \<subseteq> bs_set stale \<Longrightarrow> \<forall>p \<in> pubs. arrived evidence out rec p \<Longrightarrow> G n"
  shows "only_writes persist G st st'"
proof (cases "\<exists>head n observed sealed seen. out = CatchUp_Applied head n observed sealed \<and> bs_set stale \<noteq> {} \<and> bs_set seen \<noteq> {} \<and>
    try_fold (observe_publication (evidence observed) rec) bm_empty (bs_iter stale) =
      (Ok seen :: (_, ('cu, 'pd, 'te, 'se, 'ce) resume_error) result)")
  case True
  then obtain head k observed sealed seen where out: "out = CatchUp_Applied head k observed sealed"
    and ne: "bs_set stale \<noteq> {}" "bs_set seen \<noteq> {}"
    and seen: "try_fold (observe_publication (evidence observed) rec) bm_empty (bs_iter stale) =
      (Ok seen :: (_, ('cu, 'pd, 'te, 'se, 'ce) resume_error) result)" by blast
  note set = observe_publications_Ok [OF seen, unfolded bs_set_empty set_bs_iter Un_empty_left]
  obtain r rec1 st1 where c: "commit_reconciled_outbox_batch persist cursors rec st (bs_iter seen) (trusted_state rec) head =
      (r, rec1, st1)" by (metis prod_cases3)
  have "st' = st1" using assms(1) ne seen c
    by (cases r) (auto simp: reconcile_stale_def out bs_is_empty_iff simp del: bm_is_empty_iff)
  moreover have "only_writes persist G st st1"
    using c
  proof (rule commit_batch_writes)
    fix n :: DurableSyncRecord assume "trusted_state n = trusted_state rec"
      and "bm_get (outbox n) = (\<lambda>k. if k \<in> set (bs_iter seen) then None else bm_get (outbox rec) k)"
    then have "retires rec (bs_set seen) n" by (simp add: retires_def)
    then show "G n" by (rule assms(2)) (auto simp: set arrived_def out)
  qed
  ultimately show ?thesis by simp
next
  case False
  with assms(1) have "st' = st"
    by (auto simp: reconcile_stale_def bs_is_empty_iff simp del: bm_is_empty_iff
        split: if_splits catch_up_outcome.splits result.splits)
  then show ?thesis by blast
qed

lemma publish_current_writes:
  fixes res :: "('r ScalarBatchResumeAction, ('cu, 'pd, 'te, 'se, 'ce) resume_error) result"
  assumes "publish_current persist cursors tr current rec st t = (res, rec', st', t')"
    and "bs_set current \<noteq> {}" and "bs_set current \<subseteq> dom (bm_get (outbox rec))"
    and "\<forall>p \<in> bs_set current. oe_expected_cursor (the (bm_get (outbox rec) p)) = c"
    and "concat (map (\<lambda>p. oe_objects (the (bm_get (outbox rec) p))) (bs_iter current)) = objs"
    and "\<And>n expected head. retires rec (bs_set current) n \<Longrightarrow> decode_cursor cursors c = Ok expected \<Longrightarrow>
      tr_publish tr t expected objs = (Ok (Published head), t') \<Longrightarrow> G n"
  shows "only_writes persist G st st'"
proof (cases "\<exists>expected head t1. decode_cursor cursors c = Ok expected \<and> tr_publish tr t expected objs = (Ok (Published head), t1)")
  case True
  then obtain expected head t1 where p: "decode_cursor cursors c = Ok expected" "tr_publish tr t expected objs = (Ok (Published head), t1)"
    by blast
  obtain r rec1 st1 where c: "commit_reconciled_outbox_batch persist cursors rec st (bs_iter current) (trusted_state rec) head =
      (r, rec1, st1)" by (metis prod_cases3)
  have run: "st' = st1" "t' = t1"
    using assms(1) p c by (cases r; simp add: publish_current_def publish_batch_current [OF assms(2-4)] assms(5))+
  have "only_writes persist G st st1"
    using c
  proof (rule commit_batch_writes)
    fix n :: DurableSyncRecord assume "trusted_state n = trusted_state rec"
      and "bm_get (outbox n) = (\<lambda>k. if k \<in> set (bs_iter current) then None else bm_get (outbox rec) k)"
    then have "retires rec (bs_set current) n" by (simp add: retires_def)
    then show "G n" using p run(2) by (intro assms(6)) simp_all
  qed
  with run show ?thesis by simp
next
  case False
  with assms(1) have "st' = st"
    by (auto simp: publish_current_def publish_batch_current [OF assms(2-4)] assms(5)
        split: result.splits prod.splits PublishOutcome.splits)
  then show ?thesis by blast
qed

lemma settle_writes:
  fixes res :: "(PublicationId btree_set \<times> 'r ScalarBatchResumeAction, ('cu, 'pd, 'te, 'se, 'ce) resume_error) result"
  assumes "settle_outbox_set persist cursors tr evidence initial out rec st t = (res, rec', st', t')"
    and "bs_set initial = dom (bm_get (outbox rec))"
    and "\<forall>head. moved_head out = Some head \<longrightarrow> (\<exists>c. cc_encode cursors head = Ok c \<and> applied_cursor rec = Some c)"
    and G: "\<And>n pubs. retires rec pubs n \<Longrightarrow>
      \<forall>p \<in> pubs. arrived evidence out rec p \<or> p \<in> current_pubs rec \<and> (\<exists>expected head.
        decode_cursor cursors (applied_cursor rec) = Ok expected \<and>
        tr_publish tr t expected (offered_objects rec) = (Ok (Published head), t')) \<Longrightarrow> G n"
  shows "only_writes persist G st st'"
proof (cases "is_baseline_unavailable out \<or> bs_set initial = {}")
  case True
  with assms(1) have "st' = st"
    by (auto simp: settle_outbox_set_def bs_is_empty_iff simp del: bm_is_empty_iff split: if_splits)
  then show ?thesis by blast
next
  case False
  from assms(1,2) False obtain current stale rs rec1 st1 where cur: "bs_set current = current_pubs rec"
    and stale: "bs_set stale = dom (bm_get (outbox rec)) - current_pubs rec"
    and rstale: "reconcile_stale persist cursors evidence out stale rec st = (rs :: (_, ('cu, 'pd, 'te, 'se, 'ce) resume_error) result, rec1, st1)"
    and run: "(res, rec', st', t') = (case rs of Err e \<Rightarrow> (Err e, rec1, st1, t)
      | Ok (seen, unresolved) \<Rightarrow>
          if bs_set unresolved \<noteq> {} then (Ok (seen, Action_NeedsRebase unresolved), rec1, st1, t)
          else if bs_set current = {} then (Ok (seen, Action_None), rec1, st1, t)
          else (case publish_current persist cursors tr current rec1 st1 t of
                  (Err e, rec2, store2, t2) \<Rightarrow> (Err e, rec2, store2, t2)
                | (Ok action, rec2, store2, t2) \<Rightarrow> (Ok (seen, action), rec2, store2, t2)))"
    by (rule settle_run)
  have first: "only_writes persist G st st1" using rstale by (rule reconcile_stale_writes) (blast intro: G)
  have dom: "bs_set stale \<subseteq> dom (bm_get (outbox rec))" using stale by blast
  from reconcile_stale_retires [OF rstale dom assms(3)] show ?thesis
  proof (elim disjE exE conjE)
    fix e assume "rs = Err e"
    with run first show ?thesis by simp
  next
    fix seen unresolved
    assume rs: "rs = Ok (seen, unresolved)" and ret: "retires rec (bs_set seen) rec1"
      and arr: "\<forall>p \<in> bs_set seen. arrived evidence out rec p" and sub: "bs_set seen \<subseteq> bs_set stale"
    have disj: "bs_set seen \<inter> current_pubs rec = {}" using sub stale by blast
    note same = offered_unchanged [OF ret disj cur]
    show ?thesis
    proof (cases "bs_set unresolved \<noteq> {} \<or> bs_set current = {}")
      case True
      with run rs first show ?thesis by (auto split: if_splits)
    next
      case False
      then have ne: "bs_set current \<noteq> {}" by blast
      obtain pr rec2 st2 t2 where pub: "publish_current persist cursors tr current rec1 st1 t =
          (pr :: (_, ('cu, 'pd, 'te, 'se, 'ce) resume_error) result, rec2, st2, t2)" by (metis prod_cases4)
      have eq: "st' = st2" "t' = t2" using run rs False pub by (auto split: result.splits)
      have "only_writes persist G st1 st2"
        using pub ne same(2,3,1)
      proof (rule publish_current_writes)
        fix n expected head
        assume "retires rec1 (bs_set current) n" and "decode_cursor cursors (applied_cursor rec) = Ok expected"
          and "tr_publish tr t expected (offered_objects rec) = (Ok (Published head), t2)"
        then show "G n" using arr cur eq(2) by (intro G [OF retires_trans [OF ret]]) auto
      qed
      with first eq(1) show ?thesis by (auto intro: only_writes_trans)
    qed
  qed
qed

section \<open>What a whole pass writes\<close>

locale crash_safe_pass = catch_up_pass catch_up tr cursors persist live paired
  for catch_up :: "'x \<Rightarrow> DurableSyncRecord \<Rightarrow> 'st \<Rightarrow> 't \<Rightarrow>
      (('r, 'o, 's) catch_up_outcome, 'cu) result \<times> 'x \<times> DurableSyncRecord \<times> 'st \<times> 't"
    and tr :: "('t, 'r, 'te) OpaqueTransport"
    and cursors :: "('r, 'ce) TransportCursorCodec"
    and persist :: "('st, 'se) persist_fn"
    and live paired +
  fixes grows :: "'x \<Rightarrow> 'x \<Rightarrow> bool"
  assumes pass_grows: "catch_up x rec st t = (Ok out, x', rec', st', t') \<Longrightarrow> live x \<Longrightarrow> grows x x'"
    and pass_writes: "catch_up x rec st t = (res, x', rec', st', t') \<Longrightarrow> live x \<Longrightarrow>
      only_writes persist (\<lambda>n. outbox n = outbox rec \<and>
        (length (trusted_state n) \<le> isize_max \<longrightarrow> (\<exists>y. live y \<and> grows x y \<and> paired y (trusted_state n)))) st st'"
begin

lemma resume_pass_writes:
  fixes res :: "(('r, ('r, 'o, 's) catch_up_outcome) resume_report, ('cu, 'pd, 'te, 'se, 'ce) resume_error) result"
  assumes "resume_outbox_pass persist cursors tr evidence catch_up x rec st t = (res, x', rec', st', t')"
    and "live x" and "paired x (trusted_state rec)"
  shows "only_writes persist (\<lambda>n.
    (length (trusted_state n) \<le> isize_max \<longrightarrow> (\<exists>y. live y \<and> grows x y \<and> paired y (trusted_state n))) \<and>
    bm_get (outbox n) \<subseteq>\<^sub>m bm_get (outbox rec) \<and>
    (\<forall>p \<in> dom (bm_get (outbox rec)) - dom (bm_get (outbox n)). \<exists>out x1 rec1 st1 t1.
       catch_up x rec st t = (Ok out, x1, rec1, st1, t1) \<and>
       (arrived evidence out rec p \<or>
        p \<in> current_pubs rec1 \<and> (\<exists>expected head. decode_cursor cursors (applied_cursor rec1) = Ok expected \<and>
          tr_publish tr t1 expected (offered_objects rec1) = (Ok (Published head), t'))))) st st'"
    (is "only_writes persist ?G st st'")
proof -
  obtain cr x1 rec1 st1 t1 where c: "catch_up x rec st t = (cr, x1, rec1, st1, t1)" by (metis prod_cases5)
  have first: "only_writes persist ?G st st1"
    using pass_writes [OF c assms(2)] by (rule only_writes_mono) auto
  show ?thesis
  proof (cases cr)
    case (Err e)
    with assms(1) c first show ?thesis by (simp add: resume_outbox_pass_def)
  next
    case (Ok out)
    obtain r rec2 st2 t2 where s: "settle_outbox_set persist cursors tr evidence (bs_from_list (bm_keys (outbox rec))) out rec1 st1 t1 =
        (r :: (_, ('cu, 'pd, 'te, 'se, 'ce) resume_error) result, rec2, st2, t2)" by (metis prod_cases4)
    have eq: "st2 = st'" "t2 = t'"
      using assms(1) c Ok s by (cases r; auto simp: resume_outbox_pass_def)+
    have same: "outbox rec1 = outbox rec" by (rule pass_keeps_outbox [OF c])
    have init: "bs_set (bs_from_list (bm_keys (outbox rec))) = dom (bm_get (outbox rec1))" using same by simp
    have moved: "\<forall>head. moved_head out = Some head \<longrightarrow> (\<exists>c. cc_encode cursors head = Ok c \<and> applied_cursor rec1 = Some c)"
      using pass_moved [OF c [unfolded Ok]] by (simp add: cursor_advanced_def)
    have "only_writes persist ?G st1 st2"
      using s init moved
    proof (rule settle_writes)
      fix n pubs
      assume ret: "retires rec1 pubs n" and why: "\<forall>p \<in> pubs. arrived evidence out rec1 p \<or> p \<in> current_pubs rec1 \<and>
        (\<exists>expected head. decode_cursor cursors (applied_cursor rec1) = Ok expected \<and>
          tr_publish tr t1 expected (offered_objects rec1) = (Ok (Published head), t2))"
      have arr: "arrived evidence out rec1 p = arrived evidence out rec p" for p unfolding arrived_def same ..
      have "grows x x1" using pass_grows [OF c [unfolded Ok] assms(2)] .
      moreover have "live x1 \<and> paired x1 (trusted_state n)" if "length (trusted_state n) \<le> isize_max"
        using pass_keeps_paired [OF c assms(2,3)] that ret by (simp add: retires_def)
      moreover have "bm_get (outbox n) \<subseteq>\<^sub>m bm_get (outbox rec)" using ret same by (auto simp: retires_def map_le_def)
      moreover have "p \<in> pubs" if "p \<in> dom (bm_get (outbox rec)) - dom (bm_get (outbox n))" for p
        using that ret same by (auto simp: retires_def split: if_splits)
      ultimately show "?G n" using why c [unfolded Ok] eq(2) unfolding arr by blast
    qed
    with first eq(1) show ?thesis by (auto intro: only_writes_trans)
  qed
qed

end

section \<open>The container pass\<close>

text \<open>Every domain is still there and knows what it knew.\<close>

definition container_grows :: "LocalScalarRecoveryState \<Rightarrow> LocalScalarRecoveryState \<Rightarrow> bool" where
  "container_grows x y \<longleftrightarrow> (\<forall>key d. RecoveryState_get x key = Some (LocalScalarDomain_snapshot d) \<longrightarrow>
     (\<exists>d'. RecoveryState_get y key = Some (LocalScalarDomain_snapshot d') \<and>
        register_le (LocalScalarDomain_causal d) (LocalScalarDomain_causal d')))"

lemma container_grows_refl [simp]: "container_grows x x"
  by (auto simp: container_grows_def)

lemma observe_range_grows:
  assumes "recovery_wf x"
    and "decode_complete_scalar_projections cipher key continuum objs =
      (Ok projections :: (_, ('te, 'tse, 'se, 'ce) ScalarRecoveryCatchUpError) result)"
    and "try_fold (SyncProjection_merge ScalarRegister_merge) SyncProjection_new projections = Ok combined"
    and "try_fold (observe_domain pre) \<lparr>ro_candidate = x, ro_observed = bm_empty, ro_sealed = bm_empty\<rparr>
      (bm_entries (domains combined)) = (Ok ob :: (_, ('te, 'tse, 'se, 'ce) ScalarRecoveryCatchUpError) result)"
  shows "container_grows x (ro_candidate ob)"
  unfolding container_grows_def
proof (intro allI impI)
  fix key d assume d: "RecoveryState_get x key = Some (LocalScalarDomain_snapshot d)"
  note all = observe_range_wf [OF assms, THEN conjunct2, THEN spec, of key]
  show "\<exists>d'. RecoveryState_get (ro_candidate ob) key = Some (LocalScalarDomain_snapshot d') \<and>
      register_le (LocalScalarDomain_causal d) (LocalScalarDomain_causal d')"
    using all d by (cases "bm_get (domains combined) key") (auto simp: absorbed_def)
qed

lemma apply_recovery_range_writes:
  fixes res :: "('r ScalarRecoveryCatchUpOutcome, ('te, MultiScalarTrustedStateCodecError, 'se, 'ce) ScalarRecoveryCatchUpError) result"
  assumes "apply_recovery_range cipher persist multi_trusted_state_codec cursors x rec st spec head objs = (res, x', rec', st')"
    and "recovery_wf x"
  shows "only_writes persist (\<lambda>n. outbox n = outbox rec \<and> (length (trusted_state n) \<le> isize_max \<longrightarrow>
    (\<exists>y. recovery_wf y \<and> container_grows x y \<and> recovery_paired y (trusted_state n)))) st st'" (is "only_writes persist ?G st st'")
proof -
  let ?enc = "tc_encode multi_trusted_state_codec"
  have commit: "only_writes persist ?G st st1"
    if "commit_received persist cursors rec st bs head = (r, rec1, st1)" "?enc y = Ok bs" "recovery_wf y" "container_grows x y"
    for r rec1 st1 bs y
    using that(1)
  proof (rule commit_received_writes)
    fix n assume n: "next_received cursors rec head bs = Some n"
    then have "next_caught_up ?enc cursors rec head (Some y) = Some n" using that(2) by (simp add: next_caught_up_def when_encoded_def)
    from recovery_pairs [OF this that(3)] that(3,4) next_received_fields(2) [OF n] show "?G n" by blast
  qed
  show ?thesis
  proof (cases "objs = []")
    case True
    show ?thesis
    proof (cases "?enc x")
      case (Ok bs)
      obtain r rec1 st1 where c: "commit_received persist cursors rec st bs head = (r, rec1, st1)" by (metis prod_cases3)
      have "st' = st1" using assms(1) True Ok c by (cases r) (auto simp: apply_recovery_range_def)
      with commit [OF c Ok assms(2)] show ?thesis by simp
    qed (use assms(1) True in \<open>auto simp: apply_recovery_range_def\<close>)
  next
    case False
    show ?thesis
    proof (cases "\<exists>projections combined ob bs. decode_complete_scalar_projections cipher (rcu_key spec) (rcu_continuum_id spec) objs =
        (Ok projections :: (_, ('te, MultiScalarTrustedStateCodecError, 'se, 'ce) ScalarRecoveryCatchUpError) result) \<and>
      try_fold (SyncProjection_merge ScalarRegister_merge) SyncProjection_new projections = Ok combined \<and>
      try_fold (observe_domain (rcu_pre_observation_revision_ids spec))
        \<lparr>ro_candidate = x, ro_observed = bm_empty, ro_sealed = bm_empty\<rparr> (bm_entries (domains combined)) =
        (Ok ob :: (_, ('te, MultiScalarTrustedStateCodecError, 'se, 'ce) ScalarRecoveryCatchUpError) result) \<and> ?enc (ro_candidate ob) = Ok bs")
      case True
      then obtain projections combined ob bs where ok: "decode_complete_scalar_projections cipher (rcu_key spec) (rcu_continuum_id spec) objs =
          (Ok projections :: (_, ('te, MultiScalarTrustedStateCodecError, 'se, 'ce) ScalarRecoveryCatchUpError) result)"
        "try_fold (SyncProjection_merge ScalarRegister_merge) SyncProjection_new projections = Ok combined"
        "try_fold (observe_domain (rcu_pre_observation_revision_ids spec))
          \<lparr>ro_candidate = x, ro_observed = bm_empty, ro_sealed = bm_empty\<rparr> (bm_entries (domains combined)) =
          (Ok ob :: (_, ('te, MultiScalarTrustedStateCodecError, 'se, 'ce) ScalarRecoveryCatchUpError) result)"
        "?enc (ro_candidate ob) = Ok bs" by blast
      obtain r rec1 st1 where c: "commit_received persist cursors rec st bs head = (r, rec1, st1)" by (metis prod_cases3)
      have "(res, x', rec', st') = (case r of Err e \<Rightarrow> (Err (RCU_Commit e), x, rec1, st1)
          | Ok _ \<Rightarrow> (Ok (CatchUp_Applied head (length objs) (ro_observed ob) (ro_sealed ob)), ro_candidate ob, rec1, st1))"
        unfolding assms(1) [symmetric] apply_recovery_range_def ok result.case c
        using False by (cases r) simp_all
      then have "st' = st1" by (cases r) simp_all
      with commit [OF c ok(4) conjunct1 [OF observe_range_wf [OF assms(2) ok(1-3)]] observe_range_grows [OF assms(2) ok(1-3)]]
      show ?thesis by simp
    next
      case no: False
      have "st' = st" using no assms(1) False unfolding apply_recovery_range_def by (auto split: result.splits)
      then show ?thesis by blast
    qed
  qed
qed

interpretation crash_safe_recovery: crash_safe_pass
  "catch_up_scalar_recovery_state cipher persist multi_trusted_state_codec cursors tr spec" tr cursors persist recovery_wf recovery_paired
  container_grows for cipher persist cursors tr spec
proof
  fix x rec st t out x' rec' st' t'
  assume "catch_up_scalar_recovery_state cipher persist multi_trusted_state_codec cursors tr spec x rec st t = (Ok out, x', rec', st', t')"
    and wf: "recovery_wf x"
  then show "container_grows x x'"
    by (cases rule: catch_up_recovery_cases) (auto elim!: apply_recovery_range_cases intro: observe_range_grows)
next
  fix x rec st t res x' rec' st' t'
  assume "catch_up_scalar_recovery_state cipher persist multi_trusted_state_codec cursors tr spec x rec st t = (res, x', rec', st', t')"
    and wf: "recovery_wf x"
  then show "only_writes persist (\<lambda>n. outbox n = outbox rec \<and> (length (trusted_state n) \<le> isize_max \<longrightarrow>
      (\<exists>y. recovery_wf y \<and> container_grows x y \<and> recovery_paired y (trusted_state n)))) st st'"
    by (cases rule: catch_up_recovery_cases) (auto intro: apply_recovery_range_writes)
qed

section \<open>Property\<close>

text \<open>
  C13. A resume loses nothing to a power loss, wherever it strikes. Start with a store that holds the
  record of the live container, run a resume pass with any transport and any outcome, and lose power
  after any number of the writes the pass attempted, each of which may have failed half way: the
  record a restart reads decodes to a well-formed container in which every domain is still there and
  knows all it knew; its outbox holds nothing new, and a publication is missing from it only if the
  pass saw it arrive or the transport acknowledged it.
\<close>

theorem resume_survives_power_loss:
  fixes res :: "('r ScalarRecoveryResumeReport, ('te, MultiScalarTrustedStateCodecError,
      FsStorageError ProtectedSyncStoreError, 'ce) ScalarRecoveryResumeError) result"
    and tr :: "('t, 'r, 'te) OpaqueTransport" and cursors :: "('r, 'ce) TransportCursorCodec"
  assumes "aead_correct cipher" and "fs_inv (ub_fs (prs_backend st))" and "entropy_wf st" and "recovery_wf x"
    and "(open_record cipher st :: _ \<Rightarrow> (_, FsStorageError ProtectedSyncStoreError) result) `
      fs_possible (ub_fs (prs_backend st)) = {Ok (Some rec)}"
    and "recovery_paired x (trusted_state rec)"
    and "resume_scalar_recovery_outbox_set cipher (logged (ProtectedSyncRecordStore_persist cipher unix_fs_backend))
      multi_trusted_state_codec cursors tr spec x rec (st, []) t = (res, x', rec', (st', ns), t')"
    and "\<forall>n \<in> set ns. record_storable n \<and> length (trusted_state n) \<le> isize_max"
    and "fs_crash (ub_fs (prs_backend (writes (ProtectedSyncRecordStore_persist cipher unix_fs_backend) st (take k ns))))
      (ub_fs (prs_backend st2))"
    and "faults (ub_fs (prs_backend st2)) = []" and "prs_key st2 = prs_key st" and "prs_context st2 = prs_context st"
  shows "st' = writes (ProtectedSyncRecordStore_persist cipher unix_fs_backend) st ns \<and>
    (\<exists>r y. fst (ProtectedSyncRecordStore_load_committed cipher unix_fs_backend st2) = Ok (Some r) \<and>
       decode_multi_scalar_recovery_state (trusted_state r) = Ok y \<and> recovery_wf y \<and> container_grows x y \<and>
       bm_get (outbox r) \<subseteq>\<^sub>m bm_get (outbox rec) \<and>
       (\<forall>p \<in> dom (bm_get (outbox rec)) - dom (bm_get (outbox r)). \<exists>out x1 rec1 st1 t1.
          catch_up_scalar_recovery_state cipher (logged (ProtectedSyncRecordStore_persist cipher unix_fs_backend))
            multi_trusted_state_codec cursors tr
            \<lparr>rcu_key = rr_key spec, rcu_continuum_id = rr_continuum_id spec,
             rcu_pre_observation_revision_ids = rr_pre_observation_revision_ids spec\<rparr> x rec (st, []) t =
            ((Ok out :: (_, ('te, MultiScalarTrustedStateCodecError, FsStorageError ProtectedSyncStoreError, 'ce)
               ScalarRecoveryCatchUpError) result), x1, rec1, st1, t1) \<and>
          (arrived (recovery_evidence cipher spec) out rec p \<or>
           p \<in> current_pubs rec1 \<and> (\<exists>expected head. decode_cursor cursors (applied_cursor rec1) = Ok expected \<and>
             tr_publish tr t1 expected (offered_objects rec1) = (Ok (Published head), t')))))"
proof -
  let ?P = "ProtectedSyncRecordStore_persist cipher unix_fs_backend"
  let ?st1 = "writes ?P st (take k ns)"
  note run = crash_safe_recovery.resume_pass_writes [OF assms(7) [unfolded resume_scalar_recovery_outbox_set_def] assms(4,6)]
  note law = logged_writes(2) [OF run]
  have usable: "usable_store cipher (\<lambda>b. fs_inv (ub_fs b)) st" using assms(1-3) by (simp add: usable_store_def)
  have "\<forall>n \<in> set (take k ns). record_storable n" using assms(8) by (auto dest: in_set_takeD)
  note w = unix_store.writes_recoverable [OF usable this]
  have "prs_key st2 = prs_key ?st1" "protection_context st2 = protection_context ?st1"
    unfolding w [THEN conjunct2, THEN conjunct1] w [THEN conjunct2, THEN conjunct2, THEN conjunct1]
    using assms(11,12) by (simp_all add: protection_context_def)
  with unix_store.load_after_crash [OF conjunct1 [OF w] assms(9,10)]
  have "fst (ProtectedSyncRecordStore_load_committed cipher unix_fs_backend st2) \<in>
      recoverable_records cipher (\<lambda>b. fs_possible (ub_fs b)) ?st1" by blast
  moreover have "recoverable_records cipher (\<lambda>b. fs_possible (ub_fs b)) st =
      ({Ok (Some rec)} :: (_, FsStorageError ProtectedSyncStoreError) result set)"
    using assms(5) by (simp add: recoverable_records_def)
  moreover have "(recoverable_records cipher (\<lambda>b. fs_possible (ub_fs b)) ?st1 :: (_, FsStorageError ProtectedSyncStoreError) result set) \<subseteq>
      recoverable_records cipher (\<lambda>b. fs_possible (ub_fs b)) st \<union> (\<lambda>n. Ok (Some n)) ` set (take k ns)"
    by (rule w [THEN conjunct2, THEN conjunct2, THEN conjunct2])
  ultimately have "fst (ProtectedSyncRecordStore_load_committed cipher unix_fs_backend st2) \<in>
      insert (Ok (Some rec)) ((\<lambda>n. Ok (Some n)) ` set ns)" using set_take_subset [of k ns] by blast
  then obtain r where load: "fst (ProtectedSyncRecordStore_load_committed cipher unix_fs_backend st2) = Ok (Some r)"
    and r: "r = rec \<or> r \<in> set ns" by blast
  show ?thesis
  proof (intro conjI logged_writes(1) [OF run])
    from r show "\<exists>r y. fst (ProtectedSyncRecordStore_load_committed cipher unix_fs_backend st2) = Ok (Some r) \<and>
       decode_multi_scalar_recovery_state (trusted_state r) = Ok y \<and> recovery_wf y \<and> container_grows x y \<and>
       bm_get (outbox r) \<subseteq>\<^sub>m bm_get (outbox rec) \<and>
       (\<forall>p \<in> dom (bm_get (outbox rec)) - dom (bm_get (outbox r)). \<exists>out x1 rec1 st1 t1.
          catch_up_scalar_recovery_state cipher (logged (ProtectedSyncRecordStore_persist cipher unix_fs_backend))
            multi_trusted_state_codec cursors tr
            \<lparr>rcu_key = rr_key spec, rcu_continuum_id = rr_continuum_id spec,
             rcu_pre_observation_revision_ids = rr_pre_observation_revision_ids spec\<rparr> x rec (st, []) t =
            ((Ok out :: (_, ('te, MultiScalarTrustedStateCodecError, FsStorageError ProtectedSyncStoreError, 'ce)
               ScalarRecoveryCatchUpError) result), x1, rec1, st1, t1) \<and>
          (arrived (recovery_evidence cipher spec) out rec p \<or>
           p \<in> current_pubs rec1 \<and> (\<exists>expected head. decode_cursor cursors (applied_cursor rec1) = Ok expected \<and>
             tr_publish tr t1 expected (offered_objects rec1) = (Ok (Published head), t'))))"
    proof
      assume "r = rec"
      with load assms(4,6) show ?thesis
        by (intro exI [of _ rec] exI [of _ x]) (auto simp: recovery_paired_def)
    next
      assume n: "r \<in> set ns"
      with assms(8) have "length (trusted_state r) \<le> isize_max" by blast
      moreover note l = bspec [OF law n]
      ultimately obtain y where y: "recovery_wf y" "container_grows x y" "recovery_paired y (trusted_state r)" by blast
      show ?thesis
        by (intro exI [of _ r] exI [of _ y] conjI load y(1,2) y(3) [unfolded recovery_paired_def]
            l [THEN conjunct2, THEN conjunct1] l [THEN conjunct2, THEN conjunct2])
    qed
  qed
qed

text \<open>A pass that only moves the cursor, on a store that holds the record of the container, with the
  power lost after its one write.\<close>

theorem resume_survives_power_loss_witness:
  "\<exists>rec st n res x' rec' st' t'. resume_scalar_recovery_outbox_set plain_aead (logged (ProtectedSyncRecordStore_persist plain_aead unix_fs_backend))
      multi_trusted_state_codec sample_codec (range_transport [])
      \<lparr>rr_key = sample_key, rr_continuum_id = OpaqueId 9, rr_pre_observation_revision_ids = bm_empty\<rparr>
      (pair_recovery byte_domain) rec (st, []) 0 =
      (res :: (_, (unit, MultiScalarTrustedStateCodecError, FsStorageError ProtectedSyncStoreError, unit) ScalarRecoveryResumeError) result,
       x', rec', (st', [n]), t') \<and>
    (\<exists>r y. fst (ProtectedSyncRecordStore_load_committed plain_aead unix_fs_backend
         (st'\<lparr>prs_backend := settled (prs_backend st')\<rparr>)) = Ok (Some r) \<and>
       decode_multi_scalar_recovery_state (trusted_state r) = Ok y \<and> container_grows (pair_recovery byte_domain) y)"
proof -
  let ?P = "ProtectedSyncRecordStore_persist plain_aead unix_fs_backend"
  let ?spec = "\<lparr>rr_key = sample_key, rr_continuum_id = OpaqueId 9, rr_pre_observation_revision_ids = bm_empty\<rparr>"
  note wf = pair_recovery_wf [OF byte_domain_wf]
  obtain bs where bs: "encode_multi_scalar_recovery_state (pair_recovery byte_domain) = Ok bs" "length bs = 319"
    using pair_recovery_encodes by blast
  have "length bs < 1000" using bs(2) by simp
  note stor = byte_records_storable [OF this]
  obtain cs where "encode_durable_sync_record (byte_record bs) = Ok cs" using stor(2) by (auto simp: is_ok_iff)
  from sample_store_persists [OF stor(1) this] obtain st where
    st: "?P sample_store (byte_record bs) = (Ok (), st)" by blast
  have "usable_store plain_aead (\<lambda>b. fs_inv (ub_fs b)) sample_store"
    using sample_store_usable plain_aead_correct by (simp add: usable_store_def)
  note p = unix_store.persist_recoverable [OF this stor(1) st]
  have inv: "fs_inv (ub_fs (prs_backend st))" "entropy_wf st" using conjunct1 [OF p] by (simp_all add: usable_store_def)
  have holds: "(open_record plain_aead st :: _ \<Rightarrow> (_, FsStorageError ProtectedSyncStoreError) result) `
      fs_possible (ub_fs (prs_backend st)) = {Ok (Some (byte_record bs))}"
    by (rule p [THEN conjunct2, THEN conjunct2, THEN conjunct2, THEN conjunct2, THEN mp, OF refl,
          unfolded recoverable_records_def])
  have paired: "recovery_paired (pair_recovery byte_domain) (trusted_state (byte_record bs))"
    using multi_codec.decode_encode [OF wf, of bs] bs
    by (simp add: recovery_paired_def byte_record_def DurableSyncRecord_new_def multi_trusted_state_codec_def isize_max_def)
  let ?n = "\<lparr>trusted_state = bs, applied_cursor = Some (TransportCursor [5]), outbox = bm_empty\<rparr>"
  obtain r st1 where r: "?P st ?n = (r, st1)" by fastforce
  let ?st2 = "st1\<lparr>prs_backend := settled (prs_backend st1)\<rparr>"
  have run: "\<exists>res x' rec' t'. resume_scalar_recovery_outbox_set plain_aead (logged ?P)
      multi_trusted_state_codec sample_codec (range_transport []) ?spec (pair_recovery byte_domain) (byte_record bs) (st, []) 0 =
      (res :: (_, (unit, MultiScalarTrustedStateCodecError, FsStorageError ProtectedSyncStoreError, unit) ScalarRecoveryResumeError) result,
       x', rec', (st1, [?n]), t')"
    using r bs(1)
    by (cases r) (simp_all add: resume_scalar_recovery_outbox_set_def resume_outbox_pass_def catch_up_scalar_recovery_state_def
        fetch_from_durable_cursor_def decode_cursor_def byte_record_def DurableSyncRecord_new_def range_transport_def
        apply_recovery_range_def multi_trusted_state_codec_def commit_received_def sample_codec_def persist_and_swap_def
        DurableSyncRecord_apply_received_def logged_def settle_outbox_set_def is_baseline_unavailable_def
        bm_keys_def bm_entries_empty bs_is_empty_iff del: bm_is_empty_iff)
  then obtain res x' rec' t' where run: "resume_scalar_recovery_outbox_set plain_aead (logged ?P)
      multi_trusted_state_codec sample_codec (range_transport []) ?spec (pair_recovery byte_domain) (byte_record bs) (st, []) 0 =
      (res :: (_, (unit, MultiScalarTrustedStateCodecError, FsStorageError ProtectedSyncStoreError, unit) ScalarRecoveryResumeError) result,
       x', rec', (st1, [?n]), t')" by blast
  have fits: "\<forall>n \<in> set [?n]. record_storable n \<and> length (trusted_state n) \<le> isize_max"
    using bs(2) by (auto simp: record_storable_def record_wf_def cursor_wf_def encode_durable_sync_record_def write_bytes_def write_len_def
        write_optional_cursor_def bm_len_def bm_values_def bm_entries_empty isize_max_def split: if_splits)
  have w: "writes ?P st (take 1 [?n]) = st1" using r by (simp add: writes_def)
  have n: "record_storable ?n" using fits by simp
  have "usable_store plain_aead (\<lambda>b. fs_inv (ub_fs b)) st" using p by (rule conjunct1)
  from unix_store.persist_recoverable [OF this n r] have "prs_key st1 = prs_key st" "protection_context st1 = protection_context st"
    by blast+
  then have "prs_key st1 = prs_key st" "prs_context st1 = prs_context st" by (simp_all add: protection_context_def)
  then have keys: "prs_key ?st2 = prs_key st" "prs_context ?st2 = prs_context st" by simp_all
  have crash: "fs_crash (ub_fs (prs_backend (writes ?P st (take 1 [?n])))) (ub_fs (prs_backend ?st2))"
    unfolding w using settled_crash(1) [of "prs_backend st1"] by simp
  have calm: "faults (ub_fs (prs_backend ?st2)) = []" using settled_crash(2) [of "prs_backend st1"] by simp
  from resume_survives_power_loss [OF plain_aead_correct inv wf holds paired run fits crash calm keys]
  obtain r y where "fst (ProtectedSyncRecordStore_load_committed plain_aead unix_fs_backend ?st2) = Ok (Some r)"
    "decode_multi_scalar_recovery_state (trusted_state r) = Ok y" "container_grows (pair_recovery byte_domain) y" by (elim conjE exE)
  with run show ?thesis by blast
qed

end
