(* ===== verification/Probe_Remote.thy ===== *)
theory Probe_Remote
  imports Resume_Crash
begin

text \<open>
  The transport of the Android recovery probe, \<^verbatim>\<open>ProbeTransport\<close> of
  \<^verbatim>\<open>apc-android-bridge/src/recovery_probe.rs\<close>: a remote whose whole state (head, number of accepted
  publications, objects) is one record of a Unix store of its own, and whose \<^verbatim>\<open>publish\<close> can lose the
  response of a publication it has accepted. The error messages of \<^verbatim>\<open>InvalidState\<close> are kept; the
  capacity panic of the decoder is an error of its own. \<^verbatim>\<open>publish_count + 1\<close> wraps as in a release
  build.
\<close>

section \<open>Remote state\<close>

definition PROBE_INITIAL_HEAD :: u64 where "PROBE_INITIAL_HEAD = 1"
definition PROBE_ACCEPTED_HEAD :: u64 where "PROBE_ACCEPTED_HEAD = 2"
definition REMOTE_MAGIC :: bytes where "REMOTE_MAGIC = ascii ''APCARMT1''"

record ProbeRemoteState =
  rs_head :: u64
  rs_publish_count :: u64
  rs_objects :: "bytes list"

definition ProbeRemoteState_default :: ProbeRemoteState where
  "ProbeRemoteState_default = \<lparr>rs_head = PROBE_INITIAL_HEAD, rs_publish_count = 0, rs_objects = []\<rparr>"

datatype ProbePublishMode = Normal | LoseAcceptedResponse

datatype ProbeTransportError =
    PT_Storage FsStorageError
  | PT_InvalidState string
  | PT_LostAcceptedResponse
  | PT_CapacityPanic

definition encode_remote_state :: "ProbeRemoteState \<Rightarrow> (bytes, ProbeTransportError) result" where
  "encode_remote_state state =
     (case write_len (PT_InvalidState ''object count does not fit u64'')
             (REMOTE_MAGIC @ to_be_bytes (rs_head state) @ to_be_bytes (rs_publish_count state)) (length (rs_objects state)) of
        Err e \<Rightarrow> Err e
      | Ok encoded \<Rightarrow>
          try_fold (write_bytes (PT_InvalidState ''object length does not fit u64'')) encoded (rs_objects state))"

definition probe_read_u64 :: "(u64, ProbeTransportError) parser" where
  "probe_read_u64 = Reader_read_u64 (PT_InvalidState ''u64 offset overflow'') (PT_InvalidState ''truncated u64'')"

definition read_remote_object :: "bytes list \<Rightarrow> (bytes list, ProbeTransportError) parser" where
  "read_remote_object objects =
     p_bind probe_read_u64 (\<lambda>w.
     p_bind (p_lift (usize_try_from (PT_InvalidState ''object length overflows usize'') w)) (\<lambda>len.
     p_bind (Reader_read_exact (PT_InvalidState ''object offset overflow'') (PT_InvalidState ''truncated object'') len) (\<lambda>obj.
     p_bind (p_guard (obj \<noteq> []) (PT_InvalidState ''empty remote object'')) (\<lambda>_.
       p_return (objects @ [obj])))))"

definition read_remote_state :: "(ProbeRemoteState, ProbeTransportError) parser" where
  "read_remote_state =
     p_bind probe_read_u64 (\<lambda>head.
     p_bind probe_read_u64 (\<lambda>publish_count.
     p_bind probe_read_u64 (\<lambda>w.
     p_bind (p_lift (usize_try_from (PT_InvalidState ''object count overflows usize'') w)) (\<lambda>count.
     p_bind (p_guard (vec_capacity_ok count) PT_CapacityPanic) (\<lambda>_.
     p_bind (read_loop count read_remote_object []) (\<lambda>objects.
       p_return \<lparr>rs_head = head, rs_publish_count = publish_count, rs_objects = objects\<rparr>))))))"

definition decode_remote_state :: "bytes \<Rightarrow> (ProbeRemoteState, ProbeTransportError) result" where
  "decode_remote_state bs =
     (if length bs < length REMOTE_MAGIC \<or> take (length REMOTE_MAGIC) bs \<noteq> REMOTE_MAGIC
      then Err (PT_InvalidState ''wrong remote-state magic'')
      else
        (case read_remote_state \<lparr>rd_bytes = bs, rd_position = length REMOTE_MAGIC\<rparr> of
           Err e \<Rightarrow> Err e
         | Ok (state, r) \<Rightarrow>
             if rd_position r \<noteq> length bs then Err (PT_InvalidState ''trailing remote-state bytes'') else Ok state))"

section \<open>Transport\<close>

record ProbeTransport =
  pt_backend :: UnixFsDurabilityBackend
  pt_mode :: ProbePublishMode

definition load_state :: "(ProbeTransport, ProbeRemoteState, ProbeTransportError) io" where
  "load_state t =
     (case db_load_committed unix_fs_backend (pt_backend t) of
        (Err e, b) \<Rightarrow> (Err (PT_Storage e), t\<lparr>pt_backend := b\<rparr>)
      | (Ok (Some bs), b) \<Rightarrow> (decode_remote_state bs, t\<lparr>pt_backend := b\<rparr>)
      | (Ok None, b) \<Rightarrow> (Ok ProbeRemoteState_default, t\<lparr>pt_backend := b\<rparr>))"

definition persist_state :: "ProbeRemoteState \<Rightarrow> (ProbeTransport, unit, ProbeTransportError) io" where
  "persist_state state t =
     (case encode_remote_state state of
        Err e \<Rightarrow> (Err e, t)
      | Ok encoded \<Rightarrow>
          (case commit_durable unix_fs_backend encoded (pt_backend t) of
             (res, b) \<Rightarrow> (map_err PT_Storage res, t\<lparr>pt_backend := b\<rparr>)))"

definition probe_head :: "ProbeTransport \<Rightarrow> (u64 option, ProbeTransportError) result \<times> ProbeTransport" where
  "probe_head = io_bind load_state (\<lambda>state. io_return (Some (rs_head state)))"

definition probe_fetch_since ::
    "ProbeTransport \<Rightarrow> u64 option \<Rightarrow> (u64 FetchOutcome, ProbeTransportError) result \<times> ProbeTransport" where
  "probe_fetch_since t known_head =
     io_bind load_state (\<lambda>state. io_return
       (if known_head = Some (rs_head state) then UpToDate (Some (rs_head state))
        else if known_head = Some PROBE_INITIAL_HEAD \<and> rs_head state = PROBE_ACCEPTED_HEAD
        then Changed (rs_head state) (rs_objects state)
        else BaselineUnavailable (Some (rs_head state)))) t"

text \<open>\<^verbatim>\<open>checked_add(1)\<close>\<close>

definition checked_succ :: "u64 \<Rightarrow> u64 option" where
  "checked_succ n = (if n = - 1 then None else Some (n + 1))"

definition probe_publish ::
    "ProbeTransport \<Rightarrow> u64 option \<Rightarrow> bytes list \<Rightarrow> (u64 PublishOutcome, ProbeTransportError) result \<times> ProbeTransport" where
  "probe_publish t expected_head objects =
     (if objects = [] \<or> list_ex (\<lambda>obj. obj = []) objects
      then (Err (PT_InvalidState ''publish must contain non-empty opaque objects''), t)
      else
        io_bind load_state (\<lambda>current.
          if expected_head \<noteq> Some (rs_head current) then io_return (Conflict (Some (rs_head current)))
          else
            (case checked_succ (rs_head current) of
               None \<Rightarrow> io_fail (PT_InvalidState ''head overflow'')
             | Some head \<Rightarrow>
                 io_bind (persist_state \<lparr>rs_head = head, rs_publish_count = rs_publish_count current + 1, rs_objects = objects\<rparr>)
                   (\<lambda>_ t1. if pt_mode t1 = LoseAcceptedResponse
                           then (Err PT_LostAcceptedResponse, t1\<lparr>pt_mode := Normal\<rparr>)
                           else (Ok (Published head), t1)))) t)"

definition probe_transport :: "(ProbeTransport, u64, ProbeTransportError) OpaqueTransport" where
  "probe_transport = \<lparr>tr_head = probe_head, tr_fetch_since = probe_fetch_since, tr_publish = probe_publish\<rparr>"

section \<open>The state codec\<close>

definition remote_wf :: "ProbeRemoteState \<Rightarrow> bool" where
  "remote_wf s \<longleftrightarrow> [] \<notin> set (rs_objects s) \<and> vec_capacity_ok (length (rs_objects s))"

lemma encode_remote_Ok:
  assumes "encode_remote_state s = Ok bs"
  shows "length (rs_objects s) < 2 ^ 64" and "obj \<in> set (rs_objects s) \<Longrightarrow> length obj < 2 ^ 64"
    and "bs = REMOTE_MAGIC @ to_be_bytes (rs_head s) @ to_be_bytes (rs_publish_count s) @
      len_prefix (length (rs_objects s)) @ concat (map enc_object (rs_objects s))"
proof -
  from assms obtain out where n: "length (rs_objects s) < 2 ^ 64"
    and out: "out = REMOTE_MAGIC @ to_be_bytes (rs_head s) @ to_be_bytes (rs_publish_count s) @ len_prefix (length (rs_objects s))"
    and loop: "try_fold (write_bytes (PT_InvalidState ''object length does not fit u64'')) out (rs_objects s) = Ok bs"
    unfolding encode_remote_state_def result_simps by (auto simp: write_len_Ok)
  from try_fold_write [OF loop, of "\<lambda>obj. length obj < 2 ^ 64" enc_object] n out
  show "length (rs_objects s) < 2 ^ 64" "obj \<in> set (rs_objects s) \<Longrightarrow> length obj < 2 ^ 64"
    "bs = REMOTE_MAGIC @ to_be_bytes (rs_head s) @ to_be_bytes (rs_publish_count s) @
      len_prefix (length (rs_objects s)) @ concat (map enc_object (rs_objects s))"
    by (simp_all add: write_bytes_Ok enc_object_def)
qed

lemma reads_usize: "n < 2 ^ 64 \<Longrightarrow> reads (p_lift (usize_try_from e (word_of_nat n))) [] n"
  by (rule reads_lift) (simp add: usize_try_from_def usize_max_def unat_of_nat)

lemma reads_remote_object:
  "length obj < 2 ^ 64 \<Longrightarrow> obj \<noteq> [] \<Longrightarrow> reads (read_remote_object acc) (enc_object obj) (acc @ [obj])"
  unfolding read_remote_object_def probe_read_u64_def enc_object_def
  by (intro reads_bind [OF reads_u64] reads_pure_bind [OF reads_usize] reads_bind_pure [OF reads_exact]
      reads_pure_bind [OF reads_guard] reads_return) simp_all

lemma reads_remote_state:
  assumes "remote_wf s" and "length (rs_objects s) < 2 ^ 64" and "\<forall>obj \<in> set (rs_objects s). length obj < 2 ^ 64"
  shows "reads read_remote_state (to_be_bytes (rs_head s) @ to_be_bytes (rs_publish_count s) @
      len_prefix (length (rs_objects s)) @ concat (map enc_object (rs_objects s))) s"
proof -
  have "reads (read_loop (length (rs_objects s)) read_remote_object []) (concat (map enc_object (rs_objects s)))
      (foldl (\<lambda>ys y. ys @ [y]) [] (rs_objects s))"
    using assms by (intro reads_loop reads_remote_object) (auto simp: remote_wf_def)
  then have loop: "reads (read_loop (length (rs_objects s)) read_remote_object []) (concat (map enc_object (rs_objects s))) (rs_objects s)"
    by (simp add: foldl_snoc)
  have "reads (p_return \<lparr>rs_head = rs_head s, rs_publish_count = rs_publish_count s, rs_objects = rs_objects s\<rparr>) [] s"
    by (cases s) (simp add: reads_return)
  then show ?thesis
    unfolding read_remote_state_def probe_read_u64_def using assms
    by (intro reads_bind [OF reads_u64] reads_pure_bind [OF reads_usize] reads_pure_bind [OF reads_guard]
        reads_bind_pure [OF loop]) (simp_all add: remote_wf_def)
qed

lemma decode_encode_remote:
  assumes "encode_remote_state s = Ok bs" and "remote_wf s" and "length bs \<le> isize_max"
  shows "decode_remote_state bs = Ok s"
proof -
  let ?body = "to_be_bytes (rs_head s) @ to_be_bytes (rs_publish_count s) @
      len_prefix (length (rs_objects s)) @ concat (map enc_object (rs_objects s))"
  note enc = encode_remote_Ok [OF assms(1)]
  have bs: "bs = REMOTE_MAGIC @ ?body" using enc(3) by simp
  have "reads read_remote_state ?body s" using enc(1,2) assms(2) by (intro reads_remote_state) auto
  from readsD [OF this, of REMOTE_MAGIC "[]"] assms(3) show ?thesis
    unfolding decode_remote_state_def bs by simp
qed

lemma read_remote_object_rest:
  assumes "read_remote_object acc r = Ok (acc', r')"
  shows "\<exists>obj. acc' = acc @ [obj] \<and> obj \<noteq> [] \<and> length obj < 2 ^ 64 \<and> rest r = enc_object obj @ rest r'"
proof -
  from assms obtain w obj r1 where w: "probe_read_u64 r = Ok (w, r1)" and o:
    "Reader_read_exact (PT_InvalidState ''object offset overflow'') (PT_InvalidState ''truncated object'') (unat w) r1 = Ok (obj, r')"
    and "obj \<noteq> []" "acc' = acc @ [obj]"
    by (auto simp: read_remote_object_def p_bind_Ok usize_try_from_def split: if_splits)
  moreover have "rest r = to_be_bytes w @ rest r1" using w by (auto simp: probe_read_u64_def dest: read_fields_rest(3))
  moreover have "w = word_of_nat (length obj)" "length obj < 2 ^ 64"
    using read_exact_rest(2) [OF o] unsigned_less [of w, where ?'a = nat] by simp_all
  ultimately show ?thesis using read_exact_rest(1) [OF o] by (auto simp: enc_object_def)
qed

lemma read_remote_objects_rest:
  assumes "read_loop n read_remote_object acc r = Ok (acc', r')"
  shows "\<exists>objs. acc' = acc @ objs \<and> length objs = n \<and> (\<forall>obj \<in> set objs. obj \<noteq> [] \<and> length obj < 2 ^ 64) \<and>
    rest r = concat (map enc_object objs) @ rest r'"
  using assms
proof (induction n arbitrary: acc r)
  case (Suc n)
  then obtain a1 r1 where step: "read_remote_object acc r = Ok (a1, r1)" and loop: "read_loop n read_remote_object a1 r1 = Ok (acc', r')"
    by (auto simp: p_bind_Ok)
  from read_remote_object_rest [OF step] obtain obj where obj: "a1 = acc @ [obj]" "obj \<noteq> []" "length obj < 2 ^ 64"
    "rest r = enc_object obj @ rest r1" by blast
  from Suc.IH [OF loop] obtain objs where "acc' = a1 @ objs" "length objs = n" "\<forall>obj \<in> set objs. obj \<noteq> [] \<and> length obj < 2 ^ 64"
    "rest r1 = concat (map enc_object objs) @ rest r'" by blast
  with obj show ?case by (intro exI [of _ "obj # objs"]) auto
qed auto

lemma p_stable_remote_state: "p_stable read_remote_state"
  unfolding read_remote_state_def read_remote_object_def probe_read_u64_def by (intro p_stable_intros)

lemma encode_decode_remote:
  assumes "decode_remote_state bs = Ok s"
  shows "encode_remote_state s = Ok bs" and "remote_wf s"
proof -
  have u64: "rest r = to_be_bytes w @ rest r'" if "probe_read_u64 r = Ok (w, r')" for r w r'
    using that by (auto simp: probe_read_u64_def dest: read_fields_rest(3))
  from assms obtain r where magic: "length REMOTE_MAGIC \<le> length bs" "take (length REMOTE_MAGIC) bs = REMOTE_MAGIC"
    and run: "read_remote_state \<lparr>rd_bytes = bs, rd_position = length REMOTE_MAGIC\<rparr> = Ok (s, r)" and fin: "rd_position r = length bs"
    by (auto simp: decode_remote_state_def split: if_splits result.splits)
  let ?r0 = "\<lparr>rd_bytes = bs, rd_position = length REMOTE_MAGIC\<rparr>"
  from run obtain h c w r1 r2 r3 objs where
    h: "probe_read_u64 ?r0 = Ok (h, r1)" and c: "probe_read_u64 r1 = Ok (c, r2)" and w: "probe_read_u64 r2 = Ok (w, r3)"
    and cap: "vec_capacity_ok (unat w)" and loop: "read_loop (unat w) read_remote_object [] r3 = Ok (objs, r)"
    and s: "s = \<lparr>rs_head = h, rs_publish_count = c, rs_objects = objs\<rparr>"
    by (auto simp: read_remote_state_def p_bind_Ok usize_try_from_def split: if_splits)
  from read_remote_objects_rest [OF loop] have objs: "length objs = unat w" "\<forall>obj \<in> set objs. obj \<noteq> [] \<and> length obj < 2 ^ 64"
    "rest r3 = concat (map enc_object objs) @ rest r" by auto
  have "rd_bytes r = bs"
    by (rule p_stableE [OF p_stable_remote_state run magic(1)]) simp
  with fin have "rest r = []" by (simp add: rest_def)
  moreover have "bs = REMOTE_MAGIC @ rest ?r0" using magic(2) by (metis append_take_drop_id rest_def Reader.select_convs)
  moreover have "w = word_of_nat (length objs)" "length objs < 2 ^ 64"
    using objs(1) unsigned_less [of w, where ?'a = nat] by simp_all
  ultimately have bs: "bs = REMOTE_MAGIC @ to_be_bytes h @ to_be_bytes c @ len_prefix (length objs) @ concat (map enc_object objs)"
    and n: "length objs < 2 ^ 64"
    using u64 [OF h] u64 [OF c] u64 [OF w] objs(3) by simp_all
  have wr: "try_fold (write_bytes e) out os = Ok (out @ concat (map enc_object os))"
    if "\<forall>obj \<in> set os. length obj < 2 ^ 64" for e :: ProbeTransportError and out os
    using that by (induction os arbitrary: out) (simp_all add: write_bytes_def write_len_def enc_object_def)
  show "encode_remote_state s = Ok bs"
    using n objs(2) by (simp add: encode_remote_state_def s bs write_len_def wr)
  show "remote_wf s" using objs(1,2) cap by (auto simp: remote_wf_def s)
qed

section \<open>What the remote holds\<close>

text \<open>The abstract remote: a head that only an expected-head publication moves, and the objects of the
  last accepted one. It is served to a client that stands at the initial head.\<close>

definition accept_publication :: "ProbeRemoteState \<Rightarrow> bytes list \<Rightarrow> ProbeRemoteState" where
  "accept_publication s objects = \<lparr>rs_head = rs_head s + 1, rs_publish_count = rs_publish_count s + 1, rs_objects = objects\<rparr>"

definition remote_publish ::
    "ProbeRemoteState \<Rightarrow> u64 option \<Rightarrow> bytes list \<Rightarrow> (u64 PublishOutcome, ProbeTransportError) result \<times> ProbeRemoteState" where
  "remote_publish s expected objects =
     (if objects = [] \<or> [] \<in> set objects then (Err (PT_InvalidState ''publish must contain non-empty opaque objects''), s)
      else if expected \<noteq> Some (rs_head s) then (Ok (Conflict (Some (rs_head s))), s)
      else if rs_head s = - 1 then (Err (PT_InvalidState ''head overflow''), s)
      else (Ok (Published (rs_head s + 1)), accept_publication s objects))"

definition remote_fetch :: "ProbeRemoteState \<Rightarrow> u64 option \<Rightarrow> u64 FetchOutcome" where
  "remote_fetch s known_head =
     (if known_head = Some (rs_head s) then UpToDate (Some (rs_head s))
      else if known_head = Some PROBE_INITIAL_HEAD \<and> rs_head s = PROBE_ACCEPTED_HEAD then Changed (rs_head s) (rs_objects s)
      else BaselineUnavailable (Some (rs_head s)))"

text \<open>The states a restart of the remote may find, as decoded from what its medium may hold.\<close>

definition remote_of :: "bytes option \<Rightarrow> (ProbeRemoteState, ProbeTransportError) result" where
  "remote_of v = (case v of None \<Rightarrow> Ok ProbeRemoteState_default | Some bs \<Rightarrow> decode_remote_state bs)"

definition remote_holds :: "file_system \<Rightarrow> ProbeRemoteState set \<Rightarrow> bool" where
  "remote_holds f S \<longleftrightarrow> fs_inv f \<and> remote_of ` fs_possible f \<subseteq> Ok ` S"

abbreviation "remote_fs t \<equiv> ub_fs (pt_backend t)"

definition honest :: "file_system \<Rightarrow> bool" where
  "honest f \<longleftrightarrow> (\<forall>n. Some (NotFound, n) \<notin> set (faults f))"

definition remote_fits :: "ProbeRemoteState \<Rightarrow> bool" where
  "remote_fits s \<longleftrightarrow> vec_capacity_ok (length (rs_objects s)) \<and> (\<exists>bs. encode_remote_state s = Ok bs \<and> 22 + length bs \<le> isize_max)"

lemma remote_holds_mono: "remote_holds f S \<Longrightarrow> S \<subseteq> T \<Longrightarrow> remote_holds f T"
  unfolding remote_holds_def by blast

lemma remote_holds_faults: "remote_holds (f\<lparr>faults := fs\<rparr>) S = remote_holds f S"
  by (simp add: remote_holds_def fs_inv_def stored_def commits_def fs_possible_def committed_def cong: option.case_cong)

lemma remote_holds_crash:
  assumes "remote_holds f S" and "fs_crash f f'"
  shows "\<exists>s \<in> S. remote_holds f' {s}"
proof -
  let ?b = "\<lambda>f. \<lparr>ub_fs = f, next_candidate = 0\<rparr>"
  have "fs_inv f" using assms(1) by (simp add: remote_holds_def)
  with unix_fs.crash_recovers [of "?b f" "?b f'"] assms(2)
  have c: "fs_inv f' \<and> fs_possible f' = {fs_visible f'} \<and> fs_visible f' \<in> fs_possible f" by simp
  with assms(1) have "remote_of (fs_visible f') \<in> Ok ` S" by (auto simp: remote_holds_def)
  with c show ?thesis by (auto simp: remote_holds_def)
qed

lemma load_state_holds:
  assumes "remote_holds (remote_fs t) {s}" and "honest (remote_fs t)" and "load_state t = (r, t')"
  shows "(r = Ok s \<or> (\<exists>e. r = Err (PT_Storage e))) \<and> remote_holds (remote_fs t') {s} \<and> honest (remote_fs t') \<and>
    pt_mode t' = pt_mode t \<and> (faults (remote_fs t) = [] \<longrightarrow> r = Ok s \<and> t' = t)"
proof -
  obtain r1 b where run: "UnixFs_load_committed (pt_backend t) = (r1, b)" by fastforce
  have inv: "fs_inv (remote_fs t)" using assms(1) by (simp add: remote_holds_def)
  have "\<And>n. Some (NotFound, n) \<notin> set (faults (remote_fs t))" using assms(2) by (simp add: honest_def)
  from load_committed_faulty [OF inv this run] obtain fs where
    r1: "r1 = Ok (fs_visible (remote_fs t)) \<or> (\<exists>e. r1 = Err e)" and fs: "set fs \<subseteq> set (faults (remote_fs t))"
    "b = with_faults (pt_backend t) fs" by blast
  have "fs_visible (remote_fs t) \<in> fs_possible (remote_fs t)" using unix_fs.visible_possible [OF inv] .
  with assms(1) have vis: "remote_of (fs_visible (remote_fs t)) = Ok s" unfolding remote_holds_def by blast
  have t': "t' = t\<lparr>pt_backend := b\<rparr>" and r: "r1 = Ok v \<Longrightarrow> r = remote_of v" "r1 = Err e \<Longrightarrow> r = Err (PT_Storage e)" for v e
    using assms(3) run by (auto simp: load_state_def unix_fs_backend_def remote_of_def split: result.splits option.splits)
  have "r = Ok s \<or> (\<exists>e. r = Err (PT_Storage e))" using r1 r vis by auto
  moreover have "remote_holds (remote_fs t') {s}" "honest (remote_fs t')" "pt_mode t' = pt_mode t"
    using assms(1,2) fs t' by (auto simp: remote_holds_faults honest_def)
  moreover have "r = Ok s \<and> t' = t" if q: "faults (remote_fs t) = []"
  proof -
    have "fst (UnixFs_load_committed (pt_backend t)) = Ok (fs_visible (remote_fs t))" using load_committed_visible [OF inv q] .
    then have "r = Ok s" using run r(1) vis by simp
    moreover have "fs = []" using fs(1) q by simp
    with fs(2) q have "b = pt_backend t" by simp
    ultimately show ?thesis using t' by simp
  qed
  ultimately show ?thesis by blast
qed

lemma persist_state_holds:
  assumes "remote_holds (remote_fs t) {s}" and "remote_fits s'" and "[] \<notin> set (rs_objects s')" and "persist_state s' t = (r, t')"
  shows "pt_mode t' = pt_mode t \<and> (r = Ok () \<longrightarrow> remote_holds (remote_fs t') {s'}) \<and>
    (\<forall>e. r = Err e \<longrightarrow> remote_holds (remote_fs t') {s, s'})"
proof -
  from assms(2) obtain bs where Ok: "encode_remote_state s' = Ok bs" and len: "22 + length bs \<le> isize_max"
    by (auto simp: remote_fits_def)
  have inv: "fs_inv (remote_fs t)" using assms(1) by (simp add: remote_holds_def)
  have "remote_wf s'" using assms(2,3) by (auto simp: remote_fits_def remote_wf_def)
  then have "decode_remote_state bs = Ok s'" using decode_encode_remote [OF Ok] len by simp
  then have new: "remote_of (Some bs) = Ok s'" by (simp add: remote_of_def)
  have stor: "22 + length bs \<le> usize_max" using len by (simp add: isize_max_def usize_max_def)
  obtain res b where c: "commit_durable unix_fs_backend bs (pt_backend t) = (res, b)" by fastforce
  have t': "t' = t\<lparr>pt_backend := b\<rparr>" and r: "r = map_err PT_Storage res" using assms(4) Ok c by (simp_all add: persist_state_def)
  show ?thesis
  proof (cases res)
    case (Ok u)
    with unix_fs.commit_Ok [OF inv stor, of b] c new t' r show ?thesis by (simp add: remote_holds_def)
  next
    case (Err e)
    with unix_fs.commit_Err [OF inv stor, of e b] c
    have "fs_inv (ub_fs b)" "fs_possible (ub_fs b) \<subseteq> insert (Some bs) (fs_possible (remote_fs t))" by simp_all
    with assms(1) new have "remote_holds (ub_fs b) {s, s'}" unfolding remote_holds_def by blast
    with Err t' r show ?thesis by simp
  qed
qed

text \<open>Without faults a publication against the current head is accepted.\<close>

lemma probe_publish_progress:
  assumes "remote_holds (remote_fs t) {s}" and "quiet (pt_backend t)" and "next_candidate (pt_backend t) \<noteq> - 1"
    and "numbered (remote_fs t) (unat (next_candidate (pt_backend t)))" and "remote_fits (accept_publication s objects)" and "objects \<noteq> []" and "[] \<notin> set objects"
    and "rs_head s \<noteq> - 1"
  obtains b where "probe_publish t (Some (rs_head s)) objects =
      ((if pt_mode t = LoseAcceptedResponse then Err PT_LostAcceptedResponse else Ok (Published (rs_head s + 1))),
       \<lparr>pt_backend = b, pt_mode = Normal\<rparr>)"
    and "quiet b" and "remote_holds (ub_fs b) {accept_publication s objects}"
    and "unat (next_candidate b) = unat (next_candidate (pt_backend t)) + 1" and "numbered (ub_fs b) (unat (next_candidate b))"
    and "settled_dirs (ub_fs b)"
proof -
  let ?s' = "accept_publication s objects"
  from assms(5) obtain bs where bs: "encode_remote_state ?s' = Ok bs" and len: "22 + length bs \<le> isize_max"
    by (auto simp: remote_fits_def)
  have inv: "fs_inv (remote_fs t)" using assms(1) by (simp add: remote_holds_def)
  have "22 + length bs \<le> usize_max" using len by (simp add: isize_max_def usize_max_def)
  from commit_numbered [OF inv this assms(2-4)] obtain b where
    c: "commit_durable unix_fs_backend bs (pt_backend t) = (Ok (), b)" and b: "quiet b"
      "unat (next_candidate b) = unat (next_candidate (pt_backend t)) + 1" "numbered (ub_fs b) (unat (next_candidate b))" "settled_dirs (ub_fs b)" by blast
  have run: "persist_state ?s' t = (Ok (), t\<lparr>pt_backend := b\<rparr>)" using bs c by (simp add: persist_state_def)
  have "[] \<notin> set (rs_objects ?s')" using assms(7) by (simp add: accept_publication_def)
  from persist_state_holds [OF assms(1,5) this run] have held: "remote_holds (ub_fs b) {?s'}" by simp
  have "honest (remote_fs t)" using assms(2) by (simp add: honest_def)
  from load_state_holds [OF assms(1) this] assms(2) have load: "load_state t = (Ok s, t)" by (metis prod.collapse)
  have "probe_publish t (Some (rs_head s)) objects =
      ((if pt_mode t = LoseAcceptedResponse then Err PT_LostAcceptedResponse else Ok (Published (rs_head s + 1))),
       \<lparr>pt_backend = b, pt_mode = Normal\<rparr>)"
    using assms(6-8) load run
    by (cases "pt_mode t") (auto simp: probe_publish_def list_ex_iff io_bind_def checked_succ_def accept_publication_def)
  with that b held show ?thesis by blast
qed

section \<open>Properties\<close>

text \<open>
  The remote state codec is exact: a state without empty objects, as every decoded one is, comes
  back from its own bytes, and a byte string that decodes at all is the encoding of what it decodes to.
\<close>

lemma remote_state_codec_exact:
  shows "(encode_remote_state s = Ok bs \<longrightarrow> remote_wf s \<longrightarrow> length bs \<le> isize_max \<longrightarrow> decode_remote_state bs = Ok s) \<and>
    (decode_remote_state bs = Ok s \<longrightarrow> encode_remote_state s = Ok bs \<and> remote_wf s)"
  using decode_encode_remote encode_decode_remote by blast

lemma default_encodes: "encode_remote_state ProbeRemoteState_default =
    Ok (REMOTE_MAGIC @ to_be_bytes (1 :: u64) @ to_be_bytes (0 :: u64) @ len_prefix 0)"
  by (simp add: encode_remote_state_def ProbeRemoteState_default_def PROBE_INITIAL_HEAD_def write_len_def)

lemma remote_state_codec_exact_witness:
  "decode_remote_state (REMOTE_MAGIC @ to_be_bytes (1 :: u64) @ to_be_bytes (0 :: u64) @ len_prefix 0) =
     Ok ProbeRemoteState_default"
  using remote_state_codec_exact [of ProbeRemoteState_default "REMOTE_MAGIC @ to_be_bytes (1 :: u64) @ to_be_bytes (0 :: u64) @ len_prefix 0"]
  by (simp add: default_encodes) (simp add: remote_wf_def ProbeRemoteState_default_def vec_capacity_ok_def REMOTE_MAGIC_def isize_max_def)

text \<open>
  C29. The durable remote implements compare-and-swap, whatever its storage does short of denying an
  existing file: a fetch answers from the one state it holds and changes nothing; a publication has the
  answer and the effect of the abstract one, or its answer is lost after its effect, once, in the mode
  that says so; and after a storage error the medium holds the old state or the accepted one, so that a
  power loss leaves exactly one of the two.
\<close>

theorem probe_remote_refines:
  assumes "remote_holds (remote_fs t) {s}" and "honest (remote_fs t)" and "remote_fits (accept_publication s objects)"
    and "tr_fetch_since probe_transport t known_head = (rf, tf)"
    and "tr_publish probe_transport t expected objects = (rp, tp)" and "remote_publish s expected objects = (answer, s')"
  shows "(rf = Ok (remote_fetch s known_head) \<or> (\<exists>e. rf = Err (PT_Storage e))) \<and> remote_holds (remote_fs tf) {s} \<and>
    (rp = answer \<and> remote_holds (remote_fs tp) {s'} \<and> pt_mode tp = pt_mode t \<and> (s' \<noteq> s \<longrightarrow> pt_mode t = Normal) \<or>
     rp = Err PT_LostAcceptedResponse \<and> answer = Ok (Published (rs_head s')) \<and> remote_holds (remote_fs tp) {s'} \<and>
       pt_mode t = LoseAcceptedResponse \<and> pt_mode tp = Normal \<or>
     (\<exists>e. rp = Err (PT_Storage e)) \<and> remote_holds (remote_fs tp) {s, s'} \<and> pt_mode tp = pt_mode t \<and>
       (\<forall>f. fs_crash (remote_fs tp) f \<longrightarrow> remote_holds f {s} \<or> remote_holds f {s'}))"
proof (intro conjI)
  obtain r t1 where load: "load_state t = (r, t1)" by fastforce
  note l = load_state_holds [OF assms(1,2) load]
  show "rf = Ok (remote_fetch s known_head) \<or> (\<exists>e. rf = Err (PT_Storage e))" "remote_holds (remote_fs tf) {s}"
    using assms(4) load l by (auto simp: probe_transport_def probe_fetch_since_def remote_fetch_def io_bind_def)
  have storage: "remote_holds f {s} \<or> remote_holds f {s'}"
    if "remote_holds (remote_fs tp) {s, s'}" "fs_crash (remote_fs tp) f" for f
    using remote_holds_crash [OF that] by auto
  show "rp = answer \<and> remote_holds (remote_fs tp) {s'} \<and> pt_mode tp = pt_mode t \<and> (s' \<noteq> s \<longrightarrow> pt_mode t = Normal) \<or>
     rp = Err PT_LostAcceptedResponse \<and> answer = Ok (Published (rs_head s')) \<and> remote_holds (remote_fs tp) {s'} \<and>
       pt_mode t = LoseAcceptedResponse \<and> pt_mode tp = Normal \<or>
     (\<exists>e. rp = Err (PT_Storage e)) \<and> remote_holds (remote_fs tp) {s, s'} \<and> pt_mode tp = pt_mode t \<and>
       (\<forall>f. fs_crash (remote_fs tp) f \<longrightarrow> remote_holds f {s} \<or> remote_holds f {s'})"
  proof (cases "objects = [] \<or> [] \<in> set objects \<or> (\<exists>e. r = Err e) \<or> expected \<noteq> Some (rs_head s) \<or> rs_head s = - 1")
    case True
    have "remote_holds (remote_fs t1) {s, s'}" using l remote_holds_mono [of "remote_fs t1" "{s}" "{s, s'}"] by blast
    with True assms(1,5,6) load l storage show ?thesis
      by (auto simp: probe_transport_def probe_publish_def remote_publish_def list_ex_iff checked_succ_def io_bind_def
          split: if_splits result.splits)
  next
    case False
    let ?s' = "accept_publication s objects"
    obtain rq tq where persist: "persist_state ?s' t1 = (rq, tq)" by fastforce
    have fits: "[] \<notin> set (rs_objects ?s')" using False by (simp add: accept_publication_def)
    have held: "remote_holds (remote_fs t1) {s}" using l by blast
    note q = persist_state_holds [OF held assms(3) fits persist]
    have answer: "answer = Ok (Published (rs_head s + 1))" "s' = ?s'" using False assms(6) by (auto simp: remote_publish_def)
    have r: "r = Ok s" using False l by auto
    have run: "(rp, tp) = (case rq of Err e \<Rightarrow> (Err e, tq)
        | Ok _ \<Rightarrow> if pt_mode tq = LoseAcceptedResponse then (Err PT_LostAcceptedResponse, tq\<lparr>pt_mode := Normal\<rparr>)
          else (Ok (Published (rs_head s + 1)), tq))"
      using assms(5) False load r persist
      by (auto simp: probe_transport_def probe_publish_def list_ex_iff checked_succ_def io_bind_def accept_publication_def
          split: result.splits)
    have acc: "rs_head s' = rs_head s + 1" using answer by (simp add: accept_publication_def)
    show ?thesis
    proof (cases rq)
      case (Err e)
      then have e: "\<exists>e'. e = PT_Storage e'"
        using persist assms(3) by (auto simp: persist_state_def remote_fits_def map_err_Err_iff split: prod.splits)
      show ?thesis using Err run e q l answer storage by (intro disjI2) auto
    next
      case (Ok u)
      then show ?thesis using run q l answer acc by (cases "pt_mode t") auto
    qed
  qed
qed

text \<open>The lost acknowledgement on an empty remote.\<close>

lemma sample_remote_holds: "remote_holds sample_fs {ProbeRemoteState_default}"
  using sample_fs_inv by (simp add: remote_holds_def fs_possible_def committed_def remote_of_def sample_fs_def)

lemma sample_accepted_fits: "remote_fits (accept_publication ProbeRemoteState_default [[1]])"
  by (simp add: remote_fits_def accept_publication_def ProbeRemoteState_default_def PROBE_INITIAL_HEAD_def vec_capacity_ok_def
      encode_remote_state_def write_len_def write_bytes_def REMOTE_MAGIC_def isize_max_def)

theorem probe_remote_refines_witness:
  "\<exists>b. tr_publish probe_transport \<lparr>pt_backend = sample_backend, pt_mode = LoseAcceptedResponse\<rparr> (Some 1) [[1]] =
       (Err PT_LostAcceptedResponse, \<lparr>pt_backend = b, pt_mode = Normal\<rparr>) \<and>
     remote_holds (ub_fs b) {\<lparr>rs_head = 2, rs_publish_count = 1, rs_objects = [[1]]\<rparr>}"
proof -
  let ?t = "\<lparr>pt_backend = sample_backend, pt_mode = LoseAcceptedResponse\<rparr>" and ?s = ProbeRemoteState_default
  have held: "remote_holds (remote_fs ?t) {?s}" using sample_remote_holds by (simp add: sample_backend_def)
  have quiet: "quiet (pt_backend ?t)" "next_candidate (pt_backend ?t) \<noteq> - 1" "numbered (remote_fs ?t) (unat (next_candidate (pt_backend ?t)))"
    by (simp_all add: sample_backend_def sample_fs_def numbered_def snaps_def)
  have h: "honest (remote_fs ?t)" using quiet(1) by (simp add: honest_def)
  have one: "rs_head ?s = 1" "rs_publish_count ?s = 0" by (simp_all add: ProbeRemoteState_default_def PROBE_INITIAL_HEAD_def)
  from probe_publish_progress [OF held quiet sample_accepted_fits] one obtain b where
    run: "tr_publish probe_transport ?t (Some 1) [[1]] = (Err PT_LostAcceptedResponse, \<lparr>pt_backend = b, pt_mode = Normal\<rparr>)"
    by (auto simp: probe_transport_def)
  obtain rf tf where "tr_fetch_since probe_transport ?t None = (rf, tf)" by fastforce
  note cas = probe_remote_refines [OF held h sample_accepted_fits this run prod.collapse [symmetric]]
  then have "remote_holds (ub_fs b) {snd (remote_publish ?s (Some 1) [[1]])}" by (auto simp: remote_publish_def one)
  with run show ?thesis by (auto simp: remote_publish_def accept_publication_def one)
qed

end
