(* ===== verification/Recovery_Probe.thy ===== *)
theory Recovery_Probe
  imports Probe_Remote
begin

text \<open>
  The recovery probe of the Android bridge, \<^verbatim>\<open>apc-android-bridge/src/recovery_probe.rs\<close>: the four
  entry points that stage a local record, verify it after a restart, let a publication be accepted with
  its response lost, and reconcile it after a restart. They run the whole stack: domain, publication,
  trusted-state codec, protected store, Unix file system, foreground runtime and the remote of
  \<open>Probe_Remote\<close>. Each of the two directories below \<^verbatim>\<open>files_dir\<close> is a store together with the earlier
  directories its name stood for: no call syncs \<^verbatim>\<open>files_dir\<close>, so a power loss may undo the removal and the
  creation of a directory by \<^verbatim>\<open>reset_path\<close> and \<^verbatim>\<open>open\<close>. The nonces the operating system delivers are
  arguments. An error is the message of the source with the error it interpolates.
\<close>

section \<open>Fixed values\<close>

definition PROBE_CONTEXT :: bytes where
  "PROBE_CONTEXT = ascii ''A.P.C. Android recovery probe'' @ [0] @ ascii ''v1''"

definition PROBE_SECRET :: bytes where "PROBE_SECRET = ascii ''android-probe-local-secret''"
definition PROBE_KEY_BYTES :: bytes where "PROBE_KEY_BYTES = replicate 32 0xA7"

definition logical_bytes :: "u64 \<Rightarrow> bytes" where
  "logical_bytes v = replicate 24 0 @ to_be_bytes v"

definition atom :: "u64 \<Rightarrow> AtomId" where "atom v = opaque_id_from_bytes (logical_bytes v)"
definition cid :: "u64 \<Rightarrow> ContinuumId" where "cid v = opaque_id_from_bytes (logical_bytes v)"
definition rid :: "u64 \<Rightarrow> RevisionId" where "rid v = opaque_id_from_bytes (logical_bytes v)"
definition wid :: "u64 \<Rightarrow> WorkingEpochId" where "wid v = opaque_id_from_bytes (logical_bytes v)"
definition pid :: "u64 \<Rightarrow> PublicationId" where "pid v = opaque_id_from_bytes (logical_bytes v)"

text \<open>\<^verbatim>\<open>expect("static probe domain is valid")\<close> holds.\<close>

definition domain_key :: DomainKey where "domain_key = DomainKey (atom 1) (ascii ''body'')"

lemma domain_key_expect: "DomainKey_new (atom 1) (ascii ''body'') = Ok domain_key"
  by (simp add: DomainKey_new_def domain_key_def ascii_def)

definition content_key :: ContentKey where "content_key = ContentKey_from_bytes PROBE_KEY_BYTES"

section \<open>Cursors\<close>

definition ProbeCursorCodec_encode :: "u64 \<Rightarrow> (TransportCursor, string) result" where
  "ProbeCursorCodec_encode revision = map_err (\<lambda>_. ''encode probe cursor'') (TransportCursor_new (to_be_bytes revision))"

definition ProbeCursorCodec_decode :: "TransportCursor \<Rightarrow> (u64, string) result" where
  "ProbeCursorCodec_decode cursor =
     (if length (cursor_bytes cursor) = 8 then Ok (from_be_bytes (cursor_bytes cursor)) else Err ''decode probe cursor'')"

definition probe_cursor_codec :: "(u64, string) TransportCursorCodec" where
  "probe_cursor_codec = \<lparr>cc_encode = ProbeCursorCodec_encode, cc_decode = ProbeCursorCodec_decode\<rparr>"

interpretation probe_cursor: cursor_codec probe_cursor_codec "\<lambda>_. True"
proof
  fix r c assume "cc_encode probe_cursor_codec r = Ok c"
  then have "c = TransportCursor (to_be_bytes r)"
    by (simp add: probe_cursor_codec_def ProbeCursorCodec_encode_def TransportCursor_new_def split: if_splits)
  then show "cc_decode probe_cursor_codec c = Ok r" "cursor_bytes c \<noteq> []"
    by (auto simp: probe_cursor_codec_def ProbeCursorCodec_decode_def dest: arg_cong [where f = length])
qed

section \<open>Errors\<close>

datatype probe_cause =
    Cause_None
  | Cause_Fs FsStorageError
  | Cause_Io ErrorKind
  | Cause_Store "FsStorageError ProtectedSyncStoreError"
  | Cause_Core CoreError
  | Cause_Container LocalScalarRecoveryStateError
  | Cause_Codec MultiScalarTrustedStateCodecError
  | Cause_Prepare RecoveryPublicationPrepareError
  | Cause_Stage "(MultiScalarTrustedStateCodecError, FsStorageError ProtectedSyncStoreError) RecoveryHandoffStageError"
  | Cause_Resume "(ProbeTransportError ForegroundTransportError, MultiScalarTrustedStateCodecError,
      FsStorageError ProtectedSyncStoreError, string) ScalarRecoveryResumeError"
  | Cause_Remote ProbeTransportError
  | Cause_Count nat
  | Cause_Cursor u64 u64

datatype ProbeError = ProbeError string probe_cause

section \<open>Store and initial state\<close>

type_synonym probe_store = "UnixFsDurabilityBackend ProtectedSyncRecordStore"

abbreviation store_fs :: "probe_store \<Rightarrow> file_system" where
  "store_fs store \<equiv> ub_fs (prs_backend store)"

definition open_store :: "bytes option list \<Rightarrow> (file_system, probe_store, ProbeError) io" where
  "open_store entropy s =
     (case UnixFs_open s of
        (Err e, s') \<Rightarrow> (Err (ProbeError ''open durability backend'' (Cause_Fs e)), s')
      | (Ok backend, s') \<Rightarrow>
          (map_err (\<lambda>e. ProbeError ''open protected sync store'' (Cause_Store e))
             (ProtectedSyncRecordStore_new backend content_key PROBE_CONTEXT entropy), s'))"

definition initial_recovery :: "(LocalScalarRecoveryState, ProbeError) result" where
  "initial_recovery =
     (case ScalarRegister_assign ScalarRegister_new (rid 100) (ascii ''android-probe-base'') of
        (Err e, _) \<Rightarrow> Err (ProbeError ''create base causal state'' (Cause_Core e))
      | (Ok _, causal) \<Rightarrow>
     (case LocalScalarDomain_from_causal causal of
        Err e \<Rightarrow> Err (ProbeError ''create local scalar domain'' (Cause_Core e))
      | Ok domain0 \<Rightarrow>
     (case LocalScalarDomain_begin_epoch domain0 (wid 1) PROBE_SECRET of
        (Err e, _) \<Rightarrow> Err (ProbeError ''begin working epoch'' (Cause_Core e))
      | (Ok _, domain1) \<Rightarrow>
     (case LocalScalarDomain_seal_local domain1 (rid 200) of
        (Err e, _) \<Rightarrow> Err (ProbeError ''seal local revision'' (Cause_Core e))
      | (Ok _, domain2) \<Rightarrow>
     (case LocalScalarDomain_finalize domain2 (rid 200) of
        (Err e, _) \<Rightarrow> Err (ProbeError ''finalize local revision'' (Cause_Core e))
      | (Ok _, domain3) \<Rightarrow>
          map_err (\<lambda>e. ProbeError ''create recovery container'' (Cause_Container e))
            (RecoveryState_from_domains (bm_insert domain_key (LocalScalarDomain_snapshot domain3) bm_empty)))))))"

section \<open>The directories of the probe\<close>

text \<open>\<open>pd_fs\<close> is what the process sees below the path; \<open>pd_earlier\<close> are the other states of the path a
  power loss may bring back, because its parent directory was not synced since. A path that does not exist
  is an empty store: \<^verbatim>\<open>open\<close> creates it, and \<^verbatim>\<open>reset_path\<close> takes \<^verbatim>\<open>NotFound\<close> for success.\<close>

record probe_dir =
  pd_fs :: file_system
  pd_earlier :: "file_system list"

text \<open>An empty store, and a store whose files were unlinked without a sync of their directories.\<close>

definition emptied :: "file_system \<Rightarrow> file_system" where
  "emptied s = s\<lparr>root_dir := \<lparr>live = bm_empty, past = []\<rparr>, objects_dir := \<lparr>live = bm_empty, past = []\<rparr>\<rparr>"

definition unlinked :: "file_system \<Rightarrow> file_system" where
  "unlinked s = change_entries RootDir bm_empty (change_entries ObjectsDir bm_empty s)"

text \<open>\<^verbatim>\<open>fs::remove_dir_all\<close>: on success the path is gone, and neither that nor the directory created next is on
  the medium; the removed directory, at any stage of its removal, and its absence are earlier states from then
  on. A failing call may have removed a part.\<close>

definition remove_dir_all :: "(probe_dir, unit, ErrorKind) io" where
  "remove_dir_all d =
     (case syscall (\<lambda>n s. if n = 0 then s else if n = 1 then change_entries ObjectsDir bm_empty s else unlinked s)
             (\<lambda>s. (Ok (), s)) (pd_fs d) of
        (Err k, s) \<Rightarrow> (Err k, d\<lparr>pd_fs := s\<rparr>)
      | (Ok _, s) \<Rightarrow> (Ok (), \<lparr>pd_fs = emptied s, pd_earlier = emptied s # unlinked s # pd_earlier d\<rparr>))"

definition reset_path :: "(probe_dir, unit, ProbeError) io" where
  "reset_path d =
     (case remove_dir_all d of
        (Ok _, d') \<Rightarrow> (Ok (), d')
      | (Err k, d') \<Rightarrow> if k = NotFound then (Ok (), d') else (Err (ProbeError ''reset probe path'' (Cause_Io k)), d'))"

section \<open>Validation of a committed record\<close>

definition decode_probe_cursor :: "TransportCursor \<Rightarrow> (u64, ProbeError) result" where
  "decode_probe_cursor cursor = map_err (\<lambda>m. ProbeError m Cause_None) (ProbeCursorCodec_decode cursor)"

definition validate_cursor :: "DurableSyncRecord \<Rightarrow> u64 \<Rightarrow> (unit, ProbeError) result" where
  "validate_cursor rec expected =
     (case applied_cursor rec of
        None \<Rightarrow> Err (ProbeError ''committed record lost applied cursor'' Cause_None)
      | Some cursor \<Rightarrow>
          (case decode_probe_cursor cursor of
             Err e \<Rightarrow> Err e
           | Ok actual \<Rightarrow>
               if actual \<noteq> expected then Err (ProbeError ''committed record restored cursor'' (Cause_Cursor actual expected))
               else Ok ()))"

definition validate_exposure :: "DurableSyncRecord \<Rightarrow> (unit, ProbeError) result" where
  "validate_exposure rec =
     (case decode_multi_scalar_recovery_state (trusted_state rec) of
        Err e \<Rightarrow> Err (ProbeError ''decode committed trusted state'' (Cause_Codec e))
      | Ok recovery \<Rightarrow>
          (case RecoveryState_restore_domain recovery domain_key of
             Err e \<Rightarrow> Err (ProbeError ''restore committed scalar domain'' (Cause_Core e))
           | Ok None \<Rightarrow> Err (ProbeError ''committed trusted state lost probe domain'' Cause_None)
           | Ok (Some domain) \<Rightarrow>
               if \<not> bs_contains (exposed_local_ids (finalization domain)) (rid 200)
               then Err (ProbeError ''committed trusted state lost exposure marker'' Cause_None)
               else if \<not> bs_contains (handed_off_local_ids (finalization domain)) (rid 200)
               then Err (ProbeError ''committed trusted state lost handoff marker'' Cause_None)
               else Ok ()))"

definition validate_pending_committed :: "DurableSyncRecord \<Rightarrow> (unit, ProbeError) result" where
  "validate_pending_committed rec =
     (case validate_cursor rec PROBE_INITIAL_HEAD of
        Err e \<Rightarrow> Err e
      | Ok _ \<Rightarrow>
          if bm_len (outbox rec) \<noteq> 1
          then Err (ProbeError ''committed record expected one pending publication'' (Cause_Count (bm_len (outbox rec))))
          else
            (case bm_get (outbox rec) (pid 7) of
               None \<Rightarrow> Err (ProbeError ''committed record lost probe publication'' Cause_None)
             | Some entry \<Rightarrow>
                 (case oe_expected_cursor entry of
                    None \<Rightarrow> Err (ProbeError ''probe outbox lost expected cursor'' Cause_None)
                  | Some expected \<Rightarrow>
                      (case decode_probe_cursor expected of
                         Err e \<Rightarrow> Err e
                       | Ok head \<Rightarrow>
                           if head \<noteq> PROBE_INITIAL_HEAD
                           then Err (ProbeError ''probe outbox expected cursor changed'' Cause_None)
                           else if length (oe_objects entry) \<noteq> 1 \<or> oe_objects entry ! 0 = []
                           then Err (ProbeError ''probe outbox did not retain one exact protected wire object'' Cause_None)
                           else validate_exposure rec))))"

definition validate_reconciled_committed :: "DurableSyncRecord \<Rightarrow> (unit, ProbeError) result" where
  "validate_reconciled_committed rec =
     (case validate_cursor rec PROBE_ACCEPTED_HEAD of
        Err e \<Rightarrow> Err e
      | Ok _ \<Rightarrow>
          if \<not> bm_is_empty (outbox rec)
          then Err (ProbeError ''reconciled record still contains the lost-ACK outbox entry'' Cause_None)
          else validate_exposure rec)"

section \<open>Staging and verifying a local record\<close>

abbreviation "probe_load cipher \<equiv> ProtectedSyncRecordStore_load_committed cipher unix_fs_backend"
abbreviation "probe_persist cipher \<equiv> ProtectedSyncRecordStore_persist cipher unix_fs_backend"

text \<open>\<^verbatim>\<open>store.load_committed()\<close> with its two error messages, the file system it leaves and the record.\<close>

definition reload :: "aead \<Rightarrow> string \<Rightarrow> string \<Rightarrow> (probe_store, DurableSyncRecord, ProbeError) io" where
  "reload cipher failed missing store =
     (case probe_load cipher store of
        (Err e, store') \<Rightarrow> (Err (ProbeError failed (Cause_Store e)), store')
      | (Ok None, store') \<Rightarrow> (Err (ProbeError missing Cause_None), store')
      | (Ok (Some rec), store') \<Rightarrow> (Ok rec, store'))"

definition stage_local_record ::
    "aead \<Rightarrow> bytes option \<Rightarrow> bytes option list \<Rightarrow>
     (probe_dir, LocalScalarRecoveryState \<times> DurableSyncRecord \<times> probe_store, ProbeError) io" where
  "stage_local_record cipher nonce entropy d =
     (case reset_path d of
        (Err e, d1) \<Rightarrow> (Err e, d1)
      | (Ok _, d1) \<Rightarrow>
     (case initial_recovery of
        Err e \<Rightarrow> (Err e, d1)
      | Ok recovery \<Rightarrow>
     (case tc_encode multi_trusted_state_codec recovery of
        Err e \<Rightarrow> (Err (ProbeError ''encode initial trusted state'' (Cause_Codec e)), d1)
      | Ok trusted \<Rightarrow>
     (case ProbeCursorCodec_encode PROBE_INITIAL_HEAD of
        Err m \<Rightarrow> (Err (ProbeError m Cause_None), d1)
      | Ok cursor \<Rightarrow>
     (case open_store entropy (pd_fs d1) of
        (Err e, s2) \<Rightarrow> (Err e, d1\<lparr>pd_fs := s2\<rparr>)
      | (Ok store, s2) \<Rightarrow>
     (case prepare_recovery_handoff cipher nonce recovery (cid 1) (pid 7) content_key
             (bm_insert domain_key (bs_from_list [rid 200]) bm_empty) of
        Err e \<Rightarrow> (Err (ProbeError ''prepare protected handoff'' (Cause_Prepare e)), d1\<lparr>pd_fs := s2\<rparr>)
      | Ok prepared \<Rightarrow>
     (case stage_prepared_recovery_handoff (probe_persist cipher) multi_trusted_state_codec recovery
             (DurableSyncRecord_new trusted (Some cursor)) store prepared of
        (Err e, _, _, store1) \<Rightarrow> (Err (ProbeError ''durably stage protected handoff'' (Cause_Stage e)), d1\<lparr>pd_fs := store_fs store1\<rparr>)
      | (Ok _, recovery1, rec1, store1) \<Rightarrow>
     (case reload cipher ''reload committed record'' ''durability backend returned no committed record'' store1 of
        (Err e, store2) \<Rightarrow> (Err e, d1\<lparr>pd_fs := store_fs store2\<rparr>)
      | (Ok found, store2) \<Rightarrow>
          (case validate_pending_committed found of
             Err e \<Rightarrow> (Err e, d1\<lparr>pd_fs := store_fs store2\<rparr>)
           | Ok _ \<Rightarrow> (Ok (recovery1, rec1, store2), d1\<lparr>pd_fs := store_fs store2\<rparr>))))))))))"

record probe_files =
  pf_local :: probe_dir
  pf_remote :: probe_dir

abbreviation local_at :: "file_system \<Rightarrow> probe_files \<Rightarrow> probe_files" where
  "local_at s f \<equiv> f\<lparr>pf_local := (pf_local f)\<lparr>pd_fs := s\<rparr>\<rparr>"

definition stage :: "aead \<Rightarrow> bytes option \<Rightarrow> bytes option list \<Rightarrow> (probe_files, string, ProbeError) io" where
  "stage cipher nonce entropy f =
     (case stage_local_record cipher nonce entropy (pf_local f) of
        (Err e, d) \<Rightarrow> (Err e, f\<lparr>pf_local := d\<rparr>)
      | (Ok _, d) \<Rightarrow> (Ok ''PASS staged encrypted exposed state + exact outbox'', f\<lparr>pf_local := d\<rparr>))"

definition verify :: "aead \<Rightarrow> bytes option list \<Rightarrow> (probe_files, string, ProbeError) io" where
  "verify cipher entropy f =
     (case open_store entropy (pd_fs (pf_local f)) of
        (Err e, s) \<Rightarrow> (Err e, local_at s f)
      | (Ok store, _) \<Rightarrow>
          (case reload cipher ''load committed record after restart'' ''no committed recovery probe exists'' store of
             (Err e, store1) \<Rightarrow> (Err e, local_at (store_fs store1) f)
           | (Ok found, store1) \<Rightarrow>
               (case validate_pending_committed found of
                  Err e \<Rightarrow> (Err e, local_at (store_fs store1) f)
                | Ok _ \<Rightarrow> (Ok ''PASS reopened encrypted state; cursor/exposure/outbox intact'', local_at (store_fs store1) f))))"

section \<open>The lost acknowledgement\<close>

definition ProbeTransport_open :: "ProbePublishMode \<Rightarrow> (file_system, ProbeTransport, ProbeError) io" where
  "ProbeTransport_open mode s =
     (case UnixFs_open s of
        (Err e, s') \<Rightarrow> (Err (ProbeError ''open simulated remote transport'' (Cause_Fs e)), s')
      | (Ok backend, s') \<Rightarrow> (Ok \<lparr>pt_backend = backend, pt_mode = mode\<rparr>, s'))"

definition load_remote :: "(file_system, ProbeRemoteState, ProbeError) io" where
  "load_remote s =
     (case ProbeTransport_open Normal s of
        (Err e, s') \<Rightarrow> (Err e, s')
      | (Ok t, _) \<Rightarrow> (case load_state t of (r, t') \<Rightarrow> (map_err (\<lambda>e. ProbeError [] (Cause_Remote e)) r, remote_fs t')))"

text \<open>\<^verbatim>\<open>ForegroundRecoveryRuntime::new(transport)\<close>, \<^verbatim>\<open>enter_foreground\<close> and one cycle, as both scenarios run it.\<close>

definition probe_resume ::
    "aead \<Rightarrow> ProbeTransport \<Rightarrow> LocalScalarRecoveryState \<Rightarrow> DurableSyncRecord \<Rightarrow> probe_store \<Rightarrow>
     (u64 ScalarRecoveryResumeReport resume_cycle_report, (ProbeTransportError ForegroundTransportError,
        MultiScalarTrustedStateCodecError, FsStorageError ProtectedSyncStoreError, string) ScalarRecoveryResumeError) result \<times>
     ProbeTransport ForegroundRecoveryRuntime \<times> LocalScalarRecoveryState \<times> DurableSyncRecord \<times> probe_store" where
  "probe_resume cipher transport recovery rec store =
     resume_scalar_recovery cipher (probe_persist cipher) multi_trusted_state_codec probe_cursor_codec probe_transport
       \<lparr>frc_key = content_key, frc_continuum_id = cid 1, frc_pre_observation_revision_ids = bm_empty\<rparr>
       (ForegroundRecoveryRuntime_enter_foreground (ForegroundRecoveryRuntime_new transport)) recovery rec store"

abbreviation "runtime_fs rt \<equiv> remote_fs (ft_inner (frt_transport rt))"

text \<open>Both stores after a run that removed neither directory.\<close>

definition files_at :: "file_system \<Rightarrow> file_system \<Rightarrow> probe_files \<Rightarrow> probe_files" where
  "files_at s r f = \<lparr>pf_local = (pf_local f)\<lparr>pd_fs := s\<rparr>, pf_remote = (pf_remote f)\<lparr>pd_fs := r\<rparr>\<rparr>"

definition stage_lost_ack :: "aead \<Rightarrow> bytes option \<Rightarrow> bytes option list \<Rightarrow> (probe_files, string, ProbeError) io" where
  "stage_lost_ack cipher nonce entropy f =
     (case reset_path (pf_remote f) of
        (Err e, r1) \<Rightarrow> (Err e, f\<lparr>pf_remote := r1\<rparr>)
      | (Ok _, r1) \<Rightarrow>
     (case stage_local_record cipher nonce entropy (pf_local f) of
        (Err e, d1) \<Rightarrow> (Err e, \<lparr>pf_local = d1, pf_remote = r1\<rparr>)
      | (Ok (recovery, rec, store), d1) \<Rightarrow>
     (case ProbeTransport_open LoseAcceptedResponse (pd_fs r1) of
        (Err e, r2) \<Rightarrow> (Err e, \<lparr>pf_local = d1, pf_remote = r1\<lparr>pd_fs := r2\<rparr>\<rparr>)
      | (Ok transport, _) \<Rightarrow>
     (case probe_resume cipher transport recovery rec store of
        (res, rt, _, _, store1) \<Rightarrow>
          if is_ok res
          then (Err (ProbeError ''lost-ACK stage unexpectedly received a successful response'' Cause_None),
                \<lparr>pf_local = d1\<lparr>pd_fs := store_fs store1\<rparr>, pf_remote = r1\<lparr>pd_fs := runtime_fs rt\<rparr>\<rparr>)
          else
     (case reload cipher ''reload local state after lost response'' ''local state disappeared after lost response'' store1 of
        (Err e, store2) \<Rightarrow> (Err e, \<lparr>pf_local = d1\<lparr>pd_fs := store_fs store2\<rparr>, pf_remote = r1\<lparr>pd_fs := runtime_fs rt\<rparr>\<rparr>)
      | (Ok durable, store2) \<Rightarrow>
     (case validate_pending_committed durable of
        Err e \<Rightarrow> (Err e, \<lparr>pf_local = d1\<lparr>pd_fs := store_fs store2\<rparr>, pf_remote = r1\<lparr>pd_fs := runtime_fs rt\<rparr>\<rparr>)
      | Ok _ \<Rightarrow>
     (case load_remote (runtime_fs rt) of
        (Err e, r3) \<Rightarrow> (Err e, \<lparr>pf_local = d1\<lparr>pd_fs := store_fs store2\<rparr>, pf_remote = r1\<lparr>pd_fs := r3\<rparr>\<rparr>)
      | (Ok remote, r3) \<Rightarrow>
          ((if rs_head remote \<noteq> PROBE_ACCEPTED_HEAD \<or> rs_publish_count remote \<noteq> 1 \<or> rs_objects remote = []
            then Err (ProbeError ''simulated remote did not durably accept exactly one publication'' Cause_None)
            else Ok ''PASS remote accepted once; response lost; durable local outbox still pending''),
           \<lparr>pf_local = d1\<lparr>pd_fs := store_fs store2\<rparr>, pf_remote = r1\<lparr>pd_fs := r3\<rparr>\<rparr>))))))))"

definition resume_lost_ack :: "aead \<Rightarrow> bytes option list \<Rightarrow> (probe_files, string, ProbeError) io" where
  "resume_lost_ack cipher entropy f =
     (case open_store entropy (pd_fs (pf_local f)) of
        (Err e, s1) \<Rightarrow> (Err e, local_at s1 f)
      | (Ok store, _) \<Rightarrow>
     (case reload cipher ''load local state for lost-ACK resume'' ''no staged lost-ACK local state exists'' store of
        (Err e, store1) \<Rightarrow> (Err e, local_at (store_fs store1) f)
      | (Ok rec, store1) \<Rightarrow>
     (case validate_pending_committed rec of
        Err e \<Rightarrow> (Err e, local_at (store_fs store1) f)
      | Ok _ \<Rightarrow>
     (case tc_decode multi_trusted_state_codec (trusted_state rec) of
        Err e \<Rightarrow> (Err (ProbeError ''decode local recovery for resume'' (Cause_Codec e)), local_at (store_fs store1) f)
      | Ok recovery \<Rightarrow>
     (case ProbeTransport_open Normal (pd_fs (pf_remote f)) of
        (Err e, r1) \<Rightarrow> (Err e, files_at (store_fs store1) r1 f)
      | (Ok transport, _) \<Rightarrow>
     (case probe_resume cipher transport recovery rec store1 of
        (Err e, rt, _, _, store2) \<Rightarrow>
          (Err (ProbeError ''foreground lost-ACK recovery failed'' (Cause_Resume e)),
           files_at (store_fs store2) (runtime_fs rt) f)
      | (Ok _, rt, _, rec2, store2) \<Rightarrow>
     (case validate_reconciled_committed rec2 of
        Err e \<Rightarrow> (Err e, files_at (store_fs store2) (runtime_fs rt) f)
      | Ok _ \<Rightarrow>
     (case reload cipher ''reload reconciled local state'' ''reconciled local state disappeared'' store2 of
        (Err e, store3) \<Rightarrow> (Err e, files_at (store_fs store3) (runtime_fs rt) f)
      | (Ok durable, store3) \<Rightarrow>
     (case validate_reconciled_committed durable of
        Err e \<Rightarrow> (Err e, files_at (store_fs store3) (runtime_fs rt) f)
      | Ok _ \<Rightarrow>
     (case load_remote (runtime_fs rt) of
        (Err e, r2) \<Rightarrow> (Err e, files_at (store_fs store3) r2 f)
      | (Ok remote, r2) \<Rightarrow>
          ((if rs_head remote \<noteq> PROBE_ACCEPTED_HEAD \<or> rs_publish_count remote \<noteq> 1
            then Err (ProbeError ''lost-ACK recovery retransmitted an already accepted publication'' Cause_None)
            else Ok ''PASS authenticated refetch reconciled lost ACK; no second publish''),
           files_at (store_fs store3) r2 f)))))))))))"

section \<open>The probe's domain\<close>

definition probe_register :: "bytes ScalarRegister" where
  "probe_register = \<lparr>revisions = bm_insert (rid 200) (ScalarRevision_new (rid 200) PROBE_SECRET (bs_from_list [rid 100]))
     (bm_insert (rid 100) (ScalarRevision_new (rid 100) (ascii ''android-probe-base'') bm_empty) bm_empty)\<rparr>"

definition probe_domain :: "RevisionId btree_set \<Rightarrow> bytes LocalScalarDomain" where
  "probe_domain exposed = \<lparr>working = \<lparr>ws_causal = probe_register, ws_pending = None\<rparr>,
     finalization = \<lparr>local_revision_ids = bs_from_list [rid 200],
       finalized = bm_insert (rid 200) (FinalizedStatement_from (ScalarRevision_new (rid 200) PROBE_SECRET (bs_from_list [rid 100]))) bm_empty,
       exposed_local_ids = exposed, handed_off_local_ids = exposed\<rparr>\<rparr>"

definition probe_recovery :: "RevisionId btree_set \<Rightarrow> LocalScalarRecoveryState" where
  "probe_recovery exposed = \<lparr>rs_domains = bm_insert domain_key (LocalScalarDomain_snapshot (probe_domain exposed)) bm_empty\<rparr>"

definition probe_projection :: ScalarSyncProjection where
  "probe_projection = SyncProjection_from_domains (bm_insert domain_key probe_register bm_empty)"

abbreviation "handed \<equiv> bs_from_list [rid 200]"

lemma initial_recovery_run: "initial_recovery = Ok (probe_recovery bm_empty)"
  by code_simp

lemma probe_domain_runs:
  "LocalScalarDomain_handoff (probe_domain bm_empty) [rid 200] = (Ok (), probe_domain handed)"
  "closure_register probe_register handed = Ok probe_register"
  "LocalScalarDomain_observe_remote (probe_domain handed) probe_register None = (Ok None, probe_domain handed)"
  "revision_ids_of probe_register = bs_from_list [rid 100, rid 200]"
  "SyncProjection_merge ScalarRegister_merge SyncProjection_new probe_projection = Ok probe_projection"
  "projection_is_observed probe_projection (bm_insert domain_key (bs_from_list [rid 100, rid 200]) bm_empty)"
  "rid 100 < rid 200" "bs_iter handed = [rid 200]"
  by code_simp+

lemma probe_register_valid: "register_valid probe_register"
proof -
  have "ScalarRegister_validate probe_register = Ok ()" by code_simp
  moreover have "keyed_by_id (revisions probe_register)" by (auto simp: keyed_by_id_def probe_register_def ScalarRevision_new_def)
  ultimately show ?thesis by (simp add: register_valid_iff)
qed

lemma probe_domain_wf:
  assumes "exposed = bm_empty \<or> exposed = handed"
  shows "domain_wf (probe_domain exposed)" and "recovery_wf (probe_recovery exposed)"
proof -
  show wf: "domain_wf (probe_domain exposed)"
    using probe_register_valid assms
    by (auto simp: domain_wf_def probe_domain_def working_valid_def ledger_wf_def statements_match_def probe_register_def
        bs_set_from_list split: if_splits)
  then show "recovery_wf (probe_recovery exposed)"
    by (auto simp: recovery_wf_def probe_recovery_def snapshot_wf_def domain_key_def ascii_def split: if_splits)
qed

lemma probe_recovery_restore:
  "exposed = bm_empty \<or> exposed = handed \<Longrightarrow>
     RecoveryState_restore_domain (probe_recovery exposed) domain_key = Ok (Some (probe_domain exposed))"
  using restore_wf_snapshot [OF probe_domain_wf(1)] by (simp add: RecoveryState_restore_domain_def probe_recovery_def)

lemma probe_projection_wf: "projection_wf probe_projection" "\<not> SyncProjection_is_empty probe_projection"
  using probe_register_valid
  by (auto simp: projection_wf_def projection_valid_def keyed_valid_def named_domains_def probe_projection_def
      SyncProjection_from_domains_def SyncProjection_is_empty_def domain_key_def ascii_def split: if_splits)

lemma probe_register_entries:
  "bm_entries (revisions probe_register) =
     [(rid 100, ScalarRevision_new (rid 100) (ascii ''android-probe-base'') bm_empty),
      (rid 200, ScalarRevision_new (rid 200) PROBE_SECRET (bs_from_list [rid 100]))]"
proof -
  have "bm_insert (rid 200) a (bm_insert (rid 100) b bm_empty) = bm_insert (rid 100) b (bm_insert (rid 200) a bm_empty)" for a b :: "bytes ScalarRevision"
    using probe_domain_runs(7) by (intro bm_eqI) auto
  with bm_entries_pair [OF probe_domain_runs(7)] show ?thesis by (simp add: probe_register_def)
qed

lemma probe_sets: "bs_iter handed = [rid 200]" "bs_iter (bs_from_list [rid 100]) = [rid 100]"
  "bm_len handed = 1" "bm_len (bs_from_list [rid 100]) = 1"
  by code_simp+

lemma probe_projection_encodes: "\<exists>bs. encode_scalar_projection probe_projection = Ok bs \<and> length bs < 1000"
  using probe_register_valid probe_sets
  by (simp add: encode_scalar_projection_def probe_projection_def SyncProjection_from_domains_def SyncProjection_len_def
      bm_len_def bm_entries_single write_len_def write_domain_def write_bytes_def register_valid_iff
      write_register_def ScalarRegister_len_def ScalarRegister_revisions_def bm_values_def probe_register_entries
      write_revision_def write_id_set_def ScalarRevision_new_def SYNC_MAGIC_def bm_entries_empty PROBE_SECRET_def domain_key_def
      bs_iter_def bm_keys_def)

lemma probe_recovery_encodes:
  assumes "exposed = bm_empty \<or> exposed = handed"
  obtains bs where "encode_multi_scalar_recovery_state (probe_recovery exposed) = Ok bs" and "length bs < 1000"
    and "decode_multi_scalar_recovery_state bs = Ok (probe_recovery exposed)"
proof -
  have snap: "LocalScalarDomain_snapshot (probe_domain exposed) =
      \<lparr>snap_working = \<lparr>snap_causal = probe_register, snap_pending = None\<rparr>,
       snap_finalization = \<lparr>snap_local_revision_ids = handed,
         snap_finalized = bm_insert (rid 200) (FinalizedStatement_from (ScalarRevision_new (rid 200) PROBE_SECRET (bs_from_list [rid 100]))) bm_empty,
         snap_exposed_local_ids = exposed, snap_handed_off_local_ids = exposed\<rparr>\<rparr>"
    by (simp add: LocalScalarDomain_snapshot_def WorkingScalar_snapshot_def FinalizationLedger_snapshot_def probe_domain_def)
  have "ScalarRegister_validate probe_register = Ok ()" using probe_register_valid by (simp add: register_valid_iff)
  then have "\<exists>bs. encode_local_scalar_snapshot (LocalScalarDomain_snapshot (probe_domain exposed)) = Ok bs \<and> length bs < 900"
    using restore_wf_snapshot [OF probe_domain_wf(1) [OF assms]] assms probe_sets
    by (auto simp: encode_local_scalar_snapshot_def trusted_write_register_def snap write_register_def write_len_def
        ScalarRegister_len_def ScalarRegister_revisions_def bm_len_def bm_values_def bm_entries_empty bm_entries_single
        probe_register_entries write_revision_def ScalarRevision_new_def FinalizedStatement_from_def write_statement_def
        write_pending_def write_bytes_def trusted_write_id_set_def write_id_set_def write_finalized_def
        bs_iter_def bm_keys_def LREC_MAGIC_def PROBE_SECRET_def)
  then obtain bs where bs: "encode_multi_scalar_recovery_state (probe_recovery exposed) = Ok bs" "length bs < 1000"
    by (auto simp: encode_multi_scalar_recovery_state_def probe_recovery_def write_len_def bm_len_def bm_entries_single
        write_recovery_domain_def write_bytes_def LSET_MAGIC_def domain_key_def)
  with multi_codec.decode_encode [OF probe_domain_wf(2) [OF assms], of bs] that show ?thesis
    by (simp add: multi_trusted_state_codec_def isize_max_def)
qed

text \<open>What the staged wire object is to the code that reads it back.\<close>

definition probe_wire :: "aead \<Rightarrow> bytes \<Rightarrow> bool" where
  "probe_wire cipher wire \<longleftrightarrow> wire \<noteq> [] \<and> length wire < 2000 \<and>
     decode_pending_recovery_publication cipher content_key (cid 1) (pid 7) [wire] = Ok probe_projection \<and>
     (\<exists>part. decode_protected_sync_part wire = Ok part \<and> part_index part = 0 \<and> total_parts part = 1 \<and>
        unprotect_scalar_part cipher content_key (cid 1) part = Ok probe_projection)"

lemma probe_prepared:
  assumes "aead_correct cipher" and "aead_total cipher" and "length nonce = 24"
  obtains wire where "prepare_recovery_handoff cipher (Some nonce) (probe_recovery bm_empty) (cid 1) (pid 7) content_key
      (bm_insert domain_key handed bm_empty) =
      Ok \<lparr>prh_revision_ids = bm_insert domain_key handed bm_empty, prh_publication_id = pid 7, prh_objects = [wire]\<rparr>"
    and "probe_wire cipher wire"
proof -
  obtain clear where clear: "encode_scalar_projection probe_projection = Ok clear" "length clear < 1000"
    using probe_projection_encodes by blast
  have "length clear < 2 ^ 32" using clear(2) by simp
  then obtain env where env: "protect cipher (Some nonce) content_key (part_context (cid 1) (pid 7) 0 1) clear = Ok env"
    "length env = length clear + 59"
    by (rule protect_total [OF assms _ part_context_nonempty])
  let ?part = "\<lparr>publication_id = pid 7, part_index = 0, total_parts = 1, payload = env\<rparr>"
  have part: "protect_scalar_part cipher (Some nonce) content_key (cid 1) (pid 7) 0 1 probe_projection = Ok ?part"
    using clear env(1) probe_projection_wf(2) by (simp add: protect_scalar_part_Ok)
  obtain wire where wire: "encode_protected_sync_part ?part = Ok wire" and len: "length wire < 2000" "59 \<le> length wire"
    using env(2) clear(2) by (auto simp: encode_protected_sync_part_def validate_metadata_def PART_MAGIC_def)
  have "length wire \<le> isize_max" using len(1) by (simp add: isize_max_def)
  note dec = protected_wire_decodes [OF assms(1,3) probe_projection_wf(1) part wire this]
  have ne: "wire \<noteq> []" using len(2) by auto
  have w: "probe_wire cipher wire"
    unfolding probe_wire_def using len(1) ne dec pending_single [OF dec] by blast
  have "project_domain (probe_recovery bm_empty) bm_empty (domain_key, handed) = Ok (bm_insert domain_key probe_register bm_empty)"
    using probe_domain_runs(1,2) probe_sets(1) probe_recovery_restore [of bm_empty]
    by (simp add: project_domain_def bs_is_empty_iff LocalScalarDomain_causal_def probe_domain_def del: bm_is_empty_iff)
  with part wire that [OF _ w] show ?thesis
    by (simp add: prepare_recovery_handoff_def bm_entries_single probe_projection_def)
qed

section \<open>The records of the two scenarios\<close>

abbreviation probe_cursor_of :: "u64 \<Rightarrow> TransportCursor option" where
  "probe_cursor_of v \<equiv> Some (TransportCursor (to_be_bytes v))"

definition pending_record :: "bytes \<Rightarrow> u64 \<Rightarrow> bytes \<Rightarrow> DurableSyncRecord" where
  "pending_record trusted v wire = \<lparr>trusted_state = trusted, applied_cursor = probe_cursor_of v, outbox = bm_insert (pid 7)
     \<lparr>oe_publication_id = pid 7, oe_expected_cursor = probe_cursor_of 1, oe_objects = [wire]\<rparr> bm_empty\<rparr>"

definition settled_record :: "bytes \<Rightarrow> u64 \<Rightarrow> DurableSyncRecord" where
  "settled_record trusted v = \<lparr>trusted_state = trusted, applied_cursor = probe_cursor_of v, outbox = bm_empty\<rparr>"

lemma be_bytes_nonempty: "to_be_bytes (v :: u64) \<noteq> []"
  by (auto dest: arg_cong [where f = length])

lemma probe_cursor_simps [simp]:
  "ProbeCursorCodec_encode v = Ok (TransportCursor (to_be_bytes v))"
  "cc_encode probe_cursor_codec v = Ok (TransportCursor (to_be_bytes v))"
  "cc_decode probe_cursor_codec (TransportCursor (to_be_bytes v)) = Ok v"
  "decode_probe_cursor (TransportCursor (to_be_bytes v)) = Ok v"
  by (simp_all add: ProbeCursorCodec_encode_def ProbeCursorCodec_decode_def decode_probe_cursor_def probe_cursor_codec_def
      TransportCursor_new_def be_bytes_nonempty)

lemma probe_records_storable:
  assumes "length trusted < 1000" and "wire \<noteq> []" and "length wire < 2000"
  shows "record_storable (pending_record trusted v wire)"
    and "\<exists>bs. encode_durable_sync_record (pending_record trusted v wire) = Ok bs \<and> length bs < 2 ^ 32"
    and "record_storable (settled_record trusted v)"
    and "\<exists>bs. encode_durable_sync_record (settled_record trusted v) = Ok bs \<and> length bs < 2 ^ 32"
  using assms
  by (auto simp: record_storable_def pending_record_def settled_record_def record_wf_def cursor_wf_def be_bytes_nonempty
      entry_wf_def vec_capacity_ok_def encode_durable_sync_record_def write_bytes_def write_len_def
      write_optional_cursor_def bm_len_def bm_values_def bm_entries_single bm_entries_empty write_outbox_entry_def
      isize_max_def split: if_splits)

lemma probe_records_validate:
  assumes "decode_multi_scalar_recovery_state trusted = Ok (probe_recovery handed)" and "wire \<noteq> []"
  shows "validate_pending_committed (pending_record trusted 1 wire) = Ok ()"
    and "validate_reconciled_committed (settled_record trusted 2) = Ok ()"
proof -
  have dom: "bs_contains (exposed_local_ids (finalization (probe_domain handed))) (rid 200)"
    "bs_contains (handed_off_local_ids (finalization (probe_domain handed))) (rid 200)"
    by (simp_all add: probe_domain_def bs_set_from_list)
  have "validate_exposure rec = Ok ()" if "trusted_state rec = trusted" for rec
    using that assms(1) probe_recovery_restore [of handed] dom by (simp add: validate_exposure_def)
  then show "validate_pending_committed (pending_record trusted 1 wire) = Ok ()"
    "validate_reconciled_committed (settled_record trusted 2) = Ok ()"
    using assms(2)
    by (simp_all add: validate_pending_committed_def validate_reconciled_committed_def validate_cursor_def pending_record_def
        settled_record_def PROBE_INITIAL_HEAD_def PROBE_ACCEPTED_HEAD_def bm_len_def bm_entries_single)
qed

section \<open>Staging\<close>

definition fresh_entropy :: "bytes option list \<Rightarrow> nat \<Rightarrow> bool" where
  "fresh_entropy entropy k \<longleftrightarrow> k \<le> length entropy \<and> None \<notin> set (take k entropy) \<and> (\<forall>n. Some n \<in> set entropy \<longrightarrow> length n = 24)"

text \<open>The state of a store of the probe between two operations.\<close>

definition probe_store_at :: "aead \<Rightarrow> probe_store \<Rightarrow> nat \<Rightarrow> DurableSyncRecord \<Rightarrow> bool" where
  "probe_store_at cipher st k rec \<longleftrightarrow> prs_key st = content_key \<and> prs_context st = PROBE_CONTEXT \<and> store_ready st k \<and>
     holds_record cipher st rec \<and> unat (next_candidate (prs_backend st)) < 2 ^ 32"

text \<open>A path whose directory was removed, before anything is written below it again.\<close>

definition renewed :: "probe_dir \<Rightarrow> probe_dir" where
  "renewed d = \<lparr>pd_fs = emptied (pd_fs d), pd_earlier = emptied (pd_fs d) # unlinked (pd_fs d) # pd_earlier d\<rparr>"

lemma renewed_fields [simp]:
  "pd_fs (renewed d) = emptied (pd_fs d)" "emptied (pd_fs d) \<in> set (pd_earlier (renewed d))"
  by (simp_all add: renewed_def)

lemma reset_path_renews: "faults (pd_fs d) = [] \<Longrightarrow> reset_path d = (Ok (), renewed d)"
  by (simp add: reset_path_def remove_dir_all_def syscall_def renewed_def)

lemma emptied_fields [simp]: "faults (emptied s) = faults s" "settled_dirs (emptied s)"
  by (simp_all add: emptied_def settled_dirs_def)

lemma emptied_store:
  assumes "faults s = []" and "fresh_entropy entropy k" and "k < 2 ^ 32"
  shows "UnixFs_open (emptied s) = (Ok \<lparr>ub_fs = emptied s, next_candidate = 0\<rparr>, emptied s)"
    and "open_store entropy (emptied s) = (Ok \<lparr>prs_backend = \<lparr>ub_fs = emptied s, next_candidate = 0\<rparr>, prs_key = content_key,
      prs_context = PROBE_CONTEXT, prs_entropy = entropy\<rparr>, emptied s)"
    and "store_ready \<lparr>prs_backend = \<lparr>ub_fs = emptied s, next_candidate = 0\<rparr>, prs_key = content_key,
      prs_context = PROBE_CONTEXT, prs_entropy = entropy\<rparr> k"
proof -
  show o: "UnixFs_open (emptied s) = (Ok \<lparr>ub_fs = emptied s, next_candidate = 0\<rparr>, emptied s)"
    using assms(1) by (simp add: UnixFs_open_def scan_next_candidate_def read_dir_def syscall_def emptied_def
        io_bind_def fs_dir_def bm_keys_def bm_entries_empty)
  show "open_store entropy (emptied s) = (Ok \<lparr>prs_backend = \<lparr>ub_fs = emptied s, next_candidate = 0\<rparr>, prs_key = content_key,
      prs_context = PROBE_CONTEXT, prs_entropy = entropy\<rparr>, emptied s)"
    using o by (simp add: open_store_def ProtectedSyncRecordStore_new_def PROBE_CONTEXT_def)
  have "fs_inv (emptied s)" "numbered (emptied s) 0" by (simp_all add: emptied_def fs_inv_def numbered_def snaps_def)
  then show "store_ready \<lparr>prs_backend = \<lparr>ub_fs = emptied s, next_candidate = 0\<rparr>, prs_key = content_key,
      prs_context = PROBE_CONTEXT, prs_entropy = entropy\<rparr> k"
    using assms by (simp add: store_ready_def fresh_entropy_def entropy_wf_def emptied_def)
qed

lemma multi_codec_simps:
  "tc_encode multi_trusted_state_codec x = encode_multi_scalar_recovery_state x"
  "tc_decode multi_trusted_state_codec bs = decode_multi_scalar_recovery_state bs"
  by (simp_all add: multi_trusted_state_codec_def)

text \<open>Putting the exposed domain into the container, whatever the container held of it.\<close>

lemma probe_recovery_replace:
  assumes "exposed = bm_empty \<or> exposed = handed"
  shows "\<exists>old. RecoveryState_replace_domain (probe_recovery exposed) domain_key (LocalScalarDomain_snapshot (probe_domain handed)) =
    (Ok old, probe_recovery handed)"
proof -
  have "bm_insert domain_key a (bm_insert domain_key b bm_empty) = bm_insert domain_key a bm_empty" for a b :: "bytes LocalScalarSnapshot"
    by (intro bm_eqI) simp
  moreover have "check_snapshot (LocalScalarDomain_snapshot (probe_domain handed)) = Ok ()"
    using restore_wf_snapshot [OF probe_domain_wf(1), of handed] by (simp add: check_snapshot_def)
  ultimately show ?thesis by (simp add: RecoveryState_replace_domain_def probe_recovery_def)
qed

lemma probe_exposed:
  "expose_domain (probe_recovery bm_empty) (domain_key, handed) = Ok (probe_recovery handed)"
proof -
  have e: "bm_empty = bm_empty \<or> bm_empty = handed" by simp
  obtain old where "RecoveryState_replace_domain (probe_recovery bm_empty) domain_key (LocalScalarDomain_snapshot (probe_domain handed)) =
    (Ok old, probe_recovery handed)" using probe_recovery_replace [OF e] by blast
  with probe_recovery_restore [OF e] probe_domain_runs(1) probe_sets(1) show ?thesis by (simp add: expose_domain_def)
qed

lemma reload_holds:
  assumes "probe_store_at cipher st k rec"
  shows "reload cipher failed missing st = (Ok rec, st)"
proof -
  have "store_ready st k" "holds_record cipher st rec" using assms by (simp_all add: probe_store_at_def)
  from load_ready [OF this] show ?thesis by (simp add: reload_def)
qed

text \<open>One more record written by a store of the probe.\<close>

lemma probe_persist_run:
  assumes "aead_correct cipher" and "aead_total cipher" and "prs_key st = content_key" and "prs_context st = PROBE_CONTEXT"
    and "store_ready st (Suc k)" and "unat (next_candidate (prs_backend st)) + 1 < 2 ^ 32"
    and "record_storable rec" and "\<exists>bs. encode_durable_sync_record rec = Ok bs \<and> length bs < 2 ^ 32"
  obtains st' where "probe_persist cipher st rec = (Ok (), st')" and "probe_store_at cipher st' k rec"
    and "unat (next_candidate (prs_backend st')) = unat (next_candidate (prs_backend st)) + 1" and "settled_dirs (store_fs st')"
proof -
  from assms(8) obtain clear where c: "encode_durable_sync_record rec = Ok clear" "length clear < 2 ^ 32" by blast
  from persist_progress [OF assms(1,2,5,7) c] obtain st' where
    "probe_persist cipher st rec = (Ok (), st')" "store_ready st' k" "prs_key st' = prs_key st" "prs_context st' = prs_context st"
    "holds_record cipher st' rec" "unat (next_candidate (prs_backend st')) = unat (next_candidate (prs_backend st)) + 1"
    "settled_dirs (store_fs st')" by metis
  with that assms(3,4,6) show ?thesis by (simp add: probe_store_at_def)
qed

lemma stage_local_run:
  assumes "aead_correct cipher" and "aead_total cipher" and "length n = 24" and "faults (pd_fs d) = []" and "fresh_entropy entropy 1"
  obtains trusted wire st where
    "stage_local_record cipher (Some n) entropy d =
      (Ok (probe_recovery handed, pending_record trusted 1 wire, st), (renewed d)\<lparr>pd_fs := store_fs st\<rparr>)"
    and "probe_store_at cipher st 0 (pending_record trusted 1 wire)" and "unat (next_candidate (prs_backend st)) = 1"
    and "probe_wire cipher wire" and "settled_dirs (store_fs st)"
    and "encode_multi_scalar_recovery_state (probe_recovery handed) = Ok trusted" and "length trusted < 1000"
    and "decode_multi_scalar_recovery_state trusted = Ok (probe_recovery handed)"
proof -
  have k: "(1 :: nat) < 2 ^ 32" by simp
  note store = emptied_store [OF assms(4,5) k]
  let ?st0 = "\<lparr>prs_backend = \<lparr>ub_fs = emptied (pd_fs d), next_candidate = 0\<rparr>, prs_key = content_key,
      prs_context = PROBE_CONTEXT, prs_entropy = entropy\<rparr>"
  obtain trusted0 where t0: "encode_multi_scalar_recovery_state (probe_recovery bm_empty) = Ok trusted0"
    using probe_recovery_encodes [of bm_empty] by blast
  obtain trusted where t: "encode_multi_scalar_recovery_state (probe_recovery handed) = Ok trusted" "length trusted < 1000"
    "decode_multi_scalar_recovery_state trusted = Ok (probe_recovery handed)" using probe_recovery_encodes [of handed] by blast
  obtain wire where prep: "prepare_recovery_handoff cipher (Some n) (probe_recovery bm_empty) (cid 1) (pid 7) content_key
      (bm_insert domain_key handed bm_empty) =
      Ok \<lparr>prh_revision_ids = bm_insert domain_key handed bm_empty, prh_publication_id = pid 7, prh_objects = [wire]\<rparr>"
    and wire: "probe_wire cipher wire" by (rule probe_prepared [OF assms(1-3)])
  have w: "wire \<noteq> []" "length wire < 2000" using wire by (simp_all add: probe_wire_def)
  note stor = probe_records_storable [OF t(2) w, of 1]
  have ready: "store_ready ?st0 (Suc 0)" using store(3) by simp
  obtain st where st: "probe_persist cipher ?st0 (pending_record trusted 1 wire) = (Ok (), st)"
    "probe_store_at cipher st 0 (pending_record trusted 1 wire)" "unat (next_candidate (prs_backend st)) = 1" "settled_dirs (store_fs st)"
    using probe_persist_run [OF assms(1,2) _ _ ready _ stor(1,2)] by auto
  have staged: "stage_prepared_recovery_handoff (probe_persist cipher) multi_trusted_state_codec (probe_recovery bm_empty)
      (DurableSyncRecord_new trusted0 (probe_cursor_of 1)) ?st0
      \<lparr>prh_revision_ids = bm_insert domain_key handed bm_empty, prh_publication_id = pid 7, prh_objects = [wire]\<rparr> =
      (Ok (), probe_recovery handed, pending_record trusted 1 wire, st)"
    using t(1) st(1) w(1)
    by (simp add: stage_prepared_recovery_handoff_def bm_entries_single probe_exposed multi_trusted_state_codec_def
        stage_outbound_def DurableSyncRecord_prepare_outbox_def DurableSyncRecord_new_def validate_objects_def persist_and_swap_def
        pending_record_def)
  have "stage_local_record cipher (Some n) entropy d =
      (Ok (probe_recovery handed, pending_record trusted 1 wire, st), (renewed d)\<lparr>pd_fs := store_fs st\<rparr>)"
    unfolding stage_local_record_def reset_path_renews [OF assms(4)] renewed_fields(1) store(2) initial_recovery_run multi_codec_simps t0 PROBE_INITIAL_HEAD_def probe_cursor_simps
      prep staged reload_holds [OF st(2)] probe_records_validate(1) [OF t(3) w(1)] prod.case result.case ..
  with that st(2-4) wire t show ?thesis by blast
qed

section \<open>The two cycles\<close>

abbreviation "running t \<equiv> \<lparr>ft_inner = t, ft_foreground = True\<rparr>"

lemma probe_running:
  "ForegroundRecoveryRuntime_enter_foreground (ForegroundRecoveryRuntime_new t) = \<lparr>frt_transport = running t\<rparr>"
  by (simp add: ForegroundRecoveryRuntime_enter_foreground_def ForegroundRecoveryRuntime_new_def enter_foreground_def guard_def)

lemma gated_running: "gated call (running t) = (case call t of (r, t') \<Rightarrow> (map_err Inner r, running t'))"
  by (simp add: gated_def ensure_foreground_def)

lemma probe_pub_sets:
  "bs_iter (bs_from_list [pid 7]) = [pid 7]" "bs_iter (bs_insert (pid 7) bm_empty) = [pid 7]"
  "bs_from_list [pid 7] \<noteq> bm_empty" "bs_insert (pid 7) bm_empty \<noteq> bm_empty" "bs_insert (pid 7) bm_empty = bs_from_list [pid 7]"
  "(bs_from_list [] :: PublicationId btree_set) = bm_empty"
  by code_simp+

lemma pending_fields:
  "bm_keys (outbox (pending_record trusted v wire)) = [pid 7]" "applied_cursor (pending_record trusted v wire) = probe_cursor_of v"
  "trusted_state (pending_record trusted v wire) = trusted"
  "bm_get (outbox (pending_record trusted v wire)) (pid 7) =
     Some \<lparr>oe_publication_id = pid 7, oe_expected_cursor = probe_cursor_of 1, oe_objects = [wire]\<rparr>"
  by (simp_all add: pending_record_def bm_keys_def bm_entries_single)

text \<open>At the initial head nothing has changed, the publication is offered, and its response is lost.\<close>

lemma lost_cycle:
  assumes "load_state t = (Ok ProbeRemoteState_default, t)" and "probe_publish t (Some 1) [wire] = (Err e, t')"
  shows "probe_resume cipher t x (pending_record trusted 1 wire) st =
    (Err (RO_Publish (Batch_Transport (Inner e))), \<lparr>frt_transport = running t'\<rparr>, x, pending_record trusted 1 wire, st)"
proof -
  let ?rec = "pending_record trusted 1 wire"
  have fetch: "tr_fetch_since (foreground_transport probe_transport) (running t) (Some 1) =
      (Ok (UpToDate (Some 1)), running t)"
    using assms(1) by (simp add: foreground_transport_def probe_transport_def gated_running probe_fetch_since_def io_bind_def
        ProbeRemoteState_default_def PROBE_INITIAL_HEAD_def)
  have pub: "tr_publish (foreground_transport probe_transport) (running t) (Some 1) [wire] = (Err (Inner e), running t')"
    using assms(2) by (simp add: foreground_transport_def probe_transport_def gated_running)
  have "publish_staged_batch (foreground_transport probe_transport) probe_cursor_codec ?rec [pid 7] (running t) =
      (Err (Batch_Transport (Inner e)), running t')"
    using pub probe_pub_sets by (simp add: publish_staged_batch_def select_publication_def pending_fields decode_cursor_def bs_is_empty_iff
        Let_def del: bm_is_empty_iff)
  moreover have "catch_up_scalar_recovery_state cipher (probe_persist cipher) multi_trusted_state_codec probe_cursor_codec
      (foreground_transport probe_transport) spec x ?rec st (running t) =
      (Ok (CatchUp_UpToDate (Some 1)), x, ?rec, st, running t)" for spec
    by (simp add: catch_up_scalar_recovery_state_def fetch_from_durable_cursor_def decode_cursor_def pending_fields fetch)
  ultimately show ?thesis
    using probe_pub_sets
    by (simp add: probe_resume_def probe_running resume_scalar_recovery_def resume_scalar_recovery_outbox_set_bounded_def
        bounded_cycle_def resume_scalar_recovery_outbox_set_def resume_outbox_pass_def pending_fields settle_outbox_set_def
        is_baseline_unavailable_def classify_publication_def reconcile_stale_def publish_current_def bs_is_empty_iff
        del: bm_is_empty_iff)
qed

text \<open>At the accepted head the publication comes back, is recognised, and is retired without being offered again.\<close>

lemma refetch_catch_up:
  assumes "load_state t = (Ok s, t)" and "rs_head s = 2" and "rs_objects s = [wire]" and "probe_wire cipher wire"
    and "encode_multi_scalar_recovery_state (probe_recovery handed) = Ok trusted"
    and "probe_persist cipher st (pending_record trusted 2 wire) = (Ok (), st1)"
  shows "catch_up_scalar_recovery_state cipher (probe_persist cipher) multi_trusted_state_codec probe_cursor_codec
      (foreground_transport probe_transport)
      \<lparr>rcu_key = content_key, rcu_continuum_id = cid 1, rcu_pre_observation_revision_ids = bm_empty\<rparr>
      (probe_recovery handed) (pending_record trusted 1 wire) st (running t) =
    (Ok (CatchUp_Applied 2 1 (bm_insert domain_key (bs_from_list [rid 100, rid 200]) bm_empty) bm_empty),
     probe_recovery handed, pending_record trusted 2 wire, st1, running t)"
proof -
  have h: "handed = bm_empty \<or> handed = handed" by simp
  have fetch: "tr_fetch_since (foreground_transport probe_transport) (running t) (Some 1) = (Ok (Changed 2 [wire]), running t)"
    using assms(1-3) by (simp add: foreground_transport_def probe_transport_def gated_running probe_fetch_since_def io_bind_def
        PROBE_INITIAL_HEAD_def PROBE_ACCEPTED_HEAD_def)
  from assms(4) obtain part where part: "decode_protected_sync_part wire = Ok part" "part_index part = 0" "total_parts part = 1"
    "unprotect_scalar_part cipher content_key (cid 1) part = Ok probe_projection" by (auto simp: probe_wire_def)
  note dec = single_projection [OF part]
  have entries: "bm_entries (domains probe_projection) = [(domain_key, probe_register)]"
    by (simp add: probe_projection_def SyncProjection_from_domains_def bm_entries_single)
  obtain old where rep: "RecoveryState_replace_domain (probe_recovery handed) domain_key (LocalScalarDomain_snapshot (probe_domain handed)) =
      (Ok old, probe_recovery handed)" using probe_recovery_replace [OF h] by blast
  have rec: "DurableSyncRecord_apply_received (pending_record trusted 1 wire) trusted (TransportCursor (to_be_bytes (2 :: u64))) =
      pending_record trusted 2 wire" by (simp add: DurableSyncRecord_apply_received_def pending_record_def)
  have commit: "commit_received (probe_persist cipher) probe_cursor_codec (pending_record trusted 1 wire) st trusted 2 =
      (Ok (), pending_record trusted 2 wire, st1)"
    using assms(6) by (simp add: commit_received_def persist_and_swap_def rec)
  show ?thesis
    by (simp add: fetch dec entries rep commit assms(5) probe_recovery_restore [OF h] probe_domain_runs(3-5) catch_up_scalar_recovery_state_def fetch_from_durable_cursor_def decode_cursor_def pending_fields
        apply_recovery_range_def observe_domain_def multi_codec_simps probe_sets)
qed

lemma refetch_cycle:
  assumes "load_state t = (Ok s, t)" and "rs_head s = 2" and "rs_objects s = [wire]" and "probe_wire cipher wire"
    and "encode_multi_scalar_recovery_state (probe_recovery handed) = Ok trusted"
    and "probe_persist cipher st (pending_record trusted 2 wire) = (Ok (), st1)"
    and "probe_persist cipher st1 (settled_record trusted 2) = (Ok (), st2)"
  obtains rep where "probe_resume cipher t (probe_recovery handed) (pending_record trusted 1 wire) st =
    (Ok rep, \<lparr>frt_transport = running t\<rparr>, probe_recovery handed, settled_record trusted 2, st2)"
proof -
  have ne: "TransportCursor (to_be_bytes (1 :: u64)) \<noteq> TransportCursor (to_be_bytes (2 :: u64))" by (simp add: to_be_bytes_inject)
  have pend: "decode_pending_recovery_publication cipher content_key (cid 1) (pid 7) [wire] = Ok probe_projection"
    using assms(4) by (simp add: probe_wire_def)
  have "bm_remove (pid 7) (bm_insert (pid 7) (e :: DurableOutboxEntry) bm_empty) = bm_empty" for e by (rule bm_eqI) simp
  then have retire: "DurableSyncRecord_retire_outbox (pending_record trusted 2 wire) (pid 7) trusted (TransportCursor (to_be_bytes (2 :: u64))) =
      (Ok (), settled_record trusted 2)"
    by (simp add: DurableSyncRecord_retire_outbox_def pending_record_def settled_record_def)
  have commit: "commit_reconciled_outbox_batch (probe_persist cipher) probe_cursor_codec (pending_record trusted 2 wire) st1 [pid 7] trusted 2 =
      (Ok (), settled_record trusted 2, st2)"
    using assms(7) retire probe_pub_sets
    by (simp add: commit_reconciled_outbox_batch_def persist_and_swap_def bs_is_empty_iff Let_def del: bm_is_empty_iff)
  have stale: "reconcile_stale (probe_persist cipher) probe_cursor_codec
      (recovery_evidence cipher \<lparr>rr_key = content_key, rr_continuum_id = cid 1, rr_pre_observation_revision_ids = bm_empty\<rparr>)
      (CatchUp_Applied 2 n (bm_insert domain_key (bs_from_list [rid 100, rid 200]) bm_empty) bm_empty :: u64 ScalarRecoveryCatchUpOutcome)
      (bs_from_list [pid 7]) (pending_record trusted 2 wire) st1 =
      (Ok (bs_from_list [pid 7], bm_empty), settled_record trusted 2, st2)" for n
    using commit pend probe_pub_sets probe_domain_runs(6)
    by (simp add: reconcile_stale_def observe_publication_def recovery_evidence_def pending_fields bs_is_empty_iff bs_set_from_list
        del: bm_is_empty_iff)
  have settle: "settle_outbox_set (probe_persist cipher) probe_cursor_codec (foreground_transport probe_transport)
      (recovery_evidence cipher \<lparr>rr_key = content_key, rr_continuum_id = cid 1, rr_pre_observation_revision_ids = bm_empty\<rparr>)
      (bs_from_list [pid 7])
      (CatchUp_Applied 2 n (bm_insert domain_key (bs_from_list [rid 100, rid 200]) bm_empty) bm_empty :: u64 ScalarRecoveryCatchUpOutcome)
      (pending_record trusted 2 wire) st1 (running t) =
      (Ok (bs_from_list [pid 7], Action_None), settled_record trusted 2, st2, running t)" for n
    using probe_pub_sets ne
    by (simp add: settle_outbox_set_def is_baseline_unavailable_def classify_publication_def pending_fields stale bs_is_empty_iff
        del: bm_is_empty_iff)
  show ?thesis
    by (intro that) (simp add: refetch_catch_up [OF assms(1-6)] settle probe_resume_def probe_running resume_scalar_recovery_def
        resume_scalar_recovery_outbox_set_bounded_def bounded_cycle_def resume_scalar_recovery_outbox_set_def resume_outbox_pass_def
        pending_fields is_action_conflict_def)
qed

section \<open>Properties\<close>

text \<open>What the next process finds at a path. After the death of a process alone it finds what that one saw;
  a power loss leaves the current directory, in a state it may fall back to, or one of the earlier ones.\<close>

definition dir_restart :: "probe_dir \<Rightarrow> probe_dir \<Rightarrow> bool" where
  "dir_restart d d' \<longleftrightarrow> d' = d\<lparr>pd_fs := (pd_fs d)\<lparr>faults := []\<rparr>\<rparr>"

definition dir_falls_back :: "file_system set \<Rightarrow> probe_dir \<Rightarrow> bool" where
  "dir_falls_back S d' \<longleftrightarrow> (\<exists>s \<in> S. fs_crash s (pd_fs d')) \<and> faults (pd_fs d') = [] \<and> pd_earlier d' = []"

definition dir_power_loss :: "probe_dir \<Rightarrow> probe_dir \<Rightarrow> bool" where
  "dir_power_loss d = dir_falls_back (insert (pd_fs d) (set (pd_earlier d)))"

text \<open>The interruptions that keep the current directory: the death of the process, and a power loss after which
  the entry in \<^verbatim>\<open>files_dir\<close> still leads to it.\<close>

definition dir_kept :: "probe_dir \<Rightarrow> probe_dir \<Rightarrow> bool" where
  "dir_kept d d' \<longleftrightarrow> dir_restart d d' \<or> dir_falls_back {pd_fs d} d'"

definition probe_kept :: "probe_files \<Rightarrow> probe_files \<Rightarrow> bool" where
  "probe_kept f f' \<longleftrightarrow> dir_kept (pf_local f) (pf_local f') \<and> dir_kept (pf_remote f) (pf_remote f')"

definition probe_power_loss :: "probe_files \<Rightarrow> probe_files \<Rightarrow> bool" where
  "probe_power_loss f f' \<longleftrightarrow> dir_power_loss (pf_local f) (pf_local f') \<and> dir_power_loss (pf_remote f) (pf_remote f')"

lemma dir_kept_crash:
  assumes "dir_kept d d'" and "settled_dirs (pd_fs d)"
  shows "fs_crash (pd_fs d) (pd_fs d')" and "faults (pd_fs d') = []" and "settled_dirs (pd_fs d')"
  using assms settled_dirs_crash [OF assms(2)] crash_settles
  by (auto simp: dir_kept_def dir_restart_def dir_falls_back_def)

text \<open>The state in which nothing synced is lost, and the one in which the new directory is.\<close>

lemma dir_kept_by_loss:
  assumes "fs_crash (pd_fs d) s" and "faults s = []"
  shows "dir_kept d \<lparr>pd_fs = s, pd_earlier = []\<rparr>" and "dir_power_loss d \<lparr>pd_fs = s, pd_earlier = []\<rparr>"
  using assms by (simp_all add: dir_kept_def dir_falls_back_def dir_power_loss_def)

lemma new_directory_lost:
  "dir_power_loss ((renewed d)\<lparr>pd_fs := s\<rparr>) \<lparr>pd_fs = (emptied (pd_fs d))\<lparr>faults := []\<rparr>, pd_earlier = []\<rparr>"
proof -
  have "fs_crash (emptied (pd_fs d)) ((emptied (pd_fs d))\<lparr>faults := []\<rparr>)" by (rule settled_dirs_crash) simp
  with renewed_fields(2) [of d] show ?thesis by (auto simp: dir_power_loss_def dir_falls_back_def)
qed

lemma emptied_faults: "(emptied s)\<lparr>faults := fs\<rparr> = emptied (s\<lparr>faults := fs\<rparr>)"
  by (simp add: emptied_def)

lemma reload_emptied:
  assumes "faults s = []"
  shows "reload cipher failed missing \<lparr>prs_backend = \<lparr>ub_fs = emptied s, next_candidate = 0\<rparr>, prs_key = content_key,
      prs_context = PROBE_CONTEXT, prs_entropy = entropy\<rparr> =
    (Err (ProbeError missing Cause_None), \<lparr>prs_backend = \<lparr>ub_fs = emptied s, next_candidate = 0\<rparr>, prs_key = content_key,
      prs_context = PROBE_CONTEXT, prs_entropy = entropy\<rparr>)"
  using assms
  by (simp add: reload_def ProtectedSyncRecordStore_load_committed_def unix_fs_backend_def UnixFs_load_committed_def on_fs_def
      open_read_def syscall_def emptied_def fs_dir_def open_record_def)

definition settled_fs :: "file_system \<Rightarrow> file_system" where
  "settled_fs s = ub_fs (settled \<lparr>ub_fs = s, next_candidate = 0\<rparr>)"

lemma settled_fs_crash: "fs_crash s (settled_fs s)" "faults (settled_fs s) = []"
  using settled_crash [of "\<lparr>ub_fs = s, next_candidate = 0\<rparr>"] by (simp_all add: settled_fs_def)

lemma reopened_store:
  assumes "probe_store_at cipher st k rec" and "fs_crash (store_fs st) s" and "faults s = []" and "fresh_entropy entropy j" and "j < 2 ^ 32"
  obtains st' where "open_store entropy s = (Ok st', s)" and "probe_store_at cipher st' j rec" and "store_fs st' = s"
    and "unat (next_candidate (prs_backend st')) \<le> unat (next_candidate (prs_backend st))"
proof -
  have st: "store_ready st k" "holds_record cipher st rec" "prs_key st = content_key" "prs_context st = PROBE_CONTEXT"
    "unat (next_candidate (prs_backend st)) < 2 ^ 32" using assms(1) by (simp_all add: probe_store_at_def)
  have e: "j \<le> length entropy" "None \<notin> set (take j entropy)" "\<forall>n. Some n \<in> set entropy \<longrightarrow> length n = 24" "j < 2 ^ 63"
    "unat (next_candidate (prs_backend st)) < 2 ^ 63"
    using assms(4,5) st(5) by (auto simp: fresh_entropy_def)
  obtain b where b: "UnixFs_open s = (Ok b, s)" "ub_fs b = s" "unat (next_candidate b) \<le> unat (next_candidate (prs_backend st))"
    "store_ready \<lparr>prs_backend = b, prs_key = content_key, prs_context = PROBE_CONTEXT, prs_entropy = entropy\<rparr> j"
    "holds_record cipher \<lparr>prs_backend = b, prs_key = content_key, prs_context = PROBE_CONTEXT, prs_entropy = entropy\<rparr> rec"
    using holds_record_crash [OF st(1,2) assms(2,3) e(4,5,1-3)] st(3,4) by metis
  with st(5) that [of "\<lparr>prs_backend = b, prs_key = content_key, prs_context = PROBE_CONTEXT, prs_entropy = entropy\<rparr>"] show ?thesis
    by (simp add: probe_store_at_def open_store_def ProtectedSyncRecordStore_new_def PROBE_CONTEXT_def)
qed

lemma opened_remote:
  assumes "remote_holds r {s}" and "faults r = []" and "numbered r k" and "k < 2 ^ 32"
  obtains b where "ProbeTransport_open mode r = (Ok \<lparr>pt_backend = b, pt_mode = mode\<rparr>, r)" and "ub_fs b = r"
    and "load_state \<lparr>pt_backend = b, pt_mode = mode\<rparr> = (Ok s, \<lparr>pt_backend = b, pt_mode = mode\<rparr>)"
    and "unat (next_candidate b) \<le> k" and "past (objects_dir r) = [] \<Longrightarrow> numbered r (unat (next_candidate b))"
proof -
  have "k < 2 ^ 64 - 1" using assms(4) by simp
  from open_numbered [OF assms(2,3) this] obtain b where b: "UnixFs_open r = (Ok b, r)" "ub_fs b = r" "unat (next_candidate b) \<le> k"
    "past (objects_dir r) = [] \<Longrightarrow> numbered r (unat (next_candidate b))" by metis
  let ?t = "\<lparr>pt_backend = b, pt_mode = mode\<rparr>"
  have held: "remote_holds (remote_fs ?t) {s}" "honest (remote_fs ?t)" using assms(1,2) b(2) by (simp_all add: honest_def)
  have "load_state ?t = (Ok s, ?t)" using load_state_holds [OF held] assms(2) b(2) by (metis prod.collapse ProbeTransport.select_convs(1))
  with that [of b] b show ?thesis by (simp add: ProbeTransport_open_def)
qed

lemma load_remote_holds:
  assumes "remote_holds r {s}" and "faults r = []" and "numbered r k" and "k < 2 ^ 32"
  shows "load_remote r = (Ok s, r)"
  by (rule opened_remote [OF assms, of Normal]) (simp add: load_remote_def)

text \<open>
  C30. Stage and verify, as the instrumented test runs them: whatever the local directory held before, staging
  succeeds, and a new process verifies cursor, exposure and the exact outbox, after the death of the process
  and after any power loss that keeps the entry of the new directory. That entry is nowhere synced: there is a
  power loss after the reported success which leaves no committed probe at all.
\<close>

theorem staged_probe_survives:
  assumes "aead_correct cipher" and "aead_total cipher" and "length n = 24" and "faults (pd_fs (pf_local f)) = []"
    and "fresh_entropy entropy 1" and "fresh_entropy entropy' 0"
  shows "\<exists>f1. stage cipher (Some n) entropy f = (Ok ''PASS staged encrypted exposed state + exact outbox'', f1) \<and>
    pf_remote f1 = pf_remote f \<and>
    (\<forall>f2. dir_kept (pf_local f1) (pf_local f2) \<longrightarrow> verify cipher entropy' f2 =
       (Ok ''PASS reopened encrypted state; cursor/exposure/outbox intact'', f2)) \<and>
    (\<exists>f2. probe_power_loss f1 f2 \<and> verify cipher entropy' f2 =
       (Err (ProbeError ''no committed recovery probe exists'' Cause_None), f2))"
proof -
  let ?d = "pf_local f"
  obtain trusted wire st where run: "stage_local_record cipher (Some n) entropy ?d =
      (Ok (probe_recovery handed, pending_record trusted 1 wire, st), (renewed ?d)\<lparr>pd_fs := store_fs st\<rparr>)"
    and st: "probe_store_at cipher st 0 (pending_record trusted 1 wire)" and wire: "probe_wire cipher wire"
    and settled: "settled_dirs (store_fs st)"
    and dec: "decode_multi_scalar_recovery_state trusted = Ok (probe_recovery handed)" by (rule stage_local_run [OF assms(1-5)])
  have w: "wire \<noteq> []" using wire by (simp add: probe_wire_def)
  have zero: "(0 :: nat) < 2 ^ 32" by simp
  let ?f1 = "f\<lparr>pf_local := (renewed ?d)\<lparr>pd_fs := store_fs st\<rparr>\<rparr>"
  have kept: "verify cipher entropy' f2 = (Ok ''PASS reopened encrypted state; cursor/exposure/outbox intact'', f2)"
    if kept: "dir_kept (pf_local ?f1) (pf_local f2)" for f2
  proof -
    have crash: "fs_crash (store_fs st) (pd_fs (pf_local f2))" "faults (pd_fs (pf_local f2)) = []"
      using dir_kept_crash [OF kept] settled by simp_all
    obtain st' where st': "open_store entropy' (pd_fs (pf_local f2)) = (Ok st', pd_fs (pf_local f2))"
      "probe_store_at cipher st' 0 (pending_record trusted 1 wire)" "store_fs st' = pd_fs (pf_local f2)"
      by (rule reopened_store [OF st crash assms(6) zero])
    from st'(1,3) reload_holds [OF st'(2)] probe_records_validate(1) [OF dec w] show ?thesis by (simp add: verify_def)
  qed
  let ?r = "settled_fs (pd_fs (pf_remote f))"
  let ?f2 = "\<lparr>pf_local = \<lparr>pd_fs = (emptied (pd_fs ?d))\<lparr>faults := []\<rparr>, pd_earlier = []\<rparr>, pf_remote = \<lparr>pd_fs = ?r, pd_earlier = []\<rparr>\<rparr>"
  have "probe_power_loss ?f1 ?f2"
    using new_directory_lost dir_kept_by_loss(2) [OF settled_fs_crash] by (simp add: probe_power_loss_def)
  moreover have "verify cipher entropy' ?f2 = (Err (ProbeError ''no committed recovery probe exists'' Cause_None), ?f2)"
    unfolding verify_def emptied_faults
    by (simp add: emptied_store(2) [OF _ assms(6) zero] reload_emptied)
  ultimately show ?thesis
    using run kept by (intro exI [of _ ?f1] conjI exI [of _ ?f2]) (simp_all add: stage_def)
qed

text \<open>The two halves of the lost acknowledgement.\<close>

abbreviation accepted_remote :: "bytes \<Rightarrow> ProbeRemoteState" where
  "accepted_remote wire \<equiv> \<lparr>rs_head = 2, rs_publish_count = 1, rs_objects = [wire]\<rparr>"

lemma accepted_remote_fits:
  assumes "length wire < 2000"
  shows "accept_publication ProbeRemoteState_default [wire] = accepted_remote wire" and "remote_fits (accepted_remote wire)"
  using assms
  by (simp_all add: accept_publication_def ProbeRemoteState_default_def PROBE_INITIAL_HEAD_def remote_fits_def vec_capacity_ok_def
      encode_remote_state_def write_len_def write_bytes_def REMOTE_MAGIC_def isize_max_def)

text \<open>Both directories after the staging half: new ones, whose entries are not on the medium.\<close>

definition lost_files :: "probe_files \<Rightarrow> file_system \<Rightarrow> file_system \<Rightarrow> probe_files" where
  "lost_files f s r = \<lparr>pf_local = (renewed (pf_local f))\<lparr>pd_fs := s\<rparr>, pf_remote = (renewed (pf_remote f))\<lparr>pd_fs := r\<rparr>\<rparr>"

lemma lost_files_fields [simp]:
  "pd_fs (pf_local (lost_files f s r)) = s" "pd_fs (pf_remote (lost_files f s r)) = r"
  "pf_local (lost_files f s r) = (renewed (pf_local f))\<lparr>pd_fs := s\<rparr>"
  by (simp_all add: lost_files_def)

lemma files_at_fields [simp]:
  "pd_fs (pf_local (files_at s r f)) = s" "pd_fs (pf_remote (files_at s r f)) = r"
  by (simp_all add: files_at_def)

lemma probe_kept_crash:
  assumes "probe_kept f f'" and "settled_dirs (pd_fs (pf_local f))" and "settled_dirs (pd_fs (pf_remote f))"
  shows "fs_crash (pd_fs (pf_local f)) (pd_fs (pf_local f'))" and "faults (pd_fs (pf_local f')) = []"
    and "fs_crash (pd_fs (pf_remote f)) (pd_fs (pf_remote f'))" and "faults (pd_fs (pf_remote f')) = []"
    and "settled_dirs (pd_fs (pf_remote f'))"
  using assms dir_kept_crash by (auto simp: probe_kept_def)

lemma stage_lost_run:
  assumes "aead_correct cipher" and "aead_total cipher" and "length n = 24" and "faults (pd_fs (pf_local f)) = []" and "faults (pd_fs (pf_remote f)) = []"
    and "fresh_entropy entropy 1"
  obtains trusted wire st r where
    "stage_lost_ack cipher (Some n) entropy f =
      (Ok ''PASS remote accepted once; response lost; durable local outbox still pending'', lost_files f (store_fs st) r)"
    and "probe_store_at cipher st 0 (pending_record trusted 1 wire)" and "unat (next_candidate (prs_backend st)) = 1"
    and "probe_wire cipher wire"
    and "encode_multi_scalar_recovery_state (probe_recovery handed) = Ok trusted" and "length trusted < 1000"
    and "decode_multi_scalar_recovery_state trusted = Ok (probe_recovery handed)"
    and "remote_holds r {accepted_remote wire}" and "numbered r 1"
    and "settled_dirs (store_fs st)" and "settled_dirs r"
proof -
  obtain trusted wire st where run: "stage_local_record cipher (Some n) entropy (pf_local f) =
      (Ok (probe_recovery handed, pending_record trusted 1 wire, st), (renewed (pf_local f))\<lparr>pd_fs := store_fs st\<rparr>)"
    and st: "probe_store_at cipher st 0 (pending_record trusted 1 wire)" "unat (next_candidate (prs_backend st)) = 1"
    and wire: "probe_wire cipher wire" and settled: "settled_dirs (store_fs st)"
    and t: "encode_multi_scalar_recovery_state (probe_recovery handed) = Ok trusted" "length trusted < 1000"
      "decode_multi_scalar_recovery_state trusted = Ok (probe_recovery handed)" by (rule stage_local_run [OF assms(1-4,6)])
  have w: "wire \<noteq> []" "length wire < 2000" using wire by (simp_all add: probe_wire_def)
  let ?r = "emptied (pd_fs (pf_remote f))"
  let ?t = "\<lparr>pt_backend = \<lparr>ub_fs = ?r, next_candidate = 0\<rparr>, pt_mode = LoseAcceptedResponse\<rparr>"
  have one: "(1 :: nat) < 2 ^ 32" by simp
  note empty = emptied_store [OF assms(5,6) one]
  have opn: "ProbeTransport_open LoseAcceptedResponse ?r = (Ok ?t, ?r)" using empty(1) by (simp add: ProbeTransport_open_def)
  have num: "numbered (remote_fs ?t) (unat (next_candidate (pt_backend ?t)))" by (simp add: emptied_def numbered_def snaps_def)
  have held: "remote_holds (remote_fs ?t) {ProbeRemoteState_default}"
    by (simp add: remote_holds_def emptied_def fs_inv_def fs_possible_def committed_def remote_of_def snaps_def)
  have q: "quiet (pt_backend ?t)" "honest (remote_fs ?t)" "next_candidate (pt_backend ?t) \<noteq> - 1"
    using assms(5) by (simp_all add: emptied_def honest_def)
  have load: "load_state ?t = (Ok ProbeRemoteState_default, ?t)"
    using load_state_holds [OF held q(2)] q(1) by (metis prod.collapse)
  note fits = accepted_remote_fits [OF w(2)]
  have head: "rs_head ProbeRemoteState_default = 1" by (simp add: ProbeRemoteState_default_def PROBE_INITIAL_HEAD_def)
  have acc: "remote_fits (accept_publication ProbeRemoteState_default [wire])" using fits by simp
  obtain b where b: "probe_publish ?t (Some 1) [wire] = (Err PT_LostAcceptedResponse, \<lparr>pt_backend = b, pt_mode = Normal\<rparr>)" "quiet b"
    "remote_holds (ub_fs b) {accepted_remote wire}" "numbered (ub_fs b) 1" "settled_dirs (ub_fs b)"
    using probe_publish_progress [OF held q(1,3) num acc] w(1) unfolding fits(1) head by auto
  note cyc = lost_cycle [OF load b(1), of cipher "probe_recovery handed" trusted st]
  have "stage_lost_ack cipher (Some n) entropy f =
      (Ok ''PASS remote accepted once; response lost; durable local outbox still pending'', lost_files f (store_fs st) (ub_fs b))"
    using reload_holds [OF st(1)] probe_records_validate(1) [OF t(3) w(1)] load_remote_holds [OF b(3,2,4) one]
    by (simp add: stage_lost_ack_def lost_files_def reset_path_renews [OF assms(5)] run opn cyc PROBE_ACCEPTED_HEAD_def)
  with that st wire t b(3-5) settled show ?thesis by blast
qed

lemma resume_lost_run:
  assumes "aead_correct cipher" and "aead_total cipher" and "probe_store_at cipher st k (pending_record trusted 1 wire)"
    and "unat (next_candidate (prs_backend st)) = 1" and "probe_wire cipher wire"
    and "encode_multi_scalar_recovery_state (probe_recovery handed) = Ok trusted" and "length trusted < 1000"
    and "decode_multi_scalar_recovery_state trusted = Ok (probe_recovery handed)"
    and "remote_holds r {accepted_remote wire}" and "numbered r 1"
    and "fs_crash (store_fs st) (pd_fs (pf_local f))" and "faults (pd_fs (pf_local f)) = []"
    and "fs_crash r (pd_fs (pf_remote f))" and "faults (pd_fs (pf_remote f)) = []" and "fresh_entropy entropy 2"
  obtains st' where "resume_lost_ack cipher entropy f =
      (Ok ''PASS authenticated refetch reconciled lost ACK; no second publish'', files_at (store_fs st') (pd_fs (pf_remote f)) f)"
    and "probe_store_at cipher st' 0 (settled_record trusted 2)" and "remote_holds (pd_fs (pf_remote f)) {accepted_remote wire}"
    and "settled_dirs (store_fs st')"
proof -
  note crash = assms(11-14)
  have two: "(2 :: nat) < 2 ^ 32" and one: "(1 :: nat) < 2 ^ 32" by simp_all
  have w: "wire \<noteq> []" "length wire < 2000" using assms(5) by (simp_all add: probe_wire_def)
  note stor = probe_records_storable [OF assms(7) w, of 2]
  obtain st0 where st0: "open_store entropy (pd_fs (pf_local f)) = (Ok st0, pd_fs (pf_local f))" "probe_store_at cipher st0 2 (pending_record trusted 1 wire)"
    "unat (next_candidate (prs_backend st0)) \<le> 1"
    using reopened_store [OF assms(3) crash(1,2) assms(15) two] assms(4) by metis
  have s0: "prs_key st0 = content_key" "prs_context st0 = PROBE_CONTEXT" "store_ready st0 (Suc 1)"
    "unat (next_candidate (prs_backend st0)) + 1 < 2 ^ 32" 
    using st0(2,3) unfolding Suc_1 by (simp_all add: probe_store_at_def)
  obtain st1 where st1: "probe_persist cipher st0 (pending_record trusted 2 wire) = (Ok (), st1)"
    "probe_store_at cipher st1 1 (pending_record trusted 2 wire)"
    "unat (next_candidate (prs_backend st1)) = unat (next_candidate (prs_backend st0)) + 1"
    by (rule probe_persist_run [OF assms(1,2) s0 stor(1,2)])
  have s1: "prs_key st1 = content_key" "prs_context st1 = PROBE_CONTEXT" "store_ready st1 (Suc 0)"
    "unat (next_candidate (prs_backend st1)) + 1 < 2 ^ 32" using st1(2,3) st0(3) by (simp_all add: probe_store_at_def)
  obtain st2 where st2: "probe_persist cipher st1 (settled_record trusted 2) = (Ok (), st2)" "probe_store_at cipher st2 0 (settled_record trusted 2)"
    "settled_dirs (store_fs st2)"
    by (rule probe_persist_run [OF assms(1,2) s1 stor(3,4)])
  have held: "remote_holds (pd_fs (pf_remote f)) {accepted_remote wire}" using remote_holds_crash [OF assms(9) crash(3)] by simp
  note num = numbered_crash [OF assms(10) crash(3)]
  obtain b where b: "ProbeTransport_open Normal (pd_fs (pf_remote f)) = (Ok \<lparr>pt_backend = b, pt_mode = Normal\<rparr>, pd_fs (pf_remote f))" "ub_fs b = pd_fs (pf_remote f)"
    "load_state \<lparr>pt_backend = b, pt_mode = Normal\<rparr> = (Ok (accepted_remote wire), \<lparr>pt_backend = b, pt_mode = Normal\<rparr>)"
    by (rule opened_remote [OF held crash(4) num one])
  have "rs_head (accepted_remote wire) = 2" "rs_objects (accepted_remote wire) = [wire]" by simp_all
  from refetch_cycle [OF b(3) this assms(5,6) st1(1) st2(1)] obtain rep where
    cyc: "probe_resume cipher \<lparr>pt_backend = b, pt_mode = Normal\<rparr> (probe_recovery handed) (pending_record trusted 1 wire) st0 =
      (Ok rep, \<lparr>frt_transport = running \<lparr>pt_backend = b, pt_mode = Normal\<rparr>\<rparr>, probe_recovery handed, settled_record trusted 2, st2)" by blast
  have "resume_lost_ack cipher entropy f =
      (Ok ''PASS authenticated refetch reconciled lost ACK; no second publish'', files_at (store_fs st2) (pd_fs (pf_remote f)) f)"
    using probe_records_validate [OF assms(8) w(1)] load_remote_holds [OF held crash(4) num one] assms(8)
    by (simp add: resume_lost_ack_def st0(1) reload_holds [OF st0(2)] reload_holds [OF st2(2)] multi_codec_simps pending_fields
        b(1,2) cyc PROBE_ACCEPTED_HEAD_def)
  with that st2(2,3) held show ?thesis by blast
qed

text \<open>A restart after the reconciliation reads the reconciled record.\<close>

lemma reconciled_reopens:
  assumes "probe_store_at cipher st 0 rec" and "fs_crash (store_fs st) s" and "faults s = []"
  shows "\<exists>st'. fst (open_store [] s) = Ok st' \<and> fst (probe_load cipher st') = Ok (Some rec)"
proof -
  have e: "fresh_entropy [] 0" "(0 :: nat) < 2 ^ 32" by (simp_all add: fresh_entropy_def)
  obtain st' where st': "open_store [] s = (Ok st', s)" "probe_store_at cipher st' 0 rec"
    by (rule reopened_store [OF assms e])
  then have "store_ready st' 0" "holds_record cipher st' rec" by (simp_all add: probe_store_at_def)
  from load_ready [OF this] st'(1) show ?thesis by simp
qed

text \<open>
  C14. The lost acknowledgement, end to end. Staging with a remote that accepts the publication and loses its
  response succeeds with the publication still pending locally. After the death of the process, or a power
  loss that keeps the entries of the two new directories, a new process refetches the publication, recognises
  it as its own and reconciles: the remote still holds the one publication it accepted, with a count of one,
  and every later restart of this kind reads a record at the accepted head with an empty outbox. The entries
  themselves are nowhere synced: after the reported success there is a power loss which leaves the resuming
  process no local state.
\<close>

theorem lost_ack_reconciled_once:
  assumes "aead_correct cipher" and "aead_total cipher" and "length n = 24"
    and "faults (pd_fs (pf_local f)) = []" and "faults (pd_fs (pf_remote f)) = []"
    and "fresh_entropy entropy 1" and "fresh_entropy entropy' 2"
  shows "\<exists>f1 wire. stage_lost_ack cipher (Some n) entropy f =
      (Ok ''PASS remote accepted once; response lost; durable local outbox still pending'', f1) \<and>
    (\<forall>f2. probe_kept f1 f2 \<longrightarrow> (\<exists>f3 rec. resume_lost_ack cipher entropy' f2 =
        (Ok ''PASS authenticated refetch reconciled lost ACK; no second publish'', f3) \<and>
      remote_holds (pd_fs (pf_remote f3)) {\<lparr>rs_head = 2, rs_publish_count = 1, rs_objects = [wire]\<rparr>} \<and>
      outbox rec = bm_empty \<and> applied_cursor rec = probe_cursor_of 2 \<and>
      (\<forall>f4. probe_kept f3 f4 \<longrightarrow>
         (\<exists>st. fst (open_store [] (pd_fs (pf_local f4))) = Ok st \<and> fst (probe_load cipher st) = Ok (Some rec))))) \<and>
    (\<exists>f2. probe_power_loss f1 f2 \<and> resume_lost_ack cipher entropy' f2 =
        (Err (ProbeError ''no staged lost-ACK local state exists'' Cause_None), f2))"
proof -
  obtain trusted wire st r where run: "stage_lost_ack cipher (Some n) entropy f =
      (Ok ''PASS remote accepted once; response lost; durable local outbox still pending'', lost_files f (store_fs st) r)"
    and st: "probe_store_at cipher st 0 (pending_record trusted 1 wire)" "unat (next_candidate (prs_backend st)) = 1"
    and wire: "probe_wire cipher wire"
    and t: "encode_multi_scalar_recovery_state (probe_recovery handed) = Ok trusted" "length trusted < 1000"
      "decode_multi_scalar_recovery_state trusted = Ok (probe_recovery handed)"
    and r: "remote_holds r {accepted_remote wire}" "numbered r 1"
    and settled: "settled_dirs (store_fs st)" "settled_dirs r" by (rule stage_lost_run [OF assms(1-6)])
  let ?rec = "settled_record trusted 2"
  let ?f1 = "lost_files f (store_fs st) r"
  have resumed: "\<exists>f3. resume_lost_ack cipher entropy' f2 = (Ok ''PASS authenticated refetch reconciled lost ACK; no second publish'', f3) \<and>
      remote_holds (pd_fs (pf_remote f3)) {accepted_remote wire} \<and>
      (\<forall>f4. probe_kept f3 f4 \<longrightarrow>
         (\<exists>st. fst (open_store [] (pd_fs (pf_local f4))) = Ok st \<and> fst (probe_load cipher st) = Ok (Some ?rec)))"
    if kept: "probe_kept ?f1 f2" for f2
  proof -
    note crash = probe_kept_crash [OF kept, simplified, OF settled]
    obtain st' where st': "resume_lost_ack cipher entropy' f2 =
        (Ok ''PASS authenticated refetch reconciled lost ACK; no second publish'', files_at (store_fs st') (pd_fs (pf_remote f2)) f2)"
      "probe_store_at cipher st' 0 ?rec" "remote_holds (pd_fs (pf_remote f2)) {accepted_remote wire}" "settled_dirs (store_fs st')"
      by (rule resume_lost_run [OF assms(1,2) st wire t r crash(1-4) assms(7)])
    have "\<exists>st. fst (open_store [] (pd_fs (pf_local f4))) = Ok st \<and> fst (probe_load cipher st) = Ok (Some ?rec)"
      if "probe_kept (files_at (store_fs st') (pd_fs (pf_remote f2)) f2) f4" for f4
      using reconciled_reopens [OF st'(2)] probe_kept_crash(1,2) [OF that, simplified, OF st'(4) crash(5)] by blast
    with st'(1,3) show ?thesis by (intro exI [of _ "files_at (store_fs st') (pd_fs (pf_remote f2)) f2"]) simp
  qed
  let ?f2 = "\<lparr>pf_local = \<lparr>pd_fs = (emptied (pd_fs (pf_local f)))\<lparr>faults := []\<rparr>, pd_earlier = []\<rparr>,
    pf_remote = \<lparr>pd_fs = settled_fs r, pd_earlier = []\<rparr>\<rparr>"
  have two: "(2 :: nat) < 2 ^ 32" by simp
  have "probe_power_loss ?f1 ?f2"
    using new_directory_lost dir_kept_by_loss(2) settled_fs_crash by (simp add: probe_power_loss_def)
  moreover have "resume_lost_ack cipher entropy' ?f2 = (Err (ProbeError ''no staged lost-ACK local state exists'' Cause_None), ?f2)"
    unfolding resume_lost_ack_def emptied_faults
    by (simp add: emptied_store(2) [OF _ assms(7) two] reload_emptied)
  moreover have "outbox ?rec = bm_empty" "applied_cursor ?rec = probe_cursor_of 2" by (simp_all add: settled_record_def)
  ultimately show ?thesis using run resumed by (intro exI [of _ ?f1] exI [of _ wire]) blast
qed

lemma plain_aead_total: "aead_total plain_aead"
  by (simp add: aead_total_def plain_aead_def)

lemma sample_entropy: "fresh_entropy [Some (replicate 24 7)] 1" "fresh_entropy [Some (replicate 24 7), Some (replicate 24 8)] 2" "fresh_entropy [] 0"
  by (auto simp: fresh_entropy_def)

abbreviation "sample_dir \<equiv> \<lparr>pd_fs = sample_fs, pd_earlier = []\<rparr>"
abbreviation "sample_files \<equiv> \<lparr>pf_local = sample_dir, pf_remote = sample_dir\<rparr>"

text \<open>A power loss that loses nothing of what the process saw.\<close>

definition settled_files :: "probe_files \<Rightarrow> probe_files" where
  "settled_files f = \<lparr>pf_local = \<lparr>pd_fs = settled_fs (pd_fs (pf_local f)), pd_earlier = []\<rparr>,
     pf_remote = \<lparr>pd_fs = settled_fs (pd_fs (pf_remote f)), pd_earlier = []\<rparr>\<rparr>"

lemma settled_files_kept: "probe_kept f (settled_files f)" "dir_kept (pf_local f) (pf_local (settled_files f))"
  using dir_kept_by_loss(1) [OF settled_fs_crash] by (simp_all add: probe_kept_def settled_files_def)

theorem staged_probe_survives_witness:
  "\<exists>f1. stage plain_aead (Some (replicate 24 7)) [Some (replicate 24 7)] sample_files =
      (Ok ''PASS staged encrypted exposed state + exact outbox'', f1) \<and>
    fst (verify plain_aead [] (settled_files f1)) = Ok ''PASS reopened encrypted state; cursor/exposure/outbox intact'' \<and>
    (\<exists>f2. probe_power_loss f1 f2 \<and>
      fst (verify plain_aead [] f2) = Err (ProbeError ''no committed recovery probe exists'' Cause_None))"
proof -
  have "length (replicate 24 (7 :: u8)) = 24" "faults (pd_fs (pf_local sample_files)) = []" by (simp_all add: sample_fs_def)
  from staged_probe_survives [OF plain_aead_correct plain_aead_total this sample_entropy(1,3)] settled_files_kept(2)
  show ?thesis by (metis fst_conv)
qed

theorem lost_ack_reconciled_once_witness:
  "\<exists>f1 f3. stage_lost_ack plain_aead (Some (replicate 24 7)) [Some (replicate 24 7)] sample_files =
      (Ok ''PASS remote accepted once; response lost; durable local outbox still pending'', f1) \<and>
    resume_lost_ack plain_aead [Some (replicate 24 7), Some (replicate 24 8)] (settled_files f1) =
      (Ok ''PASS authenticated refetch reconciled lost ACK; no second publish'', f3)"
proof -
  have n: "length (replicate 24 (7 :: u8)) = 24" "faults (pd_fs (pf_local sample_files)) = []" "faults (pd_fs (pf_remote sample_files)) = []"
    by (simp_all add: sample_fs_def)
  from lost_ack_reconciled_once [OF plain_aead_correct plain_aead_total n sample_entropy(1,2)] settled_files_kept(1)
  show ?thesis by metis
qed

end
