(* ===== verification/Spec2Isabelle.thy ===== *)
theory Spec2Isabelle
  imports Scalar_Properties Local_Domain Multipart_Inbox Sync_Session GitHub_Transport Resume_Crash Recovery_Probe
begin

text \<open>
  \<^bold>\<open>The program.\<close> A.P.C. keeps private state as causal registers, edits it offline, and
  synchronizes replicas through a transport that sees only protected bytes. Its Rust crates, under
  \<^verbatim>\<open>src/crates\<close>, are layered:

  \<^item> \<^verbatim>\<open>apc-core\<close>: opaque identities, the causal scalar register with its merge, the working
    epoch over it, the finalization ledger, the local domain that couples them, keyed state, and the
    crash-safe commit protocol over a durability backend;
  \<^item> \<^verbatim>\<open>apc-crypto\<close>: the authenticated protection envelope;
  \<^item> \<^verbatim>\<open>apc-sync\<close>: clear projections and their codec, protected parts and their wire form, the
    multipart inbox, the durable record (trusted state, cursor, outbox), the session that moves it,
    the protected record store and the foreground gate;
  \<^item> \<^verbatim>\<open>apc-storage-fs\<close>: the Unix file-system backend and its checksummed envelope;
  \<^item> \<^verbatim>\<open>apc-transport-github\<close>: the transport over a branch of content-addressed objects;
  \<^item> \<^verbatim>\<open>apc-runtime\<close>: trusted-state codecs, publication and reception of domains, and the
    coordinators above them;
  \<^item> \<^verbatim>\<open>apc-android-bridge\<close>: the recovery probe, which runs the whole stack on a device against a
    remote of its own.

  \<^bold>\<open>The theories.\<close> Each opens with what it holds; definitions carry the names of the source, with
  the type as a prefix (\<^verbatim>\<open>ScalarRegister::merge\<close> is \<open>ScalarRegister_merge\<close>) and a short
  prefix where two enums share a constructor.

  \<^item> \<open>APC_Prelude\<close>, \<open>BTree_Containers\<close>, \<open>Byte_Codec\<close>, \<open>Revision_Codec\<close>, \<open>Utf8\<close>: results and
    the loops of the source as folds, ordered maps and sets as sorted association lists, the byte reader
    and writers that every codec has a copy of, UTF-8 validation and string trimming.
  \<^item> \<open>Core_Ids\<close> (\<^verbatim>\<open>id.rs\<close>, \<^verbatim>\<open>error.rs\<close>), \<open>Scalar_Register\<close>, \<open>Scalar_Causality\<close>,
    \<open>Scalar_Merge\<close>, \<open>Scalar_Properties\<close> (\<^verbatim>\<open>scalar.rs\<close>, \<^verbatim>\<open>merge.rs\<close>), \<open>Merge_State\<close>
    (\<^verbatim>\<open>state.rs\<close>), \<open>Working_Scalar\<close> (\<^verbatim>\<open>working.rs\<close>), \<open>Finalization_Ledger\<close>
    (\<^verbatim>\<open>finalization.rs\<close>), \<open>Local_Domain\<close> (\<^verbatim>\<open>domain.rs\<close>), \<open>Durability\<close> (\<^verbatim>\<open>durability.rs\<close>).
  \<^item> \<open>Crypto_Envelope\<close>; \<open>Sync_Projection\<close>, \<open>Scalar_Codec\<close>, \<open>Wire_Codec\<close>, \<open>Protected_Part\<close>,
    \<open>Multipart_Inbox\<close>, \<open>Durable_Record\<close>, \<open>Sync_Session\<close>, \<open>Record_Store\<close>, \<open>Foreground\<close>.
  \<^item> \<open>Recovery_Envelope\<close>, \<open>Storage_Fs\<close> (the file system and the backend), \<open>Storage_Durability\<close>
    (its invariant and the commit contract), \<open>Storage_Progress\<close>; \<open>GitHub_Transport\<close>.
  \<^item> \<open>Trusted_State\<close>, \<open>Trusted_State_Set\<close>, \<open>Publication\<close>, \<open>Receive\<close>, \<open>Catchup\<close>
    (\<^verbatim>\<open>catchup*.rs\<close>), \<open>Resume\<close> (\<^verbatim>\<open>resume.rs\<close>, \<^verbatim>\<open>resume_batch.rs\<close> and their cycles),
    \<open>Resume_Recovery\<close> (\<^verbatim>\<open>resume_recovery_*.rs\<close>, \<^verbatim>\<open>foreground_recovery.rs\<close>), \<open>Runtime_Crash\<close>
    and \<open>Resume_Crash\<close> (a power loss between any two writes).
  \<^item> \<open>Probe_Remote\<close> and \<open>Recovery_Probe\<close> (\<^verbatim>\<open>recovery_probe.rs\<close>): the durable remote, and the four
    entry points of the probe over it.

  \<^bold>\<open>State and effects.\<close> A method that takes \<^verbatim>\<open>&mut self\<close> returns its result and the new state,
  also when it fails, so that what an error leaves behind is visible. Traits are records of functions
  (\<open>OpaqueTransport\<close>, \<open>TransportCursorCodec\<close>, \<open>TrustedStateCodec\<close>, \<open>DurabilityBackend\<close>,
  \<open>GitHubApi\<close>) or a function (\<open>persist_fn\<close>); their contracts are the locales \<open>cursor_codec\<close>,
  \<open>trusted_state_codec\<close>, \<open>sync_record_store\<close>, \<open>durability_backend\<close>, \<open>catch_up_pass\<close> and
  its extension \<open>crash_safe_pass\<close>, each interpreted on the
  code's own implementations, and the client lemmas are proved in the locales. Errors are datatypes with
  the source's variants; \<^verbatim>\<open>From\<close> conversions are applied where \<^verbatim>\<open>?\<close> applies them.

  \<^bold>\<open>What is shown.\<close> The register: validation decides closedness and acyclicity, merge is the
  union of compatible histories and converges, frontier and visible revision are the maximal ones. The
  domain: a step relation over all operations with all outcomes keeps the working value and the ledger
  well formed; what is frozen or exposed stays; observing remote state never invents causality. The
  codecs: encoding and decoding are inverse, decoders accept valid state only, parts are bound to their
  context: an envelope opens under another key or context only if the cipher opens it with the associated
  data of that context. The session: memory never runs ahead of the store. The storage: an acknowledged commit
  survives a power loss, a failed one leaves an old or the new state, a reopened store commits again. The
  transport: a fetch returns exactly the files the service delivers for the changes it describes, a publication
  is one file per distinct object name and is what the next fetch returns, and a fetch ends on any history. The
  runtime: a prepared object carries exactly the causal closure of what was selected; staging and
  receiving move live state and durable record together; a catch-up absorbs a whole fetched range, moves the
  cursor over an empty one, or changes nothing in memory; a resume retires a pending publication only when it was seen to arrive or acknowledged, and
  calls the transport a bounded number of times; and after any sequence of them and a power
  loss the whole stack restores the last acknowledged domain or the candidate of a later, failed
  transition; a power loss between any two writes of a resume leaves a container that knows all it knew.
  The probe: its remote implements compare-and-swap under storage faults and lost responses, and its
  scenarios run to success: a publication whose response was lost is reconciled after a restart, once.

  \<^bold>\<open>Assumptions and bounds.\<close> The AEAD cipher, SHA-256 and the GitHub API are parameters:
  \<open>aead_correct\<close> states that decryption inverts encryption and the ciphertext is 16 bytes longer;
  \<open>serves_history\<close> states what the API returns for a history. Nonces come from a list of entropy
  results. Byte strings are at most \<open>isize_max\<close> long, as every Rust slice is, and appear with that
  bound where it matters. The file system keeps for each directory the entries that were live since its
  last sync and for each file whether its content was synced: a power loss picks one of the former and
  keeps only the latter; any call may fail by a fault oracle. The theorems on a store by itself are about a
  store whose path is still there after the power loss: the source creates the path without syncing its
  parent. The probe removes and creates its two paths, so its model keeps the earlier directories of each
  (\<open>probe_dir\<close>): its scenarios are proved for the death of the process and for every power loss that keeps
  the current directories, and that one of the others leaves no record after a reported success is proved as
  well. They also assume \<open>aead_total\<close>, that the cipher encrypts messages below four gigabytes, and no fault. No fuel is used: every loop of the source
  is a structural fold or a recursive function with a termination proof (the cycle search and the
  closure loops on the unseen revisions, the ancestry walk on the commits left to fetch, candidate
  allocation on the numbers left).

  \<^bold>\<open>Not modelled.\<close> \<^verbatim>\<open>Display\<close>, \<^verbatim>\<open>Debug\<close> and \<^verbatim>\<open>Error\<close> implementations (output
  only), zeroization of keys, the atomics behind the foreground flag (taken as one flag read at each call),
  the process workers and the JNI entry points of the bridge (argument and string conversion around the
  modelled operations), the Python reference models and harnesses.
\<close>

end
